(* ===== verification/Prelude.thy ===== *)
theory Prelude
  imports Main "HOL-Library.Word" "HOL-Library.Sublist"
begin

text \<open>
  The shared layer of the development: Go's bytes and byte slices, the functions of the
  standard library's \<^verbatim>\<open>bytes\<close> package that the sources call, 64-bit wrap-around, and
  the generic lemmas every component uses.

  A Go \<^verbatim>\<open>byte\<close> is an 8-bit word, a \<^verbatim>\<open>[]byte\<close> (or a \<^verbatim>\<open>string\<close>) is a list of bytes. A Go
  index result (\<^verbatim>\<open>-1\<close> when nothing is found) is a \<open>nat option\<close>. A run-time panic is the value
  \<open>None\<close> of an \<open>option\<close> result; a Go \<^verbatim>\<open>(value, error)\<close> pair is a sum with the error on the left,
  or a tuple where the code uses both halves.
\<close>

section \<open>Collections of simplification rules\<close>

named_theorems byte_simps \<open>facts that decide questions about concrete bytes and literals\<close>
named_theorems index_simps \<open>rules for the index functions of the bytes package\<close>

section \<open>Bytes and literals\<close>

type_synonym byte = "8 word"
type_synonym bytes = "byte list"

definition bs :: "string \<Rightarrow> bytes" where
  "bs s = map of_char s"

abbreviation rChar :: byte where "rChar \<equiv> 0x0D"
abbreviation nChar :: byte where "nChar \<equiv> 0x0A"
abbreviation spChar :: byte where "spChar \<equiv> 0x20"
abbreviation tabChar :: byte where "tabChar \<equiv> 0x09"

section \<open>Machine integers\<close>

text \<open>The value of a Go \<^verbatim>\<open>int64\<close> (and of \<^verbatim>\<open>int\<close> on a 64-bit platform) after an
  arithmetic operation whose exact result is \<open>x\<close>: two's complement wrap-around.\<close>

definition wrap64 :: "int \<Rightarrow> int" where
  "wrap64 x = (x + 2 ^ 63) mod 2 ^ 64 - 2 ^ 63"

definition is_int64 :: "int \<Rightarrow> bool" where
  "is_int64 x \<longleftrightarrow> - (2 ^ 63) \<le> x \<and> x < 2 ^ 63"

section \<open>The functions of package bytes\<close>

fun index_byte :: "bytes \<Rightarrow> byte \<Rightarrow> nat option" where
  "index_byte [] c = None"
| "index_byte (x # xs) c = (if x = c then Some 0 else map_option Suc (index_byte xs c))"

fun last_index_byte :: "bytes \<Rightarrow> byte \<Rightarrow> nat option" where
  "last_index_byte [] c = None"
| "last_index_byte (x # xs) c =
     (case last_index_byte xs c of
        Some n \<Rightarrow> Some (Suc n)
      | None \<Rightarrow> if x = c then Some 0 else None)"

text \<open>\<^verbatim>\<open>bytes.HasPrefix\<close>, \<^verbatim>\<open>bytes.Index\<close>, \<^verbatim>\<open>bytes.Contains\<close> and \<^verbatim>\<open>bytes.LastIndex\<close>.\<close>

fun has_prefix :: "bytes \<Rightarrow> bytes \<Rightarrow> bool" where
  "has_prefix xs [] = True"
| "has_prefix [] (p # ps) = False"
| "has_prefix (x # xs) (p # ps) = (x = p \<and> has_prefix xs ps)"

fun index_bytes :: "bytes \<Rightarrow> bytes \<Rightarrow> nat option" where
  "index_bytes [] sep = (if sep = [] then Some 0 else None)"
| "index_bytes (x # xs) sep =
     (if has_prefix (x # xs) sep then Some 0 else map_option Suc (index_bytes xs sep))"

definition contains_bytes :: "bytes \<Rightarrow> bytes \<Rightarrow> bool" where
  "contains_bytes xs sep \<longleftrightarrow> index_bytes xs sep \<noteq> None"

fun last_index_bytes :: "bytes \<Rightarrow> bytes \<Rightarrow> nat option" where
  "last_index_bytes [] sep = (if sep = [] then Some 0 else None)"
| "last_index_bytes (x # xs) sep =
     (case last_index_bytes xs sep of
        Some n \<Rightarrow> Some (Suc n)
      | None \<Rightarrow> if has_prefix (x # xs) sep then Some 0 else None)"

text \<open>The half-open slice \<^verbatim>\<open>b[i:j]\<close>, where the code has already established the bounds.\<close>

definition slice :: "'a list \<Rightarrow> nat \<Rightarrow> nat \<Rightarrow> 'a list" where
  "slice xs i j = take (j - i) (drop i xs)"

text \<open>Reference notion for separators: cut a byte string at every occurrence of \<open>c\<close>.\<close>

fun split_on :: "byte \<Rightarrow> bytes \<Rightarrow> bytes list" where
  "split_on c [] = [[]]"
| "split_on c (x # xs) =
     (if x = c then [] # split_on c xs else (x # hd (split_on c xs)) # tl (split_on c xs))"

section \<open>Case analysis and evaluation on bytes\<close>

lemma bs_simps [simp, byte_simps]:
  "bs [] = []"
  "bs (c # s) = of_char c # bs s"
  by (simp_all add: bs_def)

lemma bs_append: "bs (s @ t) = bs s @ bs t"
  by (simp add: bs_def)

lemma byte_nat_exhaust: "\<exists>n < 256. (c::byte) = word_of_nat n"
proof -
  have "unat c < 256" using unsigned_less [of c] by simp
  moreover have "c = word_of_nat (unat c)" by simp
  ultimately show ?thesis by blast
qed

lemma byte_all_nat: "(\<forall>c::byte. P c) \<longleftrightarrow> (\<forall>n < 256. P (word_of_nat n))"
  using byte_nat_exhaust by metis

text \<open>A property of all bytes is a finite check that evaluation decides.\<close>

lemma byte_allI: "list_all (\<lambda>n. P (word_of_nat n :: byte)) [0..<256] \<Longrightarrow> P c"
  using byte_nat_exhaust [of c] by (auto simp: list_all_iff)

section \<open>Wrap-around\<close>

lemma wrap64_id: "is_int64 x \<Longrightarrow> wrap64 x = x"
  by (simp add: wrap64_def is_int64_def)

lemma wrap64_range: "is_int64 (wrap64 x)"
proof -
  have "0 \<le> (x + 2 ^ 63) mod 2 ^ 64" by simp
  moreover have "(x + 2 ^ 63) mod 2 ^ 64 < 2 ^ 64" by simp
  ultimately show ?thesis unfolding wrap64_def is_int64_def by simp
qed

lemma is_int64_nonneg: "0 \<le> x \<Longrightarrow> x < 2 ^ 63 \<Longrightarrow> is_int64 x"
  by (simp add: is_int64_def)

section \<open>Index functions\<close>

lemma index_byte_None [index_simps]: "index_byte xs c = None \<longleftrightarrow> c \<notin> set xs"
  by (induction xs) auto

lemma index_byte_notin [simp]: "c \<notin> set xs \<Longrightarrow> index_byte xs c = None"
  by (simp add: index_byte_None)

lemma index_byte_SomeD:
  "index_byte xs c = Some n \<Longrightarrow>
     n < length xs \<and> xs ! n = c \<and> c \<notin> set (take n xs) \<and> xs = take n xs @ c # drop (Suc n) xs"
proof (induction xs arbitrary: n)
  case Nil
  then show ?case by simp
next
  case (Cons x xs)
  then show ?case by (auto split: if_splits)
qed

lemma index_byte_append:
  "index_byte (xs @ ys) c =
     (case index_byte xs c of Some n \<Rightarrow> Some n | None \<Rightarrow> map_option (\<lambda>n. length xs + n) (index_byte ys c))"
  by (induction xs) (auto simp: map_option_case split: option.splits)

lemma index_byte_first [index_simps]:
  "c \<notin> set xs \<Longrightarrow> index_byte (xs @ c # ys) c = Some (length xs)"
  by (induction xs) auto

lemma index_byte_lt: "index_byte xs c = Some n \<Longrightarrow> n < length xs"
  using index_byte_SomeD by blast

lemma index_byte_take_notin: "index_byte xs c = Some n \<Longrightarrow> c \<notin> set (take n xs)"
  using index_byte_SomeD by blast

lemma last_index_byte_None [index_simps]: "last_index_byte xs c = None \<longleftrightarrow> c \<notin> set xs"
  by (induction xs) (auto split: option.splits)

lemma last_index_byte_notin [simp]: "c \<notin> set xs \<Longrightarrow> last_index_byte xs c = None"
  by (simp add: last_index_byte_None)

lemma last_index_byte_SomeD:
  "last_index_byte xs c = Some n \<Longrightarrow>
     n < length xs \<and> xs ! n = c \<and> c \<notin> set (drop (Suc n) xs) \<and> xs = take n xs @ c # drop (Suc n) xs"
proof (induction xs arbitrary: n)
  case Nil
  then show ?case by simp
next
  case (Cons x xs)
  show ?case
  proof (cases "last_index_byte xs c")
    case None
    with Cons.prems show ?thesis by (auto simp: last_index_byte_None split: if_splits)
  next
    case (Some m)
    with Cons.prems have n: "n = Suc m" by simp
    from Cons.IH [OF Some] n show ?thesis by simp
  qed
qed

lemma last_index_byte_lt: "last_index_byte xs c = Some n \<Longrightarrow> n < length xs"
  using last_index_byte_SomeD by blast

lemma last_index_byte_last [index_simps]:
  "c \<notin> set ys \<Longrightarrow> last_index_byte (xs @ c # ys) c = Some (length xs)"
  by (induction xs) (auto split: option.splits)

lemma has_prefix_prefix: "has_prefix xs ps \<longleftrightarrow> prefix ps xs"
  by (induction xs ps rule: has_prefix.induct) auto

lemma has_prefix_append [simp]: "has_prefix (ps @ xs) ps"
  by (simp add: has_prefix_prefix)

lemma has_prefix_same [simp]: "has_prefix ps ps"
  by (simp add: has_prefix_prefix)

lemma has_prefix_length: "has_prefix xs ps \<Longrightarrow> length ps \<le> length xs"
  by (simp add: has_prefix_prefix prefix_length_le)

lemma index_bytes_SomeD:
  "index_bytes xs sep = Some n \<Longrightarrow>
     n + length sep \<le> length xs \<and> xs = take n xs @ sep @ drop (n + length sep) xs"
proof (induction xs sep arbitrary: n rule: index_bytes.induct)
  case (1 sep)
  then show ?case by (simp split: if_splits)
next
  case (2 x xs sep)
  show ?case
  proof (cases "has_prefix (x # xs) sep")
    case True
    with "2.prems" have n: "n = 0" by simp
    from True obtain zs where zs: "x # xs = sep @ zs" by (auto simp: has_prefix_prefix prefix_def)
    have "drop (length sep) (x # xs) = zs" by (simp only: zs) simp
    then show ?thesis
      unfolding n using has_prefix_length [OF True] zs by (simp only: add_0 take_0 append_Nil)
  next
    case False
    with "2.prems" obtain m where m: "index_bytes xs sep = Some m" and n: "n = Suc m" by auto
    from "2.IH" [OF False m] n show ?thesis by simp
  qed
qed

lemma index_bytes_lt: "index_bytes xs sep = Some n \<Longrightarrow> n + length sep \<le> length xs"
  using index_bytes_SomeD by blast

lemma index_bytes_None_iff: "index_bytes xs sep = None \<longleftrightarrow> (\<forall>us vs. xs \<noteq> us @ sep @ vs)"
proof (induction xs sep rule: index_bytes.induct)
  case (1 sep)
  then show ?case by simp
next
  case (2 x xs sep)
  show ?case
  proof (cases "has_prefix (x # xs) sep")
    case True
    then obtain vs where "x # xs = [] @ sep @ vs" by (auto simp: has_prefix_prefix prefix_def)
    with True show ?thesis unfolding index_bytes.simps by (simp only: if_True) blast
  next
    case False
    have "(\<exists>us vs. x # xs = us @ sep @ vs) \<longleftrightarrow> (\<exists>us vs. xs = us @ sep @ vs)" (is "?L \<longleftrightarrow> ?R")
    proof
      assume ?L
      then obtain us vs where e: "x # xs = us @ sep @ vs" by blast
      show ?R
      proof (cases us)
        case Nil
        with e False show ?thesis by (auto simp: has_prefix_prefix prefix_def)
      next
        case (Cons u us')
        with e show ?thesis by auto
      qed
    next
      assume ?R
      then show ?L by (metis append_Cons)
    qed
    with False "2.IH" [OF False] show ?thesis by (auto simp del: has_prefix.simps)
  qed
qed

lemma contains_bytes_iff: "contains_bytes xs sep \<longleftrightarrow> sublist sep xs"
proof -
  have "contains_bytes xs sep \<longleftrightarrow> (\<exists>us vs. xs = us @ sep @ vs)"
    unfolding contains_bytes_def by (simp add: index_bytes_None_iff)
  then show ?thesis unfolding sublist_def .
qed

lemma last_index_bytes_None_iff: "last_index_bytes xs sep = None \<longleftrightarrow> index_bytes xs sep = None"
  by (induction xs sep rule: index_bytes.induct) (auto split: option.splits)

lemma last_index_bytes_SomeD:
  "last_index_bytes xs sep = Some n \<Longrightarrow>
     n + length sep \<le> length xs \<and> xs = take n xs @ sep @ drop (n + length sep) xs"
proof (induction xs sep arbitrary: n rule: last_index_bytes.induct)
  case (1 sep)
  then show ?case by (simp split: if_splits)
next
  case (2 x xs sep)
  show ?case
  proof (cases "last_index_bytes xs sep")
    case (Some m)
    with "2.prems" have n: "n = Suc m" by simp
    from "2.IH" [OF Some] n show ?thesis by simp
  next
    case None
    with "2.prems" have pre: "has_prefix (x # xs) sep" and n: "n = 0"
      by (auto split: if_splits)
    from pre obtain zs where zs: "x # xs = sep @ zs" by (auto simp: has_prefix_prefix prefix_def)
    have "drop (length sep) (x # xs) = zs" by (simp only: zs) simp
    then show ?thesis
      unfolding n using has_prefix_length [OF pre] zs by (simp only: add_0 take_0 append_Nil)
  qed
qed

section \<open>Lists\<close>

lemma length_slice [simp]: "length (slice xs i j) = min (j - i) (length xs - i)"
  by (simp add: slice_def min.commute)

lemma set_slice: "set (slice xs i j) \<subseteq> set xs"
  by (auto simp: slice_def dest: in_set_takeD in_set_dropD)

lemma dropWhile_notin: "x \<in> set xs \<Longrightarrow> \<not> P x \<Longrightarrow> dropWhile P xs \<noteq> []"
  by (induction xs) auto

lemma takeWhile_take_index: "index_byte xs c = Some n \<Longrightarrow> takeWhile (\<lambda>x. x \<noteq> c) xs = take n xs"
proof (induction xs arbitrary: n)
  case Nil
  then show ?case by simp
next
  case (Cons x xs)
  then show ?case by (auto split: if_splits)
qed

lemma takeWhile_neq_append [simp]: "c \<notin> set p \<Longrightarrow> takeWhile (\<lambda>x. x \<noteq> c) (p @ c # r) = p"
  by (induction p) auto

lemma dropWhile_neq_append [simp]: "c \<notin> set p \<Longrightarrow> dropWhile (\<lambda>x. x \<noteq> c) (p @ c # r) = c # r"
  by (induction p) auto

lemma takeWhile_neq_all [simp]: "c \<notin> set p \<Longrightarrow> takeWhile (\<lambda>x. x \<noteq> c) p = p"
  by (induction p) auto

lemma dropWhile_neq_all [simp]: "c \<notin> set p \<Longrightarrow> dropWhile (\<lambda>x. x \<noteq> c) p = []"
  by (induction p) auto

lemma take_length_takeWhile [simp]: "take (length (takeWhile P xs)) xs = takeWhile P xs"
  by (induction xs) auto

lemma split_on_not_Nil [simp]: "split_on c xs \<noteq> []"
  by (cases xs) auto

lemma split_on_notin: "c \<notin> set xs \<Longrightarrow> split_on c xs = [xs]"
  by (induction xs) auto

lemma split_on_append: "split_on c (xs @ c # ys) = split_on c xs @ split_on c ys"
  by (induction xs) auto

lemma split_on_free: "s \<in> set (split_on c xs) \<Longrightarrow> c \<notin> set s"
proof (induction xs arbitrary: s)
  case Nil
  then show ?case by simp
next
  case (Cons x xs)
  have "hd (split_on c xs) \<in> set (split_on c xs)" "set (tl (split_on c xs)) \<subseteq> set (split_on c xs)"
    by (cases "split_on c xs"; auto)+
  with Cons show ?case by (auto split: if_splits)
qed

lemma set_split_on: "s \<in> set (split_on c xs) \<Longrightarrow> set s \<subseteq> set xs"
proof (induction xs arbitrary: s)
  case Nil
  then show ?case by simp
next
  case (Cons x xs)
  have "hd (split_on c xs) \<in> set (split_on c xs)" "set (tl (split_on c xs)) \<subseteq> set (split_on c xs)"
    by (cases "split_on c xs"; auto)+
  with Cons.IH [of "hd (split_on c xs)"] Cons.IH [of s] Cons.prems show ?case
    by (auto split: if_splits)
qed

lemma index_bytes_skip:
  "c \<notin> set s \<Longrightarrow> index_bytes (s @ r) (c # p) = map_option (\<lambda>n. length s + n) (index_bytes r (c # p))"
  by (cases "index_bytes r (c # p)") (induction s; auto)+

lemma last_index_bytes_suffix: "sep \<noteq> [] \<Longrightarrow> last_index_bytes (xs @ sep) sep = Some (length xs)"
proof (induction xs)
  case Nil
  then obtain c p where sep: "sep = c # p" by (cases sep) auto
  have "last_index_bytes p sep = None"
    using last_index_bytes_SomeD [of p sep] sep by (cases "last_index_bytes p sep") auto
  with sep show ?case by simp
next
  case (Cons x xs)
  then show ?case by simp
qed

end
