(* ===== verification/BytesConv.thy ===== *)
theory BytesConv
  imports Prelude "HOL-Library.Monad_Syntax"
begin

unbundle bit_operations_syntax

text \<open>
  The conversions of \<^verbatim>\<open>bytesconv.go\<close> and \<^verbatim>\<open>supplement_utils.go\<close>: the byte tables (as the
  generator \<^verbatim>\<open>bytesconv_table_gen.go\<close> builds them), decimal and hexadecimal integers, URL
  quoting, HTML escaping and dotted IPv4 addresses.
\<close>

section \<open>The byte tables\<close>

definition hex2intTable :: "byte \<Rightarrow> byte" where
  "hex2intTable c =
     (if 0x30 \<le> c \<and> c \<le> 0x39 then c - 0x30
      else if 0x61 \<le> c \<and> c \<le> 0x66 then c - 0x61 + 10
      else if 0x41 \<le> c \<and> c \<le> 0x46 then c - 0x41 + 10
      else 16)"

definition toLowerTable :: "byte \<Rightarrow> byte" where
  "toLowerTable c = (if 0x41 \<le> c \<and> c \<le> 0x5A then c + 0x20 else c)"

definition toUpperTable :: "byte \<Rightarrow> byte" where
  "toUpperTable c = (if 0x61 \<le> c \<and> c \<le> 0x7A then c - 0x20 else c)"

text \<open>A table of flags is a predicate: \<open>True\<close> where the entry is 1.\<close>

definition quotedArgShouldEscapeTable :: "byte \<Rightarrow> bool" where
  "quotedArgShouldEscapeTable c \<longleftrightarrow>
     \<not> (0x61 \<le> c \<and> c \<le> 0x7A \<or> 0x41 \<le> c \<and> c \<le> 0x5A \<or> 0x30 \<le> c \<and> c \<le> 0x39 \<or>
        c \<in> set (bs ''-_.~''))"

definition quotedPathShouldEscapeTable :: "byte \<Rightarrow> bool" where
  "quotedPathShouldEscapeTable c \<longleftrightarrow>
     quotedArgShouldEscapeTable c \<and> c \<notin> set (bs ''$&+,/:;=@'')"

definition validHeaderFieldByteTable :: "byte \<Rightarrow> bool" where
  "validHeaderFieldByteTable c \<longleftrightarrow>
     0x30 \<le> c \<and> c \<le> 0x39 \<or> 0x61 \<le> c \<and> c \<le> 0x7A \<or> 0x41 \<le> c \<and> c \<le> 0x5A \<or>
     c \<in> set [0x21, 0x23, 0x24, 0x25, 0x26, 0x27, 0x2A, 0x2B, 0x2D, 0x2E, 0x5E, 0x5F, 0x60, 0x7C, 0x7E]"

definition validHeaderValueByteTable :: "byte \<Rightarrow> bool" where
  "validHeaderValueByteTable c \<longleftrightarrow>
     0x21 \<le> c \<and> c \<le> 0x7E \<or> c = 0x20 \<or> c = 0x09 \<or> 0x80 \<le> c"

definition validMethodValueByteTable :: "byte \<Rightarrow> bool" where
  "validMethodValueByteTable c \<longleftrightarrow>
     c \<in> set [0x21, 0x23, 0x24, 0x25, 0x26, 0x27, 0x2A, 0x2B, 0x2D, 0x2E] \<or>
     0x30 \<le> c \<and> c \<le> 0x39 \<or> 0x41 \<le> c \<and> c \<le> 0x5A \<or>
     c \<in> set [0x5E, 0x5F, 0x60] \<or> 0x61 \<le> c \<and> c \<le> 0x7A \<or> c = 0x7C \<or> c = 0x7E"

definition upperhex :: "byte \<Rightarrow> byte" where
  "upperhex d = bs ''0123456789ABCDEF'' ! unat d"

definition lowerhex :: "byte \<Rightarrow> byte" where
  "lowerhex d = bs ''0123456789abcdef'' ! unat d"

section \<open>Unsigned decimal integers\<close>

text \<open>The digit loop of \<^verbatim>\<open>AppendUint\<close> and \<^verbatim>\<open>AppendUintInto\<close>. The first argument is the write
  index \<^verbatim>\<open>i\<close> into the buffer, the last the bytes already written at \<^verbatim>\<open>buf[i:]\<close>; a write
  before the start of the buffer is a panic.\<close>

fun uint_digits_loop :: "nat \<Rightarrow> nat \<Rightarrow> bytes \<Rightarrow> bytes option" where
  "uint_digits_loop 0 n acc = None"
| "uint_digits_loop (Suc i) n acc =
     (if n \<ge> 10 then uint_digits_loop i (n div 10) ((0x30 + word_of_nat (n mod 10)) # acc)
      else Some ((0x30 + word_of_nat n) # acc))"

definition AppendUint :: "bytes \<Rightarrow> int \<Rightarrow> bytes option" where
  "AppendUint dst n =
     (if n < 0 then None
      else map_option (\<lambda>d. dst @ d) (uint_digits_loop 20 (nat n) []))"

definition AppendUintInto :: "bytes \<Rightarrow> int \<Rightarrow> bytes option" where
  "AppendUintInto dst n = (if n < 0 then None else uint_digits_loop (length dst) (nat n) [])"

datatype int_error = errEmptyInt | errUnexpectedFirstChar | errUnexpectedTrailingChar | errTooLongInt

text \<open>\<^verbatim>\<open>parseUintBuf\<close>: the loop carries the rest of the buffer, the index and the value so far.
  The result is the triple the source returns, with the error as an option.\<close>

fun parseUintBuf_loop :: "bytes \<Rightarrow> nat \<Rightarrow> int \<Rightarrow> int \<times> nat \<times> int_error option" where
  "parseUintBuf_loop [] i v = (v, i, None)"
| "parseUintBuf_loop (c # b) i v =
     (let k = c - 0x30
      in if k > 9
         then (if i = 0 then (-1, i, Some errUnexpectedFirstChar) else (v, i, None))
         else (let vNew = wrap64 (10 * v + uint k)
               in if vNew < v then (-1, i, Some errTooLongInt)
                  else parseUintBuf_loop b (Suc i) vNew))"

definition parseUintBuf :: "bytes \<Rightarrow> int \<times> nat \<times> int_error option" where
  "parseUintBuf b = (if b = [] then (-1, 0, Some errEmptyInt) else parseUintBuf_loop b 0 0)"

definition ParseUint :: "bytes \<Rightarrow> int \<times> int_error option" where
  "ParseUint buf =
     (case parseUintBuf buf of
        (v, n, err) \<Rightarrow> if n \<noteq> length buf then (-1, Some errUnexpectedTrailingChar) else (v, err))"

section \<open>Quoting\<close>

fun AppendQuotedArg :: "bytes \<Rightarrow> bytes \<Rightarrow> bytes" where
  "AppendQuotedArg dst [] = dst"
| "AppendQuotedArg dst (c # src) =
     (if c = spChar then AppendQuotedArg (dst @ [0x2B]) src
      else if quotedArgShouldEscapeTable c
      then AppendQuotedArg (dst @ [0x25, upperhex (drop_bit 4 c), upperhex (c AND 0xF)]) src
      else AppendQuotedArg (dst @ [c]) src)"

fun appendQuotedPath_loop :: "bytes \<Rightarrow> bytes \<Rightarrow> bytes" where
  "appendQuotedPath_loop dst [] = dst"
| "appendQuotedPath_loop dst (c # src) =
     (if quotedPathShouldEscapeTable c
      then appendQuotedPath_loop (dst @ [0x25, upperhex (drop_bit 4 c), upperhex (c AND 0xF)]) src
      else appendQuotedPath_loop (dst @ [c]) src)"

definition appendQuotedPath :: "bytes \<Rightarrow> bytes \<Rightarrow> bytes" where
  "appendQuotedPath dst src =
     (if src = [0x2A] then dst @ [0x2A] else appendQuotedPath_loop dst src)"

definition lowercaseBytes :: "bytes \<Rightarrow> bytes" where
  "lowercaseBytes b = map toLowerTable b"

section \<open>HTML escaping\<close>

text \<open>The replacement the \<^verbatim>\<open>switch\<close> of \<^verbatim>\<open>AppendHTMLEscape\<close> selects; empty when the byte is kept.\<close>

definition html_sub :: "byte \<Rightarrow> bytes" where
  "html_sub c =
     (if c = 0x26 then bs ''&amp;''
      else if c = 0x3C then bs ''&lt;''
      else if c = 0x3E then bs ''&gt;''
      else if c = 0x22 then bs ''&#34;''
      else if c = 0x27 then bs ''&#39;''
      else [])"

text \<open>The loop keeps the indices \<^verbatim>\<open>i\<close> and \<^verbatim>\<open>prev\<close> of the source and copies the run
  \<^verbatim>\<open>s[prev:i]\<close> only when a byte is replaced.\<close>

function AppendHTMLEscape_loop :: "bytes \<Rightarrow> bytes \<Rightarrow> nat \<Rightarrow> nat \<Rightarrow> bytes" where
  "AppendHTMLEscape_loop dst s prev i =
     (if i < length s
      then (let sub = html_sub (s ! i)
            in if sub \<noteq> []
               then AppendHTMLEscape_loop (dst @ slice s prev i @ sub) s (i + 1) (i + 1)
               else AppendHTMLEscape_loop dst s prev (i + 1))
      else dst @ drop prev s)"
  by pat_completeness auto
termination
  by (relation "measure (\<lambda>(dst, s, prev, i). length s - i)") auto

definition AppendHTMLEscape :: "bytes \<Rightarrow> bytes \<Rightarrow> bytes" where
  "AppendHTMLEscape dst s = AppendHTMLEscape_loop dst s 0 0"

section \<open>IPv4 addresses\<close>

text \<open>A \<^verbatim>\<open>net.IP\<close> is its bytes. \<^verbatim>\<open>To4\<close> keeps a 4-byte address and the tail of a 16-byte
  IPv4-mapped one; anything else is nil.\<close>

definition To4 :: "bytes \<Rightarrow> bytes option" where
  "To4 ip =
     (if length ip = 4 then Some ip
      else if length ip = 16 \<and> take 10 ip = replicate 10 0 \<and> ip ! 10 = 0xFF \<and> ip ! 11 = 0xFF
      then Some (drop 12 ip)
      else None)"

fun AppendIPv4_loop :: "bytes \<Rightarrow> bytes \<Rightarrow> bytes option" where
  "AppendIPv4_loop dst [] = Some dst"
| "AppendIPv4_loop dst (x # xs) =
     do { d \<leftarrow> AppendUint (dst @ [0x2E]) (uint x); AppendIPv4_loop d xs }"

definition AppendIPv4 :: "bytes \<Rightarrow> bytes \<Rightarrow> bytes option" where
  "AppendIPv4 dst ip =
     (case To4 ip of
        None \<Rightarrow> Some (dst @ bs ''non-v4 ip passed to AppendIPv4'')
      | Some ip4 \<Rightarrow> do { d \<leftarrow> AppendUint dst (uint (ip4 ! 0)); AppendIPv4_loop d (tl ip4) })"

datatype ip_error = errEmptyIPStr | errNoDot | errIPPart int_error | errIPPartTooLarge int

text \<open>One part of the address: \<^verbatim>\<open>ParseUint\<close>, then the bound 255.\<close>

definition parse_ip_part :: "bytes \<Rightarrow> ip_error + byte" where
  "parse_ip_part b =
     (case ParseUint b of
        (v, Some e) \<Rightarrow> Inl (errIPPart e)
      | (v, None) \<Rightarrow> if v > 255 then Inl (errIPPartTooLarge v) else Inr (word_of_int v))"

fun ParseIPv4_loop :: "nat \<Rightarrow> bytes \<Rightarrow> bytes \<Rightarrow> ip_error + bytes" where
  "ParseIPv4_loop 0 b acc =
     (case parse_ip_part b of Inl e \<Rightarrow> Inl e | Inr x \<Rightarrow> Inr (acc @ [x]))"
| "ParseIPv4_loop (Suc k) b acc =
     (case index_byte b 0x2E of
        None \<Rightarrow> Inl errNoDot
      | Some n \<Rightarrow>
          (case parse_ip_part (take n b) of
             Inl e \<Rightarrow> Inl e
           | Inr x \<Rightarrow> ParseIPv4_loop k (drop (n + 1) b) (acc @ [x])))"

definition ParseIPv4 :: "bytes \<Rightarrow> ip_error + bytes" where
  "ParseIPv4 ipStr = (if ipStr = [] then Inl errEmptyIPStr else ParseIPv4_loop 3 ipStr [])"


section \<open>Tables\<close>

text \<open>Facts about a hexadecimal digit are sixteen cases.\<close>

lemma nibble_cases:
  "unat (d::byte) < 16 \<Longrightarrow> d \<in> set [0, 1, 2, 3, 4, 5, 6, 7, 8, 9, 10, 11, 12, 13, 14, 15]"
proof -
  assume "unat d < 16"
  then have "unat d \<in> set [0, 1, 2, 3, 4, 5, 6, 7, 8, 9, 10, 11, 12, 13, 14, 15]" by (simp, presburger)
  then have "word_of_nat (unat d) \<in> (word_of_nat ` set [0, 1, 2, 3, 4, 5, 6, 7, 8, 9, 10, 11, 12, 13, 14, 15] :: byte set)"
    by (rule imageI)
  then show ?thesis by simp
qed

lemma hex2int_upperhex: "unat d < 16 \<Longrightarrow> hex2intTable (upperhex d) = d"
proof -
  have "\<forall>n < 16. hex2intTable (upperhex (word_of_nat n)) = word_of_nat n"
    by code_simp
  moreover assume "unat d < 16"
  ultimately have "hex2intTable (upperhex (word_of_nat (unat d))) = word_of_nat (unat d)" by blast
  then show ?thesis by simp
qed

lemma and_0xF: "(c::byte) AND 0xF = take_bit 4 c"
  by (simp add: take_bit_eq_mask mask_eq_exp_minus_1)

lemma nibbles: "push_bit 4 (drop_bit 4 c) OR (c AND 0xF) = (c::byte)"
  unfolding and_0xF by (rule bit_eqI) (auto simp: bit_simps)

lemma high_nibble_bound: "unat (drop_bit 4 (c::byte)) < 16"
proof -
  have "unat c < 256" using unsigned_less [of c] by simp
  moreover have "unat (drop_bit 4 c) = unat c div 16" by (simp add: drop_bit_eq_div unat_div_distrib)
  ultimately show ?thesis by simp
qed

lemma low_nibble_bound: "unat ((c::byte) AND 0xF) < 16"
proof -
  have "unat (c AND 0xF) = unat c mod 16" by (simp add: and_0xF take_bit_eq_mod unat_mod_distrib)
  then show ?thesis by simp
qed

lemma upperhex_range:
  "unat d < 16 \<Longrightarrow> 0x30 \<le> upperhex d \<and> upperhex d \<le> 0x39 \<or> 0x41 \<le> upperhex d \<and> upperhex d \<le> 0x46"
  by (drule nibble_cases) (auto simp: upperhex_def)

lemma toLower_idem [simp]: "toLowerTable (toLowerTable c) = toLowerTable c"
  unfolding toLowerTable_def toUpperTable_def by (auto split: if_splits; unat_arith; auto)

lemma toUpper_idem [simp]: "toUpperTable (toUpperTable c) = toUpperTable c"
  unfolding toLowerTable_def toUpperTable_def by (auto split: if_splits; unat_arith; auto)

lemma toUpper_toLower [simp]: "toUpperTable (toLowerTable c) = toUpperTable c"
  unfolding toLowerTable_def toUpperTable_def by (auto split: if_splits; unat_arith; auto)

lemma toLower_toUpper [simp]: "toLowerTable (toUpperTable c) = toLowerTable c"
  unfolding toLowerTable_def toUpperTable_def by (auto split: if_splits; unat_arith; auto)

section \<open>Decimal integers\<close>

text \<open>The reference: the decimal digits of a number, and the number a digit string denotes.\<close>

fun dec_digits :: "nat \<Rightarrow> bytes" where
  "dec_digits n =
     (if n < 10 then [0x30 + word_of_nat n]
      else dec_digits (n div 10) @ [0x30 + word_of_nat (n mod 10)])"

definition is_digit_byte :: "byte \<Rightarrow> bool" where
  "is_digit_byte c \<longleftrightarrow> 0x30 \<le> c \<and> c \<le> 0x39"

fun dec_value :: "nat \<Rightarrow> bytes \<Rightarrow> nat" where
  "dec_value v [] = v"
| "dec_value v (c # b) = dec_value (10 * v + unat (c - 0x30)) b"

declare dec_digits.simps [simp del]

lemma digit_byte_sub: "is_digit_byte c \<longleftrightarrow> \<not> c - 0x30 > 9"
  unfolding is_digit_byte_def by (unat_arith; auto)

lemma digit_sub_bound: "\<not> (k::byte) > 9 \<Longrightarrow> unat k \<le> 9"
  by (simp add: word_less_nat_alt)

lemma digit_of_nat:
  "n < 10 \<Longrightarrow> is_digit_byte (0x30 + word_of_nat n) \<and> unat ((0x30 + word_of_nat n) - 0x30 :: byte) = n"
proof -
  have "\<forall>n < 10. is_digit_byte (0x30 + word_of_nat n) \<and> unat ((0x30 + word_of_nat n) - 0x30 :: byte) = n"
    by code_simp
  then show "n < 10 \<Longrightarrow> ?thesis" by blast
qed

lemma dec_digits_digits: "\<forall>c \<in> set (dec_digits n). is_digit_byte c"
proof (induction n rule: dec_digits.induct)
  case (1 n)
  show ?case
  proof (cases "n < 10")
    case True
    then show ?thesis using digit_of_nat [of n] by (simp add: dec_digits.simps [of n])
  next
    case False
    with "1.IH" digit_of_nat [of "n mod 10"] show ?thesis
      by (simp add: dec_digits.simps [of n])
  qed
qed

lemma dec_digits_not_Nil [simp]: "dec_digits n \<noteq> []"
  by (subst dec_digits.simps) simp

lemma dec_value_append: "dec_value v (a @ b) = dec_value (dec_value v a) b"
  by (induction a arbitrary: v) auto

lemma dec_value_digits: "dec_value 0 (dec_digits n) = n"
proof (induction n rule: dec_digits.induct)
  case (1 n)
  show ?case
  proof (cases "n < 10")
    case True
    then show ?thesis using digit_of_nat [of n] by (simp add: dec_digits.simps [of n])
  next
    case False
    with "1.IH" digit_of_nat [of "n mod 10"] show ?thesis
      by (simp add: dec_digits.simps [of n] dec_value_append)
  qed
qed

lemma dec_digits_length: "0 < k \<Longrightarrow> n < 10 ^ k \<Longrightarrow> length (dec_digits n) \<le> k"
proof (induction k arbitrary: n)
  case 0
  then show ?case by simp
next
  case (Suc k)
  show ?case
  proof (cases "n < 10")
    case True
    then show ?thesis by (simp add: dec_digits.simps [of n])
  next
    case False
    with Suc.prems have "0 < k" by (cases k) auto
    moreover have "n div 10 < 10 ^ k" using Suc.prems by (simp add: less_mult_imp_div_less mult.commute)
    ultimately have "length (dec_digits (n div 10)) \<le> k" by (rule Suc.IH)
    with False show ?thesis by (simp add: dec_digits.simps [of n])
  qed
qed

lemma uint_digits_loop_eq:
  "uint_digits_loop i n acc =
     (if length (dec_digits n) \<le> i then Some (dec_digits n @ acc) else None)"
proof (induction i n acc rule: uint_digits_loop.induct)
  case (1 n acc)
  then show ?case by simp
next
  case (2 i n acc)
  show ?case
  proof (cases "n < 10")
    case True
    then show ?thesis by (simp add: dec_digits.simps [of n])
  next
    case False
    with "2.IH" show ?thesis by (simp add: dec_digits.simps [of n])
  qed
qed

text \<open>The 20-byte buffer of \<^verbatim>\<open>AppendUint\<close> is large enough for every \<^verbatim>\<open>int64\<close>.\<close>

lemma AppendUint_eq:
  assumes "0 \<le> n" and "n < 2 ^ 63"
  shows "AppendUint dst n = Some (dst @ dec_digits (nat n))"
proof -
  have "nat n < 10 ^ 20" using assms by simp
  then have "length (dec_digits (nat n)) \<le> 20" by (intro dec_digits_length) auto
  with assms show ?thesis by (simp add: AppendUint_def uint_digits_loop_eq)
qed

lemma dec_value_mono: "v \<le> dec_value v b"
proof (induction b arbitrary: v)
  case Nil
  then show ?case by simp
next
  case (Cons c b)
  have "v \<le> 10 * v + unat (c - 0x30)" by simp
  also have "\<dots> \<le> dec_value (10 * v + unat (c - 0x30)) b" by (rule Cons.IH)
  finally show ?case by simp
qed

lemma parseUintBuf_loop_append:
  assumes "\<forall>c \<in> set b. is_digit_byte c" and "dec_value v b < 2 ^ 63"
  shows "parseUintBuf_loop (b @ e) i (int v) = parseUintBuf_loop e (i + length b) (int (dec_value v b))"
  using assms
proof (induction b arbitrary: i v)
  case (Cons c b)
  let ?w = "10 * v + unat (c - 0x30)"
  have k: "\<not> c - 0x30 > 9" using Cons.prems(1) by (simp add: digit_byte_sub)
  have "?w \<le> dec_value ?w b" by (rule dec_value_mono)
  with Cons.prems(2) have "?w < 2 ^ 63" by simp
  then have "int ?w < int (2 ^ 63)" by (simp only: of_nat_less_iff)
  then have "int ?w < 2 ^ 63" by simp
  then have wrap: "wrap64 (10 * int v + uint (c - 0x30)) = int ?w"
    using wrap64_id [OF is_int64_nonneg, of "int ?w"] by simp
  have "parseUintBuf_loop (b @ e) (Suc i) (int ?w) = parseUintBuf_loop e (Suc i + length b) (int (dec_value ?w b))"
    using Cons.prems by (intro Cons.IH) auto
  moreover have "\<not> int ?w < int v" unfolding of_nat_less_iff by simp
  ultimately show ?case
    using k wrap by (simp only: parseUintBuf_loop.simps append_Cons Let_def if_False wrap) simp
qed simp

lemma parseUintBuf_loop_digits:
  assumes "\<forall>c \<in> set b. is_digit_byte c" and "dec_value v b < 2 ^ 63"
  shows "parseUintBuf_loop b i (int v) = (int (dec_value v b), i + length b, None)"
  using parseUintBuf_loop_append [OF assms, of "[]"] by simp

lemma ParseUint_digits:
  assumes "b \<noteq> []" and "\<forall>c \<in> set b. is_digit_byte c" and "dec_value 0 b < 2 ^ 63"
  shows "ParseUint b = (int (dec_value 0 b), None)"
  using assms parseUintBuf_loop_digits [of b 0 0] by (simp add: ParseUint_def parseUintBuf_def)

lemma ParseUint_nondigit:
  assumes "c \<in> set b" and "\<not> is_digit_byte c"
  shows "\<exists>e. snd (ParseUint b) = Some e"
proof -
  have stop: "snd (snd (parseUintBuf_loop b i v)) \<noteq> None \<or> fst (snd (parseUintBuf_loop b i v)) < i + length b" for i v
    using assms
  proof (induction b arbitrary: i v)
    case Nil
    then show ?case by simp
  next
    case (Cons x b)
    show ?case
    proof (cases "x = c")
      case True
      with Cons.prems show ?thesis by (simp add: digit_byte_sub Let_def)
    next
      case False
      with Cons.prems have "c \<in> set b" by simp
      with Cons.IH [of "Suc i"] Cons.prems(2) show ?thesis by (simp add: Let_def)
    qed
  qed
  with assms show ?thesis
    using stop [of 0 0] by (auto simp: ParseUint_def parseUintBuf_def split: prod.splits)
qed


section \<open>HTML escaping\<close>

text \<open>The reference: every byte on its own, replaced or kept.\<close>

definition html_escape_byte :: "byte \<Rightarrow> bytes" where
  "html_escape_byte c = (if html_sub c = [] then [c] else html_sub c)"

declare AppendHTMLEscape_loop.simps [simp del]

lemma slice_snoc_kept:
  assumes "prev \<le> i" and "i < length s"
  shows "slice s prev i @ [s ! i] = slice s prev (Suc i)"
proof -
  have "Suc i - prev = Suc (i - prev)" using assms(1) by simp
  moreover have "i - prev < length (drop prev s)" using assms by simp
  ultimately show ?thesis
    unfolding slice_def using take_Suc_conv_app_nth [of "i - prev" "drop prev s"] assms by simp
qed

lemma AppendHTMLEscape_loop_eq:
  assumes "prev \<le> i" and "i \<le> length s"
  shows "AppendHTMLEscape_loop dst s prev i =
           dst @ slice s prev i @ concat (map html_escape_byte (drop i s))"
  using assms
proof (induction dst s prev i rule: AppendHTMLEscape_loop.induct)
  case (1 dst s prev i)
  show ?case
  proof (cases "i < length s")
    case False
    with "1.prems" have "i = length s" by simp
    then show ?thesis by (simp add: AppendHTMLEscape_loop.simps [of dst s prev "length s"] slice_def)
  next
    case True
    have step: "drop i s = s ! i # drop (Suc i) s" using True by (rule Cons_nth_drop_Suc [symmetric])
    show ?thesis
    proof (cases "html_sub (s ! i) = []")
      case kept: True
      have "AppendHTMLEscape_loop dst s prev (i + 1) =
              dst @ slice s prev (i + 1) @ concat (map html_escape_byte (drop (i + 1) s))"
        using True kept "1.prems" "1.IH"(2) [OF True refl] by simp
      moreover have "html_escape_byte (s ! i) = [s ! i]" using kept by (simp add: html_escape_byte_def)
      moreover have "slice s prev (i + 1) = slice s prev i @ [s ! i]"
        using True "1.prems" slice_snoc_kept [of prev i s] by simp
      ultimately show ?thesis
        using True kept by (simp add: AppendHTMLEscape_loop.simps [of dst s prev i] step Let_def)
    next
      case replaced: False
      have "AppendHTMLEscape_loop (dst @ slice s prev i @ html_sub (s ! i)) s (i + 1) (i + 1) =
              (dst @ slice s prev i @ html_sub (s ! i)) @ slice s (i + 1) (i + 1) @
                concat (map html_escape_byte (drop (i + 1) s))"
        using True replaced "1.IH"(1) [OF True refl] by simp
      moreover have "html_escape_byte (s ! i) = html_sub (s ! i)"
        using replaced by (simp add: html_escape_byte_def)
      ultimately show ?thesis
        using True replaced
        by (simp add: AppendHTMLEscape_loop.simps [of dst s prev i] step Let_def slice_def)
    qed
  qed
qed

lemma AppendHTMLEscape_eq: "AppendHTMLEscape dst s = dst @ concat (map html_escape_byte s)"
  unfolding AppendHTMLEscape_def by (simp add: AppendHTMLEscape_loop_eq slice_def)

lemma html_escape_byte_safe: "set (html_escape_byte c) \<inter> {0x3C, 0x3E, 0x22, 0x27} = {}"
  by (auto simp: html_escape_byte_def html_sub_def split: if_splits)

section \<open>IPv4 addresses\<close>

lemma dec_digits_no_dot: "0x2E \<notin> set (dec_digits n)"
proof
  assume "0x2E \<in> set (dec_digits n)"
  then have "is_digit_byte 0x2E" using dec_digits_digits by blast
  then show False by (simp add: is_digit_byte_def)
qed

lemma uint_byte_bounds: "0 \<le> uint (x::byte)" "uint (x::byte) \<le> 255" "nat (uint x) = unat x"
proof -
  have "unat x < 256" using unsigned_less [of x] by simp
  then have "int (unat x) \<le> 255" by linarith
  then show "uint x \<le> 255" by simp
qed simp_all

lemma AppendUint_byte [simp]: "AppendUint dst (uint (x::byte)) = Some (dst @ dec_digits (unat x))"
  using AppendUint_eq [of "uint x" dst] uint_byte_bounds [of x] by simp

lemma ParseUint_dec_digits: "n < 2 ^ 63 \<Longrightarrow> ParseUint (dec_digits n) = (int n, None)"
  using ParseUint_digits [of "dec_digits n"] dec_digits_digits by (simp add: dec_value_digits)

lemma parse_ip_part_digits [simp]: "parse_ip_part (dec_digits (unat (x::byte))) = Inr x"
proof -
  have "unat x < 256" using unsigned_less [of x] by simp
  then have "ParseUint (dec_digits (unat x)) = (uint x, None)"
    using ParseUint_dec_digits [of "unat x"] by simp
  with uint_byte_bounds [of x] show ?thesis by (simp add: parse_ip_part_def)
qed

lemma AppendIPv4_loop_eq:
  "AppendIPv4_loop dst xs = Some (dst @ concat (map (\<lambda>x. 0x2E # dec_digits (unat x)) xs))"
  by (induction xs arbitrary: dst) (simp_all)

lemma ParseIPv4_loop_step:
  "ParseIPv4_loop (Suc k) (dec_digits (unat x) @ 0x2E # b) acc = ParseIPv4_loop k b (acc @ [x])"
  by (simp add: index_byte_first dec_digits_no_dot)


section \<open>Properties\<close>

text \<open>AppendUint never panics on a non-negative int64, and ParseUint reads the number it
  printed back.\<close>

theorem ParseUint_AppendUint:
  assumes "0 \<le> n" and "n < 2 ^ 63"
  shows "\<exists>s. AppendUint [] n = Some s \<and> ParseUint s = (n, None)"
  using assms ParseUint_dec_digits [of "nat n"] by (simp add: AppendUint_eq)

theorem ParseUint_AppendUint_witness:
  "\<exists>s. AppendUint [] 9223372036854775807 = Some s \<and> ParseUint s = (9223372036854775807, None)"
  by (rule ParseUint_AppendUint) simp_all

text \<open>ParseUint accepts every non-empty digit string whose value fits an int64 and returns
  that value; it reports an error for the empty string and for every string with a byte that is
  not a digit.\<close>

theorem ParseUint_spec:
  "(b \<noteq> [] \<and> list_all is_digit_byte b \<and> dec_value 0 b < 2 ^ 63 \<longrightarrow> ParseUint b = (int (dec_value 0 b), None)) \<and>
   (b = [] \<or> \<not> list_all is_digit_byte b \<longrightarrow> (\<exists>e. snd (ParseUint b) = Some e))"
proof (intro conjI impI)
  assume "b \<noteq> [] \<and> list_all is_digit_byte b \<and> dec_value 0 b < 2 ^ 63"
  then show "ParseUint b = (int (dec_value 0 b), None)" by (intro ParseUint_digits) (auto simp: list_all_iff)
next
  assume "b = [] \<or> \<not> list_all is_digit_byte b"
  then show "\<exists>e. snd (ParseUint b) = Some e"
  proof
    assume "b = []"
    then show ?thesis by (simp add: ParseUint_def parseUintBuf_def)
  next
    assume "\<not> list_all is_digit_byte b"
    then obtain c where "c \<in> set b" "\<not> is_digit_byte c" by (auto simp: list_all_iff)
    then show ?thesis by (rule ParseUint_nondigit)
  qed
qed

theorem ParseUint_spec_witness:
  "ParseUint (bs ''1024'') = (1024, None) \<and> (\<exists>e. snd (ParseUint (bs ''10x'')) = Some e)"
proof -
  have v: "dec_value 0 (bs ''1024'') = 1024" by simp
  have d: "list_all is_digit_byte (bs ''1024'')" "\<not> list_all is_digit_byte (bs ''10x'')"
    by (simp_all add: is_digit_byte_def)
  have "bs ''1024'' \<noteq> []" by simp
  with ParseUint_spec [of "bs ''1024''"] ParseUint_spec [of "bs ''10x''"] v d show ?thesis by simp
qed

text \<open>The overflow test of \<^verbatim>\<open>parseUintBuf\<close> compares the wrapped value with the one before, which is not enough. A
  number of 64 bits or more whose last digit does not make the wrapped value smaller is accepted without an error, as the
  number less 2 to the 64; where the wrapped value is smaller it is rejected.\<close>

theorem ParseUint_overflow:
  assumes "\<forall>c \<in> set b. is_digit_byte c" "b \<noteq> []" "is_digit_byte d" "dec_value 0 b < 2 ^ 63"
    and x: "x = int (dec_value 0 (b @ [d]))" "2 ^ 63 \<le> x" "x < 2 ^ 64 + 2 ^ 63"
  shows "ParseUint (b @ [d]) =
    (if x < 2 ^ 64 + int (dec_value 0 b) then (-1, Some errUnexpectedTrailingChar) else (x - 2 ^ 64, None))"
proof -
  let ?v = "dec_value 0 b"
  have k: "\<not> d - 0x30 > 9" using assms(3) by (simp add: digit_byte_sub)
  have xv: "x = 10 * int ?v + uint (d - 0x30)" using x(1) by (simp add: dec_value_append)
  have "(x + 2 ^ 63) mod 2 ^ 64 = (x + 2 ^ 63 - 2 ^ 64) mod 2 ^ 64" by (metis minus_mod_self2)
  also have "\<dots> = x + 2 ^ 63 - 2 ^ 64" using x(2,3) by (intro mod_pos_pos_trivial) auto
  finally have w: "wrap64 x = x - 2 ^ 64" by (simp add: wrap64_def)
  have "parseUintBuf (b @ [d]) = parseUintBuf_loop [d] (length b) (int ?v)"
    using parseUintBuf_loop_append [OF assms(1,4), of "[d]" 0] assms(2) by (simp add: parseUintBuf_def)
  then show ?thesis using k w unfolding xv by (simp add: ParseUint_def Let_def)
qed

theorem ParseUint_overflow_witness:
  "ParseUint (bs ''25000000000000000000'') = (6553255926290448384, None)"
proof -
  have "ParseUint (bs ''2500000000000000000'' @ [0x30]) = (6553255926290448384, None)"
    by (subst ParseUint_overflow [of _ _ 25000000000000000000]) (simp_all add: is_digit_byte_def)
  then show ?thesis by simp
qed

text \<open>AppendHTMLEscape, which copies unescaped runs in one piece, gives the same result as
  escaping byte by byte, and what it appends holds no angle bracket and no quote.\<close>

theorem AppendHTMLEscape_correct:
  "\<exists>e. AppendHTMLEscape dst s = dst @ e \<and> e = concat (map html_escape_byte s) \<and>
       set e \<inter> {0x3C, 0x3E, 0x22, 0x27} = {}"
  using html_escape_byte_safe by (fastforce simp: AppendHTMLEscape_eq)

text \<open>printing a four-byte address and parsing the text gives the address back.\<close>

theorem IPv4_roundtrip:
  assumes "length ip = 4"
  shows "\<exists>s. AppendIPv4 [] ip = Some s \<and> ParseIPv4 s = Inr ip"
proof -
  obtain a b c d where ip: "ip = [a, b, c, d]"
    using assms by (auto simp: numeral_eq_Suc length_Suc_conv)
  let ?s = "dec_digits (unat a) @ 0x2E # dec_digits (unat b) @ 0x2E # dec_digits (unat c) @ 0x2E # dec_digits (unat d)"
  have "AppendIPv4 [] ip = Some ?s" by (simp add: AppendIPv4_def To4_def ip AppendIPv4_loop_eq)
  moreover have "ParseIPv4 ?s = Inr ip"
    by (simp add: ParseIPv4_def ParseIPv4_loop_step numeral_3_eq_3 ip del: ParseIPv4_loop.simps(2))
  ultimately show ?thesis by blast
qed

theorem IPv4_roundtrip_witness:
  "\<exists>s. AppendIPv4 [] [127, 0, 0, 1] = Some s \<and> ParseIPv4 s = Inr [127, 0, 0, 1]"
  by (rule IPv4_roundtrip) simp

end
