(* ===== verification/Args.thy ===== *)
theory Args
  imports BytesConv
begin

unbundle bit_operations_syntax

text \<open>
  Query arguments, \<^verbatim>\<open>args.go\<close>. An \<^verbatim>\<open>[]argsKV\<close> is modelled with its hidden capacity: \<open>live\<close>
  holds the elements below \<^verbatim>\<open>len\<close>, \<open>spare\<close> the old elements between \<^verbatim>\<open>len\<close> and \<^verbatim>\<open>cap\<close> that
  \<^verbatim>\<open>allocArg\<close> hands out again. When \<^verbatim>\<open>append\<close> has to grow the array the Go specification
  leaves the new capacity open; the model grows by one element. Nil and empty byte slices are
  not distinguished inside an element; the nil result of a failed lookup is \<open>None\<close>.
\<close>

record argsKV =
  kvKey :: bytes
  kvValue :: bytes
  kvNoValue :: bool

record kvslice =
  live :: "argsKV list"
  spare :: "argsKV list"

section \<open>Slices of key-value pairs\<close>

definition blankKV :: argsKV where
  "blankKV = \<lparr>kvKey = [], kvValue = [], kvNoValue = False\<rparr>"

definition emptyArgs :: kvslice where
  "emptyArgs = \<lparr>live = [], spare = []\<rparr>"

definition resetArgs :: "kvslice \<Rightarrow> kvslice" where
  "resetArgs a = \<lparr>live = [], spare = live a @ spare a\<rparr>"

definition allocArg :: "kvslice \<Rightarrow> kvslice" where
  "allocArg h =
     (case spare h of
        s # ss \<Rightarrow> \<lparr>live = live h @ [s], spare = ss\<rparr>
      | [] \<Rightarrow> \<lparr>live = live h @ [blankKV], spare = []\<rparr>)"

text \<open>The pointer \<^verbatim>\<open>&h[n]\<close> that \<^verbatim>\<open>allocArg\<close> returns is the last live element.\<close>

definition last_kv :: "kvslice \<Rightarrow> argsKV" where
  "last_kv h = (if live h = [] then blankKV else last (live h))"

definition set_last :: "kvslice \<Rightarrow> argsKV \<Rightarrow> kvslice" where
  "set_last h kv = h\<lparr>live := butlast (live h) @ [kv]\<rparr>"

definition releaseArg :: "kvslice \<Rightarrow> kvslice" where
  "releaseArg h = \<lparr>live = butlast (live h), spare = last (live h) # spare h\<rparr>"

definition appendArg :: "kvslice \<Rightarrow> bytes \<Rightarrow> bytes \<Rightarrow> bool \<Rightarrow> kvslice" where
  "appendArg args k v nv =
     (let h = allocArg args
      in set_last h ((last_kv h)\<lparr>kvKey := k, kvValue := (if nv then [] else v), kvNoValue := nv\<rparr>))"

text \<open>The search loop of \<^verbatim>\<open>setArg\<close>: \<open>None\<close> when it runs off the end.\<close>

fun setArg_loop :: "argsKV list \<Rightarrow> bytes \<Rightarrow> bytes \<Rightarrow> bool \<Rightarrow> argsKV list option" where
  "setArg_loop [] k v nv = None"
| "setArg_loop (kv # h) k v nv =
     (if k = kvKey kv
      then Some (kv\<lparr>kvValue := (if nv then [] else v), kvNoValue := nv\<rparr> # h)
      else map_option (\<lambda>h'. kv # h') (setArg_loop h k v nv))"

definition setArg :: "kvslice \<Rightarrow> bytes \<Rightarrow> bytes \<Rightarrow> bool \<Rightarrow> kvslice" where
  "setArg h k v nv =
     (case setArg_loop (live h) k v nv of
        Some l \<Rightarrow> h\<lparr>live := l\<rparr>
      | None \<Rightarrow> appendArg h k v nv)"

text \<open>The loop of \<^verbatim>\<open>delAllArgs\<close> shifts the tail over a matching element, parks the element at
  the end and cuts it off there.\<close>

function delAllArgs_loop :: "kvslice \<Rightarrow> bytes \<Rightarrow> nat \<Rightarrow> kvslice" where
  "delAllArgs_loop args k i =
     (if i < length (live args)
      then (if k = kvKey (live args ! i)
            then delAllArgs_loop
                   \<lparr>live = take i (live args) @ drop (i + 1) (live args),
                    spare = live args ! i # spare args\<rparr> k i
            else delAllArgs_loop args k (i + 1))
      else args)"
  by pat_completeness auto
termination
  by (relation "measure (\<lambda>(args, k, i). length (live args) - i)") auto

definition delAllArgs :: "kvslice \<Rightarrow> bytes \<Rightarrow> kvslice" where
  "delAllArgs args k = delAllArgs_loop args k 0"

fun hasArg :: "argsKV list \<Rightarrow> bytes \<Rightarrow> bool" where
  "hasArg [] k = False"
| "hasArg (kv # h) k = (if k = kvKey kv then True else hasArg h k)"

fun peekArgBytes :: "argsKV list \<Rightarrow> bytes \<Rightarrow> bytes option" where
  "peekArgBytes [] k = None"
| "peekArgBytes (kv # h) k = (if kvKey kv = k then Some (kvValue kv) else peekArgBytes h k)"

definition peekArgStr :: "argsKV list \<Rightarrow> bytes \<Rightarrow> bytes option" where
  "peekArgStr h k = peekArgBytes h k"

text \<open>A lookup where the caller only looks at the bytes: nil reads as the empty slice.\<close>

definition peek_bytes :: "kvslice \<Rightarrow> bytes \<Rightarrow> bytes" where
  "peek_bytes h k = (case peekArgBytes (live h) k of None \<Rightarrow> [] | Some v \<Rightarrow> v)"

fun peekAllArgBytesToDst :: "bytes list \<Rightarrow> argsKV list \<Rightarrow> bytes \<Rightarrow> bytes list" where
  "peekAllArgBytesToDst dst [] k = dst"
| "peekAllArgBytesToDst dst (kv # h) k =
     peekAllArgBytesToDst (if kvKey kv = k then dst @ [kvValue kv] else dst) h k"

fun peekArgsKeys :: "bytes list \<Rightarrow> argsKV list \<Rightarrow> bytes list" where
  "peekArgsKeys dst [] = dst"
| "peekArgsKeys dst (kv # h) = peekArgsKeys (dst @ [kvKey kv]) h"

text \<open>\<^verbatim>\<open>visitArgs\<close> with a state-passing callback.\<close>

fun visitArgs :: "argsKV list \<Rightarrow> (bytes \<Rightarrow> bytes \<Rightarrow> 's \<Rightarrow> 's) \<Rightarrow> 's \<Rightarrow> 's" where
  "visitArgs [] f s = s"
| "visitArgs (kv # h) f s = visitArgs h f (f (kvKey kv) (kvValue kv) s)"

text \<open>\<^verbatim>\<open>copyArgs\<close>: the destination slots (old ones while the capacity lasts, cleared new ones
  after that) are overwritten field by field.\<close>

definition copyKV :: "argsKV \<Rightarrow> argsKV \<Rightarrow> argsKV" where
  "copyKV dstKV srcKV =
     dstKV\<lparr>kvKey := kvKey srcKV,
           kvValue := (if kvNoValue srcKV then [] else kvValue srcKV),
           kvNoValue := kvNoValue srcKV\<rparr>"

definition copyArgs :: "kvslice \<Rightarrow> kvslice \<Rightarrow> kvslice" where
  "copyArgs dst src =
     (let n = length (live src); slots = live dst @ spare dst
      in if length slots < n
         then (let tmp = live dst @ map (\<lambda>kv. kv\<lparr>kvKey := [], kvValue := []\<rparr>) (spare dst)
                           @ replicate (n - length slots) blankKV
               in \<lparr>live = map2 copyKV tmp (live src), spare = []\<rparr>)
         else \<lparr>live = map2 copyKV (take n slots) (live src), spare = drop n slots\<rparr>)"

section \<open>The methods of Args on one slice\<close>

text \<open>A Go \<^verbatim>\<open>string\<close> and a \<^verbatim>\<open>[]byte\<close> are the same list of bytes, so one definition models the
  \<^verbatim>\<open>string\<close> and the \<^verbatim>\<open>Bytes\<close> variants of a method.\<close>

definition Args_Add :: "kvslice \<Rightarrow> bytes \<Rightarrow> bytes \<Rightarrow> kvslice" where
  "Args_Add a k v = appendArg a k v False"

definition Args_AddNoValue :: "kvslice \<Rightarrow> bytes \<Rightarrow> kvslice" where
  "Args_AddNoValue a k = appendArg a k [] True"

definition Args_Set :: "kvslice \<Rightarrow> bytes \<Rightarrow> bytes \<Rightarrow> kvslice" where
  "Args_Set a k v = setArg a k v False"

definition Args_SetNoValue :: "kvslice \<Rightarrow> bytes \<Rightarrow> kvslice" where
  "Args_SetNoValue a k = setArg a k [] True"

definition Args_Del :: "kvslice \<Rightarrow> bytes \<Rightarrow> kvslice" where
  "Args_Del a k = delAllArgs a k"

definition Args_Peek :: "kvslice \<Rightarrow> bytes \<Rightarrow> bytes option" where
  "Args_Peek a k = peekArgStr (live a) k"

definition Args_Has :: "kvslice \<Rightarrow> bytes \<Rightarrow> bool" where
  "Args_Has a k = hasArg (live a) k"

section \<open>Decoding\<close>

fun decodeArg_loop :: "bytes \<Rightarrow> bytes \<Rightarrow> bytes" where
  "decodeArg_loop dst [] = dst"
| "decodeArg_loop dst (c # src) =
     (if c = 0x25
      then (case src of
              h1 # h2 # rest \<Rightarrow>
                (let x2 = hex2intTable h2; x1 = hex2intTable h1
                 in if x1 = 16 \<or> x2 = 16 then decodeArg_loop (dst @ [0x25]) src
                    else decodeArg_loop (dst @ [push_bit 4 x1 OR x2]) rest)
            | _ \<Rightarrow> dst @ c # src)
      else if c = 0x2B then decodeArg_loop (dst @ [spChar]) src
      else decodeArg_loop (dst @ [c]) src)"

definition decodeArgAppend :: "bytes \<Rightarrow> bytes \<Rightarrow> bytes" where
  "decodeArgAppend dst src =
     (case (index_byte src 0x25, index_byte src 0x2B) of
        (None, None) \<Rightarrow> dst @ src
      | (None, Some idxPlus) \<Rightarrow> decodeArg_loop (dst @ take idxPlus src) (drop idxPlus src)
      | (Some idxPercent, None) \<Rightarrow> decodeArg_loop (dst @ take idxPercent src) (drop idxPercent src)
      | (Some idxPercent, Some idxPlus) \<Rightarrow>
          (let idx = (if idxPercent > idxPlus then idxPlus else idxPercent)
           in decodeArg_loop (dst @ take idx src) (drop idx src)))"

fun decodeArgNoPlus_loop :: "bytes \<Rightarrow> bytes \<Rightarrow> bytes" where
  "decodeArgNoPlus_loop dst [] = dst"
| "decodeArgNoPlus_loop dst (c # src) =
     (if c = 0x25
      then (case src of
              h1 # h2 # rest \<Rightarrow>
                (let x2 = hex2intTable h2; x1 = hex2intTable h1
                 in if x1 = 16 \<or> x2 = 16 then decodeArgNoPlus_loop (dst @ [0x25]) src
                    else decodeArgNoPlus_loop (dst @ [push_bit 4 x1 OR x2]) rest)
            | _ \<Rightarrow> dst @ c # src)
      else decodeArgNoPlus_loop (dst @ [c]) src)"

definition decodeArgAppendNoPlus :: "bytes \<Rightarrow> bytes \<Rightarrow> bytes" where
  "decodeArgAppendNoPlus dst src =
     (case index_byte src 0x25 of
        None \<Rightarrow> dst @ src
      | Some idx \<Rightarrow> decodeArgNoPlus_loop (dst @ take idx src) (drop idx src))"

definition AppendUnquotedArg :: "bytes \<Rightarrow> bytes \<Rightarrow> bytes" where
  "AppendUnquotedArg dst src = decodeArgAppend dst src"

section \<open>Parsing\<close>

text \<open>\<^verbatim>\<open>argsScanner.next\<close>: the loop over \<^verbatim>\<open>range s.b\<close> with its locals \<^verbatim>\<open>i\<close>, \<^verbatim>\<open>isKey\<close> and \<^verbatim>\<open>k\<close>.
  The result is the filled element and the rest of the input.\<close>

fun argsScanner_loop :: "bytes \<Rightarrow> bytes \<Rightarrow> nat \<Rightarrow> bool \<Rightarrow> nat \<Rightarrow> argsKV \<Rightarrow> argsKV \<times> bytes" where
  "argsScanner_loop b [] i isKey k kv =
     ((if isKey
       then kv\<lparr>kvKey := decodeArgAppend [] b, kvValue := [], kvNoValue := True\<rparr>
       else kv\<lparr>kvValue := decodeArgAppend [] (drop k b)\<rparr>),
      drop (length b) b)"
| "argsScanner_loop b (c # cs) i isKey k kv =
     (if c = 0x3D
      then (if isKey
            then argsScanner_loop b cs (i + 1) False (i + 1) (kv\<lparr>kvKey := decodeArgAppend [] (take i b)\<rparr>)
            else argsScanner_loop b cs (i + 1) isKey k kv)
      else if c = 0x26
      then ((if isKey
             then kv\<lparr>kvKey := decodeArgAppend [] (take i b), kvValue := [], kvNoValue := True\<rparr>
             else kv\<lparr>kvValue := decodeArgAppend [] (slice b k i)\<rparr>),
            drop (i + 1) b)
      else argsScanner_loop b cs (i + 1) isKey k kv)"

definition argsScanner_next :: "bytes \<Rightarrow> argsKV \<Rightarrow> (argsKV \<times> bytes) option" where
  "argsScanner_next b kv =
     (if b = [] then None
      else Some (argsScanner_loop b b 0 True 0 (kv\<lparr>kvNoValue := False\<rparr>)))"

lemma argsScanner_loop_rest:
  "i + length cs = length b \<Longrightarrow> b \<noteq> [] \<Longrightarrow> length (snd (argsScanner_loop b cs i isKey k kv)) < length b"
  by (induction b cs i isKey k kv rule: argsScanner_loop.induct) auto

lemma argsScanner_next_shrinks:
  "argsScanner_next b kv = Some (kv', b') \<Longrightarrow> length b' < length b"
  using argsScanner_loop_rest [of 0 b b True 0 "kv\<lparr>kvNoValue := False\<rparr>"]
  by (auto simp: argsScanner_next_def split: if_splits)

function ParseBytes_loop :: "kvslice \<Rightarrow> bytes \<Rightarrow> kvslice" where
  "ParseBytes_loop a b =
     (case argsScanner_next b (last_kv a) of
        None \<Rightarrow> a
      | Some (kv, b') \<Rightarrow>
          (let a' = set_last a kv
           in if kvKey kv \<noteq> [] \<or> kvValue kv \<noteq> [] then ParseBytes_loop (allocArg a') b'
              else ParseBytes_loop a' b'))"
  by pat_completeness auto
termination
  by (relation "measure (\<lambda>(a, b). length b)") (auto dest: argsScanner_next_shrinks)

definition ParseBytes :: "kvslice \<Rightarrow> bytes \<Rightarrow> kvslice" where
  "ParseBytes a b = releaseArg (ParseBytes_loop (allocArg (resetArgs a)) b)"

section \<open>Printing and access\<close>

fun AppendBytes_loop :: "argsKV list \<Rightarrow> bytes \<Rightarrow> bytes" where
  "AppendBytes_loop [] dst = dst"
| "AppendBytes_loop (kv # args) dst =
     (let d1 = AppendQuotedArg dst (kvKey kv);
          d2 = (if \<not> kvNoValue kv
                then (if kvValue kv \<noteq> [] then AppendQuotedArg (d1 @ [0x3D]) (kvValue kv) else d1 @ [0x3D])
                else d1);
          d3 = (if args \<noteq> [] then d2 @ [0x26] else d2)
      in AppendBytes_loop args d3)"

definition AppendBytes :: "kvslice \<Rightarrow> bytes \<Rightarrow> bytes" where
  "AppendBytes a dst = AppendBytes_loop (live a) dst"

definition QueryString :: "kvslice \<Rightarrow> bytes" where
  "QueryString a = AppendBytes a []"

definition PeekMulti :: "kvslice \<Rightarrow> bytes \<Rightarrow> bytes list" where
  "PeekMulti a k = visitArgs (live a) (\<lambda>k' v vs. if k' = k then vs @ [v] else vs) []"

datatype args_error = ErrNoArgValue | ArgInt int_error

definition GetUint :: "kvslice \<Rightarrow> bytes \<Rightarrow> int \<times> args_error option" where
  "GetUint a k =
     (let v = peek_bytes a k
      in if v = [] then (-1, Some ErrNoArgValue)
         else (case ParseUint v of (n, err) \<Rightarrow> (n, map_option ArgInt err)))"

definition SetUint :: "kvslice \<Rightarrow> bytes \<Rightarrow> int \<Rightarrow> kvslice option" where
  "SetUint a k n =
     (case AppendUintInto (replicate 20 0) n of
        None \<Rightarrow> None
      | Some d \<Rightarrow> Some (setArg a k d False))"

definition GetUintOrZero :: "kvslice \<Rightarrow> bytes \<Rightarrow> int" where
  "GetUintOrZero a k = (case GetUint a k of (n, None) \<Rightarrow> n | (n, Some e) \<Rightarrow> 0)"

definition GetBool :: "kvslice \<Rightarrow> bytes \<Rightarrow> bool" where
  "GetBool a k \<longleftrightarrow>
     peek_bytes a k \<in> set (map bs [''1'', ''t'', ''T'', ''true'', ''TRUE'', ''True'',
                                    ''y'', ''yes'', ''Y'', ''YES'', ''Yes''])"


section \<open>Lemmas on slices\<close>

definition mkKV :: "bytes \<Rightarrow> bytes \<Rightarrow> bool \<Rightarrow> argsKV" where
  "mkKV k v nv = \<lparr>kvKey = k, kvValue = (if nv then [] else v), kvNoValue = nv\<rparr>"

lemma mkKV_simps [simp]:
  "kvKey (mkKV k v nv) = k" "kvValue (mkKV k v nv) = (if nv then [] else v)" "kvNoValue (mkKV k v nv) = nv"
  by (simp_all add: mkKV_def)

definition alloc_slot :: "kvslice \<Rightarrow> argsKV" where
  "alloc_slot h = (case spare h of s # _ \<Rightarrow> s | [] \<Rightarrow> blankKV)"

lemma live_allocArg [simp]: "live (allocArg h) = live h @ [alloc_slot h]"
  by (simp add: allocArg_def alloc_slot_def split: list.splits)

lemma last_kv_alloc [simp]: "last_kv (allocArg h) = alloc_slot h"
  by (simp add: last_kv_def)

lemma live_set_last [simp]: "live (set_last h kv) = butlast (live h) @ [kv]"
  by (simp add: set_last_def)

lemma spare_set_last [simp]: "spare (set_last h kv) = spare h"
  by (simp add: set_last_def)

lemma live_resetArgs [simp]: "live (resetArgs a) = []"
  by (simp add: resetArgs_def)

lemma live_emptyArgs [simp]: "live emptyArgs = []"
  by (simp add: emptyArgs_def)

lemma live_releaseArg [simp]: "live (releaseArg h) = butlast (live h)"
  by (simp add: releaseArg_def)

lemma overwrite_kv:
  "kv\<lparr>kvKey := k, kvValue := v, kvNoValue := nv\<rparr> = \<lparr>kvKey = k, kvValue = v, kvNoValue = nv\<rparr>"
  by (cases kv) simp

text \<open>Whatever the reused slot held, an appended element has exactly the given fields.\<close>

lemma live_appendArg [simp]: "live (appendArg a k v nv) = live a @ [mkKV k v nv]"
  by (simp add: appendArg_def Let_def overwrite_kv mkKV_def)

fun set_kv :: "argsKV list \<Rightarrow> bytes \<Rightarrow> bytes \<Rightarrow> bool \<Rightarrow> argsKV list" where
  "set_kv [] k v nv = [mkKV k v nv]"
| "set_kv (kv # h) k v nv = (if kvKey kv = k then mkKV k v nv # h else kv # set_kv h k v nv)"

lemma setArg_loop_eq:
  "(case setArg_loop l k v nv of Some l' \<Rightarrow> l' | None \<Rightarrow> l @ [mkKV k v nv]) = set_kv l k v nv"
proof (induction l)
  case Nil
  then show ?case by simp
next
  case (Cons kv l)
  have "kv\<lparr>kvValue := x, kvNoValue := nv\<rparr> = \<lparr>kvKey = kvKey kv, kvValue = x, kvNoValue = nv\<rparr>" for x
    by (cases kv) simp
  with Cons.IH show ?case by (auto simp: mkKV_def split: option.splits)
qed

lemma live_setArg [simp]: "live (setArg a k v nv) = set_kv (live a) k v nv"
  using setArg_loop_eq [of "live a" k v nv] by (simp add: setArg_def split: option.splits)

declare delAllArgs_loop.simps [simp del]

lemma live_delAllArgs_loop:
  "i \<le> length (live a) \<Longrightarrow>
     live (delAllArgs_loop a k i) = take i (live a) @ filter (\<lambda>kv. kvKey kv \<noteq> k) (drop i (live a))"
proof (induction a k i rule: delAllArgs_loop.induct)
  case (1 a k i)
  show ?case
  proof (cases "i < length (live a)")
    case False
    with "1.prems" show ?thesis by (simp add: delAllArgs_loop.simps [of a k "length (live a)"])
  next
    case True
    have split_at: "drop i (live a) = live a ! i # drop (Suc i) (live a)"
      using True by (rule Cons_nth_drop_Suc [symmetric])
    show ?thesis
    proof (cases "k = kvKey (live a ! i)")
      case del: True
      let ?a = "\<lparr>live = take i (live a) @ drop (i + 1) (live a), spare = live a ! i # spare a\<rparr>"
      have "live (delAllArgs_loop ?a k i) =
          take i (live ?a) @ filter (\<lambda>kv. kvKey kv \<noteq> k) (drop i (live ?a))"
        using True del by (intro "1.IH"(1)) auto
      with True del show ?thesis
        by (subst delAllArgs_loop.simps) (simp add: split_at min_def)
    next
      case keep: False
      have "live (delAllArgs_loop a k (i + 1)) =
          take (i + 1) (live a) @ filter (\<lambda>kv. kvKey kv \<noteq> k) (drop (i + 1) (live a))"
        using True keep by (intro "1.IH"(2)) auto
      with True keep show ?thesis
        by (simp add: delAllArgs_loop.simps [of a k i] split_at take_Suc_conv_app_nth)
    qed
  qed
qed

lemma live_delAllArgs [simp]: "live (delAllArgs a k) = filter (\<lambda>kv. kvKey kv \<noteq> k) (live a)"
  by (simp add: delAllArgs_def live_delAllArgs_loop)

lemma hasArg_iff: "hasArg l k \<longleftrightarrow> k \<in> kvKey ` set l"
  by (induction l) auto

lemma peekArgBytes_None: "peekArgBytes l k = None \<longleftrightarrow> k \<notin> kvKey ` set l"
  by (induction l) auto

lemma peekArgBytes_append:
  "peekArgBytes (l @ l') k = (case peekArgBytes l k of Some v \<Rightarrow> Some v | None \<Rightarrow> peekArgBytes l' k)"
  by (induction l) auto

lemma peekArgBytes_set_kv:
  "peekArgBytes (set_kv l k v nv) k' = (if k' = k then Some (if nv then [] else v) else peekArgBytes l k')"
  by (induction l) auto

lemma peekArgBytes_filter:
  "peekArgBytes (filter (\<lambda>kv. kvKey kv \<noteq> k) l) k' = (if k' = k then None else peekArgBytes l k')"
  by (induction l) auto

lemma peekAll_eq:
  "peekAllArgBytesToDst dst l k = dst @ map kvValue (filter (\<lambda>kv. kvKey kv = k) l)"
  by (induction l arbitrary: dst) auto

lemma visitArgs_fold: "visitArgs l f s = fold (\<lambda>kv. f (kvKey kv) (kvValue kv)) l s"
  by (induction l arbitrary: s) auto

lemma PeekMulti_eq: "PeekMulti a k = map kvValue (filter (\<lambda>kv. kvKey kv = k) (live a))"
proof -
  have "fold (\<lambda>kv vs. if kvKey kv = k then vs @ [kvValue kv] else vs) l vs =
      vs @ map kvValue (filter (\<lambda>kv. kvKey kv = k) l)" for l :: "argsKV list" and vs
    by (induction l arbitrary: vs) auto
  then show ?thesis by (simp add: PeekMulti_def visitArgs_fold)
qed

text \<open>A flag-only element never carries a value: the invariant of every slice the package builds.\<close>

definition kv_wf :: "argsKV \<Rightarrow> bool" where
  "kv_wf kv \<longleftrightarrow> (kvNoValue kv \<longrightarrow> kvValue kv = [])"

lemma kv_wf_mkKV [simp]: "kv_wf (mkKV k v nv)"
  by (simp add: kv_wf_def)

lemma map2_copyKV:
  "length ds = length ss \<Longrightarrow> \<forall>kv \<in> set ss. kv_wf kv \<Longrightarrow> map2 copyKV ds ss = ss"
proof (induction ds ss rule: list_induct2)
  case Nil
  then show ?case by simp
next
  case (Cons d ds s ss)
  then show ?case by (cases s) (auto simp: copyKV_def kv_wf_def overwrite_kv)
qed

lemma live_copyArgs:
  assumes "\<forall>kv \<in> set (live src). kv_wf kv"
  shows "live (copyArgs dst src) = live src"
  using assms by (auto simp: copyArgs_def Let_def map2_copyKV)


section \<open>Decoding: the fast path and the slow path agree\<close>

text \<open>The reference decoder works byte by byte; \<open>pl\<close> says whether \<^verbatim>\<open>+\<close> stands for a space.\<close>

fun url_decode :: "bool \<Rightarrow> bytes \<Rightarrow> bytes" where
  "url_decode pl [] = []"
| "url_decode pl (c # src) =
     (if c = 0x25
      then (case src of
              h1 # h2 # rest \<Rightarrow>
                (if hex2intTable h1 = 16 \<or> hex2intTable h2 = 16 then 0x25 # url_decode pl src
                 else (push_bit 4 (hex2intTable h1) OR hex2intTable h2) # url_decode pl rest)
            | _ \<Rightarrow> c # src)
      else (if pl \<and> c = 0x2B then spChar else c) # url_decode pl src)"

lemma decodeArg_loop_eq: "decodeArg_loop dst src = dst @ url_decode True src"
  by (induction dst src rule: decodeArg_loop.induct) (auto simp: Let_def split: list.splits)

lemma decodeArgNoPlus_loop_eq: "decodeArgNoPlus_loop dst src = dst @ url_decode False src"
  by (induction dst src rule: decodeArgNoPlus_loop.induct) (auto simp: Let_def split: list.splits)

lemma url_decode_plain:
  "0x25 \<notin> set pre \<Longrightarrow> pl \<longrightarrow> 0x2B \<notin> set pre \<Longrightarrow> url_decode pl (pre @ src) = pre @ url_decode pl src"
  by (induction pre) auto

lemma url_decode_plain_Nil:
  "0x25 \<notin> set src \<Longrightarrow> pl \<longrightarrow> 0x2B \<notin> set src \<Longrightarrow> url_decode pl src = src"
  using url_decode_plain [of src pl "[]"] by simp

lemma url_decode_from:
  assumes "0x25 \<notin> set (take n src)" and "pl \<longrightarrow> 0x2B \<notin> set (take n src)"
  shows "take n src @ url_decode pl (drop n src) = url_decode pl src"
  using url_decode_plain [OF assms, of "drop n src"] by simp

lemma notin_take_mono: "m \<le> n \<Longrightarrow> c \<notin> set (take n xs) \<Longrightarrow> c \<notin> set (take m xs)"
  using set_take_subset_set_take [of m n xs] by blast

lemma notin_take: "c \<notin> set xs \<Longrightarrow> c \<notin> set (take m xs)"
  using in_set_takeD by fast

lemma decodeArgAppend_eq: "decodeArgAppend dst src = dst @ url_decode True src"
proof (cases "index_byte src 0x25")
  case None
  then have p: "0x25 \<notin> set src" by (simp add: index_byte_None)
  show ?thesis
  proof (cases "index_byte src 0x2B")
    case None2: None
    with p show ?thesis
      by (simp add: decodeArgAppend_def index_byte_None url_decode_plain_Nil)
  next
    case (Some n)
    from url_decode_from [of n src True] index_byte_take_notin [OF Some] notin_take [OF p]
    show ?thesis by (simp add: decodeArgAppend_def None Some decodeArg_loop_eq)
  qed
next
  case (Some m)
  show ?thesis
  proof (cases "index_byte src 0x2B")
    case None
    then have "0x2B \<notin> set src" by (simp add: index_byte_None)
    from url_decode_from [of m src True] index_byte_take_notin [OF Some] notin_take [OF this]
    show ?thesis by (simp add: decodeArgAppend_def None Some decodeArg_loop_eq)
  next
    case (Some n)
    let ?i = "if m > n then n else m"
    have "0x25 \<notin> set (take ?i src)" "0x2B \<notin> set (take ?i src)"
      using index_byte_take_notin [OF Some] index_byte_take_notin [OF \<open>index_byte src 0x25 = Some m\<close>]
      using notin_take_mono [of n m "0x25" src] notin_take_mono [of m n "0x2B" src] by auto
    then show ?thesis
      using url_decode_from [of ?i src True] Some \<open>index_byte src 0x25 = Some m\<close>
      by (simp add: decodeArgAppend_def decodeArg_loop_eq Let_def)
  qed
qed

lemma decodeArgAppendNoPlus_eq: "decodeArgAppendNoPlus dst src = dst @ url_decode False src"
proof (cases "index_byte src 0x25")
  case None
  then show ?thesis
    by (simp add: decodeArgAppendNoPlus_def url_decode_plain_Nil index_byte_None)
next
  case (Some n)
  from url_decode_from [of n src False] index_byte_take_notin [OF Some]
  show ?thesis by (simp add: decodeArgAppendNoPlus_def Some decodeArgNoPlus_loop_eq)
qed

section \<open>Quoting\<close>

definition quote_byte :: "byte \<Rightarrow> bytes" where
  "quote_byte c =
     (if c = spChar then [0x2B]
      else if quotedArgShouldEscapeTable c then [0x25, upperhex (drop_bit 4 c), upperhex (c AND 0xF)]
      else [c])"

lemma AppendQuotedArg_eq: "AppendQuotedArg dst s = dst @ concat (map quote_byte s)"
  by (induction dst s rule: AppendQuotedArg.induct) (auto simp: quote_byte_def)

lemma hex_pair_decode:
  "hex2intTable (upperhex (drop_bit 4 c)) \<noteq> 16" "hex2intTable (upperhex (c AND 0xF)) \<noteq> 16"
  "push_bit 4 (hex2intTable (upperhex (drop_bit 4 c))) OR hex2intTable (upperhex (c AND 0xF)) = (c::byte)"
proof -
  have h: "hex2intTable (upperhex (drop_bit 4 c)) = drop_bit 4 c"
    by (rule hex2int_upperhex [OF high_nibble_bound])
  have l: "hex2intTable (upperhex (c AND 0xF)) = c AND 0xF"
    by (rule hex2int_upperhex [OF low_nibble_bound])
  show "hex2intTable (upperhex (drop_bit 4 c)) \<noteq> 16"
    unfolding h using high_nibble_bound [of c] by (intro notI) simp
  show "hex2intTable (upperhex (c AND 0xF)) \<noteq> 16"
    unfolding l using low_nibble_bound [of c] by (intro notI) simp
  show "push_bit 4 (hex2intTable (upperhex (drop_bit 4 c))) OR hex2intTable (upperhex (c AND 0xF)) = c"
    unfolding h l by (rule nibbles)
qed

lemma unescaped_not_special: "\<not> quotedArgShouldEscapeTable c \<Longrightarrow> c \<noteq> 0x25 \<and> c \<noteq> 0x2B \<and> c \<noteq> 0x26 \<and> c \<noteq> 0x3D"
  by (auto simp: quotedArgShouldEscapeTable_def)

lemma url_decode_quote_byte: "url_decode True (quote_byte c @ rest) = c # url_decode True rest"
  using unescaped_not_special [of c] by (auto simp: quote_byte_def hex_pair_decode)

lemma url_decode_quote: "url_decode True (concat (map quote_byte s) @ rest) = s @ url_decode True rest"
  by (induction s) (simp_all add: url_decode_quote_byte)

lemma url_decode_quote_Nil: "url_decode True (concat (map quote_byte s)) = s"
  using url_decode_quote [of s "[]"] by simp

text \<open>A quoted byte is made of unreserved characters, \<^verbatim>\<open>%\<close> and \<^verbatim>\<open>+\<close>; in particular it holds
  none of the separators of a query string.\<close>

definition query_safe :: "byte \<Rightarrow> bool" where
  "query_safe c \<longleftrightarrow> \<not> quotedArgShouldEscapeTable c \<or> c = 0x25 \<or> c = 0x2B"

lemma upperhex_unreserved: "unat d < 16 \<Longrightarrow> \<not> quotedArgShouldEscapeTable (upperhex d)"
  using upperhex_range [of d] by (auto simp: quotedArgShouldEscapeTable_def word_le_nat_alt)

lemma quote_byte_safe: "\<forall>x \<in> set (quote_byte c). query_safe x"
  by (auto simp: quote_byte_def query_safe_def
      upperhex_unreserved [OF high_nibble_bound] upperhex_unreserved [OF low_nibble_bound])

lemma quoted_safe: "\<forall>x \<in> set (concat (map quote_byte s)). query_safe x"
  using quote_byte_safe by auto

lemma quoted_no_separators: "0x26 \<notin> set (concat (map quote_byte s))" "0x3D \<notin> set (concat (map quote_byte s))"
proof -
  have "\<not> query_safe 0x26" "\<not> query_safe 0x3D"
    by (auto simp: query_safe_def quotedArgShouldEscapeTable_def)
  with quoted_safe [of s] show "0x26 \<notin> set (concat (map quote_byte s))" "0x3D \<notin> set (concat (map quote_byte s))"
    by blast+
qed


section \<open>Parsing: what a query string denotes\<close>

text \<open>The reference: cut at \<^verbatim>\<open>&\<close>, cut each piece at its first \<^verbatim>\<open>=\<close>, decode both halves, and
  drop the pieces with an empty key and an empty value.\<close>

definition first_piece :: "bytes \<Rightarrow> bytes" where
  "first_piece b = takeWhile (\<lambda>c. c \<noteq> 0x26) b"

definition after_piece :: "bytes \<Rightarrow> bytes" where
  "after_piece b = drop 1 (dropWhile (\<lambda>c. c \<noteq> 0x26) b)"

lemma after_piece_shrinks: "b \<noteq> [] \<Longrightarrow> length (after_piece b) < length b"
proof -
  assume "b \<noteq> []"
  moreover have "length (dropWhile (\<lambda>c. c \<noteq> 0x26) b) \<le> length b" by (rule length_dropWhile_le)
  ultimately show ?thesis unfolding after_piece_def length_drop
    by (metis One_nat_def diff_less le_neq_implies_less length_greater_0_conv less_imp_diff_less zero_less_one)
qed

function query_pieces :: "bytes \<Rightarrow> bytes list" where
  "query_pieces b = (if b = [] then [] else first_piece b # query_pieces (after_piece b))"
  by pat_completeness auto
termination
  by (relation "measure length") (auto intro: after_piece_shrinks)

declare query_pieces.simps [simp del]

definition piece_kv :: "bytes \<Rightarrow> argsKV" where
  "piece_kv p =
     (case index_byte p 0x3D of
        None \<Rightarrow> \<lparr>kvKey = url_decode True p, kvValue = [], kvNoValue = True\<rparr>
      | Some n \<Rightarrow> \<lparr>kvKey = url_decode True (take n p), kvValue = url_decode True (drop (n + 1) p), kvNoValue = False\<rparr>)"

definition nonblank :: "argsKV \<Rightarrow> bool" where
  "nonblank kv \<longleftrightarrow> kvKey kv \<noteq> [] \<or> kvValue kv \<noteq> []"

definition parse_query :: "bytes \<Rightarrow> argsKV list" where
  "parse_query b = filter nonblank (map piece_kv (query_pieces b))"

lemma scanner_after_eq:
  assumes "b = pre @ cs" and "i = length pre" and "k \<le> i"
  shows "argsScanner_loop b cs i False k kv =
           (kv\<lparr>kvValue := url_decode True (slice b k (i + length (first_piece cs)))\<rparr>, after_piece cs)"
  using assms
proof (induction cs arbitrary: pre i)
  case Nil
  then show ?case by (simp add: decodeArgAppend_eq first_piece_def after_piece_def slice_def)
next
  case (Cons c cs)
  show ?case
  proof (cases "c = 0x26")
    case True
    with Cons.prems show ?thesis
      by (simp add: decodeArgAppend_eq first_piece_def after_piece_def)
  next
    case False
    have "argsScanner_loop b cs (i + 1) False k kv =
        (kv\<lparr>kvValue := url_decode True (slice b k (i + 1 + length (first_piece cs)))\<rparr>, after_piece cs)"
      using Cons.prems by (intro Cons.IH [of "pre @ [c]"]) auto
    with False show ?thesis by (simp add: first_piece_def after_piece_def)
  qed
qed

lemma scanner_key_eq:
  assumes "b = pre @ cs" and "i = length pre" and "0x3D \<notin> set pre" and "kvNoValue kv = False"
  shows "argsScanner_loop b cs i True k kv = (piece_kv (pre @ first_piece cs), after_piece cs)"
  using assms
proof (induction cs arbitrary: pre i kv)
  case Nil
  then show ?case
    by (cases kv) (simp add: decodeArgAppend_eq first_piece_def after_piece_def piece_kv_def)
next
  case (Cons c cs)
  consider "c = 0x26" | "c = 0x3D" | "c \<noteq> 0x26" "c \<noteq> 0x3D" by blast
  then show ?case
  proof cases
    case 1
    with Cons.prems show ?thesis
      by (cases kv) (simp add: decodeArgAppend_eq first_piece_def after_piece_def piece_kv_def)
  next
    case 2
    let ?kv = "kv\<lparr>kvKey := url_decode True pre\<rparr>"
    have "slice b (i + 1) (i + 1 + length (first_piece cs)) = first_piece cs"
      using Cons.prems 2 by (simp add: slice_def first_piece_def)
    moreover have "argsScanner_loop b cs (i + 1) False (i + 1) ?kv =
        (?kv\<lparr>kvValue := url_decode True (slice b (i + 1) (i + 1 + length (first_piece cs)))\<rparr>, after_piece cs)"
      using Cons.prems 2 by (intro scanner_after_eq [of _ "pre @ [c]"]) auto
    ultimately show ?thesis
      using Cons.prems 2
      by (cases kv) (simp add: decodeArgAppend_eq first_piece_def after_piece_def piece_kv_def index_byte_first)
  next
    case 3
    have "argsScanner_loop b cs (i + 1) True k kv = (piece_kv ((pre @ [c]) @ first_piece cs), after_piece cs)"
      using Cons.prems 3 by (intro Cons.IH) auto
    with 3 show ?thesis by (simp add: first_piece_def after_piece_def)
  qed
qed

lemma argsScanner_next_eq:
  "argsScanner_next b kv = (if b = [] then None else Some (piece_kv (first_piece b), after_piece b))"
  using scanner_key_eq [of b "[]" b 0 "kv\<lparr>kvNoValue := False\<rparr>"] by (simp add: argsScanner_next_def)

declare ParseBytes_loop.simps [simp del]

lemma ParseBytes_loop_eq:
  "live a = l @ [x] \<Longrightarrow> \<exists>y. live (ParseBytes_loop a b) = l @ parse_query b @ [y]"
proof (induction a b arbitrary: l x rule: ParseBytes_loop.induct)
  case (1 a b)
  show ?case
  proof (cases "b = []")
    case True
    with "1.prems" show ?thesis
      by (simp add: ParseBytes_loop.simps [of a "[]"] argsScanner_next_eq parse_query_def query_pieces.simps [of "[]"])
  next
    case False
    let ?kv = "piece_kv (first_piece b)" and ?r = "after_piece b"
    have nxt: "argsScanner_next b (last_kv a) = Some (?kv, ?r)" using False by (simp add: argsScanner_next_eq)
    have pq: "parse_query b = (if nonblank ?kv then ?kv # parse_query ?r else parse_query ?r)"
      using False by (simp add: parse_query_def query_pieces.simps [of b])
    show ?thesis
    proof (cases "nonblank ?kv")
      case True
      have "live (allocArg (set_last a ?kv)) = (l @ [?kv]) @ [alloc_slot (set_last a ?kv)]"
        using "1.prems" by simp
      with "1.IH"(1) [OF nxt refl refl] True obtain y where
        "live (ParseBytes_loop (allocArg (set_last a ?kv)) ?r) = (l @ [?kv]) @ parse_query ?r @ [y]"
        unfolding nonblank_def by blast
      with True pq show ?thesis
        by (simp add: ParseBytes_loop.simps [of a b] nxt nonblank_def)
    next
      case blank: False
      have "live (set_last a ?kv) = l @ [?kv]" using "1.prems" by simp
      with "1.IH"(2) [OF nxt refl refl] blank obtain y where
        "live (ParseBytes_loop (set_last a ?kv) ?r) = l @ parse_query ?r @ [y]"
        unfolding nonblank_def by blast
      with blank pq show ?thesis
        by (simp add: ParseBytes_loop.simps [of a b] nxt nonblank_def)
    qed
  qed
qed

text \<open>Parsing into a reused \<^verbatim>\<open>Args\<close> gives what the query string denotes: nothing of the old
  elements or of the old capacity shows.\<close>

lemma live_ParseBytes: "live (ParseBytes a b) = parse_query b"
proof -
  have "live (allocArg (resetArgs a)) = [] @ [alloc_slot (resetArgs a)]" by simp
  from ParseBytes_loop_eq [OF this] obtain y where
    "live (ParseBytes_loop (allocArg (resetArgs a)) b) = [] @ parse_query b @ [y]" by blast
  then show ?thesis by (simp add: ParseBytes_def)
qed

section \<open>Printing\<close>

definition print_kv :: "argsKV \<Rightarrow> bytes" where
  "print_kv kv =
     concat (map quote_byte (kvKey kv)) @
     (if kvNoValue kv then [] else 0x3D # concat (map quote_byte (kvValue kv)))"

fun print_query :: "argsKV list \<Rightarrow> bytes" where
  "print_query [] = []"
| "print_query (kv # args) = print_kv kv @ (if args = [] then [] else 0x26 # print_query args)"

lemma AppendBytes_loop_eq: "AppendBytes_loop args dst = dst @ print_query args"
  by (induction args arbitrary: dst) (auto simp: AppendQuotedArg_eq print_kv_def Let_def)

lemma QueryString_eq: "QueryString a = print_query (live a)"
  by (simp add: QueryString_def AppendBytes_def AppendBytes_loop_eq)

lemma print_kv_no_amp: "0x26 \<notin> set (print_kv kv)"
  using quoted_no_separators by (simp add: print_kv_def)

lemma piece_kv_print: "kv_wf kv \<Longrightarrow> piece_kv (print_kv kv) = kv"
  using quoted_no_separators(2)
  by (cases kv)
    (auto simp: piece_kv_def print_kv_def kv_wf_def index_byte_first url_decode_quote_Nil
      simp del: set_concat set_map)

lemma pieces_print:
  "0x26 \<notin> set p \<Longrightarrow> p \<noteq> [] \<Longrightarrow> query_pieces (p @ 0x26 # rest) = p # query_pieces rest"
  by (subst query_pieces.simps) (simp add: first_piece_def after_piece_def)

lemma pieces_single: "0x26 \<notin> set p \<Longrightarrow> p \<noteq> [] \<Longrightarrow> query_pieces p = [p]"
  by (simp add: query_pieces.simps [of p] query_pieces.simps [of "[]"] first_piece_def after_piece_def)

lemma quote_byte_not_Nil: "quote_byte c \<noteq> []"
  by (simp add: quote_byte_def)

lemma print_kv_not_Nil: "kv_wf kv \<Longrightarrow> nonblank kv \<Longrightarrow> print_kv kv \<noteq> []"
  by (auto simp: print_kv_def nonblank_def kv_wf_def quote_byte_not_Nil neq_Nil_conv)

lemma parse_print_query:
  "\<forall>kv \<in> set l. kv_wf kv \<and> nonblank kv \<Longrightarrow> parse_query (print_query l) = l"
proof (induction l)
  case Nil
  then show ?case by (simp add: parse_query_def query_pieces.simps [of "[]"])
next
  case (Cons kv l)
  then have kv: "kv_wf kv" "nonblank kv" by auto
  note p = print_kv_no_amp [of kv] print_kv_not_Nil [OF kv] piece_kv_print [OF kv(1)]
  show ?case
  proof (cases "l = []")
    case True
    with p kv show ?thesis by (simp add: parse_query_def pieces_single)
  next
    case False
    with p kv Cons show ?thesis by (simp add: parse_query_def pieces_print)
  qed
qed


section \<open>The store interface\<close>

text \<open>What the callers of a key-value slice rely on: a lookup sees the last write of its key, a
  deletion removes the key, other keys are left alone. The clients are \<^verbatim>\<open>Args\<close> itself, the
  header lists and the cookie jars.\<close>

datatype ('k, 'v) store_op = PutOp 'k 'v | DelOp 'k

fun run_store :: "('s \<Rightarrow> 'k \<Rightarrow> 'v \<Rightarrow> 's) \<Rightarrow> ('s \<Rightarrow> 'k \<Rightarrow> 's) \<Rightarrow> ('k, 'v) store_op list \<Rightarrow> 's \<Rightarrow> 's" where
  "run_store put del [] s = s"
| "run_store put del (PutOp k v # ops) s = run_store put del ops (put s k v)"
| "run_store put del (DelOp k # ops) s = run_store put del ops (del s k)"

fun run_map :: "('k, 'v) store_op list \<Rightarrow> ('k \<rightharpoonup> 'v) \<Rightarrow> ('k \<rightharpoonup> 'v)" where
  "run_map [] m = m"
| "run_map (PutOp k v # ops) m = run_map ops (m(k \<mapsto> v))"
| "run_map (DelOp k # ops) m = run_map ops (m(k := None))"

locale kv_store =
  fixes peek :: "'s \<Rightarrow> 'k \<Rightarrow> 'v option"
    and put :: "'s \<Rightarrow> 'k \<Rightarrow> 'v \<Rightarrow> 's"
    and del :: "'s \<Rightarrow> 'k \<Rightarrow> 's"
  assumes peek_put: "peek (put s k v) k' = (if k' = k then Some v else peek s k')"
    and peek_del: "peek (del s k) k' = (if k' = k then None else peek s k')"
begin

lemma peek_put_fun: "peek (put s k v) = (peek s)(k \<mapsto> v)"
  by (rule ext) (simp add: peek_put)

lemma peek_del_fun: "peek (del s k) = (peek s)(k := None)"
  by (rule ext) (simp add: peek_del)

lemma run_refines_map: "peek (run_store put del ops s) = run_map ops (peek s)"
  by (induction ops "peek s" arbitrary: s rule: run_map.induct) (simp_all add: peek_put_fun peek_del_fun)

lemma put_put_same: "peek (put (put s k v) k w) = peek (put s k w)"
  by (simp add: peek_put_fun)

lemma put_put_swap: "k \<noteq> k' \<Longrightarrow> peek (put (put s k v) k' w) = peek (put (put s k' w) k v)"
  by (simp add: peek_put_fun fun_upd_twist)

lemma del_put: "peek (del (put s k v) k) = peek (del s k)"
  by (simp add: peek_put_fun peek_del_fun)

end

text \<open>A store that also keeps several values per key, in the order they were added.\<close>

locale kv_multistore = kv_store peek put del
  for peek :: "'s \<Rightarrow> 'k \<Rightarrow> 'v option" and put :: "'s \<Rightarrow> 'k \<Rightarrow> 'v \<Rightarrow> 's" and del :: "'s \<Rightarrow> 'k \<Rightarrow> 's" +
  fixes add :: "'s \<Rightarrow> 'k \<Rightarrow> 'v \<Rightarrow> 's"
    and vals :: "'s \<Rightarrow> 'k \<Rightarrow> 'v list"
  assumes vals_add: "vals (add s k v) k' = vals s k' @ (if k' = k then [v] else [])"
    and vals_del: "vals (del s k) k' = (if k' = k then [] else vals s k')"
    and peek_vals: "peek s k = (case vals s k of [] \<Rightarrow> None | v # _ \<Rightarrow> Some v)"
begin

lemma vals_foldl_add: "vals (foldl (\<lambda>s v. add s k v) s vs) k = vals s k @ vs"
  by (induction vs arbitrary: s) (simp_all add: vals_add)

lemma peek_add: "peek (add s k v) k' = (case peek s k' of Some w \<Rightarrow> Some w | None \<Rightarrow> if k' = k then Some v else None)"
  by (auto simp: peek_vals vals_add split: list.splits)

lemma add_after_del: "vals (add (del s k) k v) k = [v]"
  by (simp add: vals_add vals_del)

end

interpretation args_store: kv_multistore Args_Peek Args_Set Args_Del Args_Add PeekMulti
proof unfold_locales
  fix s k v k'
  show "Args_Peek (Args_Set s k v) k' = (if k' = k then Some v else Args_Peek s k')"
    by (simp add: Args_Peek_def Args_Set_def peekArgStr_def peekArgBytes_set_kv)
  show "Args_Peek (Args_Del s k) k' = (if k' = k then None else Args_Peek s k')"
    by (simp add: Args_Peek_def Args_Del_def peekArgStr_def peekArgBytes_filter)
  show "PeekMulti (Args_Add s k v) k' = PeekMulti s k' @ (if k' = k then [v] else [])"
    by (simp add: PeekMulti_eq Args_Add_def)
  show "PeekMulti (Args_Del s k) k' = (if k' = k then [] else PeekMulti s k')"
    by (auto simp: PeekMulti_eq Args_Del_def intro: arg_cong [where f = "map kvValue"] filter_cong)
  have "peekArgBytes l k = (case map kvValue (filter (\<lambda>kv. kvKey kv = k) l) of [] \<Rightarrow> None | v # _ \<Rightarrow> Some v)" for l
    by (induction l) auto
  then show "Args_Peek s k = (case PeekMulti s k of [] \<Rightarrow> None | v # _ \<Rightarrow> Some v)"
    by (simp add: Args_Peek_def peekArgStr_def PeekMulti_eq)
qed

section \<open>Properties\<close>

text \<open>percent-decoding inverts percent-encoding. Decoding the quoted form of any byte
  string appends exactly that string, whatever the destination already holds.\<close>

theorem unquote_quote: "AppendUnquotedArg dst (AppendQuotedArg [] s) = dst @ s"
  by (simp add: AppendUnquotedArg_def AppendQuotedArg_eq decodeArgAppend_eq url_decode_quote_Nil)

text \<open>the quoted form of any byte string consists of unreserved characters, percent signs
  and plus signs only, so it never holds a separator of a query string, a space or a control byte.\<close>

theorem quoted_arg_alphabet: "list_all query_safe (AppendQuotedArg [] s)"
  using quoted_safe [of s] by (simp add: AppendQuotedArg_eq list_all_iff)

text \<open>C28: parsing a query string gives exactly the arguments the string denotes (cut at ampersands,
  each piece cut at its first equals sign, both halves percent-decoded, blank pieces dropped), and
  the result does not depend on what the reused Args held before.\<close>

theorem ParseBytes_denotes: "live (ParseBytes a b) = parse_query b"
  by (rule live_ParseBytes)

text \<open>C29: printing arguments and parsing the printed query string gives the same arguments back,
  for arguments that are not blank and whose flag-only entries carry no value.\<close>

theorem query_string_roundtrip:
  assumes "\<forall>kv \<in> set (live a). kv_wf kv \<and> nonblank kv"
  shows "live (ParseBytes a' (QueryString a)) = live a"
  using parse_print_query [OF assms] by (simp add: live_ParseBytes QueryString_eq)

theorem query_string_roundtrip_witness:
  "live (ParseBytes emptyArgs (QueryString (Args_AddNoValue (Args_Add emptyArgs (bs ''a b'') (bs ''1&=2'')) (bs ''flag'')))) =
     [mkKV (bs ''a b'') (bs ''1&=2'') False, mkKV (bs ''flag'') [] True]"
  using query_string_roundtrip
    [of "Args_AddNoValue (Args_Add emptyArgs (bs ''a b'') (bs ''1&=2'')) (bs ''flag'')" emptyArgs]
  by (simp add: Args_AddNoValue_def Args_Add_def nonblank_def)

text \<open>C30: under any sequence of Set and Del calls an Args behaves as a finite map: what Peek
  returns afterwards is what the same updates on the abstract map give.\<close>

theorem args_refine_map: "Args_Peek (run_store Args_Set Args_Del ops a) = run_map ops (Args_Peek a)"
  by (rule args_store.run_refines_map)

text \<open>a non-negative int64 stored with SetUint never panics and is read back by GetUint
  without an error.\<close>

theorem SetUint_GetUint:
  assumes "0 \<le> n" and "n < 2 ^ 63"
  shows "\<exists>a'. SetUint a k n = Some a' \<and> GetUint a' k = (n, None)"
proof -
  have "nat n < 10 ^ 20" using assms by simp
  then have "length (dec_digits (nat n)) \<le> 20" by (intro dec_digits_length) auto
  then have into: "AppendUintInto (replicate 20 0) n = Some (dec_digits (nat n))"
    using assms(1) by (simp add: AppendUintInto_def uint_digits_loop_eq)
  have "ParseUint (dec_digits (nat n)) = (n, None)"
    using ParseUint_dec_digits [of "nat n"] assms by simp
  with into show ?thesis
    by (simp add: SetUint_def GetUint_def peek_bytes_def peekArgBytes_set_kv Let_def)
qed

theorem SetUint_GetUint_witness:
  "\<exists>a'. SetUint emptyArgs (bs ''n'') 12345 = Some a' \<and> GetUint a' (bs ''n'') = (12345, None)"
  by (rule SetUint_GetUint) simp_all

end
