(* ===== verification/URI.thy ===== *)
theory URI
  imports Args
begin

text \<open>
  The model of \<^verbatim>\<open>uri.go\<close> (with \<^verbatim>\<open>uri_unix.go\<close>): splitting a request target into scheme, user
  information, host, path, query string and fragment; unescaping and checking the host; path
  normalization; printing and updating. The build for a platform whose path separator is a slash
  is the one modelled.

  The scratch slices a method truncates and refills are values here: a field holds the bytes
  between the slice's bounds.
\<close>

section \<open>The URI\<close>

abbreviation slash :: byte where "slash \<equiv> 0x2F"
abbreviation strSlash :: bytes where "strSlash \<equiv> [slash]"
abbreviation strSlashSlash :: bytes where "strSlashSlash \<equiv> [slash, slash]"
abbreviation strSlashDotSlash :: bytes where "strSlashDotSlash \<equiv> [slash, 0x2E, slash]"
abbreviation strSlashDotDotSlash :: bytes where "strSlashDotDotSlash \<equiv> [slash, 0x2E, 0x2E, slash]"
abbreviation strSlashDotDot :: bytes where "strSlashDotDot \<equiv> [slash, 0x2E, 0x2E]"
abbreviation strColonSlashSlash :: bytes where "strColonSlashSlash \<equiv> [0x3A, slash, slash]"
abbreviation strHTTP :: bytes where "strHTTP \<equiv> bs ''http''"
abbreviation strHTTPS :: bytes where "strHTTPS \<equiv> bs ''https''"

record URI =
  uPathOriginal :: bytes
  uScheme :: bytes
  uPath :: bytes
  uQueryString :: bytes
  uHash :: bytes
  uHost :: bytes
  uQueryArgs :: kvslice
  uParsedQueryArgs :: bool
  uDisablePathNormalizing :: bool
  uFullURI :: bytes
  uRequestURI :: bytes
  uUsername :: bytes
  uPassword :: bytes

datatype uri_error =
  ErrorInvalidURI | MissingBracketInHost | InvalidPortAfterHost bytes
| EscapeError bytes | InvalidHostError bytes

definition emptyURI :: URI where
  "emptyURI = \<lparr>uPathOriginal = [], uScheme = [], uPath = [], uQueryString = [], uHash = [],
     uHost = [], uQueryArgs = emptyArgs, uParsedQueryArgs = False, uDisablePathNormalizing = False,
     uFullURI = [], uRequestURI = [], uUsername = [], uPassword = []\<rparr>"

definition URI_Reset :: "URI \<Rightarrow> URI" where
  "URI_Reset u = u\<lparr>uPathOriginal := [], uScheme := [], uPath := [], uQueryString := [], uHash := [],
     uUsername := [], uPassword := [], uHost := [], uQueryArgs := resetArgs (uQueryArgs u),
     uParsedQueryArgs := False, uDisablePathNormalizing := False\<rparr>"

definition URI_CopyTo :: "URI \<Rightarrow> URI \<Rightarrow> URI" where
  "URI_CopyTo u dst =
     (let dst = URI_Reset dst
      in dst\<lparr>uPathOriginal := uPathOriginal dst @ uPathOriginal u, uScheme := uScheme dst @ uScheme u,
           uPath := uPath dst @ uPath u, uQueryString := uQueryString dst @ uQueryString u,
           uHash := uHash dst @ uHash u, uHost := uHost dst @ uHost u,
           uUsername := uUsername dst @ uUsername u, uPassword := uPassword dst @ uPassword u,
           uQueryArgs := copyArgs (uQueryArgs dst) (uQueryArgs u),
           uParsedQueryArgs := uParsedQueryArgs u,
           uDisablePathNormalizing := uDisablePathNormalizing u\<rparr>)"

definition URI_SetHash :: "URI \<Rightarrow> bytes \<Rightarrow> URI" where
  "URI_SetHash u h = u\<lparr>uHash := h\<rparr>"

definition URI_SetUsername :: "URI \<Rightarrow> bytes \<Rightarrow> URI" where
  "URI_SetUsername u s = u\<lparr>uUsername := s\<rparr>"

definition URI_SetPassword :: "URI \<Rightarrow> bytes \<Rightarrow> URI" where
  "URI_SetPassword u s = u\<lparr>uPassword := s\<rparr>"

definition URI_SetQueryString :: "URI \<Rightarrow> bytes \<Rightarrow> URI" where
  "URI_SetQueryString u q = u\<lparr>uQueryString := q, uParsedQueryArgs := False\<rparr>"

definition URI_Path :: "URI \<Rightarrow> bytes" where
  "URI_Path u = (if uPath u = [] then strSlash else uPath u)"

definition URI_Scheme :: "URI \<Rightarrow> bytes" where
  "URI_Scheme u = (if uScheme u = [] then strHTTP else uScheme u)"

definition URI_SetScheme :: "URI \<Rightarrow> bytes \<Rightarrow> URI" where
  "URI_SetScheme u s = u\<lparr>uScheme := lowercaseBytes s\<rparr>"

definition URI_isHTTPS :: "URI \<Rightarrow> bool" where
  "URI_isHTTPS u \<longleftrightarrow> uScheme u = strHTTPS"

definition URI_isHTTP :: "URI \<Rightarrow> bool" where
  "URI_isHTTP u \<longleftrightarrow> uScheme u = [] \<or> uScheme u = strHTTP"

definition URI_SetHost :: "URI \<Rightarrow> bytes \<Rightarrow> URI" where
  "URI_SetHost u h = u\<lparr>uHost := lowercaseBytes h\<rparr>"

section \<open>Path normalization\<close>

definition addLeadingSlash :: "bytes \<Rightarrow> bytes \<Rightarrow> bytes" where
  "addLeadingSlash dst src = (if src = [] \<or> src ! 0 \<noteq> slash then dst @ [slash] else dst)"

text \<open>Each loop of \<^verbatim>\<open>normalizePath\<close> shifts the rest of the buffer left with \<^verbatim>\<open>copy\<close> and shortens
  the slice. The first loop moves its window: the bytes it has left behind are the first argument.\<close>

function removeSlashSlash :: "bytes \<Rightarrow> bytes \<Rightarrow> bytes" where
  "removeSlashSlash done b =
     (case index_bytes b strSlashSlash of
        None \<Rightarrow> done @ b
      | Some n \<Rightarrow> removeSlashSlash (done @ take n b) (drop 1 (drop n b)))"
  by pat_completeness auto
termination
  by (relation "measure (\<lambda>(done, b). length b)") (auto dest: index_bytes_lt)

function removeSlashDotSlash :: "bytes \<Rightarrow> bytes" where
  "removeSlashDotSlash b =
     (case index_bytes b strSlashDotSlash of
        None \<Rightarrow> b
      | Some n \<Rightarrow> removeSlashDotSlash (take n b @ drop (n + 3 - 1) b))"
  by pat_completeness auto
termination
  by (relation "measure length") (auto dest!: index_bytes_lt)

function removeSlashDotDotSlash :: "bytes \<Rightarrow> bytes" where
  "removeSlashDotDotSlash b =
     (case index_bytes b strSlashDotDotSlash of
        None \<Rightarrow> b
      | Some n \<Rightarrow>
          (let nn = (case last_index_byte (take n b) slash of None \<Rightarrow> 0 | Some k \<Rightarrow> k)
           in removeSlashDotDotSlash (take nn b @ drop (n + 4 - 1) b)))"
  by pat_completeness auto
termination
  by (relation "measure length")
    (auto dest!: index_bytes_lt last_index_byte_lt split: option.splits)

declare removeSlashSlash.simps [simp del] removeSlashDotSlash.simps [simp del]
  removeSlashDotDotSlash.simps [simp del]

definition removeTrailingDotDot :: "bytes \<Rightarrow> bytes" where
  "removeTrailingDotDot b =
     (case last_index_bytes b strSlashDotDot of
        None \<Rightarrow> b
      | Some n \<Rightarrow>
          if n + 3 = length b
          then (case last_index_byte (take n b) slash of
                  None \<Rightarrow> strSlash
                | Some nn \<Rightarrow> take (nn + 1) b)
          else b)"

definition normalizePath :: "bytes \<Rightarrow> bytes \<Rightarrow> bytes" where
  "normalizePath dst src =
     (let dst = decodeArgAppendNoPlus (addLeadingSlash [] src) src;
          dst = removeSlashSlash [] dst
      in removeTrailingDotDot (removeSlashDotDotSlash (removeSlashDotSlash dst)))"

definition URI_SetPath :: "URI \<Rightarrow> bytes \<Rightarrow> URI" where
  "URI_SetPath u p = u\<lparr>uPathOriginal := p, uPath := normalizePath (uPath u) p\<rparr>"

section \<open>The host\<close>

datatype encoding = encodeHost | encodeZone

definition ishex :: "byte \<Rightarrow> bool" where
  "ishex c \<longleftrightarrow> hex2intTable c < 16"

definition unhex :: "byte \<Rightarrow> byte" where
  "unhex c = hex2intTable c AND 15"

definition shouldEscape :: "byte \<Rightarrow> encoding \<Rightarrow> bool" where
  "shouldEscape c mode \<longleftrightarrow>
     \<not> (0x61 \<le> c \<and> c \<le> 0x7A \<or> 0x41 \<le> c \<and> c \<le> 0x5A \<or> 0x30 \<le> c \<and> c \<le> 0x39) \<and>
     c \<notin> set (bs ''!$&'' @ [0x27] @ bs ''()*+,;=:[]<>'' @ [0x22]) \<and>
     c \<notin> set (bs ''-_.~'')"

definition validOptionalPort :: "bytes \<Rightarrow> bool" where
  "validOptionalPort port \<longleftrightarrow>
     port = [] \<or> port ! 0 = 0x3A \<and> list_all (\<lambda>b. \<not> (b < 0x30 \<or> b > 0x39)) (drop 1 port)"

text \<open>The two loops of \<^verbatim>\<open>unescape\<close>. The first checks every escape and counts them; the second
  decodes in place and runs only on a string the first accepted, in which each \<^verbatim>\<open>%\<close> has two
  digits after it.\<close>

fun unescape_check :: "encoding \<Rightarrow> bytes \<Rightarrow> nat \<Rightarrow> uri_error + nat" where
  "unescape_check mode [] n = Inr n"
| "unescape_check mode (c # s) n =
     (if c = 0x25
      then (case s of
              h # l # rest \<Rightarrow>
                if \<not> ishex h \<or> \<not> ishex l then Inl (EscapeError (take 3 (c # s)))
                else if mode = encodeHost \<and> unhex h < 8 \<and> [c, h, l] \<noteq> bs ''%25''
                then Inl (EscapeError [c, h, l])
                else if mode = encodeZone \<and> [c, h, l] \<noteq> bs ''%25'' \<and>
                        push_bit 4 (unhex h) OR unhex l \<noteq> spChar \<and>
                        shouldEscape (push_bit 4 (unhex h) OR unhex l) encodeHost
                then Inl (EscapeError [c, h, l])
                else unescape_check mode rest (n + 1)
            | _ \<Rightarrow> Inl (EscapeError (take 3 (c # s))))
      else if (mode = encodeHost \<or> mode = encodeZone) \<and> c < 0x80 \<and> shouldEscape c mode
      then Inl (InvalidHostError [c])
      else unescape_check mode s n)"

fun unescape_decode :: "bytes \<Rightarrow> bytes" where
  "unescape_decode [] = []"
| "unescape_decode (c # s) =
     (if c = 0x25
      then (case s of
              h # l # rest \<Rightarrow> (push_bit 4 (unhex h) OR unhex l) # unescape_decode rest
            | _ \<Rightarrow> [])
      else c # unescape_decode s)"

definition unescape :: "bytes \<Rightarrow> encoding \<Rightarrow> uri_error + bytes" where
  "unescape s mode =
     (case unescape_check mode s 0 of
        Inl e \<Rightarrow> Inl e
      | Inr n \<Rightarrow> if n = 0 then Inr s else Inr (unescape_decode s))"

text \<open>What a successful \<^verbatim>\<open>unescape\<close> of the part \<open>s\<close> leaves in the memory of \<open>s\<close>.\<close>

definition overwrite :: "bytes \<Rightarrow> bytes \<Rightarrow> bytes" where
  "overwrite s t = t @ drop (length t) s"

text \<open>\<^verbatim>\<open>parseHost\<close> works in place, so a failure after a first successful \<^verbatim>\<open>unescape\<close> leaves the
  buffer changed; the error comes with the contents of the buffer.\<close>

definition parseHost :: "bytes \<Rightarrow> (uri_error \<times> bytes) + bytes" where
  "parseHost host =
     (let plain = (case unescape host encodeHost of Inl e \<Rightarrow> Inl (e, host) | Inr h \<Rightarrow> Inr h)
      in if host \<noteq> [] \<and> host ! 0 = 0x5B
         then (case last_index_byte host 0x5D of
                 None \<Rightarrow> Inl (MissingBracketInHost, host)
               | Some i \<Rightarrow>
                   if \<not> validOptionalPort (drop (i + 1) host)
                   then Inl (InvalidPortAfterHost (drop (i + 1) host), host)
                   else (case index_bytes (take i host) (bs ''%25'') of
                           None \<Rightarrow> plain
                         | Some zone \<Rightarrow>
                             let p1 = take zone host; p2 = slice host zone i; p3 = drop i host
                             in (case unescape p1 encodeHost of
                                   Inl e \<Rightarrow> Inl (e, host)
                                 | Inr host1 \<Rightarrow>
                                     (case unescape p2 encodeZone of
                                        Inl e \<Rightarrow> Inl (e, overwrite p1 host1 @ p2 @ p3)
                                      | Inr host2 \<Rightarrow>
                                          (case unescape p3 encodeHost of
                                             Inl e \<Rightarrow> Inl (e, overwrite p1 host1 @ overwrite p2 host2 @ p3)
                                           | Inr host3 \<Rightarrow> Inr (host1 @ host2 @ host3))))))
         else (case last_index_byte host 0x3A of
                 None \<Rightarrow> plain
               | Some i \<Rightarrow>
                   if \<not> validOptionalPort (drop i host)
                   then Inl (InvalidPortAfterHost (drop i host), host)
                   else plain))"

section \<open>Parsing\<close>

definition stringContainsCTLByte :: "bytes \<Rightarrow> bool" where
  "stringContainsCTLByte s \<longleftrightarrow> list_ex (\<lambda>b. b < 0x20 \<or> b = 0x7F) s"

definition splitHostURI :: "bytes \<Rightarrow> bytes \<Rightarrow> bytes \<times> bytes \<times> bytes" where
  "splitHostURI host uri =
     (case index_bytes uri strSlashSlash of
        None \<Rightarrow> (strHTTP, host, uri)
      | Some n \<Rightarrow>
          let scheme = take n uri
          in if index_byte scheme slash \<noteq> None then (strHTTP, host, uri)
             else (let scheme = (if scheme \<noteq> [] \<and> last scheme = 0x3A then butlast scheme else scheme);
                       uri = drop (n + 2) uri
                   in (case (index_byte uri slash, index_byte uri 0x3F) of
                         (Some n, Some nq) \<Rightarrow>
                           if nq < n then (scheme, take nq uri, drop nq uri)
                           else (scheme, take n uri, drop n uri)
                       | (Some n, None) \<Rightarrow> (scheme, take n uri, drop n uri)
                       | (None, Some nq) \<Rightarrow> (scheme, take nq uri, drop nq uri)
                       | (None, None) \<Rightarrow> (scheme, uri, strSlash))))"

text \<open>\<^verbatim>\<open>parse\<close> in three parts, in the order of the code: the user information before an at sign, the
  path, query and fragment of the target, and the method that uses both.\<close>

definition parse_userinfo :: "URI \<Rightarrow> bytes \<Rightarrow> URI \<times> bytes" where
  "parse_userinfo u host =
     (case index_byte host 0x40 of
        None \<Rightarrow> (u, host)
      | Some n \<Rightarrow>
          let auth = take n host
          in (case index_byte auth 0x3A of
                Some m \<Rightarrow> u\<lparr>uUsername := take m auth, uPassword := drop (m + 1) auth\<rparr>
              | None \<Rightarrow> u\<lparr>uUsername := auth, uPassword := []\<rparr>,
              drop (n + 1) host))"

definition parse_target :: "URI \<Rightarrow> bytes \<Rightarrow> URI" where
  "parse_target u b =
     (let fragmentIndex = index_byte b 0x23;
          queryIndex = (case (fragmentIndex, index_byte b 0x3F) of
                          (Some f, Some q) \<Rightarrow> if q > f then None else Some q
                        | (_, q) \<Rightarrow> q)
      in (case (queryIndex, fragmentIndex) of
            (None, None) \<Rightarrow>
              let po = uPathOriginal u @ b
              in u\<lparr>uPathOriginal := po, uPath := normalizePath (uPath u) po\<rparr>
          | (Some q, f) \<Rightarrow>
              let po = uPathOriginal u @ take q b;
                  u = u\<lparr>uPathOriginal := po, uPath := normalizePath (uPath u) po\<rparr>
              in (case f of
                    None \<Rightarrow> u\<lparr>uQueryString := uQueryString u @ drop (q + 1) b\<rparr>
                  | Some f \<Rightarrow> u\<lparr>uQueryString := uQueryString u @ slice b (q + 1) f,
                                uHash := uHash u @ drop (f + 1) b\<rparr>)
          | (None, Some f) \<Rightarrow>
              let po = uPathOriginal u @ take f b
              in u\<lparr>uPathOriginal := po, uPath := normalizePath (uPath u) po,
                   uHash := uHash u @ drop (f + 1) b\<rparr>))"

definition URI_parse :: "URI \<Rightarrow> bytes \<Rightarrow> bytes \<Rightarrow> bool \<Rightarrow> URI \<times> uri_error option" where
  "URI_parse u host uri isTLS =
     (let u = URI_Reset u
      in if stringContainsCTLByte uri then (u, Some ErrorInvalidURI)
         else (let (u, host, uri) =
                     (if host = [] \<or> contains_bytes uri strColonSlashSlash
                      then (case splitHostURI host uri of
                              (scheme, newHost, newURI) \<Rightarrow> (URI_SetScheme u scheme, newHost, newURI))
                      else (u, host, uri));
                   u = (if isTLS then URI_SetScheme u strHTTPS else u);
                   (u, host) = parse_userinfo u host
               in (case parseHost host of
                     Inl (e, buf) \<Rightarrow> (u\<lparr>uHost := buf\<rparr>, Some e)
                   | Inr h \<Rightarrow> (parse_target (u\<lparr>uHost := lowercaseBytes h\<rparr>) uri, None))))"

definition URI_Parse :: "URI \<Rightarrow> bytes \<Rightarrow> bytes \<Rightarrow> URI \<times> uri_error option" where
  "URI_Parse u host uri = URI_parse u host uri False"

section \<open>Printing and updating\<close>

definition URI_RequestURI :: "URI \<Rightarrow> URI \<times> bytes" where
  "URI_RequestURI u =
     (let dst = (if uDisablePathNormalizing u then uPathOriginal u else appendQuotedPath [] (URI_Path u));
          dst = (if uParsedQueryArgs u \<and> length (live (uQueryArgs u)) > 0
                 then AppendBytes (uQueryArgs u) (dst @ [0x3F])
                 else if uQueryString u \<noteq> [] then dst @ [0x3F] @ uQueryString u
                 else dst)
      in (u\<lparr>uRequestURI := dst\<rparr>, dst))"

definition URI_LastPathSegment :: "URI \<Rightarrow> bytes" where
  "URI_LastPathSegment u =
     (let path = URI_Path u
      in (case last_index_byte path slash of None \<Rightarrow> path | Some n \<Rightarrow> drop (n + 1) path))"

definition URI_appendSchemeHost :: "URI \<Rightarrow> bytes \<Rightarrow> bytes" where
  "URI_appendSchemeHost u dst = dst @ URI_Scheme u @ strColonSlashSlash @ uHost u"

definition URI_AppendBytes :: "URI \<Rightarrow> bytes \<Rightarrow> URI \<times> bytes" where
  "URI_AppendBytes u dst =
     (let dst = URI_appendSchemeHost u dst;
          (u, r) = URI_RequestURI u;
          dst = dst @ r
      in (u, if uHash u \<noteq> [] then dst @ [0x23] @ uHash u else dst))"

definition URI_FullURI :: "URI \<Rightarrow> URI \<times> bytes" where
  "URI_FullURI u = (let (u, f) = URI_AppendBytes u [] in (u\<lparr>uFullURI := f\<rparr>, f))"

text \<open>\<^verbatim>\<open>updateBytes\<close> returns the buffer; \<open>None\<close> is the panic on a path without a slash.\<close>

definition URI_updateBytes :: "URI \<Rightarrow> bytes \<Rightarrow> bytes \<Rightarrow> (URI \<times> bytes) option" where
  "URI_updateBytes u newURI buf =
     (if newURI = [] then Some (u, buf)
      else if index_bytes newURI strSlashSlash \<noteq> None
      then (let schemeOriginal = uScheme u
            in (case URI_Parse u [] newURI of
                  (u, Some e) \<Rightarrow> Some (u, [])
                | (u, None) \<Rightarrow>
                    Some (if schemeOriginal \<noteq> [] \<and> uScheme u = [] then u\<lparr>uScheme := schemeOriginal\<rparr> else u, buf)))
      else if newURI ! 0 = slash
      then (let buf = URI_appendSchemeHost u [] @ newURI
            in (case URI_Parse u [] buf of (u, Some e) \<Rightarrow> Some (u, []) | (u, None) \<Rightarrow> Some (u, buf)))
      else if newURI ! 0 = 0x3F then Some (URI_FullURI (URI_SetQueryString u (drop 1 newURI)))
      else if newURI ! 0 = 0x23 then Some (URI_FullURI (URI_SetHash u (drop 1 newURI)))
      else (let path = URI_Path u
            in (case last_index_byte path slash of
                  None \<Rightarrow> None
                | Some n \<Rightarrow>
                    let buf = appendQuotedPath (URI_appendSchemeHost u []) (take (n + 1) path) @ newURI
                    in (case URI_Parse u [] buf of (u, Some e) \<Rightarrow> Some (u, []) | (u, None) \<Rightarrow> Some (u, buf)))))"

definition URI_UpdateBytes :: "URI \<Rightarrow> bytes \<Rightarrow> URI option" where
  "URI_UpdateBytes u newURI =
     map_option (\<lambda>(u, buf). u\<lparr>uRequestURI := buf\<rparr>) (URI_updateBytes u newURI (uRequestURI u))"

definition URI_parseQueryArgs :: "URI \<Rightarrow> URI" where
  "URI_parseQueryArgs u =
     (if uParsedQueryArgs u then u
      else u\<lparr>uQueryArgs := ParseBytes (uQueryArgs u) (uQueryString u), uParsedQueryArgs := True\<rparr>)"

definition URI_QueryArgs :: "URI \<Rightarrow> URI \<times> kvslice" where
  "URI_QueryArgs u = (let u = URI_parseQueryArgs u in (u, uQueryArgs u))"

section \<open>Paths as lists of segments\<close>

text \<open>The reference for path normalization: cut the path at slashes, drop empty and dot segments,
  let a dot-dot segment remove the one before it. The last segment is kept, except that a final
  dot-dot becomes an empty segment after the removal.\<close>

definition path_of :: "bytes list \<Rightarrow> bytes" where
  "path_of ss = concat (map (\<lambda>s. slash # s) ss)"

definition resolve_step :: "bytes list \<Rightarrow> bytes \<Rightarrow> bytes list" where
  "resolve_step st s =
     (if s = [] \<or> s = [0x2E] then st else if s = [0x2E, 0x2E] then tl st else s # st)"

definition resolve_segments :: "bytes list \<Rightarrow> bytes list" where
  "resolve_segments ss =
     (let st = foldl resolve_step [] (butlast ss)
      in if last ss = [0x2E, 0x2E] then rev (tl st) @ [[]] else rev st @ [last ss])"

definition normal_segment :: "bytes \<Rightarrow> bool" where
  "normal_segment s \<longleftrightarrow> s \<noteq> [] \<and> s \<noteq> [0x2E] \<and> s \<noteq> [0x2E, 0x2E] \<and> slash \<notin> set s"

definition normal_path :: "bytes \<Rightarrow> bool" where
  "normal_path p \<longleftrightarrow>
     (\<exists>ss t. p = path_of (ss @ [t]) \<and> list_all normal_segment ss \<and> t \<noteq> [0x2E, 0x2E] \<and> slash \<notin> set t)"

abbreviation slash_free :: "bytes list \<Rightarrow> bool" where
  "slash_free ss \<equiv> list_all (\<lambda>s. slash \<notin> set s) ss"

lemma path_of_simps [simp]:
  "path_of [] = []" "path_of (s # ss) = slash # s @ path_of ss" "path_of (ss @ ts) = path_of ss @ path_of ts"
  by (simp_all add: path_of_def)

lemma path_of_Nil_iff [simp]: "path_of ss = [] \<longleftrightarrow> ss = []"
  by (cases ss) simp_all

lemma path_of_split: "path_of (split_on slash b) = slash # b"
proof (induction b)
  case Nil
  then show ?case by simp
next
  case (Cons x b)
  obtain s ss where "split_on slash b = s # ss" by (cases "split_on slash b") auto
  with Cons show ?case by auto
qed

lemma split_path_of: "ss \<noteq> [] \<Longrightarrow> slash_free ss \<Longrightarrow> split_on slash (path_of ss) = [] # ss"
proof (induction ss)
  case Nil
  then show ?case by simp
next
  case (Cons s ss)
  show ?case
  proof (cases "ss = []")
    case True
    with Cons.prems show ?thesis by (simp add: split_on_notin)
  next
    case False
    then obtain t ts where ss: "ss = t # ts" by (cases ss) auto
    have "split_on slash (s @ slash # (t @ path_of ts)) = split_on slash s @ split_on slash (t @ path_of ts)"
      by (rule split_on_append)
    moreover have "[] # split_on slash (t @ path_of ts) = [] # ss"
      using Cons.IH Cons.prems False ss by simp
    ultimately show ?thesis using Cons.prems ss by (simp add: split_on_notin)
  qed
qed

lemma slash_free_split [simp]: "slash_free (split_on slash b)"
  by (simp add: list_all_iff split_on_free)

text \<open>A segment between two slashes is found where it stands in the list.\<close>

lemma prefix_segment:
  assumes "slash \<notin> set s" "slash \<notin> set w"
  shows "has_prefix (s @ path_of ss) (w @ [slash]) \<longleftrightarrow> s = w \<and> ss \<noteq> []"
proof
  assume "has_prefix (s @ path_of ss) (w @ [slash])"
  then obtain zs where zs: "s @ path_of ss = w @ slash # zs" by (auto simp: has_prefix_prefix prefix_def)
  then have "takeWhile (\<lambda>c. c \<noteq> slash) (s @ path_of ss) = w" using assms(2) by simp
  moreover have "ss \<noteq> []" using zs assms(1) by (cases ss) (auto dest: arg_cong [where f = set])
  ultimately show "s = w \<and> ss \<noteq> []" using assms(1) by (cases ss) auto
next
  assume "s = w \<and> ss \<noteq> []"
  then show "has_prefix (s @ path_of ss) (w @ [slash])"
    by (cases ss) (auto simp: has_prefix_prefix)
qed

lemma index_segment:
  assumes "slash \<notin> set w" "slash_free (s # ss)"
  shows "index_bytes (path_of (s # ss)) (slash # w @ [slash]) =
           (if s = w \<and> ss \<noteq> [] then Some 0
            else map_option (\<lambda>n. Suc (length s + n)) (index_bytes (path_of ss) (slash # w @ [slash])))"
  using assms prefix_segment [of s w ss] index_bytes_skip [of slash s "path_of ss" "w @ [slash]"]
  by (auto simp: option.map_comp comp_def)

lemma index_segment_Some:
  assumes "slash \<notin> set w" "slash_free ss" "index_bytes (path_of ss) (slash # w @ [slash]) = Some n"
  shows "\<exists>xs ys. ss = xs @ w # ys \<and> ys \<noteq> [] \<and> n = length (path_of xs) \<and> w \<notin> set xs"
  using assms
proof (induction ss arbitrary: n)
  case Nil
  then show ?case by simp
next
  case (Cons s ss)
  show ?case
  proof (cases "s = w \<and> ss \<noteq> []")
    case True
    with Cons.prems index_segment [of w s ss] show ?thesis by (intro exI [of _ "[]"] exI [of _ ss]) auto
  next
    case False
    with Cons.prems index_segment [of w s ss] obtain m
      where m: "index_bytes (path_of ss) (slash # w @ [slash]) = Some m" and n: "n = Suc (length s + m)"
      by (auto simp del: path_of_simps)
    from Cons.IH [OF Cons.prems(1) _ m] Cons.prems(2)
    obtain xs ys where "ss = xs @ w # ys" "ys \<noteq> []" "m = length (path_of xs)" "w \<notin> set xs" by auto
    moreover from this False have "s \<noteq> w" by auto
    ultimately show ?thesis using n by (intro exI [of _ "s # xs"] exI [of _ ys]) auto
  qed
qed

lemma index_segment_None:
  assumes "slash \<notin> set w" "slash_free ss" "index_bytes (path_of ss) (slash # w @ [slash]) = None"
  shows "w \<notin> set (butlast ss)"
  using assms
proof (induction ss)
  case Nil
  then show ?case by simp
next
  case (Cons s ss)
  then show ?case using index_segment [of w s ss] by (auto simp del: path_of_simps split: if_splits)
qed

lemma last_slash_path_of:
  "slash_free ss \<Longrightarrow> ss \<noteq> [] \<Longrightarrow> last_index_byte (path_of ss) slash = Some (length (path_of (butlast ss)))"
  by (induction ss rule: rev_induct) (auto simp: last_index_byte_last)

text \<open>The loops on segments.\<close>

definition drop_segment :: "bytes \<Rightarrow> bytes list \<Rightarrow> bytes list" where
  "drop_segment w ss = filter (\<lambda>s. s \<noteq> w) (butlast ss) @ [last ss]"

definition pop_step :: "bytes list \<Rightarrow> bytes \<Rightarrow> bytes list" where
  "pop_step st s = (if s = [0x2E, 0x2E] then tl st else s # st)"

definition pop_segments :: "bytes list \<Rightarrow> bytes list" where
  "pop_segments ss = rev (foldl pop_step [] (butlast ss)) @ [last ss]"

lemma drop_segment_id: "ss \<noteq> [] \<Longrightarrow> w \<notin> set (butlast ss) \<Longrightarrow> drop_segment w ss = ss"
  unfolding drop_segment_def by (subst filter_True) auto

lemma drop_segment_step: "ys \<noteq> [] \<Longrightarrow> drop_segment w (xs @ w # ys) = drop_segment w (xs @ ys)"
  by (simp add: drop_segment_def butlast_append)

lemma removeSlashSlash_eq:
  "ss \<noteq> [] \<Longrightarrow> slash_free ss \<Longrightarrow> removeSlashSlash d (path_of ss) = d @ path_of (drop_segment [] ss)"
proof (induction ss arbitrary: d rule: length_induct)
  case (1 ss)
  show ?case
  proof (cases "index_bytes (path_of ss) strSlashSlash")
    case None
    with index_segment_None [of "[]" ss] "1.prems" show ?thesis
      by (simp add: removeSlashSlash.simps [of d "path_of ss"] drop_segment_id)
  next
    case (Some n)
    with index_segment_Some [of "[]" ss n] "1.prems" obtain xs ys
      where ss: "ss = xs @ [] # ys" "ys \<noteq> []" "n = length (path_of xs)" "[] \<notin> set xs" by auto
    have "removeSlashSlash d (path_of ss) = removeSlashSlash (d @ path_of xs) (path_of ys)"
      using Some ss by (simp add: removeSlashSlash.simps [of d "path_of xs @ slash # path_of ys"])
    also have "\<dots> = d @ path_of xs @ path_of (drop_segment [] ys)"
      using "1.IH" "1.prems" ss by simp
    also have "path_of xs @ path_of (drop_segment [] ys) = path_of (drop_segment [] ss)"
    proof -
      have "filter (\<lambda>s. s \<noteq> []) xs = xs" using ss(4) by (intro filter_True) auto
      with ss(1,2) show ?thesis by (simp add: drop_segment_def butlast_append)
    qed
    finally show ?thesis .
  qed
qed

lemma removeSlashDotSlash_eq:
  "ss \<noteq> [] \<Longrightarrow> slash_free ss \<Longrightarrow> removeSlashDotSlash (path_of ss) = path_of (drop_segment [0x2E] ss)"
proof (induction ss rule: length_induct)
  case (1 ss)
  show ?case
  proof (cases "index_bytes (path_of ss) strSlashDotSlash")
    case None
    with index_segment_None [of "[0x2E]" ss] "1.prems" show ?thesis
      by (simp add: removeSlashDotSlash.simps [of "path_of ss"] drop_segment_id)
  next
    case (Some n)
    with index_segment_Some [of "[0x2E]" ss n] "1.prems" obtain xs ys
      where ss: "ss = xs @ [0x2E] # ys" "ys \<noteq> []" "n = length (path_of xs)" by auto
    have "removeSlashDotSlash (path_of ss) = removeSlashDotSlash (path_of (xs @ ys))"
      using Some ss by (simp add: removeSlashDotSlash.simps [of "path_of xs @ slash # 0x2E # path_of ys"])
    also have "\<dots> = path_of (drop_segment [0x2E] (xs @ ys))"
      using "1.IH" "1.prems" ss by (simp del: path_of_simps)
    finally show ?thesis using ss by (simp add: drop_segment_step)
  qed
qed

lemma pop_all: "[0x2E, 0x2E] \<notin> set xs \<Longrightarrow> foldl pop_step st xs = rev xs @ st"
  by (induction xs arbitrary: st) (auto simp: pop_step_def)

lemma pop_segments_id: "ss \<noteq> [] \<Longrightarrow> [0x2E, 0x2E] \<notin> set (butlast ss) \<Longrightarrow> pop_segments ss = ss"
  by (simp add: pop_segments_def pop_all)

lemma pop_segments_step:
  assumes "ys \<noteq> []" "[0x2E, 0x2E] \<notin> set xs"
  shows "pop_segments (xs @ [0x2E, 0x2E] # ys) = pop_segments (butlast xs @ ys)"
proof -
  have "[0x2E, 0x2E] \<notin> set (butlast xs)" using assms(2) by (auto dest: in_set_butlastD)
  moreover have "tl (rev xs) = rev (butlast xs)" by (metis butlast_rev rev_rev_ident)
  moreover have "pop_step (rev xs) [0x2E, 0x2E] = tl (rev xs)" by (simp add: pop_step_def)
  ultimately show ?thesis using assms by (simp add: pop_segments_def butlast_append pop_all)
qed

lemma removeSlashDotDotSlash_eq:
  "ss \<noteq> [] \<Longrightarrow> slash_free ss \<Longrightarrow> removeSlashDotDotSlash (path_of ss) = path_of (pop_segments ss)"
proof (induction ss rule: length_induct)
  case (1 ss)
  show ?case
  proof (cases "index_bytes (path_of ss) strSlashDotDotSlash")
    case None
    with index_segment_None [of "[0x2E, 0x2E]" ss] "1.prems" show ?thesis
      by (simp add: removeSlashDotDotSlash.simps [of "path_of ss"] pop_segments_id)
  next
    case (Some n)
    with index_segment_Some [of "[0x2E, 0x2E]" ss n] "1.prems" obtain xs ys
      where ss: "ss = xs @ [0x2E, 0x2E] # ys" "ys \<noteq> []" "n = length (path_of xs)" "[0x2E, 0x2E] \<notin> set xs"
      by auto
    let ?nn = "case last_index_byte (path_of xs) slash of None \<Rightarrow> 0 | Some k \<Rightarrow> k"
    have nn: "take ?nn (path_of xs) = path_of (butlast xs)" "?nn \<le> length (path_of xs)"
    proof -
      have "xs \<noteq> [] \<Longrightarrow> path_of xs = path_of (butlast xs) @ slash # last xs"
        by (metis append.right_neutral append_butlast_last_id path_of_simps)
      then show "take ?nn (path_of xs) = path_of (butlast xs)" "?nn \<le> length (path_of xs)"
        using last_slash_path_of [of xs] "1.prems" ss by (cases "xs = []"; simp)+
    qed
    have "removeSlashDotDotSlash (path_of ss) = removeSlashDotDotSlash (path_of (butlast xs @ ys))"
      using Some ss nn
      by (simp add: removeSlashDotDotSlash.simps [of "path_of xs @ slash # 0x2E # 0x2E # path_of ys"] Let_def)
    also have "\<dots> = path_of (pop_segments (butlast xs @ ys))"
    proof -
      have "length (butlast xs @ ys) < length ss" "butlast xs @ ys \<noteq> []" using ss by auto
      moreover have "slash_free (butlast xs @ ys)" using "1.prems" ss by (auto simp: list_all_iff dest: in_set_butlastD)
      ultimately show ?thesis using "1.IH" by blast
    qed
    finally show ?thesis using ss by (simp add: pop_segments_step)
  qed
qed

lemma removeTrailingDotDot_eq:
  assumes "ss \<noteq> []" "slash_free ss"
  shows "removeTrailingDotDot (path_of ss) =
           path_of (if last ss = [0x2E, 0x2E] then butlast (butlast ss) @ [[]] else ss)"
proof -
  obtain ts t where ss: "ss = ts @ [t]" using assms(1) by (cases ss rule: rev_cases) auto
  show ?thesis
  proof (cases "t = [0x2E, 0x2E]")
    case True
    have "last_index_bytes (path_of ts @ strSlashDotDot) strSlashDotDot = Some (length (path_of ts))"
      by (simp add: last_index_bytes_suffix del: last_index_bytes.simps)
    moreover have "ts \<noteq> [] \<Longrightarrow> path_of ts = path_of (butlast ts) @ slash # last ts"
      by (metis append.right_neutral append_butlast_last_id path_of_simps)
    ultimately show ?thesis
      using True ss assms last_slash_path_of [of ts]
      by (cases "ts = []") (auto simp: removeTrailingDotDot_def)
  next
    case False
    have "n + 3 \<noteq> length (path_of ss)" if n: "last_index_bytes (path_of ss) strSlashDotDot = Some n" for n
    proof
      assume "n + 3 = length (path_of ss)"
      with last_index_bytes_SomeD [OF n] obtain q where q: "path_of ss = q @ strSlashDotDot" by auto
      have "last_index_byte (path_of ss) slash = Some (length (path_of ts))"
        using last_slash_path_of [OF assms(2,1)] ss by simp
      moreover have "last_index_byte (q @ slash # [0x2E, 0x2E]) slash = Some (length q)"
        by (rule last_index_byte_last) simp
      ultimately show False using q ss False by simp
    qed
    with False ss show ?thesis by (auto simp: removeTrailingDotDot_def split: option.splits)
  qed
qed

lemma foldl_resolve:
  "foldl resolve_step st l = foldl pop_step st (filter (\<lambda>s. s \<noteq> [0x2E]) (filter (\<lambda>s. s \<noteq> []) l))"
  by (induction l arbitrary: st) (auto simp: resolve_step_def pop_step_def)

lemma slash_free_pop: "slash_free st \<Longrightarrow> slash_free l \<Longrightarrow> slash_free (foldl pop_step st l)"
proof (induction l arbitrary: st)
  case Nil
  then show ?case by simp
next
  case (Cons s l)
  have "slash_free (pop_step st s)" using Cons.prems by (cases st) (auto simp: pop_step_def)
  with Cons show ?case by simp
qed

lemma list_all_filter: "list_all P xs \<Longrightarrow> list_all P (filter Q xs)"
  by (induction xs) auto

lemma list_all_butlast: "list_all P xs \<Longrightarrow> list_all P (butlast xs)"
  by (auto simp: list_all_iff dest: in_set_butlastD)

lemma slash_free_last: "slash_free ss \<Longrightarrow> ss \<noteq> [] \<Longrightarrow> slash \<notin> set (last ss)"
  by (simp add: list_all_iff)

lemma segment_pipeline:
  assumes "ss \<noteq> []" "slash_free ss"
  shows "removeTrailingDotDot (removeSlashDotDotSlash (removeSlashDotSlash (removeSlashSlash [] (path_of ss)))) =
           path_of (resolve_segments ss)"
proof -
  let ?a = "drop_segment [] ss"
  let ?b = "drop_segment [0x2E] ?a"
  let ?c = "pop_segments ?b"
  have a: "?a \<noteq> []" "slash_free ?a"
    using assms by (auto simp: drop_segment_def list_all_filter list_all_butlast slash_free_last)
  have b: "?b \<noteq> []" "slash_free ?b"
    using a by (auto simp: drop_segment_def [of "[0x2E]"] list_all_filter list_all_butlast slash_free_last)
  have c: "?c \<noteq> []" "slash_free ?c"
    using b slash_free_pop [of "[]" "butlast ?b"]
    by (auto simp: pop_segments_def list_all_butlast slash_free_last simp del: butlast.simps)
  have "resolve_segments ss = (if last ?c = [0x2E, 0x2E] then butlast (butlast ?c) @ [[]] else ?c)"
  proof -
    have "butlast (rev st) = rev (tl st)" for st :: "bytes list" by (metis butlast_rev)
    then show ?thesis
      by (simp add: resolve_segments_def pop_segments_def drop_segment_def foldl_resolve butlast_append)
  qed
  with removeSlashSlash_eq [OF assms, of "[]"] removeSlashDotSlash_eq [OF a]
    removeSlashDotDotSlash_eq [OF b] removeTrailingDotDot_eq [OF c] show ?thesis by simp
qed

lemma resolve_Nil_Cons: "ss \<noteq> [] \<Longrightarrow> resolve_segments ([] # ss) = resolve_segments ss"
  by (simp add: resolve_segments_def resolve_step_def Let_def)

lemma normalizePath_eq:
  "normalizePath dst src = path_of (resolve_segments (split_on slash (url_decode False src)))"
proof (cases "src = [] \<or> src ! 0 \<noteq> slash")
  case True
  then have "decodeArgAppendNoPlus (addLeadingSlash [] src) src = path_of (split_on slash (url_decode False src))"
    by (simp add: addLeadingSlash_def decodeArgAppendNoPlus_eq path_of_split)
  then show ?thesis by (simp add: normalizePath_def segment_pipeline)
next
  case False
  then obtain src' where src: "src = slash # src'" by (cases src) auto
  then have "url_decode False src = slash # url_decode False src'" by simp
  moreover from src this have "decodeArgAppendNoPlus (addLeadingSlash [] src) src = path_of (split_on slash (url_decode False src'))"
    by (simp add: addLeadingSlash_def decodeArgAppendNoPlus_eq path_of_split)
  ultimately show ?thesis by (simp add: normalizePath_def segment_pipeline resolve_Nil_Cons)
qed

lemma resolve_stack:
  "list_all normal_segment st \<Longrightarrow> slash_free l \<Longrightarrow> list_all normal_segment (foldl resolve_step st l)"
proof (induction l arbitrary: st)
  case Nil
  then show ?case by simp
next
  case (Cons s l)
  have "list_all normal_segment (resolve_step st s)"
  proof -
    have "list_all normal_segment (tl st)" using Cons.prems by (cases st) auto
    with Cons.prems show ?thesis by (auto simp: resolve_step_def normal_segment_def [of s])
  qed
  with Cons show ?case by simp
qed

lemma normal_resolve: "ss \<noteq> [] \<Longrightarrow> slash_free ss \<Longrightarrow> normal_path (path_of (resolve_segments ss))"
proof -
  assume ss: "ss \<noteq> []" "slash_free ss"
  let ?st = "foldl resolve_step [] (butlast ss)"
  have "list_all normal_segment ?st" using resolve_stack [of "[]"] ss by (simp add: list_all_butlast)
  moreover from this have "list_all normal_segment (tl ?st)" by (cases ?st) auto
  moreover have "slash \<notin> set (last ss)" using ss by (simp add: slash_free_last)
  ultimately have "\<exists>xs t. resolve_segments ss = xs @ [t] \<and> list_all normal_segment xs \<and> t \<noteq> [0x2E, 0x2E] \<and> slash \<notin> set t"
    unfolding resolve_segments_def Let_def by (cases "last ss = [0x2E, 0x2E]") simp_all
  then show ?thesis unfolding normal_path_def by fastforce
qed

lemma resolve_stack_id: "list_all normal_segment l \<Longrightarrow> foldl resolve_step st l = rev l @ st"
  by (induction l arbitrary: st) (auto simp: resolve_step_def normal_segment_def)

lemma normal_path_fixed:
  assumes "normal_path p" and "url_decode False q = p"
  shows "normalizePath dst q = p"
proof -
  obtain ss t where p: "p = path_of (ss @ [t])" "list_all normal_segment ss" "t \<noteq> [0x2E, 0x2E]" "slash \<notin> set t"
    using assms(1) unfolding normal_path_def by blast
  have "split_on slash p = [] # ss @ [t]"
    unfolding p(1) using p by (intro split_path_of) (auto simp: list_all_iff normal_segment_def)
  moreover have "resolve_segments (ss @ [t]) = ss @ [t]"
    using p by (simp add: resolve_segments_def resolve_stack_id)
  ultimately show ?thesis by (simp add: normalizePath_eq assms(2) resolve_Nil_Cons p(1))
qed

lemma no_segment:
  assumes "slash \<notin> set w" "slash_free ss" "w \<notin> set (butlast ss)"
  shows "\<not> contains_bytes (path_of ss) (slash # w @ [slash])"
proof
  assume "contains_bytes (path_of ss) (slash # w @ [slash])"
  then obtain n where "index_bytes (path_of ss) (slash # w @ [slash]) = Some n"
    unfolding contains_bytes_def by auto
  from index_segment_Some [OF assms(1,2) this] assms(3) show False by (auto simp: butlast_append)
qed

lemma path_suffix:
  assumes "slash \<notin> set t" "slash \<notin> set w" "path_of (ts @ [t]) = q @ slash # w"
  shows "t = w"
proof -
  have "last_index_byte (path_of ts @ slash # t) slash = Some (length (path_of ts))"
    "last_index_byte (q @ slash # w) slash = Some (length q)"
    using assms(1,2) by (simp_all add: last_index_byte_last)
  with assms(3) show ?thesis by simp
qed

lemma normal_path_contains:
  assumes "normal_path p"
  shows "has_prefix p strSlash" "\<not> contains_bytes p strSlashSlash" "\<not> contains_bytes p strSlashDotSlash"
    "\<not> contains_bytes p strSlashDotDotSlash" "\<not> suffix strSlashDotDot p"
proof -
  obtain ss t where p: "p = path_of (ss @ [t])" and n: "list_all normal_segment ss"
    and t: "t \<noteq> [0x2E, 0x2E]" "slash \<notin> set t"
    using assms unfolding normal_path_def by blast
  have f: "slash_free (ss @ [t])" using n t by (auto simp: list_all_iff normal_segment_def)
  have w: "[] \<notin> set ss" "[0x2E] \<notin> set ss" "[0x2E, 0x2E] \<notin> set ss"
    using n by (auto simp: list_all_iff normal_segment_def)
  show "has_prefix p strSlash" unfolding p by (cases ss) simp_all
  show "\<not> contains_bytes p strSlashSlash" using no_segment [of "[]", OF _ f] w p by simp
  show "\<not> contains_bytes p strSlashDotSlash" using no_segment [of "[0x2E]", OF _ f] w p by simp
  show "\<not> contains_bytes p strSlashDotDotSlash" using no_segment [of "[0x2E, 0x2E]", OF _ f] w p by simp
  show "\<not> suffix strSlashDotDot p"
    using path_suffix [of t "[0x2E, 0x2E]" ss] t p by (auto simp: suffix_def simp del: path_of_simps)
qed

lemma normal_normalizePath: "normal_path (normalizePath dst src)"
  by (simp add: normalizePath_eq normal_resolve)

section \<open>Quoting a path\<close>

definition quote_path_byte :: "byte \<Rightarrow> bytes" where
  "quote_path_byte c =
     (if quotedPathShouldEscapeTable c then [0x25, upperhex (drop_bit 4 c), upperhex (c AND 0xF)] else [c])"

lemma appendQuotedPath_loop_eq: "appendQuotedPath_loop dst s = dst @ concat (map quote_path_byte s)"
  by (induction dst s rule: appendQuotedPath_loop.induct) (simp_all add: quote_path_byte_def)

lemma path_unescaped_not_percent: "\<not> quotedPathShouldEscapeTable c \<Longrightarrow> c \<noteq> 0x25"
  by (auto simp: quotedPathShouldEscapeTable_def quotedArgShouldEscapeTable_def)

lemma url_decode_quote_path: "url_decode False (concat (map quote_path_byte s)) = s"
  using path_unescaped_not_percent
  by (induction s) (auto simp: quote_path_byte_def hex_pair_decode)

lemma appendQuotedPath_slash: "src \<noteq> [] \<Longrightarrow> hd src = slash \<Longrightarrow> appendQuotedPath dst src = dst @ concat (map quote_path_byte src)"
  by (cases src) (auto simp: appendQuotedPath_def appendQuotedPath_loop_eq)

definition target_byte :: "byte \<Rightarrow> bool" where
  "target_byte c \<longleftrightarrow> \<not> quotedPathShouldEscapeTable c \<or> c = 0x25"

lemma quoted_path_bytes: "list_all target_byte (concat (map quote_path_byte s))"
proof -
  have "list_all target_byte (quote_path_byte c)" for c
    using upperhex_unreserved [OF high_nibble_bound, of c] upperhex_unreserved [OF low_nibble_bound, of c]
    by (auto simp: quote_path_byte_def target_byte_def quotedPathShouldEscapeTable_def)
  then show ?thesis by (induction s) auto
qed

lemma target_byte_plain: "target_byte c \<Longrightarrow> c \<noteq> 0x3F \<and> c \<noteq> 0x23 \<and> \<not> (c < 0x20 \<or> c = 0x7F)"
  by (auto simp: target_byte_def quotedPathShouldEscapeTable_def quotedArgShouldEscapeTable_def word_less_nat_alt word_le_nat_alt)

section \<open>Hosts\<close>

definition host_byte :: "byte \<Rightarrow> bool" where
  "host_byte c \<longleftrightarrow> c \<noteq> 0x25 \<and> \<not> (c < 0x80 \<and> shouldEscape c encodeHost)"

lemma shouldEscape_mode: "shouldEscape c m = shouldEscape c encodeHost"
  by (simp add: shouldEscape_def)

lemma unescape_check_count:
  "unescape_check m s n = Inr k \<Longrightarrow>
     n \<le> k \<and> (k = n \<longrightarrow> list_all host_byte s) \<and> length (unescape_decode s) + 2 * (k - n) = length s"
proof (induction m s n rule: unescape_check.induct)
  case (1 mode n)
  then show ?case by simp
next
  case (2 mode c s n)
  show ?case
  proof (cases "c = 0x25")
    case True
    with "2.prems" obtain h l rest where s: "s = h # l # rest" by (auto split: list.splits)
    with "2.prems" True have "unescape_check mode rest (n + 1) = Inr k" by (auto split: if_splits)
    moreover from this have "n + 1 \<le> k \<and> (k = n + 1 \<longrightarrow> list_all host_byte rest) \<and>
        length (unescape_decode rest) + 2 * (k - (n + 1)) = length rest"
      using "2.prems" True s by (intro "2.IH"(1) [OF True s refl]) (auto split: if_splits)
    ultimately show ?thesis using True s by auto
  next
    case False
    with "2.prems" have "unescape_check mode s n = Inr k"
      and h: "host_byte c" using shouldEscape_mode [of c mode] by (cases mode; auto simp: host_byte_def split: if_splits)+
    with "2.IH"(2) [OF False] "2.prems" False show ?thesis by (auto split: if_splits)
  qed
qed

lemma unescape_shorter:
  assumes "unescape s m = Inr t"
  shows "length t \<le> length s" "0x25 \<in> set s \<Longrightarrow> length t < length s"
proof -
  obtain k where k: "unescape_check m s 0 = Inr k" and t: "t = (if k = 0 then s else unescape_decode s)"
    using assms unfolding unescape_def by (auto split: sum.splits if_splits)
  note c = unescape_check_count [OF k]
  show "length t \<le> length s" using t c by auto
  show "length t < length s" if "0x25 \<in> set s"
  proof (cases "k = 0")
    case True
    with c that show ?thesis by (auto simp: list_all_iff host_byte_def)
  next
    case False
    with t c show ?thesis by auto
  qed
qed

lemma unescape_fixed: "unescape s m = Inr s \<Longrightarrow> list_all host_byte s"
  using unescape_check_count [of m s 0] unfolding unescape_def
  by (auto split: sum.splits if_splits)

lemma parseHost_cases:
  assumes "parseHost h = Inr t"
  obtains "unescape h encodeHost = Inr t"
  | i zone h1 h2 h3 where "last_index_byte h 0x5D = Some i" "index_bytes (take i h) (bs ''%25'') = Some zone"
      "unescape (take zone h) encodeHost = Inr h1" "unescape (slice h zone i) encodeZone = Inr h2"
      "unescape (drop i h) encodeHost = Inr h3" "t = h1 @ h2 @ h3"
  using assms unfolding parseHost_def Let_def
  by (auto split: if_splits option.splits sum.splits)

lemma parseHost_fixed:
  assumes "parseHost h = Inr h"
  shows "list_all host_byte h"
  using assms
proof (cases rule: parseHost_cases)
  case 1
  then show ?thesis by (rule unescape_fixed)
next
  case (2 i zone h1 h2 h3)
  note z = 2(1,2) and u = 2(3,4,5) and h = 2(6)
  have i: "zone + 3 \<le> i" "i < length h"
    using index_bytes_SomeD [OF z(2)] last_index_byte_lt [OF z(1)] by auto
  have "take i h = take zone (take i h) @ bs ''%25'' @ drop (zone + length (bs ''%25'')) (take i h)"
    using index_bytes_SomeD [OF z(2)] by blast
  then have "drop zone (take i h) = bs ''%25'' @ drop (zone + length (bs ''%25'')) (take i h)"
    by (metis append_take_drop_id same_append_eq)
  then have "slice h zone i = bs ''%25'' @ drop (zone + length (bs ''%25'')) (take i h)"
    by (simp only: slice_def drop_take)
  then have "0x25 \<in> set (slice h zone i)" by simp
  then have "length h2 < length (slice h zone i)" by (rule unescape_shorter(2) [OF u(2)])
  moreover have "length h1 \<le> length (take zone h)" "length h3 \<le> length (drop i h)"
    using unescape_shorter(1) [OF u(1)] unescape_shorter(1) [OF u(3)] by auto
  ultimately have "length (h1 @ h2 @ h3) < length h"
    using i by simp
  with h show ?thesis by simp
qed

lemma host_byte_plain:
  "host_byte c \<Longrightarrow> c \<noteq> slash \<and> c \<noteq> 0x3F \<and> c \<noteq> 0x23 \<and> c \<noteq> 0x40 \<and> \<not> (c < 0x20 \<or> c = 0x7F)"
  by (auto simp: host_byte_def shouldEscape_def word_less_nat_alt word_le_nat_alt)

section \<open>Splitting what was printed\<close>

lemma splitHostURI_print:
  assumes "slash \<notin> set scheme" "slash \<notin> set host" "0x3F \<notin> set host"
  shows "splitHostURI h (scheme @ strColonSlashSlash @ host @ slash # r) = (scheme, host, slash # r)"
proof -
  let ?uri = "(scheme @ [0x3A]) @ strSlashSlash @ host @ slash # r"
  have "index_bytes ?uri strSlashSlash = map_option (\<lambda>n. length (scheme @ [0x3A]) + n) (index_bytes (strSlashSlash @ host @ slash # r) strSlashSlash)"
    using assms(1) by (intro index_bytes_skip) simp
  then have i: "index_bytes ?uri strSlashSlash = Some (length scheme + 1)" by simp
  have q: "index_byte (host @ slash # r) 0x3F = None \<or> (\<exists>nq. index_byte (host @ slash # r) 0x3F = Some nq \<and> length host < nq)"
    using assms(3) by (cases "index_byte r 0x3F") (auto simp: index_byte_append)
  have s: "index_byte (host @ slash # r) slash = Some (length host)" using assms(2) by (rule index_byte_first)
  have t: "take (length scheme + 1) ?uri = scheme @ [0x3A]" "drop (length scheme + 1 + 2) ?uri = host @ slash # r"
    by simp_all
  have "splitHostURI h ?uri = (scheme, host, slash # r)"
    unfolding splitHostURI_def i option.case Let_def t using q assms(1) s by auto
  then show ?thesis by simp
qed

lemma parse_target_print:
  assumes "0x3F \<notin> set p" "0x23 \<notin> set p" "0x23 \<notin> set q"
  shows "parse_target u (p @ (if q = [] then [] else 0x3F # q) @ (if h = [] then [] else 0x23 # h)) =
           u\<lparr>uPathOriginal := uPathOriginal u @ p, uPath := normalizePath (uPath u) (uPathOriginal u @ p),
             uQueryString := uQueryString u @ q, uHash := uHash u @ h\<rparr>"
  using assms
  by (cases "q = []"; cases "h = []")
    (simp_all add: parse_target_def index_byte_append Let_def slice_def split: option.splits)

definition ctl_free :: "bytes \<Rightarrow> bool" where
  "ctl_free s \<longleftrightarrow> \<not> stringContainsCTLByte s"

lemma ctl_free_simps [simp]:
  "ctl_free []" "ctl_free (c # s) \<longleftrightarrow> \<not> (c < 0x20 \<or> c = 0x7F) \<and> ctl_free s"
  "ctl_free (s @ t) \<longleftrightarrow> ctl_free s \<and> ctl_free t"
  by (auto simp: ctl_free_def stringContainsCTLByte_def)

lemma ctl_free_all: "list_all P s \<Longrightarrow> (\<And>c. P c \<Longrightarrow> \<not> (c < 0x20 \<or> c = 0x7F)) \<Longrightarrow> ctl_free s"
  by (induction s) auto

text \<open>A URI in canonical form: what a client that built it from clean parts holds.\<close>

definition uri_ok :: "URI \<Rightarrow> bool" where
  "uri_ok u \<longleftrightarrow>
     uScheme u \<noteq> [] \<and> slash \<notin> set (uScheme u) \<and> lowercaseBytes (uScheme u) = uScheme u \<and> ctl_free (uScheme u) \<and>
     parseHost (uHost u) = Inr (uHost u) \<and> lowercaseBytes (uHost u) = uHost u \<and>
     normal_path (uPath u) \<and> 0x23 \<notin> set (uQueryString u) \<and> ctl_free (uQueryString u) \<and> ctl_free (uHash u) \<and>
     \<not> uDisablePathNormalizing u \<and> \<not> uParsedQueryArgs u"

lemma normal_path_hd: "normal_path p \<Longrightarrow> p \<noteq> [] \<and> hd p = slash"
proof -
  have "hd (path_of ss @ slash # t) = slash" for ss t by (cases ss) auto
  then show "normal_path p \<Longrightarrow> p \<noteq> [] \<and> hd p = slash" unfolding normal_path_def by auto
qed

lemma FullURI_ok:
  assumes "uri_ok u"
  shows "snd (URI_FullURI u) =
           uScheme u @ strColonSlashSlash @ uHost u @ concat (map quote_path_byte (uPath u)) @
           (if uQueryString u = [] then [] else 0x3F # uQueryString u) @ (if uHash u = [] then [] else 0x23 # uHash u)"
  using assms normal_path_hd [of "uPath u"]
  by (auto simp: uri_ok_def URI_FullURI_def URI_AppendBytes_def URI_RequestURI_def URI_appendSchemeHost_def
      URI_Scheme_def URI_Path_def appendQuotedPath_slash Let_def)

lemma FullURI_Parse_fields:
  assumes "uri_ok u"
  shows "URI_Parse v [] (snd (URI_FullURI u)) =
           ((URI_Reset v)\<lparr>uScheme := uScheme u, uHost := uHost u,
              uPathOriginal := concat (map quote_path_byte (uPath u)), uPath := uPath u,
              uQueryString := uQueryString u, uHash := uHash u\<rparr>, None)"
proof -
  let ?p = "concat (map quote_path_byte (uPath u))"
  let ?t = "(if uQueryString u = [] then [] else 0x3F # uQueryString u) @ (if uHash u = [] then [] else 0x23 # uHash u)"
  have ok: "slash \<notin> set (uScheme u)" "lowercaseBytes (uScheme u) = uScheme u" "parseHost (uHost u) = Inr (uHost u)"
    "lowercaseBytes (uHost u) = uHost u" "normal_path (uPath u)" "0x23 \<notin> set (uQueryString u)"
    "ctl_free (uScheme u)" "ctl_free (uQueryString u)" "ctl_free (uHash u)"
    using assms by (auto simp: uri_ok_def)
  have host: "slash \<notin> set (uHost u)" "0x3F \<notin> set (uHost u)" "0x40 \<notin> set (uHost u)" "ctl_free (uHost u)"
    using parseHost_fixed [OF ok(3)] host_byte_plain by (auto simp: list_all_iff intro!: ctl_free_all)
  have p: "0x3F \<notin> set ?p" "0x23 \<notin> set ?p" "ctl_free ?p"
    using quoted_path_bytes [of "uPath u"] target_byte_plain by (auto simp: list_all_iff intro!: ctl_free_all)
  obtain r where r: "?p = slash # r"
    using normal_path_hd [OF ok(5)] by (cases "uPath u") (auto simp: quote_path_byte_def quotedPathShouldEscapeTable_def)
  have "\<not> stringContainsCTLByte (uScheme u @ strColonSlashSlash @ uHost u @ ?p @ ?t)"
    using ok host p unfolding ctl_free_def [symmetric] by simp
  moreover have "splitHostURI [] (uScheme u @ strColonSlashSlash @ uHost u @ ?p @ ?t) = (uScheme u, uHost u, ?p @ ?t)"
    using splitHostURI_print [OF ok(1) host(1,2), of "[]" "r @ ?t"] unfolding r by simp
  moreover have "parse_userinfo w (uHost u) = (w, uHost u)" for w
    using host(3) by (simp add: parse_userinfo_def)
  moreover have "normalizePath q ?p = uPath u" for q
    by (rule normal_path_fixed [OF ok(5) url_decode_quote_path])
  ultimately show ?thesis
    unfolding URI_Parse_def URI_parse_def FullURI_ok [OF assms] Let_def
    using ok parse_target_print [OF p(1,2) ok(6)]
    by (simp add: URI_SetScheme_def URI_Reset_def)
qed

section \<open>Reachable URIs\<close>

text \<open>The states a URI goes through under its exported methods. The pointer that \<^verbatim>\<open>QueryArgs\<close>
  returns lets a caller put anything into the arguments.\<close>

inductive uri_reach :: "URI \<Rightarrow> bool" where
  reach_empty: "uri_reach emptyURI"
| reach_Reset: "uri_reach u \<Longrightarrow> uri_reach (URI_Reset u)"
| reach_CopyTo: "uri_reach u \<Longrightarrow> uri_reach v \<Longrightarrow> uri_reach (URI_CopyTo u v)"
| reach_SetHash: "uri_reach u \<Longrightarrow> uri_reach (URI_SetHash u h)"
| reach_SetUsername: "uri_reach u \<Longrightarrow> uri_reach (URI_SetUsername u h)"
| reach_SetPassword: "uri_reach u \<Longrightarrow> uri_reach (URI_SetPassword u h)"
| reach_SetQueryString: "uri_reach u \<Longrightarrow> uri_reach (URI_SetQueryString u q)"
| reach_SetPath: "uri_reach u \<Longrightarrow> uri_reach (URI_SetPath u p)"
| reach_SetScheme: "uri_reach u \<Longrightarrow> uri_reach (URI_SetScheme u p)"
| reach_SetHost: "uri_reach u \<Longrightarrow> uri_reach (URI_SetHost u p)"
| reach_Parse: "uri_reach u \<Longrightarrow> uri_reach (fst (URI_Parse u h uri))"
| reach_QueryArgs: "uri_reach u \<Longrightarrow> uri_reach ((fst (URI_QueryArgs u))\<lparr>uQueryArgs := a\<rparr>)"
| reach_FullURI: "uri_reach u \<Longrightarrow> uri_reach (fst (URI_FullURI u))"
| reach_RequestURI: "uri_reach u \<Longrightarrow> uri_reach (fst (URI_RequestURI u))"
| reach_flag: "uri_reach u \<Longrightarrow> uri_reach (u\<lparr>uDisablePathNormalizing := f\<rparr>)"
| reach_Update: "uri_reach u \<Longrightarrow> URI_UpdateBytes u newURI = Some u' \<Longrightarrow> uri_reach u'"

definition path_inv :: "URI \<Rightarrow> bool" where
  "path_inv u \<longleftrightarrow> uPath u = [] \<or> normal_path (uPath u)"

lemma path_inv_target: "path_inv (parse_target u b)"
  by (simp add: path_inv_def parse_target_def normal_normalizePath Let_def split: option.splits)

lemma uPath_userinfo [simp]: "uPath (fst (parse_userinfo u h)) = uPath u"
  by (simp add: parse_userinfo_def Let_def split: option.splits)

lemma uPath_SetScheme [simp]: "uPath (URI_SetScheme u s) = uPath u"
  by (simp add: URI_SetScheme_def)

lemma uPath_Reset [simp]: "uPath (URI_Reset u) = []"
  by (simp add: URI_Reset_def)

text \<open>What \<^verbatim>\<open>parse\<close> does once the control bytes are excluded, without the tuples.\<close>

lemma URI_parse_shape:
  "\<exists>v host t. uPath v = [] \<and>
     (URI_parse u h uri tls = (URI_Reset u, Some ErrorInvalidURI) \<or>
      URI_parse u h uri tls =
        (case parseHost host of
           Inl (e, buf) \<Rightarrow> (v\<lparr>uHost := buf\<rparr>, Some e)
         | Inr h \<Rightarrow> (parse_target (v\<lparr>uHost := lowercaseBytes h\<rparr>) t, None)))"
proof (cases "stringContainsCTLByte uri")
  case True
  then show ?thesis by (intro exI [of _ emptyURI]) (simp add: URI_parse_def emptyURI_def)
next
  case False
  let ?split = "h = [] \<or> contains_bytes uri strColonSlashSlash"
  obtain sc nh nu where sp: "splitHostURI h uri = (sc, nh, nu)" by (cases "splitHostURI h uri") auto
  let ?u1 = "if ?split then URI_SetScheme (URI_Reset u) sc else URI_Reset u"
  let ?u2 = "if tls then URI_SetScheme ?u1 strHTTPS else ?u1"
  let ?h = "if ?split then nh else h"
  obtain v host where v: "parse_userinfo ?u2 ?h = (v, host)" by (cases "parse_userinfo ?u2 ?h") auto
  have "uPath v = uPath ?u2" using uPath_userinfo [of ?u2 ?h] unfolding v by simp
  moreover have "uPath ?u2 = []" by simp
  moreover have "URI_parse u h uri tls = (case parseHost host of
           Inl (e, buf) \<Rightarrow> (v\<lparr>uHost := buf\<rparr>, Some e)
         | Inr h \<Rightarrow> (parse_target (v\<lparr>uHost := lowercaseBytes h\<rparr>) (if ?split then nu else uri), None))"
    unfolding URI_parse_def Let_def using False v sp by (cases ?split; cases tls) simp_all
  ultimately show ?thesis by metis
qed

lemma path_inv_Parse: "path_inv (fst (URI_Parse u h uri))"
proof -
  obtain v host t where "uPath v = []" and
    "URI_Parse u h uri = (URI_Reset u, Some ErrorInvalidURI) \<or>
     URI_Parse u h uri =
        (case parseHost host of
           Inl (e, buf) \<Rightarrow> (v\<lparr>uHost := buf\<rparr>, Some e)
         | Inr h \<Rightarrow> (parse_target (v\<lparr>uHost := lowercaseBytes h\<rparr>) t, None))"
    using URI_parse_shape [of u h uri False] unfolding URI_Parse_def by blast
  then show ?thesis
  proof (elim disjE)
    assume "URI_Parse u h uri = (URI_Reset u, Some ErrorInvalidURI)"
    then show ?thesis by (simp add: path_inv_def)
  next
    assume "URI_Parse u h uri =
        (case parseHost host of
           Inl (e, buf) \<Rightarrow> (v\<lparr>uHost := buf\<rparr>, Some e)
         | Inr h \<Rightarrow> (parse_target (v\<lparr>uHost := lowercaseBytes h\<rparr>) t, None))"
    with \<open>uPath v = []\<close> show ?thesis
      by (cases "parseHost host") (auto simp: path_inv_def path_inv_target [unfolded path_inv_def])
  qed
qed

lemma path_inv_FullURI: "path_inv (fst (URI_FullURI u)) = path_inv u"
  by (auto simp: path_inv_def URI_FullURI_def URI_AppendBytes_def URI_RequestURI_def Let_def)

lemma path_inv_Update:
  assumes "path_inv u" "URI_updateBytes u newURI buf = Some (u', buf')"
  shows "path_inv u'"
proof -
  have P: "path_inv w" if "URI_Parse u h t = (w, e)" for h t w e
    using path_inv_Parse [of u h t] that by simp
  have F: "path_inv w" if "URI_FullURI v = (w, e)" "path_inv v" for v w e
    using path_inv_FullURI [of v] that by simp
  have S: "path_inv (v\<lparr>uScheme := s\<rparr>) = path_inv v" "path_inv (URI_SetQueryString v s) = path_inv v"
    "path_inv (URI_SetHash v s) = path_inv v" for v s
    by (simp_all add: path_inv_def URI_SetQueryString_def URI_SetHash_def)
  show ?thesis
    using assms unfolding URI_updateBytes_def Let_def
    by (auto split: if_splits option.splits prod.splits dest: P F simp: S)
qed

lemma path_inv_reach: "uri_reach u \<Longrightarrow> path_inv u"
proof (induction rule: uri_reach.induct)
  case (reach_Update u newURI u')
  then obtain v buf where "URI_updateBytes u newURI (uRequestURI u) = Some (v, buf)" "u' = v\<lparr>uRequestURI := buf\<rparr>"
    by (auto simp: URI_UpdateBytes_def)
  with path_inv_Update [OF reach_Update.IH] show ?case by (auto simp: path_inv_def)
qed (simp_all add: path_inv_Parse path_inv_FullURI,
     auto simp: path_inv_def emptyURI_def URI_Reset_def URI_CopyTo_def URI_SetHash_def URI_SetUsername_def
       URI_SetPassword_def URI_SetQueryString_def URI_SetPath_def URI_SetScheme_def URI_SetHost_def
       URI_QueryArgs_def URI_parseQueryArgs_def URI_RequestURI_def Let_def normal_normalizePath)

lemma path_has_slash: "path_inv u \<Longrightarrow> last_index_byte (URI_Path u) slash \<noteq> None"
proof -
  assume "path_inv u"
  then have "slash \<in> set (URI_Path u)"
    using normal_path_hd [of "uPath u"] by (cases "uPath u") (auto simp: path_inv_def URI_Path_def)
  then show ?thesis by (simp only: last_index_byte_None) simp
qed

lemma update_no_panic: "path_inv u \<Longrightarrow> URI_updateBytes u newURI buf \<noteq> None"
  using path_has_slash [of u] by (auto simp: URI_updateBytes_def Let_def split: option.splits prod.splits)

section \<open>Properties\<close>

text \<open>C6: path normalization is segment resolution. The four in-place rewriting loops together
  compute what resolving the percent-decoded path segment by segment gives: empty and dot
  segments vanish, a dot-dot segment removes the segment before it.\<close>

theorem normalizePath_resolves:
  "normalizePath dst src = path_of (resolve_segments (split_on slash (url_decode False src)))"
  by (rule normalizePath_eq)

text \<open>C2: a normalized path is safe to join to a root. Whatever bytes the path was given as,
  escaped or not, the result begins with a slash and holds no empty segment, no dot segment
  before its end and no dot-dot segment at all.\<close>

theorem normalizePath_safe:
  "has_prefix (normalizePath dst src) strSlash \<and>
   \<not> contains_bytes (normalizePath dst src) strSlashSlash \<and>
   \<not> contains_bytes (normalizePath dst src) strSlashDotSlash \<and>
   \<not> contains_bytes (normalizePath dst src) strSlashDotDotSlash \<and>
   \<not> suffix strSlashDotDot (normalizePath dst src)"
  using normal_path_contains [OF normal_normalizePath] by blast

text \<open>C7: printing a canonical URI with \<^verbatim>\<open>FullURI\<close> and parsing the text gives the same scheme,
  host, path, query string and fragment back, whatever the receiving URI held.\<close>

theorem FullURI_Parse_roundtrip:
  assumes "uri_ok u"
  shows "snd (URI_Parse v [] (snd (URI_FullURI u))) = None \<and>
         (let w = fst (URI_Parse v [] (snd (URI_FullURI u)))
          in uScheme w = uScheme u \<and> uHost w = uHost u \<and> uPath w = uPath u \<and>
             uQueryString w = uQueryString u \<and> uHash w = uHash u \<and> uUsername w = [] \<and> uPassword w = [])"
  unfolding FullURI_Parse_fields [OF assms] Let_def by (simp add: URI_Reset_def)

definition sample_uri :: URI where
  "sample_uri = emptyURI\<lparr>uScheme := bs ''http'', uHost := bs ''h.io:80'', uPath := bs ''/a b/'', uQueryString := bs ''k=v'', uHash := bs ''x''\<rparr>"

lemma sample_uri_ok: "uri_ok sample_uri"
proof -
  have "normal_path (bs ''/a b/'')"
    unfolding normal_path_def by (intro exI [of _ "[bs ''a b'']"] exI [of _ "[]"]) (simp add: normal_segment_def)
  then show ?thesis
    by (simp add: uri_ok_def sample_uri_def emptyURI_def lowercaseBytes_def toLowerTable_def parseHost_def unescape_def
        shouldEscape_def validOptionalPort_def)
qed

theorem FullURI_Parse_roundtrip_witness:
  "uri_ok sample_uri \<and> uPath (fst (URI_Parse emptyURI [] (snd (URI_FullURI sample_uri)))) = bs ''/a b/''"
  using FullURI_Parse_roundtrip [OF sample_uri_ok, of emptyURI] sample_uri_ok
  by (simp add: Let_def) (simp add: sample_uri_def)

text \<open>C31: in every state that the exported methods can bring a URI to, the path is empty or
  normalized, and \<^verbatim>\<open>UpdateBytes\<close> never reaches its panic.\<close>

theorem reachable_uri:
  assumes "uri_reach u"
  shows "(uPath u = [] \<or> normal_path (uPath u)) \<and> URI_UpdateBytes u newURI \<noteq> None"
  using path_inv_reach [OF assms] update_no_panic [of u newURI "uRequestURI u"]
  by (auto simp: path_inv_def URI_UpdateBytes_def)

theorem reachable_uri_witness:
  "normal_path (uPath (URI_SetPath emptyURI (bs ''/../x''))) \<and>
   URI_UpdateBytes (URI_SetPath emptyURI (bs ''/../x'')) (bs ''y'') \<noteq> None"
  using reachable_uri [OF reach_SetPath [OF reach_empty], of "bs ''/../x''" "bs ''y''"]
  by (simp add: URI_SetPath_def normal_normalizePath)

text \<open>an update with a reference that has a host of its own replaces the host, but so does one
  without: any two slashes in a row, also inside the query string, select the absolute branch, and a
  target such as \<^verbatim>\<open>/l?n=http://b/\<close> empties the host. The documentation of \<^verbatim>\<open>Update\<close> says that
  only the request URI changes.\<close>

theorem update_loses_host:
  "map_option uHost (URI_UpdateBytes (emptyURI\<lparr>uScheme := bs ''http'', uHost := bs ''a.com''\<rparr>) (bs ''/l?n=http://b/''))
     = Some []"
  by (simp add: URI_UpdateBytes_def URI_updateBytes_def URI_Parse_def URI_parse_def Let_def stringContainsCTLByte_def
      contains_bytes_def splitHostURI_def parse_userinfo_def parseHost_def unescape_def parse_target_def
      URI_SetScheme_def URI_Reset_def lowercaseBytes_def)

end
