(* ===== verification/Cookie.thy ===== *)
theory Cookie
  imports URI
begin

text \<open>
  The model of \<^verbatim>\<open>cookie.go\<close>: the \<^verbatim>\<open>Set-Cookie\<close> value with its attributes, its parser and printer,
  and the request cookies of a \<^verbatim>\<open>Cookie\<close> header. Times belong to package \<^verbatim>\<open>time\<close>: their type is a
  type parameter, and the five functions the code calls on them are the fields of a record that
  the operations take as an argument.
\<close>

section \<open>Times\<close>

record 't time_ops =
  zeroTime :: 't
  timeYear :: "'t \<Rightarrow> int"
  formatRFC1123 :: "'t \<Rightarrow> bytes"
  parseRFC1123 :: "bytes \<Rightarrow> 't option"
  parseDashed :: "bytes \<Rightarrow> 't option"

text \<open>\<^verbatim>\<open>AppendHTTPDate\<close> formats in UTC and writes \<^verbatim>\<open>GMT\<close> over the last three bytes; a text shorter
  than that is a panic.\<close>

definition AppendHTTPDate :: "'t time_ops \<Rightarrow> bytes \<Rightarrow> 't \<Rightarrow> bytes option" where
  "AppendHTTPDate T dst t =
     (let d = dst @ formatRFC1123 T t
      in if length d < 3 then None else Some (take (length d - 3) d @ bs ''GMT''))"

section \<open>The cookie\<close>

datatype CookieSameSite =
  CookieSameSiteDisabled | CookieSameSiteDefaultMode | CookieSameSiteLaxMode
| CookieSameSiteStrictMode | CookieSameSiteNoneMode

record 't Cookie =
  ckKey :: bytes
  ckValue :: bytes
  ckExpire :: 't
  ckMaxAge :: int
  ckDomain :: bytes
  ckPath :: bytes
  ckSameSite :: CookieSameSite
  ckBufK :: bytes
  ckBufV :: bytes
  ckHttpOnly :: bool
  ckSecure :: bool
  ckPartitioned :: bool

datatype cookie_error = errNoCookies | errMaxAge int_error | errExpires

definition emptyCookie :: "'t time_ops \<Rightarrow> 't Cookie" where
  "emptyCookie T = \<lparr>ckKey = [], ckValue = [], ckExpire = zeroTime T, ckMaxAge = 0, ckDomain = [], ckPath = [],
     ckSameSite = CookieSameSiteDisabled, ckBufK = [], ckBufV = [], ckHttpOnly = False, ckSecure = False,
     ckPartitioned = False\<rparr>"

definition Cookie_Reset :: "'t time_ops \<Rightarrow> 't Cookie \<Rightarrow> 't Cookie" where
  "Cookie_Reset T c = c\<lparr>ckKey := [], ckValue := [], ckExpire := zeroTime T, ckMaxAge := 0, ckDomain := [], ckPath := [],
     ckHttpOnly := False, ckSecure := False, ckSameSite := CookieSameSiteDisabled, ckPartitioned := False\<rparr>"

definition Cookie_CopyTo :: "'t time_ops \<Rightarrow> 't Cookie \<Rightarrow> 't Cookie \<Rightarrow> 't Cookie" where
  "Cookie_CopyTo T c src =
     (let c = Cookie_Reset T c
      in c\<lparr>ckKey := ckKey c @ ckKey src, ckValue := ckValue c @ ckValue src, ckExpire := ckExpire src,
           ckMaxAge := ckMaxAge src, ckDomain := ckDomain c @ ckDomain src, ckPath := ckPath c @ ckPath src,
           ckHttpOnly := ckHttpOnly src, ckSecure := ckSecure src, ckSameSite := ckSameSite src,
           ckPartitioned := ckPartitioned src\<rparr>)"

definition SetHTTPOnly :: "'t Cookie \<Rightarrow> bool \<Rightarrow> 't Cookie" where
  "SetHTTPOnly c b = c\<lparr>ckHttpOnly := b\<rparr>"

definition SetSecure :: "'t Cookie \<Rightarrow> bool \<Rightarrow> 't Cookie" where
  "SetSecure c b = c\<lparr>ckSecure := b\<rparr>"

definition SetSameSite :: "'t Cookie \<Rightarrow> CookieSameSite \<Rightarrow> 't Cookie" where
  "SetSameSite c mode =
     (let c = c\<lparr>ckSameSite := mode\<rparr>
      in if mode = CookieSameSiteNoneMode then SetSecure c True else c)"

definition Cookie_SetPath :: "'t Cookie \<Rightarrow> bytes \<Rightarrow> 't Cookie" where
  "Cookie_SetPath c p = c\<lparr>ckBufV := p, ckPath := normalizePath (ckPath c) p\<rparr>"

definition SetPartitioned :: "'t Cookie \<Rightarrow> bool \<Rightarrow> 't Cookie" where
  "SetPartitioned c b =
     (let c = c\<lparr>ckPartitioned := b\<rparr>
      in if b then Cookie_SetPath (SetSecure c True) strSlash else c)"

definition SetDomain :: "'t Cookie \<Rightarrow> bytes \<Rightarrow> 't Cookie" where
  "SetDomain c d = c\<lparr>ckDomain := d\<rparr>"

definition SetMaxAge :: "'t Cookie \<Rightarrow> int \<Rightarrow> 't Cookie" where
  "SetMaxAge c n = c\<lparr>ckMaxAge := n\<rparr>"

definition SetExpire :: "'t Cookie \<Rightarrow> 't \<Rightarrow> 't Cookie" where
  "SetExpire c t = c\<lparr>ckExpire := t\<rparr>"

definition SetValue :: "'t Cookie \<Rightarrow> bytes \<Rightarrow> 't Cookie" where
  "SetValue c v = c\<lparr>ckValue := v\<rparr>"

definition SetKey :: "'t Cookie \<Rightarrow> bytes \<Rightarrow> 't Cookie" where
  "SetKey c k = c\<lparr>ckKey := k\<rparr>"

definition validCookieExpires :: "'t time_ops \<Rightarrow> 't \<Rightarrow> bool" where
  "validCookieExpires T t \<longleftrightarrow> timeYear T t \<ge> 1601"

section \<open>Printing\<close>

text \<open>The attributes in the order of \<^verbatim>\<open>AppendBytes\<close>. The date is formatted into the cookie's first
  scratch buffer.\<close>

definition Cookie_AppendBytes :: "'t time_ops \<Rightarrow> 't Cookie \<Rightarrow> bytes \<Rightarrow> ('t Cookie \<times> bytes) option" where
  "Cookie_AppendBytes T c dst =
     do {
       let dst = dst @ (if ckKey c \<noteq> [] then ckKey c @ [0x3D] else []);
       let dst = dst @ ckValue c;
       dst \<leftarrow> (if ckMaxAge c > 0 then AppendUint (dst @ bs ''; Max-Age='') (ckMaxAge c)
              else if ckMaxAge c < 0 then Some (dst @ bs ''; Max-Age=0'')
              else Some dst);
       (c, dst) \<leftarrow> (if validCookieExpires T (ckExpire c)
                   then do {
                     k \<leftarrow> AppendHTTPDate T [] (ckExpire c);
                     Some (c\<lparr>ckBufK := k\<rparr>, dst @ bs ''; Expires='' @ k)
                   }
                   else Some (c, dst));
       let dst = dst @ (if ckDomain c \<noteq> [] then bs ''; Domain='' @ ckDomain c else []);
       let dst = dst @ (if ckPath c \<noteq> [] then bs ''; Path='' @ ckPath c else []);
       let dst = dst @ (if ckHttpOnly c then bs ''; HttpOnly'' else []);
       let dst = dst @ (if ckSecure c then bs ''; Secure'' else []);
       let dst = dst @ (case ckSameSite c of
                          CookieSameSiteDefaultMode \<Rightarrow> bs ''; SameSite''
                        | CookieSameSiteLaxMode \<Rightarrow> bs ''; SameSite=Lax''
                        | CookieSameSiteStrictMode \<Rightarrow> bs ''; SameSite=Strict''
                        | CookieSameSiteNoneMode \<Rightarrow> bs ''; SameSite=None''
                        | CookieSameSiteDisabled \<Rightarrow> []);
       let dst = dst @ (if ckPartitioned c then bs ''; Partitioned'' else []);
       Some (c, dst)
     }"

definition Cookie_Cookie :: "'t time_ops \<Rightarrow> 't Cookie \<Rightarrow> ('t Cookie \<times> bytes) option" where
  "Cookie_Cookie T c = map_option (\<lambda>(c, b). (c\<lparr>ckBufV := b\<rparr>, b)) (Cookie_AppendBytes T c [])"

section \<open>Scanning\<close>

fun trim_left :: "bytes \<Rightarrow> bytes" where
  "trim_left [] = []"
| "trim_left (c # s) = (if c = spChar then trim_left s else c # s)"

definition trim_right :: "bytes \<Rightarrow> bytes" where
  "trim_right s = rev (trim_left (rev s))"

definition decodeCookieArg :: "bytes \<Rightarrow> bytes \<Rightarrow> bool \<Rightarrow> bytes" where
  "decodeCookieArg dst src skipQuotes =
     (let src = trim_right (trim_left src)
      in if skipQuotes \<and> length src > 1 \<and> src ! 0 = 0x22 \<and> last src = 0x22
         then slice src 1 (length src - 1) else src)"

definition caseInsensitiveCompare :: "bytes \<Rightarrow> bytes \<Rightarrow> bool" where
  "caseInsensitiveCompare a b \<longleftrightarrow> list_all2 (\<lambda>x y. x OR 0x20 = y OR 0x20) a b"

text \<open>The loop of \<^verbatim>\<open>cookieScanner.next\<close>: the buffer, the bytes not looked at yet, the index, and the
  variables \<^verbatim>\<open>isKey\<close>, \<^verbatim>\<open>k\<close> and \<^verbatim>\<open>*bufK\<close>. The result is the key, the value and the rest.\<close>

fun cookieScanner_loop :: "bytes \<Rightarrow> bytes \<Rightarrow> nat \<Rightarrow> bool \<Rightarrow> nat \<Rightarrow> bytes \<Rightarrow> bytes \<times> bytes \<times> bytes" where
  "cookieScanner_loop b [] i isKey k bufK =
     (if isKey then [] else bufK, decodeCookieArg [] (drop k b) True, drop (length b) b)"
| "cookieScanner_loop b (c # cs) i isKey k bufK =
     (if c = 0x3D
      then (if isKey then cookieScanner_loop b cs (i + 1) False (i + 1) (decodeCookieArg bufK (take i b) False)
            else cookieScanner_loop b cs (i + 1) isKey k bufK)
      else if c = 0x3B
      then (if isKey then [] else bufK, decodeCookieArg [] (slice b k i) True, drop (i + 1) b)
      else cookieScanner_loop b cs (i + 1) isKey k bufK)"

definition cookieScanner_next :: "bytes \<Rightarrow> bytes \<Rightarrow> (bytes \<times> bytes \<times> bytes) option" where
  "cookieScanner_next b bufK = (if b = [] then None else Some (cookieScanner_loop b b 0 True 0 bufK))"

lemma cookieScanner_loop_rest:
  "i + length cs = length b \<Longrightarrow> b \<noteq> [] \<Longrightarrow> length (snd (snd (cookieScanner_loop b cs i isKey k bufK))) < length b"
  by (induction b cs i isKey k bufK rule: cookieScanner_loop.induct) auto

lemma cookieScanner_next_shrinks:
  "cookieScanner_next b bufK = Some (k, v, b') \<Longrightarrow> length b' < length b"
  using cookieScanner_loop_rest [of 0 b b True 0 bufK] by (auto simp: cookieScanner_next_def split: if_splits)

section \<open>Parsing a Set-Cookie value\<close>

text \<open>One turn of the attribute loop: the switch on the first letter of the key, or of the value when
  there is no key.\<close>

definition cookie_samesite :: "'t Cookie \<Rightarrow> bytes \<Rightarrow> 't Cookie" where
  "cookie_samesite c v =
     (if v = [] then c
      else if v ! 0 OR 0x20 = 0x6C
      then (if caseInsensitiveCompare (bs ''Lax'') v then c\<lparr>ckSameSite := CookieSameSiteLaxMode\<rparr> else c)
      else if v ! 0 OR 0x20 = 0x73
      then (if caseInsensitiveCompare (bs ''Strict'') v then c\<lparr>ckSameSite := CookieSameSiteStrictMode\<rparr> else c)
      else if v ! 0 OR 0x20 = 0x6E
      then (if caseInsensitiveCompare (bs ''None'') v then c\<lparr>ckSameSite := CookieSameSiteNoneMode\<rparr> else c)
      else c)"

definition cookie_attr :: "'t time_ops \<Rightarrow> 't Cookie \<Rightarrow> 't Cookie \<times> cookie_error option" where
  "cookie_attr T c =
     (let k = ckBufK c; v = ckBufV c
      in if k \<noteq> []
         then (let s = k ! 0 OR 0x20
               in if s = 0x6D
                  then (if caseInsensitiveCompare (bs ''Max-Age'') k
                        then (case ParseUint v of
                                (n, Some e) \<Rightarrow> (c, Some (errMaxAge e))
                              | (n, None) \<Rightarrow> (c\<lparr>ckMaxAge := n\<rparr>, None))
                        else (c, None))
                  else if s = 0x65
                  then (if caseInsensitiveCompare (bs ''Expires'') k
                        then (case parseRFC1123 T v of
                                Some t \<Rightarrow> (c\<lparr>ckExpire := t\<rparr>, None)
                              | None \<Rightarrow> (case parseDashed T v of
                                          Some t \<Rightarrow> (c\<lparr>ckExpire := t\<rparr>, None)
                                        | None \<Rightarrow> (c, Some errExpires)))
                        else (c, None))
                  else if s = 0x64
                  then (if caseInsensitiveCompare (bs ''Domain'') k then (c\<lparr>ckDomain := ckDomain c @ v\<rparr>, None) else (c, None))
                  else if s = 0x70
                  then (if caseInsensitiveCompare (bs ''Path'') k then (c\<lparr>ckPath := ckPath c @ v\<rparr>, None) else (c, None))
                  else if s = 0x73
                  then (if caseInsensitiveCompare (bs ''SameSite'') k then (cookie_samesite c v, None) else (c, None))
                  else (c, None))
         else if v \<noteq> []
         then (let s = v ! 0 OR 0x20
               in if s = 0x68
                  then (if caseInsensitiveCompare (bs ''HttpOnly'') v then (c\<lparr>ckHttpOnly := True\<rparr>, None) else (c, None))
                  else if s = 0x73
                  then (if caseInsensitiveCompare (bs ''Secure'') v then (c\<lparr>ckSecure := True\<rparr>, None)
                        else if caseInsensitiveCompare (bs ''SameSite'') v
                        then (c\<lparr>ckSameSite := CookieSameSiteDefaultMode\<rparr>, None)
                        else (c, None))
                  else if s = 0x70
                  then (if caseInsensitiveCompare (bs ''Partitioned'') v then (c\<lparr>ckPartitioned := True\<rparr>, None) else (c, None))
                  else (c, None))
         else (c, None))"

function Cookie_ParseBytes_loop :: "'t time_ops \<Rightarrow> 't Cookie \<Rightarrow> bytes \<Rightarrow> 't Cookie \<times> cookie_error option" where
  "Cookie_ParseBytes_loop T c b =
     (case cookieScanner_next b (ckBufK c) of
        None \<Rightarrow> (c, None)
      | Some (k, v, b') \<Rightarrow>
          (case cookie_attr T (c\<lparr>ckBufK := k, ckBufV := v\<rparr>) of
             (c, Some e) \<Rightarrow> (c, Some e)
           | (c, None) \<Rightarrow> Cookie_ParseBytes_loop T c b'))"
  by pat_completeness auto
termination
  by (relation "measure (\<lambda>(T, c, b). length b)") (auto dest: cookieScanner_next_shrinks)

declare Cookie_ParseBytes_loop.simps [simp del]

definition Cookie_ParseBytes :: "'t time_ops \<Rightarrow> 't Cookie \<Rightarrow> bytes \<Rightarrow> 't Cookie \<times> cookie_error option" where
  "Cookie_ParseBytes T c src =
     (let c = Cookie_Reset T c
      in (case cookieScanner_next src (ckBufK c) of
            None \<Rightarrow> (c, Some errNoCookies)
          | Some (k, v, b) \<Rightarrow>
              Cookie_ParseBytes_loop T
                (c\<lparr>ckBufK := k, ckBufV := v, ckKey := ckKey c @ k, ckValue := ckValue c @ v\<rparr>) b))"

section \<open>Request cookies\<close>

definition getCookieKey :: "bytes \<Rightarrow> bytes \<Rightarrow> bytes" where
  "getCookieKey dst src =
     (let src = (case index_byte src 0x3D of Some n \<Rightarrow> take n src | None \<Rightarrow> src)
      in decodeCookieArg dst src False)"

fun appendRequestCookieBytes :: "bytes \<Rightarrow> argsKV list \<Rightarrow> bytes" where
  "appendRequestCookieBytes dst [] = dst"
| "appendRequestCookieBytes dst (kv # cookies) =
     (let dst = (if kvKey kv \<noteq> [] then dst @ kvKey kv @ [0x3D] else dst);
          dst = dst @ kvValue kv;
          dst = (if cookies \<noteq> [] then dst @ bs ''; '' else dst)
      in appendRequestCookieBytes dst cookies)"

fun appendResponseCookieBytes :: "bytes \<Rightarrow> argsKV list \<Rightarrow> bytes" where
  "appendResponseCookieBytes dst [] = dst"
| "appendResponseCookieBytes dst (kv # cookies) =
     (let dst = dst @ kvValue kv;
          dst = (if cookies \<noteq> [] then dst @ bs ''; '' else dst)
      in appendResponseCookieBytes dst cookies)"

function parseRequestCookies_loop :: "kvslice \<Rightarrow> bytes \<Rightarrow> kvslice" where
  "parseRequestCookies_loop cookies b =
     (case cookieScanner_next b (kvKey (last_kv cookies)) of
        None \<Rightarrow> cookies
      | Some (k, v, b') \<Rightarrow>
          (let cookies = set_last cookies ((last_kv cookies)\<lparr>kvKey := k, kvValue := v\<rparr>)
           in if k \<noteq> [] \<or> v \<noteq> [] then parseRequestCookies_loop (allocArg cookies) b'
              else parseRequestCookies_loop cookies b'))"
  by pat_completeness auto
termination
  by (relation "measure (\<lambda>(a, b). length b)") (auto dest: cookieScanner_next_shrinks)

declare parseRequestCookies_loop.simps [simp del]

definition parseRequestCookies :: "kvslice \<Rightarrow> bytes \<Rightarrow> kvslice" where
  "parseRequestCookies cookies src = releaseArg (parseRequestCookies_loop (allocArg cookies) src)"

section \<open>What the scanner reads\<close>

text \<open>The reference: cut at semicolons, cut each piece at its first equals sign, trim both halves and
  strip a pair of quotes from the value.\<close>

definition cookie_first :: "bytes \<Rightarrow> bytes" where
  "cookie_first b = takeWhile (\<lambda>c. c \<noteq> 0x3B) b"

definition cookie_rest :: "bytes \<Rightarrow> bytes" where
  "cookie_rest b = drop 1 (dropWhile (\<lambda>c. c \<noteq> 0x3B) b)"

definition cookie_kv :: "bytes \<Rightarrow> bytes \<times> bytes" where
  "cookie_kv p =
     (case index_byte p 0x3D of
        None \<Rightarrow> ([], decodeCookieArg [] p True)
      | Some n \<Rightarrow> (decodeCookieArg [] (take n p) False, decodeCookieArg [] (drop (n + 1) p) True))"

lemma cookie_rest_shrinks: "b \<noteq> [] \<Longrightarrow> length (cookie_rest b) < length b"
proof -
  assume "b \<noteq> []"
  moreover have "length (dropWhile (\<lambda>c. c \<noteq> 0x3B) b) \<le> length b" by (rule length_dropWhile_le)
  ultimately show ?thesis unfolding cookie_rest_def length_drop by (cases b) (auto split: if_splits)
qed

function cookie_pieces :: "bytes \<Rightarrow> bytes list" where
  "cookie_pieces b = (if b = [] then [] else cookie_first b # cookie_pieces (cookie_rest b))"
  by pat_completeness auto
termination
  by (relation "measure length") (auto intro: cookie_rest_shrinks)

declare cookie_pieces.simps [simp del]

lemma decodeCookieArg_dst: "decodeCookieArg d s q = decodeCookieArg [] s q"
  by (simp add: decodeCookieArg_def)

lemma cookie_scan_value:
  assumes "b = pre @ cs" "i = length pre" "k \<le> i"
  shows "cookieScanner_loop b cs i False k bufK =
           (bufK, decodeCookieArg [] (slice b k (i + length (cookie_first cs))) True, cookie_rest cs)"
  using assms
proof (induction cs arbitrary: pre i)
  case Nil
  then show ?case by (simp add: cookie_first_def cookie_rest_def slice_def)
next
  case (Cons c cs)
  show ?case
  proof (cases "c = 0x3B")
    case True
    with Cons.prems show ?thesis by (simp add: cookie_first_def cookie_rest_def)
  next
    case False
    have "cookieScanner_loop b cs (i + 1) False k bufK =
        (bufK, decodeCookieArg [] (slice b k (i + 1 + length (cookie_first cs))) True, cookie_rest cs)"
      using Cons.prems by (intro Cons.IH [of "pre @ [c]"]) auto
    with False show ?thesis by (simp add: cookie_first_def cookie_rest_def)
  qed
qed

lemma cookie_scan_key:
  assumes "b = pre @ cs" "i = length pre" "0x3D \<notin> set pre"
  shows "cookieScanner_loop b cs i True 0 bufK =
           (fst (cookie_kv (pre @ cookie_first cs)), snd (cookie_kv (pre @ cookie_first cs)), cookie_rest cs)"
  using assms
proof (induction cs arbitrary: pre i)
  case Nil
  then show ?case by (simp add: cookie_first_def cookie_rest_def cookie_kv_def)
next
  case (Cons c cs)
  consider "c = 0x3B" | "c = 0x3D" | "c \<noteq> 0x3B" "c \<noteq> 0x3D" by blast
  then show ?case
  proof cases
    case 1
    with Cons.prems show ?thesis by (simp add: cookie_first_def cookie_rest_def cookie_kv_def slice_def)
  next
    case 2
    have "slice b (i + 1) (i + 1 + length (cookie_first cs)) = cookie_first cs"
      using Cons.prems 2 by (simp add: slice_def cookie_first_def)
    moreover have "cookieScanner_loop b cs (i + 1) False (i + 1) (decodeCookieArg bufK pre False) =
        (decodeCookieArg bufK pre False,
         decodeCookieArg [] (slice b (i + 1) (i + 1 + length (cookie_first cs))) True, cookie_rest cs)"
      using Cons.prems 2 by (intro cookie_scan_value [of _ "pre @ [c]"]) auto
    ultimately show ?thesis
      using 2 Cons.prems
      by (simp add: cookie_kv_def index_byte_append cookie_first_def cookie_rest_def decodeCookieArg_dst [of bufK])
  next
    case 3
    have "cookieScanner_loop b cs (i + 1) True 0 bufK =
        (fst (cookie_kv ((pre @ [c]) @ cookie_first cs)), snd (cookie_kv ((pre @ [c]) @ cookie_first cs)), cookie_rest cs)"
      using Cons.prems 3 by (intro Cons.IH) auto
    with 3 show ?thesis by (simp add: cookie_first_def cookie_rest_def)
  qed
qed

lemma cookieScanner_next_eq:
  "cookieScanner_next b bufK =
     (if b = [] then None
      else Some (fst (cookie_kv (cookie_first b)), snd (cookie_kv (cookie_first b)), cookie_rest b))"
  using cookie_scan_key [of b "[]" b 0 bufK] by (simp add: cookieScanner_next_def)

lemma cookie_pieces_Cons: "0x3B \<notin> set p \<Longrightarrow> cookie_pieces (p @ 0x3B # r) = p # cookie_pieces r"
  by (subst cookie_pieces.simps) (simp add: cookie_first_def cookie_rest_def)

lemma cookie_pieces_single: "0x3B \<notin> set p \<Longrightarrow> p \<noteq> [] \<Longrightarrow> cookie_pieces p = [p]"
  by (simp add: cookie_pieces.simps cookie_first_def cookie_rest_def)

lemma cookie_pieces_Nil [simp]: "cookie_pieces [] = []"
  by (simp add: cookie_pieces.simps)

section \<open>Trimming\<close>

definition trimmed :: "bytes \<Rightarrow> bool" where
  "trimmed s \<longleftrightarrow> s = [] \<or> hd s \<noteq> spChar \<and> last s \<noteq> spChar"

definition unquoted :: "bytes \<Rightarrow> bool" where
  "unquoted s \<longleftrightarrow> \<not> (length s > 1 \<and> s ! 0 = 0x22 \<and> last s = 0x22)"

lemma trim_left_id: "hd s \<noteq> spChar \<Longrightarrow> trim_left s = s"
  by (cases s) auto

lemma decodeCookieArg_id: "trimmed s \<Longrightarrow> (q \<Longrightarrow> unquoted s) \<Longrightarrow> decodeCookieArg d s q = s"
proof -
  assume t: "trimmed s" and q: "q \<Longrightarrow> unquoted s"
  have "trim_right (trim_left s) = s"
    using t by (cases "s = []") (auto simp: trimmed_def trim_right_def trim_left_id hd_rev)
  with q show ?thesis by (auto simp: decodeCookieArg_def unquoted_def Let_def)
qed

lemma decodeCookieArg_space [simp]: "decodeCookieArg d (spChar # s) q = decodeCookieArg d s q"
  by (simp add: decodeCookieArg_def)

lemma cookie_kv_space [simp]: "cookie_kv (spChar # p) = cookie_kv p"
  by (auto simp: cookie_kv_def split: option.splits)

lemma cookie_kv_pair: "0x3D \<notin> set k \<Longrightarrow> cookie_kv (k @ 0x3D # v) = (decodeCookieArg [] k False, decodeCookieArg [] v True)"
  by (simp add: cookie_kv_def index_byte_first)

section \<open>Request cookies as pairs\<close>

definition kv_pairs :: "argsKV list \<Rightarrow> (bytes \<times> bytes) list" where
  "kv_pairs l = map (\<lambda>kv. (kvKey kv, kvValue kv)) l"

definition cookie_nonblank :: "bytes \<times> bytes \<Rightarrow> bool" where
  "cookie_nonblank p \<longleftrightarrow> fst p \<noteq> [] \<or> snd p \<noteq> []"

lemma kv_pairs_simps [simp]:
  "kv_pairs [] = []" "kv_pairs (x # l) = (kvKey x, kvValue x) # kv_pairs l" "kv_pairs (l @ m) = kv_pairs l @ kv_pairs m"
  by (simp_all add: kv_pairs_def)

lemma parseRequestCookies_loop_eq:
  "live a \<noteq> [] \<Longrightarrow>
     kv_pairs (butlast (live (parseRequestCookies_loop a b))) =
       kv_pairs (butlast (live a)) @ filter cookie_nonblank (map cookie_kv (cookie_pieces b))"
proof (induction "length b" arbitrary: a b rule: less_induct)
  case less
  show ?case
  proof (cases "b = []")
    case True
    then show ?thesis by (simp add: parseRequestCookies_loop.simps [of a "[]"] cookieScanner_next_def)
  next
    case False
    let ?kv = "cookie_kv (cookie_first b)"
    let ?a = "set_last a ((last_kv a)\<lparr>kvKey := fst ?kv, kvValue := snd ?kv\<rparr>)"
    have n: "cookieScanner_next b (kvKey (last_kv a)) = Some (fst ?kv, snd ?kv, cookie_rest b)"
      using False by (simp add: cookieScanner_next_eq)
    have p: "cookie_pieces b = cookie_first b # cookie_pieces (cookie_rest b)"
      using False by (subst cookie_pieces.simps) simp
    show ?thesis
    proof (cases "cookie_nonblank ?kv")
      case True
      with less.hyps [OF cookie_rest_shrinks [OF \<open>b \<noteq> []\<close>], of "allocArg ?a"] n p show ?thesis
        by (subst parseRequestCookies_loop.simps) (auto simp: cookie_nonblank_def butlast_append)
    next
      case False
      with less.hyps [OF cookie_rest_shrinks [OF \<open>b \<noteq> []\<close>], of ?a] n p show ?thesis
        by (subst parseRequestCookies_loop.simps) (auto simp: cookie_nonblank_def)
    qed
  qed
qed

lemma parseRequestCookies_eq:
  "kv_pairs (live (parseRequestCookies a b)) =
     kv_pairs (live a) @ filter cookie_nonblank (map cookie_kv (cookie_pieces b))"
  using parseRequestCookies_loop_eq [of "allocArg a" b] by (simp add: parseRequestCookies_def)

text \<open>A request cookie that survives printing: a clean non-empty name, a value without a semicolon,
  surrounding blanks or quotes.\<close>

definition request_cookie_ok :: "bytes \<times> bytes \<Rightarrow> bool" where
  "request_cookie_ok p \<longleftrightarrow>
     fst p \<noteq> [] \<and> 0x3D \<notin> set (fst p) \<and> 0x3B \<notin> set (fst p) \<and> trimmed (fst p) \<and>
     0x3B \<notin> set (snd p) \<and> trimmed (snd p) \<and> unquoted (snd p)"

fun print_cookies :: "(bytes \<times> bytes) list \<Rightarrow> bytes" where
  "print_cookies [] = []"
| "print_cookies ((k, v) # ps) =
     (if k \<noteq> [] then k @ [0x3D] else []) @ v @ (if ps \<noteq> [] then bs ''; '' else []) @ print_cookies ps"

lemma appendRequestCookieBytes_eq: "appendRequestCookieBytes dst l = dst @ print_cookies (kv_pairs l)"
proof (induction dst l rule: appendRequestCookieBytes.induct)
  case (1 dst)
  then show ?case by simp
next
  case (2 dst kv cookies)
  have "kv_pairs cookies \<noteq> [] \<longleftrightarrow> cookies \<noteq> []" by (simp add: kv_pairs_def)
  with 2 show ?case by (simp add: Let_def)
qed

lemma cookie_kv_ok: "request_cookie_ok (k, v) \<Longrightarrow> cookie_kv (k @ 0x3D # v) = (k, v)"
  by (simp add: request_cookie_ok_def cookie_kv_pair decodeCookieArg_id)

lemma pieces_print_cookies:
  "list_all request_cookie_ok ps \<Longrightarrow> map cookie_kv (cookie_pieces (sp @ print_cookies ps)) = ps"
  if "sp = [] \<or> sp = [spChar] \<and> ps \<noteq> []"
  using that
proof (induction ps arbitrary: sp)
  case Nil
  then show ?case by auto
next
  case (Cons p ps)
  obtain k v where p: "p = (k, v)" by (cases p)
  with Cons.prems have ok: "request_cookie_ok (k, v)" by simp
  let ?c = "sp @ k @ 0x3D # v"
  have c: "0x3B \<notin> set ?c" "?c \<noteq> []" using ok Cons.prems by (auto simp: request_cookie_ok_def)
  have kv: "cookie_kv ?c = (k, v)" using cookie_kv_ok [OF ok] Cons.prems by auto
  show ?case
  proof (cases "ps = []")
    case True
    with ok p c kv show ?thesis by (auto simp: request_cookie_ok_def cookie_pieces_single)
  next
    case False
    have "cookie_pieces (?c @ 0x3B # spChar # print_cookies ps) = ?c # cookie_pieces ([spChar] @ print_cookies ps)"
      using cookie_pieces_Cons [OF c(1), of "spChar # print_cookies ps"] by simp
    with Cons.IH [of "[spChar]"] Cons.prems ok p kv False show ?thesis
      by (auto simp: request_cookie_ok_def)
  qed
qed

lemma request_cookies_print_parse:
  assumes "list_all request_cookie_ok (kv_pairs l)"
  shows "kv_pairs (live (parseRequestCookies emptyArgs (appendRequestCookieBytes [] l))) = kv_pairs l"
proof -
  have "filter cookie_nonblank (kv_pairs l) = kv_pairs l"
    using assms by (auto simp: list_all_iff request_cookie_ok_def cookie_nonblank_def intro!: filter_True)
  with pieces_print_cookies [of "[]", OF _ assms] show ?thesis
    by (simp add: parseRequestCookies_eq appendRequestCookieBytes_eq)
qed

section \<open>Set-Cookie attributes\<close>

text \<open>The attribute list a cookie prints, and the effect of reading attributes back. The two scratch
  buffers are left out of the comparison.\<close>

definition cookie_core :: "'t Cookie \<Rightarrow> 't Cookie" where
  "cookie_core c = c\<lparr>ckBufK := [], ckBufV := []\<rparr>"

fun apply_attrs :: "'t time_ops \<Rightarrow> 't Cookie \<Rightarrow> (bytes \<times> bytes) list \<Rightarrow> 't Cookie \<times> cookie_error option" where
  "apply_attrs T c [] = (c, None)"
| "apply_attrs T c ((k, v) # ps) =
     (case cookie_attr T (c\<lparr>ckBufK := k, ckBufV := v\<rparr>) of
        (c, Some e) \<Rightarrow> (c, Some e)
      | (c, None) \<Rightarrow> apply_attrs T c ps)"

lemma Cookie_ParseBytes_loop_eq: "Cookie_ParseBytes_loop T c b = apply_attrs T c (map cookie_kv (cookie_pieces b))"
proof (induction "length b" arbitrary: c b rule: less_induct)
  case less
  show ?case
  proof (cases "b = []")
    case True
    then show ?thesis by (simp add: Cookie_ParseBytes_loop.simps [of T c "[]"] cookieScanner_next_def)
  next
    case False
    obtain k v where kv: "cookie_kv (cookie_first b) = (k, v)" by (cases "cookie_kv (cookie_first b)")
    have p: "cookie_pieces b = cookie_first b # cookie_pieces (cookie_rest b)"
      using False by (subst cookie_pieces.simps) simp
    show ?thesis
      using less.hyps [OF cookie_rest_shrinks [OF False]] False kv
      by (subst Cookie_ParseBytes_loop.simps) (simp add: cookieScanner_next_eq p split: prod.splits option.splits)
  qed
qed

text \<open>\<open>reads T ps f\<close>: reading the attributes \<open>ps\<close> succeeds and changes the cookie by \<open>f\<close>.\<close>

definition reads :: "'t time_ops \<Rightarrow> (bytes \<times> bytes) list \<Rightarrow> ('t Cookie \<Rightarrow> 't Cookie) \<Rightarrow> bool" where
  "reads T ps f \<longleftrightarrow> (\<forall>c. snd (apply_attrs T c ps) = None \<and> cookie_core (fst (apply_attrs T c ps)) = f (cookie_core c))"

lemma apply_attrs_append:
  "apply_attrs T c (ps @ qs) =
     (case apply_attrs T c ps of (c, Some e) \<Rightarrow> (c, Some e) | (c, None) \<Rightarrow> apply_attrs T c qs)"
  by (induction T c ps rule: apply_attrs.induct) (auto split: prod.splits option.splits)

lemma reads_append: "reads T ps f \<Longrightarrow> reads T qs g \<Longrightarrow> reads T (ps @ qs) (\<lambda>c. g (f c))"
  unfolding reads_def apply_attrs_append by (auto split: prod.splits option.splits) (metis fst_conv snd_conv option.distinct(1))+

lemma reads_Nil: "(\<And>c. f c = c) \<Longrightarrow> reads T [] f"
  by (simp add: reads_def)

lemma reads_if: "(b \<Longrightarrow> reads T ps f) \<Longrightarrow> (\<not> b \<Longrightarrow> reads T qs g) \<Longrightarrow> reads T (if b then ps else qs) (if b then f else g)"
  by simp

named_theorems attr_reads \<open>the effect of each attribute\<close>

lemma reads_MaxAge [attr_reads]:
  "0 \<le> n \<Longrightarrow> n < 2 ^ 63 \<Longrightarrow> reads T [(bs ''Max-Age'', dec_digits (nat n))] (\<lambda>c. c\<lparr>ckMaxAge := n\<rparr>)"
  using ParseUint_dec_digits [of "nat n"]
  by (simp add: reads_def cookie_attr_def caseInsensitiveCompare_def cookie_core_def nat_less_iff)

lemma reads_Expires [attr_reads]:
  "parseRFC1123 T d = Some t \<Longrightarrow> reads T [(bs ''Expires'', d)] (\<lambda>c. c\<lparr>ckExpire := t\<rparr>)"
  by (simp add: reads_def cookie_attr_def caseInsensitiveCompare_def cookie_core_def)

lemma reads_Domain [attr_reads]: "reads T [(bs ''Domain'', d)] (\<lambda>c. c\<lparr>ckDomain := ckDomain c @ d\<rparr>)"
  by (simp add: reads_def cookie_attr_def caseInsensitiveCompare_def cookie_core_def)

lemma reads_Path [attr_reads]: "reads T [(bs ''Path'', d)] (\<lambda>c. c\<lparr>ckPath := ckPath c @ d\<rparr>)"
  by (simp add: reads_def cookie_attr_def caseInsensitiveCompare_def cookie_core_def)

lemma reads_HttpOnly [attr_reads]: "reads T [([], bs ''HttpOnly'')] (\<lambda>c. c\<lparr>ckHttpOnly := True\<rparr>)"
  by (simp add: reads_def cookie_attr_def caseInsensitiveCompare_def cookie_core_def)

lemma reads_Secure [attr_reads]: "reads T [([], bs ''Secure'')] (\<lambda>c. c\<lparr>ckSecure := True\<rparr>)"
  by (simp add: reads_def cookie_attr_def caseInsensitiveCompare_def cookie_core_def)

lemma reads_Partitioned [attr_reads]: "reads T [([], bs ''Partitioned'')] (\<lambda>c. c\<lparr>ckPartitioned := True\<rparr>)"
  by (simp add: reads_def cookie_attr_def caseInsensitiveCompare_def cookie_core_def)

definition samesite_attrs :: "CookieSameSite \<Rightarrow> (bytes \<times> bytes) list" where
  "samesite_attrs m =
     (case m of
        CookieSameSiteDisabled \<Rightarrow> []
      | CookieSameSiteDefaultMode \<Rightarrow> [([], bs ''SameSite'')]
      | CookieSameSiteLaxMode \<Rightarrow> [(bs ''SameSite'', bs ''Lax'')]
      | CookieSameSiteStrictMode \<Rightarrow> [(bs ''SameSite'', bs ''Strict'')]
      | CookieSameSiteNoneMode \<Rightarrow> [(bs ''SameSite'', bs ''None'')])"

lemma reads_SameSite [attr_reads]:
  "reads T (samesite_attrs m) (if m = CookieSameSiteDisabled then (\<lambda>c. c) else (\<lambda>c. c\<lparr>ckSameSite := m\<rparr>))"
  by (cases m)
    (simp_all add: samesite_attrs_def reads_def cookie_attr_def cookie_samesite_def caseInsensitiveCompare_def cookie_core_def)

definition cookie_attrs :: "'t time_ops \<Rightarrow> 't Cookie \<Rightarrow> (bytes \<times> bytes) list" where
  "cookie_attrs T c =
     (if ckMaxAge c > 0 then [(bs ''Max-Age'', dec_digits (nat (ckMaxAge c)))] else []) @
     (if validCookieExpires T (ckExpire c) then [(bs ''Expires'', the (AppendHTTPDate T [] (ckExpire c)))] else []) @
     (if ckDomain c \<noteq> [] then [(bs ''Domain'', ckDomain c)] else []) @
     (if ckPath c \<noteq> [] then [(bs ''Path'', ckPath c)] else []) @
     (if ckHttpOnly c then [([], bs ''HttpOnly'')] else []) @
     (if ckSecure c then [([], bs ''Secure'')] else []) @
     samesite_attrs (ckSameSite c) @
     (if ckPartitioned c then [([], bs ''Partitioned'')] else [])"

definition print_attr :: "bytes \<times> bytes \<Rightarrow> bytes" where
  "print_attr a = bs ''; '' @ (if fst a \<noteq> [] then fst a @ [0x3D] else []) @ snd a"

definition clean_text :: "bytes \<Rightarrow> bool" where
  "clean_text s \<longleftrightarrow> 0x3B \<notin> set s \<and> trimmed s \<and> unquoted s"

text \<open>A cookie that survives printing. An expiry time must be one that package \<^verbatim>\<open>time\<close> formats and
  parses back.\<close>

definition cookie_ok :: "'t time_ops \<Rightarrow> 't Cookie \<Rightarrow> bool" where
  "cookie_ok T c \<longleftrightarrow>
     request_cookie_ok (ckKey c, ckValue c) \<and> 0 \<le> ckMaxAge c \<and> ckMaxAge c < 2 ^ 63 \<and>
     clean_text (ckDomain c) \<and> clean_text (ckPath c) \<and>
     (if validCookieExpires T (ckExpire c)
      then (case AppendHTTPDate T [] (ckExpire c) of
              None \<Rightarrow> False
            | Some d \<Rightarrow> clean_text d \<and> parseRFC1123 T d = Some (ckExpire c))
      else ckExpire c = zeroTime T)"

lemma print_attr_if: "concat (map print_attr (if b then [a] else [])) = (if b then print_attr a else [])"
  by simp

lemma print_samesite:
  "concat (map print_attr (samesite_attrs m)) =
     (case m of
        CookieSameSiteDefaultMode \<Rightarrow> bs ''; SameSite''
      | CookieSameSiteLaxMode \<Rightarrow> bs ''; SameSite=Lax''
      | CookieSameSiteStrictMode \<Rightarrow> bs ''; SameSite=Strict''
      | CookieSameSiteNoneMode \<Rightarrow> bs ''; SameSite=None''
      | CookieSameSiteDisabled \<Rightarrow> [])"
  by (cases m) (simp_all add: samesite_attrs_def print_attr_def)

lemma Cookie_AppendBytes_ok:
  assumes "cookie_ok T c"
  shows "\<exists>c'. Cookie_AppendBytes T c [] =
           Some (c', ckKey c @ 0x3D # ckValue c @ concat (map print_attr (cookie_attrs T c)))"
proof -
  have k: "ckKey c \<noteq> []" using assms by (simp add: cookie_ok_def request_cookie_ok_def)
  have m: "(if ckMaxAge c > 0 then AppendUint (d @ bs ''; Max-Age='') (ckMaxAge c)
              else if ckMaxAge c < 0 then Some (d @ bs ''; Max-Age=0'') else Some d) =
           Some (d @ (if ckMaxAge c > 0 then bs ''; Max-Age='' @ dec_digits (nat (ckMaxAge c)) else []))" for d
    using assms AppendUint_eq [of "ckMaxAge c"] by (auto simp: cookie_ok_def)
  show ?thesis
  proof (cases "validCookieExpires T (ckExpire c)")
    case True
    with assms obtain t where "AppendHTTPDate T [] (ckExpire c) = Some t"
      by (auto simp: cookie_ok_def split: option.splits)
    with True k show ?thesis
      unfolding Cookie_AppendBytes_def Let_def m
      by (simp add: cookie_attrs_def print_attr_if print_attr_def print_samesite
          Let_def split del: if_split cong: if_cong)
  next
    case False
    with k show ?thesis
      unfolding Cookie_AppendBytes_def Let_def m
      by (simp add: cookie_attrs_def print_attr_if print_attr_def print_samesite
          Let_def split del: if_split cong: if_cong)
  qed
qed

lemma cookie_attrs_read:
  assumes "cookie_ok T c"
  shows "snd (apply_attrs T c0 (cookie_attrs T c)) = None \<and>
         (cookie_core c0 = (cookie_core (emptyCookie T))\<lparr>ckKey := ckKey c, ckValue := ckValue c\<rparr> \<longrightarrow>
          cookie_core (fst (apply_attrs T c0 (cookie_attrs T c))) = cookie_core c)"
proof -
  let ?keep = "\<lambda>c. c"
  have m: "reads T (if ckMaxAge c > 0 then [(bs ''Max-Age'', dec_digits (nat (ckMaxAge c)))] else [])
      (if ckMaxAge c > 0 then (\<lambda>x. x\<lparr>ckMaxAge := ckMaxAge c\<rparr>) else ?keep)"
    using assms by (intro reads_if reads_MaxAge reads_Nil) (auto simp: cookie_ok_def)
  have e: "reads T (if validCookieExpires T (ckExpire c) then [(bs ''Expires'', the (AppendHTTPDate T [] (ckExpire c)))] else [])
      (if validCookieExpires T (ckExpire c) then (\<lambda>x. x\<lparr>ckExpire := ckExpire c\<rparr>) else ?keep)"
    using assms by (intro reads_if reads_Expires reads_Nil) (auto simp: cookie_ok_def split: option.splits)
  have d: "reads T (if ckDomain c \<noteq> [] then [(bs ''Domain'', ckDomain c)] else [])
      (if ckDomain c \<noteq> [] then (\<lambda>x. x\<lparr>ckDomain := ckDomain x @ ckDomain c\<rparr>) else ?keep)"
    by (intro reads_if reads_Domain reads_Nil) auto
  have p: "reads T (if ckPath c \<noteq> [] then [(bs ''Path'', ckPath c)] else [])
      (if ckPath c \<noteq> [] then (\<lambda>x. x\<lparr>ckPath := ckPath x @ ckPath c\<rparr>) else ?keep)"
    by (intro reads_if reads_Path reads_Nil) auto
  have h: "reads T (if ckHttpOnly c then [([], bs ''HttpOnly'')] else [])
      (if ckHttpOnly c then (\<lambda>x. x\<lparr>ckHttpOnly := True\<rparr>) else ?keep)"
    by (intro reads_if reads_HttpOnly reads_Nil) auto
  have s: "reads T (if ckSecure c then [([], bs ''Secure'')] else [])
      (if ckSecure c then (\<lambda>x. x\<lparr>ckSecure := True\<rparr>) else ?keep)"
    by (intro reads_if reads_Secure reads_Nil) auto
  have q: "reads T (if ckPartitioned c then [([], bs ''Partitioned'')] else [])
      (if ckPartitioned c then (\<lambda>x. x\<lparr>ckPartitioned := True\<rparr>) else ?keep)"
    by (intro reads_if reads_Partitioned reads_Nil) auto
  note all = reads_append [OF m reads_append [OF e reads_append [OF d reads_append [OF p reads_append
      [OF h reads_append [OF s reads_append [OF reads_SameSite [of T "ckSameSite c"] q]]]]]]]
  have z: "0 \<le> ckMaxAge c" "\<not> validCookieExpires T (ckExpire c) \<Longrightarrow> ckExpire c = zeroTime T"
    using assms by (auto simp: cookie_ok_def)
  have "snd (apply_attrs T c0 (cookie_attrs T c)) = None"
    using all unfolding cookie_attrs_def reads_def by blast
  moreover have "cookie_core (fst (apply_attrs T c0 (cookie_attrs T c))) = cookie_core c"
    if c0: "cookie_core c0 = (cookie_core (emptyCookie T))\<lparr>ckKey := ckKey c, ckValue := ckValue c\<rparr>"
  proof -
    note all [unfolded reads_def, rule_format, of c0, THEN conjunct2, folded cookie_attrs_def]
    then show ?thesis
      unfolding c0
      using z by (cases c) (auto simp: cookie_core_def emptyCookie_def)
  qed
  ultimately show ?thesis by blast
qed

definition attr_ok :: "bytes \<times> bytes \<Rightarrow> bool" where
  "attr_ok a \<longleftrightarrow>
     0x3D \<notin> set (fst a) \<and> 0x3B \<notin> set (fst a) \<and> trimmed (fst a) \<and> clean_text (snd a) \<and>
     (fst a = [] \<longrightarrow> 0x3D \<notin> set (snd a))"

lemma cookie_kv_attr:
  "attr_ok a \<Longrightarrow> cookie_kv (spChar # (if fst a \<noteq> [] then fst a @ [0x3D] else []) @ snd a) = a"
  by (cases "fst a = []")
    (auto simp: attr_ok_def clean_text_def cookie_kv_pair decodeCookieArg_id cookie_kv_def [of "snd a"] prod_eq_iff)

lemma pieces_attrs:
  assumes "list_all attr_ok as" "0x3B \<notin> set p" "p \<noteq> []"
  shows "map cookie_kv (cookie_pieces (p @ concat (map print_attr as))) = cookie_kv p # as"
  using assms
proof (induction as arbitrary: p)
  case Nil
  then show ?case by (simp add: cookie_pieces_single)
next
  case (Cons a as)
  let ?q = "spChar # (if fst a \<noteq> [] then fst a @ [0x3D] else []) @ snd a"
  have a: "attr_ok a" using Cons.prems by simp
  then have "0x3B \<notin> set ?q" by (auto simp: attr_ok_def clean_text_def)
  from Cons.IH [OF _ this] Cons.prems
  have "map cookie_kv (cookie_pieces (?q @ concat (map print_attr as))) = cookie_kv ?q # as" by simp
  moreover have "p @ concat (map print_attr (a # as)) = p @ 0x3B # (?q @ concat (map print_attr as))"
    by (simp add: print_attr_def)
  ultimately show ?case
    using cookie_kv_attr [OF a] cookie_pieces_Cons [OF Cons.prems(2)] by (simp only: list.map)
qed

lemma digit_not_special: "is_digit_byte c \<Longrightarrow> c \<noteq> 0x3B \<and> c \<noteq> spChar \<and> c \<noteq> 0x22"
  by (auto simp: is_digit_byte_def)

lemma clean_dec_digits: "clean_text (dec_digits n)"
proof -
  have d: "\<forall>c \<in> set (dec_digits n). c \<noteq> 0x3B \<and> c \<noteq> spChar \<and> c \<noteq> 0x22"
    using dec_digits_digits digit_not_special by blast
  moreover have "hd (dec_digits n) \<in> set (dec_digits n)" "last (dec_digits n) \<in> set (dec_digits n)" by simp_all
  moreover have "dec_digits n ! 0 = hd (dec_digits n)" by (simp add: hd_conv_nth)
  ultimately show ?thesis unfolding clean_text_def trimmed_def unquoted_def by auto
qed

lemma attr_ok_named:
  "attr_ok (bs ''Max-Age'', v) = clean_text v" "attr_ok (bs ''Expires'', v) = clean_text v"
  "attr_ok (bs ''Domain'', v) = clean_text v" "attr_ok (bs ''Path'', v) = clean_text v"
  "attr_ok ([], bs ''HttpOnly'')" "attr_ok ([], bs ''Secure'')" "attr_ok ([], bs ''Partitioned'')"
  by (simp_all add: attr_ok_def trimmed_def clean_text_def unquoted_def)

lemma attr_ok_samesite: "list_all attr_ok (samesite_attrs m)"
  by (cases m) (simp_all add: samesite_attrs_def attr_ok_def trimmed_def clean_text_def unquoted_def)

lemma list_all_if: "list_all P (if b then [a] else []) \<longleftrightarrow> (b \<longrightarrow> P a)"
  by simp

lemma cookie_attrs_ok:
  assumes "cookie_ok T c"
  shows "list_all attr_ok (cookie_attrs T c)"
proof -
  have "validCookieExpires T (ckExpire c) \<Longrightarrow> clean_text (the (AppendHTTPDate T [] (ckExpire c)))"
    using assms by (auto simp: cookie_ok_def split: option.splits)
  moreover have "clean_text (ckDomain c)" "clean_text (ckPath c)" using assms by (simp_all add: cookie_ok_def)
  ultimately show ?thesis
    unfolding cookie_attrs_def list_all_append list_all_if attr_ok_named(1-4)
    using attr_ok_samesite clean_dec_digits attr_ok_named(5-7) by blast
qed

lemma Cookie_print_parse:
  assumes "cookie_ok T c"
  shows "\<exists>c' s. Cookie_AppendBytes T c [] = Some (c', s) \<and> snd (Cookie_ParseBytes T d s) = None \<and>
           cookie_core (fst (Cookie_ParseBytes T d s)) = cookie_core c"
proof -
  let ?h = "ckKey c @ 0x3D # ckValue c"
  let ?s = "?h @ concat (map print_attr (cookie_attrs T c))"
  obtain c' where a: "Cookie_AppendBytes T c [] = Some (c', ?s)" using Cookie_AppendBytes_ok [OF assms] by auto
  have ok: "request_cookie_ok (ckKey c, ckValue c)" using assms by (simp add: cookie_ok_def)
  then have h: "0x3B \<notin> set ?h" "?h \<noteq> []" "cookie_kv ?h = (ckKey c, ckValue c)"
    by (auto simp: request_cookie_ok_def cookie_kv_ok)
  have m: "map cookie_kv (cookie_pieces ?s) = (ckKey c, ckValue c) # cookie_attrs T c"
    using pieces_attrs [OF cookie_attrs_ok [OF assms] h(1,2)] h(3) by simp
  have ne: "?s \<noteq> []" by simp
  then have p: "cookie_pieces ?s = cookie_first ?s # cookie_pieces (cookie_rest ?s)"
    by (subst cookie_pieces.simps) simp
  let ?c0 = "(Cookie_Reset T d)\<lparr>ckBufK := ckKey c, ckBufV := ckValue c, ckKey := ckKey c, ckValue := ckValue c\<rparr>"
  have "cookie_kv (cookie_first ?s) = (ckKey c, ckValue c)"
    "map cookie_kv (cookie_pieces (cookie_rest ?s)) = cookie_attrs T c"
    using m p by auto
  then have "Cookie_ParseBytes T d ?s = apply_attrs T ?c0 (cookie_attrs T c)"
    using ne by (simp add: Cookie_ParseBytes_def cookieScanner_next_eq Cookie_ParseBytes_loop_eq Cookie_Reset_def Let_def)
  moreover have "cookie_core ?c0 = (cookie_core (emptyCookie T))\<lparr>ckKey := ckKey c, ckValue := ckValue c\<rparr>"
    by (simp add: cookie_core_def Cookie_Reset_def emptyCookie_def)
  ultimately show ?thesis using a cookie_attrs_read [OF assms, of ?c0] by auto
qed

section \<open>Properties\<close>

text \<open>C32: a Set-Cookie value is read back as it was written. Printing a cookie with clean parts, a
  non-negative maximal age and an expiry time that package time can print and parse succeeds, and
  parsing the text into any cookie gives every attribute back.\<close>

theorem Cookie_roundtrip:
  assumes "cookie_ok T c"
  shows "\<exists>c' s. Cookie_AppendBytes T c [] = Some (c', s) \<and> snd (Cookie_ParseBytes T d s) = None \<and>
           cookie_core (fst (Cookie_ParseBytes T d s)) = cookie_core c"
  using assms by (rule Cookie_print_parse)

definition sample_time :: "nat time_ops" where
  "sample_time =
     \<lparr>zeroTime = 0, timeYear = (\<lambda>t. if t = 0 then 1 else 2030),
      formatRFC1123 = (\<lambda>t. bs ''Tue, 01 Jan 2030 00:00:00 UTC''),
      parseRFC1123 = (\<lambda>s. if s = bs ''Tue, 01 Jan 2030 00:00:00 GMT'' then Some 1 else None),
      parseDashed = (\<lambda>s. None)\<rparr>"

definition sample_cookie :: "nat Cookie" where
  "sample_cookie = (emptyCookie sample_time)\<lparr>ckKey := bs ''id'', ckValue := bs ''a=b'', ckExpire := 1, ckMaxAge := 60,
     ckPath := bs ''/'', ckSecure := True, ckSameSite := CookieSameSiteNoneMode\<rparr>"

theorem Cookie_roundtrip_witness:
  "cookie_ok sample_time sample_cookie \<and>
   (\<exists>c' s. Cookie_AppendBytes sample_time sample_cookie [] = Some (c', s) \<and>
      ckExpire (cookie_core (fst (Cookie_ParseBytes sample_time (emptyCookie sample_time) s))) = 1)"
proof -
  have ok: "cookie_ok sample_time sample_cookie"
    by (simp add: cookie_ok_def sample_cookie_def emptyCookie_def sample_time_def request_cookie_ok_def clean_text_def
        trimmed_def unquoted_def validCookieExpires_def AppendHTTPDate_def Let_def)
  obtain c' s where p: "Cookie_AppendBytes sample_time sample_cookie [] = Some (c', s)"
    "cookie_core (fst (Cookie_ParseBytes sample_time (emptyCookie sample_time) s)) = cookie_core sample_cookie"
    using Cookie_roundtrip [OF ok, of "emptyCookie sample_time"] by blast
  have "ckExpire (cookie_core sample_cookie) = 1" by (simp add: cookie_core_def sample_cookie_def)
  with p have "ckExpire (cookie_core (fst (Cookie_ParseBytes sample_time (emptyCookie sample_time) s))) = 1"
    by (simp only: p)
  with ok p(1) show ?thesis by blast
qed

text \<open>the cookies of a request survive the Cookie header. Printing cookies with clean names and
  values and parsing the header gives the same names and values in the same order.\<close>

theorem request_cookies_roundtrip:
  assumes "list_all request_cookie_ok (kv_pairs l)"
  shows "kv_pairs (live (parseRequestCookies emptyArgs (appendRequestCookieBytes [] l))) = kv_pairs l"
  using assms by (rule request_cookies_print_parse)

theorem request_cookies_roundtrip_witness:
  "kv_pairs (live (parseRequestCookies emptyArgs
     (appendRequestCookieBytes [] [mkKV (bs ''a'') (bs ''1'') False, mkKV (bs ''b'') (bs ''x=y'') False]))) =
   [(bs ''a'', bs ''1''), (bs ''b'', bs ''x=y'')]"
  using request_cookies_roundtrip [of "[mkKV (bs ''a'') (bs ''1'') False, mkKV (bs ''b'') (bs ''x=y'') False]"]
  by (simp add: request_cookie_ok_def trimmed_def unquoted_def)

text \<open>a repeated Domain attribute is concatenated, not replaced. RFC 6265 lets the last one
  count; the parser appends, and a cookie for \<^verbatim>\<open>b\<close> becomes one for \<^verbatim>\<open>ab\<close>.\<close>

theorem repeated_domain_concatenated:
  "ckDomain (fst (Cookie_ParseBytes T c (bs ''k=v; Domain=a; Domain=b''))) = bs ''ab''"
proof -
  have "cookie_pieces (bs ''k=v; Domain=a; Domain=b'') = [bs ''k=v'', bs '' Domain=a'', bs '' Domain=b'']"
    by (simp add: cookie_pieces.simps cookie_first_def cookie_rest_def)
  moreover have "cookie_first (bs ''k=v; Domain=a; Domain=b'') = bs ''k=v''"
    "cookie_pieces (cookie_rest (bs ''k=v; Domain=a; Domain=b'')) = [bs '' Domain=a'', bs '' Domain=b'']"
    by (simp_all add: cookie_pieces.simps cookie_first_def cookie_rest_def)
  ultimately show ?thesis
    by (simp add: Cookie_ParseBytes_def cookieScanner_next_eq Cookie_ParseBytes_loop_eq Let_def Cookie_Reset_def
        cookie_kv_def decodeCookieArg_def trim_right_def cookie_attr_def caseInsensitiveCompare_def)
qed

end
