(* ===== verification/BufReader.thy ===== *)
theory BufReader
  imports BytesConv
begin

text \<open>
  The part of \<^verbatim>\<open>bufio.Reader\<close> of the Go standard library that the sources rely on, and the helpers of
  \<^verbatim>\<open>header.go\<close> and \<^verbatim>\<open>bytesconv.go\<close> built directly on it. A reader holds the buffered bytes, the
  capacity of the buffer, the pending error, and the input that is still to come: a list of segments, one
  per successful read of the connection, followed by an error that every later read returns.
\<close>

section \<open>The reader\<close>

datatype io_error = EOF | ErrBufferFull | ErrNoProgress | ErrInvalidUnreadByte | OtherIO nat

record breader =
  brBuf :: bytes
  brSize :: nat
  brErr :: "io_error option"
  brSrc :: "bytes list"
  brEnd :: io_error
  brLast :: "byte option"

definition new_reader :: "nat \<Rightarrow> bytes list \<Rightarrow> breader" where
  "new_reader cap src =
     \<lparr>brBuf = [], brSize = cap, brErr = None, brSrc = src, brEnd = EOF, brLast = None\<rparr>"

text \<open>One read of the connection into the free part of the buffer; a segment that does not fit is delivered
  in pieces.\<close>

definition read_into :: "breader \<Rightarrow> breader \<times> nat \<times> io_error option" where
  "read_into r =
     (let k = brSize r - length (brBuf r)
      in (case brSrc r of
            [] \<Rightarrow> (r, 0, Some (brEnd r))
          | seg # rest \<Rightarrow>
              (r\<lparr>brBuf := brBuf r @ take k seg,
                 brSrc := (if length seg > k then drop k seg # rest else rest)\<rparr>, min k (length seg), None)))"

fun fill_loop :: "nat \<Rightarrow> breader \<Rightarrow> breader" where
  "fill_loop 0 r = r\<lparr>brErr := Some ErrNoProgress\<rparr>"
| "fill_loop (Suc i) r =
     (case read_into r of
        (r', n, Some e) \<Rightarrow> r'\<lparr>brErr := Some e\<rparr>
      | (r', n, None) \<Rightarrow> if n > 0 then r' else fill_loop i r')"

definition fill :: "breader \<Rightarrow> breader" where
  "fill r = fill_loop 100 r"

lemma fill_loop_size [simp]: "brSize (fill_loop i r) = brSize r"
  by (induction i r rule: fill_loop.induct) (auto simp: read_into_def Let_def split: list.splits)

lemma fill_size [simp]: "brSize (fill r) = brSize r"
  by (simp add: fill_def)

lemma fill_loop_progress:
  "brErr (fill_loop i r) \<noteq> None \<or> length (brBuf (fill_loop i r)) > length (brBuf r)"
proof (induction i r rule: fill_loop.induct)
  case (1 r)
  then show ?case by simp
next
  case (2 i r)
  then show ?case by (auto simp: read_into_def Let_def split: list.splits)
qed

function peek_fill :: "breader \<Rightarrow> nat \<Rightarrow> breader" where
  "peek_fill r n =
     (if length (brBuf r) < n \<and> length (brBuf r) < brSize r \<and> brErr r = None then peek_fill (fill r) n else r)"
  by pat_completeness auto
termination
proof (relation "measure (\<lambda>(r, n). if brErr r = None then Suc (brSize r) - length (brBuf r) else 0)")
  show "wf (measure (\<lambda>(r, n::nat). if brErr r = None then Suc (brSize r) - length (brBuf r) else 0))" by simp
  fix r :: breader and n :: nat
  assume "length (brBuf r) < n \<and> length (brBuf r) < brSize r \<and> brErr r = None"
  with fill_loop_progress [of 100 r]
  show "((fill r, n), r, n) \<in> measure (\<lambda>(r, n). if brErr r = None then Suc (brSize r) - length (brBuf r) else 0)"
    by (auto simp: fill_def [symmetric] in_measure)
qed

declare peek_fill.simps [simp del]

definition br_Peek :: "breader \<Rightarrow> nat \<Rightarrow> breader \<times> bytes \<times> io_error option" where
  "br_Peek r n =
     (let r = peek_fill (r\<lparr>brLast := None\<rparr>) n
      in if n > brSize r then (r, brBuf r, Some ErrBufferFull)
         else if length (brBuf r) < n
         then (r\<lparr>brErr := None\<rparr>, brBuf r, Some (case brErr r of None \<Rightarrow> ErrBufferFull | Some e \<Rightarrow> e))
         else (r, take n (brBuf r), None))"

function discard_loop :: "breader \<Rightarrow> nat \<Rightarrow> breader \<times> io_error option" where
  "discard_loop r remain =
     (let r = (if brBuf r = [] then fill r else r);
          skip = min (length (brBuf r)) remain;
          r = r\<lparr>brBuf := drop skip (brBuf r)\<rparr>;
          remain' = remain - skip
      in if remain' = 0 then (r, None)
         else (case brErr r of
                 Some e \<Rightarrow> (r\<lparr>brErr := None\<rparr>, Some e)
               | None \<Rightarrow> discard_loop r remain'))"
  by pat_completeness auto
termination
proof (relation "measure (\<lambda>(r, remain). remain)", goal_cases)
  case 1
  then show ?case by simp
next
  case (2 r remain r' skip r'' remain')
  with fill_loop_progress [of 100 r]
  have "0 < skip" by (auto simp: fill_def split: if_splits)
  with 2 show ?case by simp
qed

declare discard_loop.simps [simp del]

definition br_Discard :: "breader \<Rightarrow> nat \<Rightarrow> breader \<times> io_error option" where
  "br_Discard r n = (if n = 0 then (r, None) else discard_loop (r\<lparr>brLast := None\<rparr>) n)"

definition br_Buffered :: "breader \<Rightarrow> nat" where
  "br_Buffered r = length (brBuf r)"

text \<open>\<^verbatim>\<open>ReadByte\<close>: one fill leaves data or an error, so the loop of the library runs at most once more.\<close>

definition br_ReadByte :: "breader \<Rightarrow> breader \<times> byte \<times> io_error option" where
  "br_ReadByte r =
     (let r = (if brBuf r = [] \<and> brErr r = None then fill r else r)
      in (case brBuf r of
            c # b \<Rightarrow> (r\<lparr>brBuf := b, brLast := Some c\<rparr>, c, None)
          | [] \<Rightarrow> (r\<lparr>brErr := None\<rparr>, 0, brErr r)))"

definition br_UnreadByte :: "breader \<Rightarrow> breader \<times> io_error option" where
  "br_UnreadByte r =
     (case brLast r of
        None \<Rightarrow> (r, Some ErrInvalidUnreadByte)
      | Some c \<Rightarrow> (r\<lparr>brBuf := c # brBuf r, brLast := None\<rparr>, None))"

section \<open>The helpers of the header reader\<close>

text \<open>Both panic (\<open>None\<close>) when the library call does not do what they demand.\<close>

definition mustPeekBuffered :: "breader \<Rightarrow> (breader \<times> bytes) option" where
  "mustPeekBuffered r =
     (case br_Peek r (br_Buffered r) of
        (r', buf, err) \<Rightarrow> if buf = [] \<or> err \<noteq> None then None else Some (r', buf))"

definition mustDiscard :: "breader \<Rightarrow> int \<Rightarrow> breader option" where
  "mustDiscard r n =
     (if n < 0 then None
      else (case br_Discard r (nat n) of (r', Some e) \<Rightarrow> None | (r', None) \<Rightarrow> Some r'))"

section \<open>Hexadecimal chunk sizes\<close>

datatype hex_error = errEmptyHexNum | errTooLargeHexNum | HexIO io_error

definition maxHexIntChars :: nat where
  "maxHexIntChars = 15"

text \<open>\<^verbatim>\<open>n = (n << 4) | k\<close> in 64-bit arithmetic.\<close>

definition hex_step :: "int \<Rightarrow> nat \<Rightarrow> int" where
  "hex_step n k = or (wrap64 (n * 16)) (int k)"

function readHexInt_loop :: "breader \<Rightarrow> nat \<Rightarrow> int \<Rightarrow> breader \<times> int \<times> hex_error option" where
  "readHexInt_loop r i n =
     (case br_ReadByte r of
        (r, c, Some e) \<Rightarrow> if e = EOF \<and> i > 0 then (r, n, None) else (r, -1, Some (HexIO e))
      | (r, c, None) \<Rightarrow>
          let k = unat (hex2intTable c)
          in if k = 16
             then (if i = 0 then (r, -1, Some errEmptyHexNum)
                   else (case br_UnreadByte r of
                           (r, Some e) \<Rightarrow> (r, -1, Some (HexIO e))
                         | (r, None) \<Rightarrow> (r, n, None)))
             else if i \<ge> maxHexIntChars then (r, -1, Some errTooLargeHexNum)
             else readHexInt_loop r (i + 1) (hex_step n k))"
  by pat_completeness auto
termination
  by (relation "measure (\<lambda>(r, i, n). maxHexIntChars - i)") auto

declare readHexInt_loop.simps [simp del]

definition readHexInt :: "breader \<Rightarrow> breader \<times> int \<times> hex_error option" where
  "readHexInt r = readHexInt_loop r 0 0"

fun writeHexInt_loop :: "nat \<Rightarrow> nat \<Rightarrow> bytes \<Rightarrow> bytes option" where
  "writeHexInt_loop i n acc =
     (let acc = lowerhex (word_of_nat (n mod 16)) # acc; n = n div 16
      in if n = 0 then Some acc else (case i of 0 \<Rightarrow> None | Suc j \<Rightarrow> writeHexInt_loop j n acc))"

text \<open>The bytes that \<^verbatim>\<open>writeHexInt\<close> hands to the writer.\<close>

definition writeHexInt :: "int \<Rightarrow> bytes option" where
  "writeHexInt n = (if n < 0 then None else writeHexInt_loop 15 (nat n) [])"

section \<open>What a reader delivers\<close>

text \<open>All bytes still to be read, and the states a reader can be in: a buffer within its capacity.\<close>

definition pending :: "breader \<Rightarrow> bytes" where
  "pending r = brBuf r @ concat (brSrc r)"

definition br_ok :: "breader \<Rightarrow> bool" where
  "br_ok r \<longleftrightarrow> length (brBuf r) \<le> brSize r"

text \<open>The connection never returns an empty read without an error.\<close>

definition no_empty :: "breader \<Rightarrow> bool" where
  "no_empty r \<longleftrightarrow> [] \<notin> set (brSrc r)"

lemma fill_loop_pending [simp]: "pending (fill_loop i r) = pending r"
proof (induction i r rule: fill_loop.induct)
  case (1 r)
  then show ?case by (simp add: pending_def)
next
  case (2 i r)
  then show ?case
    by (cases "brSrc r") (auto simp: read_into_def Let_def pending_def min_def)
qed

lemma fill_loop_ok: "br_ok r \<Longrightarrow> br_ok (fill_loop i r)"
  by (induction i r rule: fill_loop.induct) (auto simp: read_into_def Let_def br_ok_def split: list.splits)

lemma fill_loop_prefix: "prefix (brBuf r) (brBuf (fill_loop i r))"
proof (induction i r rule: fill_loop.induct)
  case (1 r)
  then show ?case by simp
next
  case (2 i r)
  then show ?case
    by (cases "brSrc r") (auto simp: read_into_def Let_def min_def split: if_splits)
qed

lemma fill_loop_last [simp]: "brLast (fill_loop i r) = brLast r" "brEnd (fill_loop i r) = brEnd r"
  by (induction i r rule: fill_loop.induct) (auto simp: read_into_def Let_def split: list.splits)

lemma fill_facts [simp]:
  "pending (fill r) = pending r" "brLast (fill r) = brLast r" "brEnd (fill r) = brEnd r"
  by (simp_all add: fill_def)

lemma pending_updates [simp]:
  "pending (r\<lparr>brErr := e\<rparr>) = pending r" "pending (r\<lparr>brLast := l\<rparr>) = pending r"
  "br_ok (r\<lparr>brErr := e\<rparr>) = br_ok r" "br_ok (r\<lparr>brLast := l\<rparr>) = br_ok r"
  "no_empty (r\<lparr>brErr := e\<rparr>) = no_empty r" "no_empty (r\<lparr>brLast := l\<rparr>) = no_empty r"
  "no_empty (r\<lparr>brBuf := b\<rparr>) = no_empty r"
  by (simp_all add: pending_def br_ok_def no_empty_def)

lemma peek_fill_facts:
  "pending (peek_fill r n) = pending r \<and> brSize (peek_fill r n) = brSize r \<and>
   (br_ok r \<longrightarrow> br_ok (peek_fill r n)) \<and> prefix (brBuf r) (brBuf (peek_fill r n)) \<and>
   brLast (peek_fill r n) = brLast r \<and> brEnd (peek_fill r n) = brEnd r"
proof (induction r n rule: peek_fill.induct)
  case (1 r n)
  show ?case
  proof (cases "length (brBuf r) < n \<and> length (brBuf r) < brSize r \<and> brErr r = None")
    case True
    then have "peek_fill r n = peek_fill (fill r) n" by (simp add: peek_fill.simps [of r n])
    moreover have "prefix (brBuf r) (brBuf (fill r))" "br_ok r \<Longrightarrow> br_ok (fill r)"
      by (simp_all add: fill_def fill_loop_prefix fill_loop_ok)
    ultimately show ?thesis using 1 [OF True] prefix_order.trans by auto
  next
    case False
    then have "peek_fill r n = r" by (simp add: peek_fill.simps [of r n] if_not_P)
    then show ?thesis by simp
  qed
qed

lemma Peek_facts:
  assumes "br_Peek r n = (r', b, e)"
  shows "pending r' = pending r" "br_ok r \<Longrightarrow> br_ok r'" "prefix (brBuf r) (brBuf r')"
    "e = None \<Longrightarrow> length b = n \<and> n \<le> length (brBuf r') \<and> b = take n (brBuf r')"
    "n \<noteq> length b \<Longrightarrow> e \<noteq> None" "brSize r' = brSize r" "brEnd r' = brEnd r"
  using assms peek_fill_facts [of "r\<lparr>brLast := None\<rparr>" n]
  by (auto simp: br_Peek_def Let_def split: if_splits)

lemma Peek_buffered:
  assumes "br_ok r" "n \<le> length (brBuf r)"
  shows "br_Peek r n = (r\<lparr>brLast := None\<rparr>, take n (brBuf r), None)"
  using assms by (simp add: br_Peek_def peek_fill.simps [of "r\<lparr>brLast := None\<rparr>" n] br_ok_def)

lemma Discard_buffered:
  assumes "n \<le> length (brBuf r)"
  shows "br_Discard r n = (if n = 0 then r else r\<lparr>brLast := None, brBuf := drop n (brBuf r)\<rparr>, None)"
  using assms by (auto simp: br_Discard_def discard_loop.simps [of "r\<lparr>brLast := None\<rparr>" n] Let_def)

lemma mustPeekBuffered_ok:
  "br_ok r \<Longrightarrow> brBuf r \<noteq> [] \<Longrightarrow> mustPeekBuffered r = Some (r\<lparr>brLast := None\<rparr>, brBuf r)"
  by (simp add: mustPeekBuffered_def br_Buffered_def Peek_buffered)

lemma mustDiscard_ok:
  assumes "0 \<le> n" "nat n \<le> length (brBuf r)"
  shows "\<exists>r'. mustDiscard r n = Some r' \<and> brBuf r' = drop (nat n) (brBuf r) \<and> brSrc r' = brSrc r \<and>
           brSize r' = brSize r \<and> brEnd r' = brEnd r \<and> brErr r' = brErr r"
  using assms by (simp add: mustDiscard_def Discard_buffered)

section \<open>Chunk sizes: what is written is read back\<close>

definition br_live :: "breader \<Rightarrow> bool" where
  "br_live r \<longleftrightarrow> br_ok r \<and> 0 < brSize r \<and> no_empty r \<and> brErr r = None"

lemma fill_Suc: "fill r = fill_loop (Suc 99) r"
  by (simp add: fill_def)

lemma fill_empty:
  assumes "br_live r" "brBuf r = []" "brSrc r = seg # rest"
  shows "fill r = r\<lparr>brBuf := take (brSize r) seg, brSrc := (if length seg > brSize r then drop (brSize r) seg # rest else rest)\<rparr>"
proof -
  have "0 < min (brSize r) (length seg)" using assms by (auto simp: br_live_def no_empty_def)
  then show ?thesis unfolding fill_Suc fill_loop.simps using assms by (simp add: read_into_def Let_def)
qed

lemma ReadByte_Cons:
  assumes r: "br_live r" and p: "pending r = c # p"
  shows "\<exists>r'. br_ReadByte r = (r', c, None) \<and> pending r' = p \<and> br_live r' \<and> brLast r' = Some c \<and>
           length (brBuf r') < brSize r'"
proof (cases "brBuf r")
  case (Cons d b)
  with r p show ?thesis
    by (auto simp: br_ReadByte_def pending_def br_live_def br_ok_def no_empty_def)
next
  case Nil
  with p obtain seg rest where src: "brSrc r = seg # rest" by (cases "brSrc r") (auto simp: pending_def)
  with r have seg: "seg \<noteq> []" by (auto simp: br_live_def no_empty_def)
  have e: "brErr r = None" and sz: "0 < brSize r" using r by (simp_all add: br_live_def)
  from seg sz obtain b where b: "take (brSize r) seg = c # b"
    using p src Nil by (cases seg; cases "brSize r") (auto simp: pending_def)
  have f: "pending (fill r) = c # p" using p by simp
  have f': "br_live (fill r)" "brBuf (fill r) = c # b"
    using r fill_loop_ok [of r 100] b seg
    by (auto simp: fill_empty [OF r Nil src] br_live_def no_empty_def fill_def [symmetric] src br_ok_def)
  show ?thesis
    using Nil e f f' by (auto simp: br_ReadByte_def pending_def br_live_def br_ok_def no_empty_def)
qed

lemma ReadByte_EOF:
  assumes "br_live r" "pending r = []"
  shows "\<exists>r'. br_ReadByte r = (r', 0, Some (brEnd r)) \<and> pending r' = []"
proof -
  have "brSrc r = []" "brBuf r = []"
    using assms by (cases "brSrc r"; auto simp: br_live_def no_empty_def pending_def)+
  moreover from this have "fill r = r\<lparr>brErr := Some (brEnd r)\<rparr>"
    unfolding fill_Suc fill_loop.simps by (simp add: read_into_def)
  ultimately show ?thesis
    using assms by (simp add: br_ReadByte_def Let_def br_live_def pending_def)
qed

fun hex_digits :: "nat \<Rightarrow> bytes" where
  "hex_digits n = (if n < 16 then [] else hex_digits (n div 16)) @ [lowerhex (word_of_nat (n mod 16))]"

declare hex_digits.simps [simp del] writeHexInt_loop.simps [simp del]

lemma hex_digits_not_Nil [simp]: "hex_digits n \<noteq> []"
  by (simp add: hex_digits.simps [of n])

lemma hex_digits_length: "n < 16 ^ Suc i \<Longrightarrow> length (hex_digits n) \<le> Suc i"
proof (induction i arbitrary: n)
  case 0
  then show ?case by (simp add: hex_digits.simps [of n])
next
  case (Suc i)
  have "n div 16 < 16 ^ Suc i" using Suc.prems by (simp add: less_mult_imp_div_less)
  from Suc.IH [OF this] show ?case by (subst hex_digits.simps) simp
qed

lemma writeHexInt_loop_eq: "n < 16 ^ Suc i \<Longrightarrow> writeHexInt_loop i n acc = Some (hex_digits n @ acc)"
proof (induction i arbitrary: n acc)
  case 0
  then show ?case by (simp add: hex_digits.simps [of n] writeHexInt_loop.simps [of 0 n])
next
  case (Suc i)
  have "n div 16 < 16 ^ Suc i" using Suc.prems by (simp add: less_mult_imp_div_less)
  from Suc.IH [OF this] show ?case
    by (subst writeHexInt_loop.simps, subst hex_digits.simps) (simp add: Let_def div_greater_zero_iff)
qed

lemma hex2int_lowerhex: "k < 16 \<Longrightarrow> unat (hex2intTable (lowerhex (word_of_nat k))) = k"
proof -
  have "\<forall>k < 16. unat (hex2intTable (lowerhex (word_of_nat k))) = k" by code_simp
  then show "k < 16 \<Longrightarrow> ?thesis" by blast
qed

lemma hex_step_eq:
  assumes "0 \<le> n" "n < 2 ^ 59" "k < 16"
  shows "hex_step n k = n * 16 + int k"
proof -
  have "and (n * 16) (int k) = 0"
  proof -
    have k: "int k = take_bit 4 (int k)" using assms(3) by (simp add: take_bit_int_eq_self)
    have n: "n * 16 = push_bit 4 n" by (simp add: push_bit_eq_mult)
    have "and (push_bit 4 n) (take_bit 4 (int k)) = 0" by (rule bit_eqI) (simp add: bit_simps)
    then show ?thesis unfolding n k [symmetric] .
  qed
  moreover have "wrap64 (n * 16) = n * 16" using assms by (intro wrap64_id is_int64_nonneg) auto
  ultimately show ?thesis by (simp add: hex_step_def disjunctive_add_eq_or)
qed

lemma hex_bound:
  assumes "v < 16 ^ i" "m < 16 ^ l"
  shows "v * 16 ^ l + m < (16::nat) ^ (i + l)"
proof -
  have "v * 16 ^ l + m < (v + 1) * 16 ^ l" using assms(2) by (simp add: algebra_simps)
  also have "\<dots> \<le> 16 ^ i * 16 ^ l" using assms(1) by (intro mult_right_mono) auto
  finally show ?thesis by (simp add: power_add)
qed

lemma hex_digits_value: "m < 16 ^ length (hex_digits m)"
proof (induction m rule: hex_digits.induct)
  case (1 n)
  show ?case
  proof (cases "n < 16")
    case True
    then show ?thesis by (simp add: hex_digits.simps [of n])
  next
    case False
    with 1 have "n div 16 < 16 ^ length (hex_digits (n div 16))" by simp
    then have "n < 16 * 16 ^ length (hex_digits (n div 16))" by (simp add: div_less_iff_less_mult mult.commute)
    with False show ?thesis by (subst hex_digits.simps) simp
  qed
qed

lemma readHex_one:
  assumes r: "br_live r" and p: "pending r = lowerhex (word_of_nat k) # p" and k: "k < 16"
    and i: "i < 15" and v: "v < 16 ^ i"
  shows "\<exists>r'. readHexInt_loop r i (int v) = readHexInt_loop r' (i + 1) (int (v * 16 + k)) \<and> br_live r' \<and> pending r' = p \<and> brEnd r' = brEnd r"
proof -
  from ReadByte_Cons [OF r p] obtain r' where r': "br_ReadByte r = (r', lowerhex (word_of_nat k), None)"
    "pending r' = p" "br_live r'" by blast
  have "(16::nat) ^ i \<le> 16 ^ 14" using i by (intro power_increasing) auto
  with v have "int v < 2 ^ 59" by simp
  then have "hex_step (int v) k = int (v * 16 + k)" using hex_step_eq [of "int v" k] k by simp
  moreover have "brEnd r' = brEnd r"
    using r'(1) by (auto simp: br_ReadByte_def Let_def split: if_splits list.splits)
  ultimately show ?thesis
    using r' k i hex2int_lowerhex [OF k]
    by (intro exI [of _ r']) (subst readHexInt_loop.simps, simp add: maxHexIntChars_def Let_def)
qed

lemma readHex_digits:
  assumes "br_live r" "pending r = hex_digits m @ p" "i + length (hex_digits m) \<le> 15" "v < 16 ^ i"
  shows "\<exists>r'. readHexInt_loop r i (int v) =
           readHexInt_loop r' (i + length (hex_digits m)) (int (v * 16 ^ length (hex_digits m) + m)) \<and> br_live r' \<and> pending r' = p \<and>
           brEnd r' = brEnd r"
  using assms
proof (induction m arbitrary: r p rule: hex_digits.induct)
  case (1 n)
  show ?case
  proof (cases "n < 16")
    case True
    with readHex_one [OF "1.prems"(1) _ True _ "1.prems"(4), of p] "1.prems"(2,3) show ?thesis
      by (simp add: hex_digits.simps [of n])
  next
    case False
    let ?m = "n div 16"
    let ?l = "length (hex_digits ?m)"
    have hd: "hex_digits n = hex_digits ?m @ [lowerhex (word_of_nat (n mod 16))]"
      using False by (simp add: hex_digits.simps [of n])
    have "pending r = hex_digits ?m @ lowerhex (word_of_nat (n mod 16)) # p" "i + ?l \<le> 15"
      using "1.prems"(2,3) by (simp_all add: hd)
    from "1.IH" [OF False "1.prems"(1) this "1.prems"(4)] obtain r1 where r1:
      "readHexInt_loop r i (int v) = readHexInt_loop r1 (i + ?l) (int (v * 16 ^ ?l + ?m))" "br_live r1"
      "pending r1 = lowerhex (word_of_nat (n mod 16)) # p" "brEnd r1 = brEnd r" by blast
    have b: "v * 16 ^ ?l + ?m < 16 ^ (i + ?l)" by (rule hex_bound [OF "1.prems"(4) hex_digits_value])
    have "n mod 16 < 16" "i + ?l < 15" using "1.prems"(3) by (simp_all add: hd)
    from readHex_one [OF r1(2,3) this b] obtain r2 where r2:
      "readHexInt_loop r1 (i + ?l) (int (v * 16 ^ ?l + ?m)) =
         readHexInt_loop r2 (i + ?l + 1) (int ((v * 16 ^ ?l + ?m) * 16 + n mod 16))"
      "br_live r2" "pending r2 = p" "brEnd r2 = brEnd r1" by blast
    have "(v * 16 ^ ?l + ?m) * 16 + n mod 16 = v * 16 ^ length (hex_digits n) + n"
      by (simp add: hd algebra_simps)
    with r1 r2 show ?thesis by (auto simp: hd algebra_simps intro!: exI [of _ r2])
  qed
qed

text \<open>A chunk size below \<^term>\<open>(2::nat) ^ 60\<close> survives the wire: \<^verbatim>\<open>writeHexInt\<close> writes it without a panic, and
  \<^verbatim>\<open>readHexInt\<close>, on any live reader however its input is cut into segments, returns it, consuming exactly the
  digits and leaving the first byte that is not one for the next read.\<close>

theorem chunk_size_roundtrip:
  assumes n: "0 \<le> n" "n < 2 ^ 60" and r: "br_live r" and p: "pending r = s @ c # p" and s: "writeHexInt n = Some s"
    and c: "hex2intTable c = 16"
  shows "\<exists>r'. readHexInt r = (r', n, None) \<and> pending r' = c # p \<and> br_ok r'"
proof -
  have m: "nat n < 16 ^ Suc 14" "nat n < 16 ^ Suc 15" using n by (simp_all add: nat_less_iff)
  have s: "s = hex_digits (nat n)"
    using s n writeHexInt_loop_eq [OF m(2), of "[]"] by (simp add: writeHexInt_def)
  have "0 + length (hex_digits (nat n)) \<le> 15" using hex_digits_length [OF m(1)] by simp
  from readHex_digits [OF r p [unfolded s] this, of 0] obtain r1 where r1:
    "readHexInt r = readHexInt_loop r1 (length (hex_digits (nat n))) n" "br_live r1" "pending r1 = c # p"
    using n by (auto simp: readHexInt_def)
  from ReadByte_Cons [OF r1(2,3)] obtain r2 where r2:
    "br_ReadByte r1 = (r2, c, None)" "pending r2 = p" "br_live r2" "brLast r2 = Some c" "length (brBuf r2) < brSize r2"
    by blast
  let ?r = "r2\<lparr>brBuf := c # brBuf r2, brLast := None\<rparr>"
  have "readHexInt r = (?r, n, None)"
    using r1 r2 c by (subst (asm) readHexInt_loop.simps) (simp add: br_UnreadByte_def Let_def)
  then show ?thesis using r2 by (auto simp: pending_def br_ok_def)
qed

theorem chunk_size_roundtrip_witness:
  "\<exists>r'. readHexInt (new_reader 16 [bs ''1'', bs ''f'' @ [rChar], [nChar]]) = (r', 31, None) \<and> pending r' = [rChar, nChar] \<and> br_ok r'"
proof -
  have "writeHexInt 31 = Some (bs ''1f'')" by (simp add: writeHexInt_def writeHexInt_loop.simps lowerhex_def)
  then show ?thesis
    using chunk_size_roundtrip [of 31 "new_reader 16 [bs ''1'', bs ''f'' @ [rChar], [nChar]]" "bs ''1f''" rChar "[nChar]"]
    by (simp add: new_reader_def br_live_def br_ok_def no_empty_def pending_def hex2intTable_def)
qed

end
