(* ===== verification/HeaderScanner.thy ===== *)
theory HeaderScanner
  imports Cookie BufReader
begin

text \<open>
  The lexical layer of \<^verbatim>\<open>header.go\<close>: canonical header names, the replacement of line breaks in
  values, the line scanner of a header block with its treatment of folded values, the scanner of
  comma-separated values, and the two helpers that cut lines off a buffer.

  The header scanner works inside the read buffer: it rewrites names and folded values in place and
  returns sub-slices. The model keeps the three parts of that memory: \<open>hsDone\<close>, the bytes the scanner
  has passed, \<open>hsB\<close>, the slice \<^verbatim>\<open>s.b\<close> it still has to read, and \<open>hsTail\<close>, the bytes of the buffer
  behind the end of \<^verbatim>\<open>s.b\<close>.
\<close>

section \<open>Errors\<close>

datatype header_error =
  errNeedMore | errInvalidName | EmptyHeaderKeyErr | InvalidHeaderKey bytes | InvalidHeaderValue bytes
| ContentLengthNotIntErr | MultipleContentLengthErr | BadTrailerInHeader | UnsupportedTEError bytes
| ErrMalformedResponse | RequestMethodNotFound bytes | InvalidMethod bytes | RequestURINotFound bytes
| UnsupportedHTTPVersion bytes | InvalidTrailerKey bytes | ForbiddenTrailerKey bytes | BadTrailerKey bytes
| ErrBadTrailer | ErrUnexpectedHeaderEOF | ErrUnexpectedTrailerEOF | HeaderBufferSmallErr
| TrailerHeaderBufferSmallErr | IOErr io_error

section \<open>Names\<close>

fun normalizeHeaderKey_loop :: "bytes \<Rightarrow> bytes" where
  "normalizeHeaderKey_loop [] = []"
| "normalizeHeaderKey_loop (p # b) =
     (if p = 0x2D
      then (case b of [] \<Rightarrow> [p] | c # b' \<Rightarrow> p # toUpperTable c # normalizeHeaderKey_loop b')
      else toLowerTable p # normalizeHeaderKey_loop b)"

definition normalizeHeaderKeyV2 :: "bytes \<Rightarrow> bytes" where
  "normalizeHeaderKeyV2 b = (case b of [] \<Rightarrow> [] | c # b' \<Rightarrow> toUpperTable c # normalizeHeaderKey_loop b')"

text \<open>\<^verbatim>\<open>initHeaderK\<close> and \<^verbatim>\<open>initHeaderV\<close> return the scratch buffer and the bytes to use.\<close>

definition initHeaderK :: "bytes \<Rightarrow> bytes \<Rightarrow> bool \<Rightarrow> bytes \<times> bytes" where
  "initHeaderK bufK key disableNormalizing =
     (if disableNormalizing then (bufK, key)
      else (let k = normalizeHeaderKeyV2 key in (k, k)))"

definition AppendNormalizedHeaderKey :: "bytes \<Rightarrow> bytes \<Rightarrow> bytes" where
  "AppendNormalizedHeaderKey dst key = dst @ normalizeHeaderKeyV2 key"

definition headNameCompare :: "bytes \<Rightarrow> bytes \<Rightarrow> bool \<Rightarrow> bool" where
  "headNameCompare a b disableNormalize = (if \<not> disableNormalize then a = b else caseInsensitiveCompare a b)"

section \<open>Line breaks in values\<close>

definition newline_to_space :: "byte \<Rightarrow> byte" where
  "newline_to_space c = (if c = rChar \<or> c = nChar then spChar else c)"

text \<open>The place where \<^verbatim>\<open>initHeaderV\<close>, \<^verbatim>\<open>removeNewLines\<close> and \<^verbatim>\<open>removeNewLinesV2\<close> start to overwrite;
  \<open>None\<close> when there is nothing to do.\<close>

definition newline_start :: "bytes \<Rightarrow> nat option" where
  "newline_start raw =
     (case (index_byte raw nChar, index_byte raw rChar) of
        (Some n, Some r) \<Rightarrow> if r > n then Some n else Some r
      | (Some n, None) \<Rightarrow> Some 0
      | (None, Some r) \<Rightarrow> Some r
      | (None, None) \<Rightarrow> None)"

definition removeNewLines :: "bytes \<Rightarrow> bytes" where
  "removeNewLines raw =
     (case newline_start raw of
        None \<Rightarrow> raw
      | Some start \<Rightarrow> take start raw @ map newline_to_space (drop start raw))"

definition initHeaderV :: "bytes \<Rightarrow> bytes \<Rightarrow> bytes \<times> bytes" where
  "initHeaderV bufV raw =
     (case newline_start raw of
        None \<Rightarrow> (bufV, raw)
      | Some start \<Rightarrow> (let v = take start raw @ map newline_to_space (drop start raw) in (v, v)))"

section \<open>Folded values\<close>

text \<open>The compaction loop of \<^verbatim>\<open>normalizeHeaderValue\<close>: the bytes it writes and the number it drops.\<close>

fun fold_loop :: "bytes \<Rightarrow> bool \<Rightarrow> bool \<Rightarrow> bytes \<times> nat" where
  "fold_loop [] once lineStart = ([], 0)"
| "fold_loop (c # ov) once lineStart =
     (if c = rChar \<or> c = nChar
      then (let (w, s) = (if c = nChar then fold_loop ov False True else fold_loop ov once lineStart)
            in (w, s + 1))
      else if lineStart \<and> (c = tabChar \<or> c = spChar)
      then (if \<not> once then (let (w, s) = fold_loop ov True lineStart in (spChar # w, s))
            else (let (w, s) = fold_loop ov once lineStart in (w, s + 1)))
      else (let (w, s) = fold_loop ov once False in (c # w, s)))"

record folded =
  fdValue :: bytes
  fdDone :: bytes
  fdB :: bytes
  fdTail :: bytes
  fdLen :: int

text \<open>\<^verbatim>\<open>normalizeHeaderValue(ov, ob, headerLength)\<close>, where \<open>ov\<close> is a prefix of \<open>ob\<close>. The \<^verbatim>\<open>copy\<close> leaves
  the last \<^verbatim>\<open>shrunk\<close> bytes of \<open>ob\<close> where they were; the slice it returns ends before them.\<close>

definition normalizeHeaderValue :: "bytes \<Rightarrow> bytes \<Rightarrow> int \<Rightarrow> folded" where
  "normalizeHeaderValue ov ob headerLength =
     (if length ov \<le> 0 then \<lparr>fdValue = ov, fdDone = [], fdB = [], fdTail = ob, fdLen = 0\<rparr>
      else (let (nv, shrunk) = fold_loop ov False False;
                write = length nv;
                ob' = nv @ drop (write + shrunk) ob @ drop (length ob - shrunk) ob;
                skip = (if ob' ! write = rChar then (if ob' ! (write + 1) = nChar then 2 else 1)
                        else if ob' ! write = nChar then 1 else 0)
            in \<lparr>fdValue = nv, fdDone = take (write + skip) ob',
                fdB = slice ob' (write + skip) (length ob - shrunk),
                fdTail = drop (length ob - shrunk) ob', fdLen = headerLength - int shrunk\<rparr>))"

section \<open>The header scanner\<close>

record headerScanner =
  hsErr :: "header_error option"
  hsDone :: bytes
  hsB :: bytes
  hsTail :: bytes
  hsKey :: bytes
  hsValue :: bytes
  hsHLen :: int
  hsNextColon :: "nat option"
  hsNextNewLine :: int
  hsDisableNormalizing :: bool

definition new_scanner :: "bytes \<Rightarrow> bool \<Rightarrow> headerScanner" where
  "new_scanner b disableNormalizing =
     \<lparr>hsErr = None, hsDone = [], hsB = b, hsTail = [], hsKey = [], hsValue = [], hsHLen = 0,
      hsNextColon = None, hsNextNewLine = -1, hsDisableNormalizing = disableNormalizing\<rparr>"

text \<open>The search for the end of the value: a line that begins with a blank continues it, unless it
  holds a colon. The result is the index of the final line feed, whether a line was joined, and the
  position of the next colon with its line feed when the loop has seen them.\<close>

function value_end :: "bytes \<Rightarrow> nat \<Rightarrow> bool \<Rightarrow> nat \<times> bool \<times> (nat \<times> int) option" where
  "value_end b n multi =
     (if n + 1 \<ge> length b then (n, multi, None)
      else if b ! (n + 1) \<noteq> spChar \<and> b ! (n + 1) \<noteq> tabChar then (n, multi, None)
      else (case index_byte (drop (n + 1) b) nChar of
              None \<Rightarrow> (n, multi, None)
            | Some d \<Rightarrow>
                if d = 0 then (n, multi, None)
                else if d = 1 \<and> b ! (n + 1) = rChar then (n, multi, None)
                else (case index_byte (slice b (n + 1) (n + d + 1)) 0x3A of
                        Some c \<Rightarrow> (n, multi, Some (c, int d - int c - 1))
                      | None \<Rightarrow> value_end b (n + d + 1) True)))"
  by pat_completeness auto
termination
  by (relation "measure (\<lambda>(b, n, multi). length b - n)") auto

declare value_end.simps [simp del]

fun trim_end :: "bytes \<Rightarrow> nat \<Rightarrow> nat" where
  "trim_end v 0 = 0"
| "trim_end v (Suc n) = (if v ! n = spChar \<or> v ! n = tabChar then trim_end v n else Suc n)"

text \<open>The last part of \<^verbatim>\<open>next\<close>: \<open>n\<close> is the index of the first line feed in \<^verbatim>\<open>s.b\<close>, which begins with
  the value.\<close>

definition take_value :: "headerScanner \<Rightarrow> nat \<Rightarrow> headerScanner \<times> bool" where
  "take_value s n =
     (case value_end (hsB s) n False of
        (n, multi, next) \<Rightarrow>
          let s = (case next of
                     None \<Rightarrow> s
                   | Some (c, l) \<Rightarrow> s\<lparr>hsNextColon := Some c, hsNextNewLine := l\<rparr>)
          in if n \<ge> length (hsB s) then (s\<lparr>hsErr := Some errNeedMore\<rparr>, False)
             else (let oldB = hsB s;
                       v = take n oldB;
                       s = s\<lparr>hsHLen := hsHLen s + int n + 1\<rparr>;
                       n' = (if n > 0 \<and> v ! (n - 1) = rChar then n - 1 else n);
                       v = take (trim_end v n') v
                   in if multi
                      then (let f = normalizeHeaderValue v oldB (hsHLen s)
                            in (s\<lparr>hsValue := fdValue f, hsDone := hsDone s @ fdDone f, hsB := fdB f,
                                  hsTail := fdTail f @ hsTail s, hsHLen := fdLen f\<rparr>, True))
                      else (s\<lparr>hsValue := v, hsDone := hsDone s @ take (n + 1) oldB,
                              hsB := drop (n + 1) oldB\<rparr>, True)))"

text \<open>From the byte after the colon: skip blanks, then find the line feed.\<close>

definition scan_value :: "headerScanner \<Rightarrow> nat \<Rightarrow> headerScanner \<times> bool" where
  "scan_value s n =
     (let blanks = length (takeWhile (\<lambda>c. c = spChar \<or> c = tabChar) (drop n (hsB s)));
          n = n + blanks;
          nl = hsNextNewLine s - int blanks;
          s = s\<lparr>hsHLen := hsHLen s + int n, hsDone := hsDone s @ take n (hsB s), hsB := drop n (hsB s)\<rparr>
      in if nl \<ge> 0 then take_value (s\<lparr>hsNextNewLine := -1\<rparr>) (nat nl)
         else (case index_byte (hsB s) nChar of
                 None \<Rightarrow> (s\<lparr>hsErr := Some errNeedMore, hsNextNewLine := nl\<rparr>, False)
               | Some n \<Rightarrow> take_value (s\<lparr>hsNextNewLine := nl\<rparr>) n))"

definition scan_next :: "headerScanner \<Rightarrow> headerScanner \<times> bool" where
  "scan_next s =
     (let b = hsB s
      in if length b \<ge> 2 \<and> b ! 0 = rChar \<and> b ! 1 = nChar
         then (s\<lparr>hsDone := hsDone s @ take 2 b, hsB := drop 2 b, hsHLen := hsHLen s + 2\<rparr>, False)
         else if length b \<ge> 1 \<and> b ! 0 = nChar
         then (s\<lparr>hsDone := hsDone s @ take 1 b, hsB := drop 1 b, hsHLen := hsHLen s + 1\<rparr>, False)
         else (let found =
                     (case hsNextColon s of
                        Some n \<Rightarrow> Inr n
                      | None \<Rightarrow>
                          (case index_byte b nChar of
                             None \<Rightarrow> Inl errNeedMore
                           | Some x \<Rightarrow>
                               (case index_byte b 0x3A of
                                  None \<Rightarrow> Inl errNeedMore
                                | Some n \<Rightarrow> if x < n then Inl errInvalidName else Inr n)));
                   s = s\<lparr>hsNextColon := None\<rparr>
               in (case found of
                     Inl e \<Rightarrow> (s\<lparr>hsErr := Some e\<rparr>, False)
                   | Inr n \<Rightarrow>
                       let key = (if hsDisableNormalizing s then take n b else normalizeHeaderKeyV2 (take n b))
                       in scan_value (s\<lparr>hsKey := key, hsB := key @ drop n b\<rparr>) (n + 1))))"

section \<open>Comma-separated values\<close>

definition stripSpace :: "bytes \<Rightarrow> bytes" where
  "stripSpace b = trim_right (trim_left b)"

definition headerValueScanner_next :: "bytes \<Rightarrow> (bytes \<times> bytes) option" where
  "headerValueScanner_next b =
     (if b = [] then None
      else (case index_byte b 0x2C of
              None \<Rightarrow> Some (stripSpace b, drop (length b) b)
            | Some n \<Rightarrow> Some (stripSpace (take n b), drop (n + 1) b)))"

function hasHeaderValue :: "bytes \<Rightarrow> bytes \<Rightarrow> bool" where
  "hasHeaderValue s value =
     (case headerValueScanner_next s of
        None \<Rightarrow> False
      | Some (v, s') \<Rightarrow> if caseInsensitiveCompare v value then True else hasHeaderValue s' value)"
  by pat_completeness auto
termination
  by (relation "measure (\<lambda>(s, v). length s)")
    (auto simp: headerValueScanner_next_def split: if_splits option.splits)

declare hasHeaderValue.simps [simp del]

section \<open>Lines\<close>

definition nextLine :: "bytes \<Rightarrow> (bytes \<times> bytes) option" where
  "nextLine b =
     (case index_byte b nChar of
        None \<Rightarrow> None
      | Some nNext \<Rightarrow>
          let n = (if nNext > 0 \<and> b ! (nNext - 1) = rChar then nNext - 1 else nNext)
          in Some (take n b, drop (nNext + 1) b))"

definition isOnlyCRLF :: "bytes \<Rightarrow> bool" where
  "isOnlyCRLF b \<longleftrightarrow> list_all (\<lambda>ch. \<not> (ch \<noteq> rChar \<and> ch \<noteq> nChar)) b"

definition numLeadingCRorLF :: "bytes \<Rightarrow> nat" where
  "numLeadingCRorLF v = length (takeWhile (\<lambda>b. b = rChar \<or> b = nChar) v)"

text \<open>\<^verbatim>\<open>readRawHeaders\<close>: the loop walks from line feed to line feed until an empty line.\<close>

function readRawHeaders_loop :: "bytes \<Rightarrow> bytes \<Rightarrow> nat \<Rightarrow> nat \<Rightarrow> nat option" where
  "readRawHeaders_loop buf b m n =
     (let b = drop m b
      in (case index_byte b nChar of
            None \<Rightarrow> None
          | Some k \<Rightarrow>
              let m = k + 1; n = n + m
              in if m = 2 \<and> b ! 0 = rChar \<or> m = 1 then Some n else readRawHeaders_loop buf b m n))"
  by pat_completeness auto
termination
  by (relation "measure (\<lambda>(buf, b, m, n). length (drop m b))") (auto dest: index_byte_lt)

declare readRawHeaders_loop.simps [simp del]

definition readRawHeaders :: "bytes \<Rightarrow> bytes \<Rightarrow> bytes \<times> nat \<times> header_error option" where
  "readRawHeaders dst buf =
     (case index_byte buf nChar of
        None \<Rightarrow> ([], 0, Some errNeedMore)
      | Some n \<Rightarrow>
          if n = 1 \<and> buf ! 0 = rChar \<or> n = 0 then (dst, n + 1, None)
          else (case readRawHeaders_loop buf buf (n + 1) (n + 1) of
                  None \<Rightarrow> (dst, 0, Some errNeedMore)
                | Some n \<Rightarrow> (dst @ take n buf, n, None)))"

definition appendHeaderLine :: "bytes \<Rightarrow> bytes \<Rightarrow> bytes \<Rightarrow> bytes" where
  "appendHeaderLine dst key value = dst @ key @ bs '': '' @ value @ [rChar, nChar]"

fun appendArgsKeyBytes :: "bytes \<Rightarrow> argsKV list \<Rightarrow> bytes \<Rightarrow> bytes" where
  "appendArgsKeyBytes dst [] sep = dst"
| "appendArgsKeyBytes dst (kv # args) sep =
     (let dst = dst @ kvKey kv;
          dst = (if args \<noteq> [] then dst @ sep else dst)
      in appendArgsKeyBytes dst args sep)"

definition parseContentLength :: "bytes \<Rightarrow> int option" where
  "parseContentLength b =
     (case parseUintBuf b of
        (v, n, Some e) \<Rightarrow> None
      | (v, n, None) \<Rightarrow> if n \<noteq> length b then None else Some v)"

section \<open>Canonical names\<close>

lemma toUpper_dash [simp]: "toUpperTable c = 0x2D \<longleftrightarrow> c = 0x2D" "toUpperTable 0x2D = 0x2D"
  unfolding toUpperTable_def by (auto split: if_splits; unat_arith; auto)+

lemma toLower_dash [simp]: "toLowerTable c = 0x2D \<longleftrightarrow> c = 0x2D" "toLowerTable 0x2D = 0x2D"
  unfolding toLowerTable_def by (auto split: if_splits; unat_arith; auto)+

lemma length_normalizeHeaderKey_loop [simp]: "length (normalizeHeaderKey_loop b) = length b"
  by (induction b rule: normalizeHeaderKey_loop.induct) (auto split: list.splits)

lemma length_normalizeHeaderKeyV2 [simp]: "length (normalizeHeaderKeyV2 b) = length b"
  by (auto simp: normalizeHeaderKeyV2_def split: list.splits)

lemma normalizeHeaderKeyV2_Nil_iff [simp]: "normalizeHeaderKeyV2 b = [] \<longleftrightarrow> b = []" "normalizeHeaderKeyV2 [] = []"
  by (auto simp: normalizeHeaderKeyV2_def split: list.splits)

lemma key_loop_idem: "normalizeHeaderKey_loop (normalizeHeaderKey_loop b) = normalizeHeaderKey_loop b"
  by (induction b rule: normalizeHeaderKey_loop.induct) (auto split: list.splits)

lemma key_loop_lower: "normalizeHeaderKey_loop (map toLowerTable b) = normalizeHeaderKey_loop b"
  by (induction b rule: normalizeHeaderKey_loop.induct) (auto split: list.splits)

lemma lower_key_loop: "map toLowerTable (normalizeHeaderKey_loop b) = map toLowerTable b"
  by (induction b rule: normalizeHeaderKey_loop.induct) (auto split: list.splits)

lemma normalizeHeaderKey_idem [simp]: "normalizeHeaderKeyV2 (normalizeHeaderKeyV2 b) = normalizeHeaderKeyV2 b"
  by (auto simp: normalizeHeaderKeyV2_def key_loop_idem split: list.splits)

lemma normalizeHeaderKey_eq_iff:
  "normalizeHeaderKeyV2 a = normalizeHeaderKeyV2 b \<longleftrightarrow> map toLowerTable a = map toLowerTable b"
proof
  have l: "map toLowerTable (normalizeHeaderKeyV2 c) = map toLowerTable c" for c
    by (auto simp: normalizeHeaderKeyV2_def lower_key_loop split: list.splits)
  show "normalizeHeaderKeyV2 a = normalizeHeaderKeyV2 b \<Longrightarrow> map toLowerTable a = map toLowerTable b"
    using l [of a] l [of b] by metis
next
  have n: "normalizeHeaderKeyV2 (map toLowerTable c) = normalizeHeaderKeyV2 c" for c
    by (cases c) (auto simp: normalizeHeaderKeyV2_def key_loop_lower)
  show "map toLowerTable a = map toLowerTable b \<Longrightarrow> normalizeHeaderKeyV2 a = normalizeHeaderKeyV2 b"
    using n [of a] n [of b] by metis
qed

section \<open>Line breaks\<close>

lemma map_newline_id: "rChar \<notin> set s \<Longrightarrow> nChar \<notin> set s \<Longrightarrow> map newline_to_space s = s"
  by (induction s) (auto simp: newline_to_space_def)

lemma index_byte_notin_take: "index_byte raw c = Some n \<Longrightarrow> m \<le> n \<Longrightarrow> c \<notin> set (take m raw)"
  by (rule notin_take_mono [OF _ index_byte_take_notin])

lemma newline_start_take:
  assumes "newline_start raw = Some k"
  shows "map newline_to_space (take k raw) = take k raw"
proof -
  have "rChar \<notin> set (take k raw) \<and> nChar \<notin> set (take k raw)"
  proof (cases "index_byte raw nChar")
    case None
    with assms have "index_byte raw rChar = Some k" by (simp add: newline_start_def split: option.splits)
    with None show ?thesis by (simp add: index_byte_None index_byte_notin_take notin_take)
  next
    case (Some n)
    show ?thesis
    proof (cases "index_byte raw rChar")
      case None
      with Some assms show ?thesis by (simp add: newline_start_def)
    next
      fix r assume r: "index_byte raw rChar = Some r"
      with Some assms have "k \<le> n" "k \<le> r" by (simp_all add: newline_start_def split: if_splits)
      with r Some show ?thesis by (simp add: index_byte_notin_take)
    qed
  qed
  then show ?thesis by (simp add: map_newline_id)
qed

lemma removeNewLines_eq: "removeNewLines raw = map newline_to_space raw"
proof (cases "newline_start raw")
  case None
  then have "rChar \<notin> set raw" "nChar \<notin> set raw"
    by (auto simp: newline_start_def index_byte_None split: option.splits if_splits)
  with None show ?thesis by (simp add: removeNewLines_def map_newline_id)
next
  case (Some k)
  have "map newline_to_space raw = map newline_to_space (take k raw) @ map newline_to_space (drop k raw)"
    by (simp only: append_take_drop_id flip: map_append)
  with Some newline_start_take [OF Some] show ?thesis by (simp add: removeNewLines_def)
qed

lemma initHeaderV_eq: "snd (initHeaderV bufV raw) = map newline_to_space raw"
  using removeNewLines_eq [of raw] by (auto simp: initHeaderV_def removeNewLines_def Let_def split: option.splits)

lemma newline_to_space_clean [simp]: "newline_to_space c \<noteq> rChar" "newline_to_space c \<noteq> nChar"
  by (auto simp: newline_to_space_def)

section \<open>The scanner makes progress\<close>

lemma value_end_lt:
  "value_end b n multi = (m, multi', next) \<Longrightarrow> n < length b \<Longrightarrow> n \<le> m \<and> m < length b"
proof (induction b n multi rule: value_end.induct)
  case (1 b n multi)
  show ?case
    using "1.prems" "1.IH" index_byte_lt [of "drop (n + 1) b" nChar]
    by (subst (asm) value_end.simps) (fastforce split: if_splits option.splits)
qed

lemma fold_loop_length: "length (fst (fold_loop ov once ls)) + snd (fold_loop ov once ls) = length ov"
  by (induction ov once ls rule: fold_loop.induct) (auto split: prod.splits)

lemma trim_end_le: "trim_end v n \<le> n"
  by (induction n) auto

lemma length_fdB: "length ov \<le> length ob \<Longrightarrow> length (fdB (normalizeHeaderValue ov ob h)) \<le> length ob"
  by (auto simp: normalizeHeaderValue_def Let_def split: prod.splits)

lemma take_value_le:
  assumes "take_value s n = (s', r)"
  shows "length (hsB s') \<le> length (hsB s)"
proof -
  obtain m multi nx where v: "value_end (hsB s) n False = (m, multi, nx)" by (cases "value_end (hsB s) n False")
  have b: "hsB (case nx of None \<Rightarrow> s | Some (c, l) \<Rightarrow> s\<lparr>hsNextColon := Some c, hsNextNewLine := l\<rparr>) = hsB s"
    by (auto split: option.splits)
  show ?thesis
    using assms unfolding take_value_def v prod.case Let_def b
    by (auto simp: b intro!: length_fdB split: if_splits)
qed

lemma scan_value_le:
  assumes "scan_value s n = (s', r)"
  shows "length (hsB s') \<le> length (hsB s) - n"
proof -
  let ?bl = "length (takeWhile (\<lambda>c. c = spChar \<or> c = tabChar) (drop n (hsB s)))"
  have "length (drop (n + ?bl) (hsB s)) \<le> length (hsB s) - n" by simp
  then show ?thesis
    using assms unfolding scan_value_def Let_def
    by (auto split: if_splits option.splits dest!: take_value_le)
qed

lemma take_value_nonempty: "take_value s n = (s', True) \<Longrightarrow> hsB s \<noteq> []"
  by (auto simp: take_value_def Let_def split: prod.splits option.splits if_splits)

lemma scan_value_lt:
  assumes "scan_value s n = (s', True)"
  shows "n < length (hsB s)"
  using assms unfolding scan_value_def Let_def
  by (auto split: if_splits option.splits dest!: take_value_nonempty)

lemma scan_next_progress:
  assumes "scan_next s = (s', True)"
  shows "length (hsB s') < length (hsB s)"
proof -
  obtain n s0 where n: "scan_value s0 (n + 1) = (s', True)" and s0: "length (hsB s0) = length (hsB s)"
    using assms unfolding scan_next_def Let_def by (auto split: if_splits sum.splits)
  with scan_value_le [OF n] scan_value_lt [OF n] show ?thesis by linarith
qed

text \<open>All lines of a header block, with the scanner at its end.\<close>

function scan_all :: "headerScanner \<Rightarrow> (bytes \<times> bytes) list \<times> headerScanner" where
  "scan_all s =
     (case scan_next s of
        (s', False) \<Rightarrow> ([], s')
      | (s', True) \<Rightarrow> (let (l, e) = scan_all s' in ((hsKey s', hsValue s') # l, e)))"
  by pat_completeness auto
termination
  by (relation "measure (\<lambda>s. length (hsB s))") (auto dest: scan_next_progress [OF sym])

declare scan_all.simps [simp del]

section \<open>Scanning what was printed\<close>

text \<open>The scanner between two lines: no pending colon, no error.\<close>

definition at_line :: "headerScanner \<Rightarrow> bool" where
  "at_line s \<longleftrightarrow> hsErr s = None \<and> hsNextColon s = None \<and> hsNextNewLine s < 0"

definition line_key :: "bytes \<Rightarrow> bool" where
  "line_key k \<longleftrightarrow> 0x3A \<notin> set k \<and> nChar \<notin> set k \<and> (k = [] \<or> hd k \<noteq> spChar \<and> hd k \<noteq> tabChar)"

definition line_value :: "bytes \<Rightarrow> bool" where
  "line_value v \<longleftrightarrow>
     nChar \<notin> set v \<and> (v = [] \<or> hd v \<noteq> spChar \<and> hd v \<noteq> tabChar \<and> last v \<noteq> spChar \<and> last v \<noteq> tabChar)"

definition no_blank :: "bytes \<Rightarrow> bool" where
  "no_blank r \<longleftrightarrow> r = [] \<or> hd r \<noteq> spChar \<and> hd r \<noteq> tabChar"

definition norm_key :: "bool \<Rightarrow> bytes \<Rightarrow> bytes" where
  "norm_key disableNormalizing k = (if disableNormalizing then k else normalizeHeaderKeyV2 k)"

lemma trim_end_id: "n = 0 \<or> v ! (n - 1) \<noteq> spChar \<and> v ! (n - 1) \<noteq> tabChar \<Longrightarrow> trim_end v n = n"
  by (cases n) auto

lemma take_value_line:
  assumes v: "line_value v" and r: "no_blank r" and b: "hsB s = v @ rChar # nChar # r"
  shows "take_value s (length v + 1) =
           (s\<lparr>hsHLen := hsHLen s + int (length v + 1) + 1, hsValue := v, hsDone := hsDone s @ v @ [rChar, nChar], hsB := r\<rparr>, True)"
proof -
  have "value_end (hsB s) (length v + 1) False = (length v + 1, False, None)"
    using r unfolding b by (subst value_end.simps) (cases r; simp add: no_blank_def nth_append)
  moreover have "trim_end (v @ [rChar]) (length v) = length v"
    using v by (intro trim_end_id) (auto simp: line_value_def nth_append last_conv_nth)
  ultimately show ?thesis
    unfolding take_value_def by (simp add: b nth_append)
qed

lemma scan_value_first:
  assumes b: "hsB s = p @ spChar # w" and w: "no_blank w" and n: "index_byte w nChar = Some m" and nl: "hsNextNewLine s < 0"
  shows "scan_value s (length p) =
           take_value (s\<lparr>hsHLen := hsHLen s + int (length p + 1), hsDone := hsDone s @ p @ [spChar], hsB := w,
                         hsNextNewLine := hsNextNewLine s - 1\<rparr>) m"
proof -
  have "takeWhile (\<lambda>c. c = spChar \<or> c = tabChar) w = []"
    using w by (cases w) (auto simp: no_blank_def)
  then have bl: "takeWhile (\<lambda>c. c = spChar \<or> c = tabChar) (drop (length p) (hsB s)) = [spChar]"
    by (simp add: b)
  show ?thesis
    unfolding scan_value_def bl using nl n by (simp add: b Let_def)
qed

lemma scan_next_key:
  assumes k: "line_key k" and s: "at_line s" and b: "hsB s = k @ 0x3A # w" and w: "nChar \<in> set w"
  defines "k' \<equiv> norm_key (hsDisableNormalizing s) k"
  shows "scan_next s = scan_value (s\<lparr>hsNextColon := None, hsKey := k', hsB := k' @ 0x3A # w\<rparr>) (length (k' @ [0x3A]))"
proof -
  have c: "index_byte (hsB s) 0x3A = Some (length k)"
    using k b index_byte_first [of "0x3A" k] by (simp add: line_key_def)
  obtain m where "index_byte w nChar = Some m" using w by (cases "index_byte w nChar") (auto simp: index_byte_None)
  then have n: "index_byte (hsB s) nChar = Some (length k + Suc m)"
    using k b by (simp add: index_byte_append line_key_def)
  have e: "\<not> (length (hsB s) \<ge> 2 \<and> hsB s ! 0 = rChar \<and> hsB s ! 1 = nChar)" "\<not> (length (hsB s) \<ge> 1 \<and> hsB s ! 0 = nChar)"
    using k b by (cases k; cases "tl k"; auto simp: line_key_def)+
  have "length k' = length k" by (simp add: k'_def norm_key_def)
  moreover have "take (length k) (hsB s) = k" "drop (length k) (hsB s) = 0x3A # w" by (simp_all add: b)
  ultimately show ?thesis
    using s c n unfolding scan_next_def Let_def if_not_P [OF e(1)] if_not_P [OF e(2)]
    by (simp add: at_line_def k'_def norm_key_def)
qed

lemma scan_next_line:
  assumes k: "line_key k" and v: "line_value v" and r: "no_blank r" and s: "at_line s"
    and b: "hsB s = k @ bs '': '' @ v @ rChar # nChar # r"
  shows "\<exists>s'. scan_next s = (s', True) \<and> at_line s' \<and> hsB s' = r \<and> hsKey s' = norm_key (hsDisableNormalizing s) k \<and>
           hsValue s' = v \<and> hsHLen s' = hsHLen s + int (length (k @ bs '': '' @ v @ [rChar, nChar])) \<and>
           hsTail s' = hsTail s \<and> hsDisableNormalizing s' = hsDisableNormalizing s \<and>
           hsDone s' = hsDone s @ norm_key (hsDisableNormalizing s) k @ bs '': '' @ v @ [rChar, nChar]"
proof -
  let ?k = "norm_key (hsDisableNormalizing s) k"
  let ?w = "v @ rChar # nChar # r"
  let ?s = "s\<lparr>hsNextColon := None, hsKey := ?k, hsB := ?k @ 0x3A # spChar # ?w\<rparr>"
  have i: "index_byte ?w nChar = Some (length v + 1)"
    using v index_byte_first [of nChar "v @ [rChar]" r] by (simp add: line_value_def)
  have w: "no_blank ?w" using v by (cases v) (auto simp: line_value_def no_blank_def)
  have "scan_next s = scan_value ?s (length (?k @ [0x3A]))"
    using scan_next_key [OF k s, of "spChar # ?w"] b by simp
  also have "\<dots> = take_value (?s\<lparr>hsHLen := hsHLen ?s + int (length (?k @ [0x3A]) + 1), hsDone := hsDone ?s @ (?k @ [0x3A]) @ [spChar],
      hsB := ?w, hsNextNewLine := hsNextNewLine ?s - 1\<rparr>) (length v + 1)"
    using s by (intro scan_value_first [OF _ w i]) (simp_all add: at_line_def)
  finally show ?thesis
    using s unfolding at_line_def
    by (simp add: take_value_line [OF v r, simplified] norm_key_def)
qed

definition print_lines :: "(bytes \<times> bytes) list \<Rightarrow> bytes" where
  "print_lines ps = concat (map (\<lambda>(k, v). k @ bs '': '' @ v @ [rChar, nChar]) ps)"

definition line_ok :: "bytes \<times> bytes \<Rightarrow> bool" where
  "line_ok p \<longleftrightarrow> line_key (fst p) \<and> line_value (snd p)"

lemma print_lines_simps [simp]:
  "print_lines [] = []" "print_lines ((k, v) # ps) = k @ bs '': '' @ v @ [rChar, nChar] @ print_lines ps"
  "print_lines (ps @ qs) = print_lines ps @ print_lines qs"
  by (simp_all add: print_lines_def)

lemma no_blank_lines: "list_all line_ok ps \<Longrightarrow> no_blank (print_lines ps @ rChar # nChar # r)"
proof (cases ps)
  case Nil
  then show ?thesis by (simp add: no_blank_def)
next
  case (Cons p qs)
  moreover assume "list_all line_ok ps"
  ultimately show ?thesis by (cases p; cases "fst p") (auto simp: no_blank_def line_ok_def line_key_def)
qed

lemma scan_next_end: "hsB s = rChar # nChar # r \<Longrightarrow>
    scan_next s = (s\<lparr>hsDone := hsDone s @ [rChar, nChar], hsB := r, hsHLen := hsHLen s + 2\<rparr>, False)"
  by (simp add: scan_next_def)

lemma scan_all_print:
  assumes "list_all line_ok ps" "at_line s" "hsB s = print_lines ps @ rChar # nChar # r"
  shows "\<exists>e. scan_all s = (map (\<lambda>(k, v). (norm_key (hsDisableNormalizing s) k, v)) ps, e) \<and> hsErr e = None \<and> hsB e = r \<and>
           hsHLen e = hsHLen s + int (length (print_lines ps) + 2) \<and> hsTail e = hsTail s"
  using assms
proof (induction ps arbitrary: s)
  case Nil
  then show ?case by (subst scan_all.simps) (simp add: scan_next_end at_line_def)
next
  case (Cons p ps)
  obtain k v where p: "p = (k, v)" by (cases p)
  have kv: "line_key k" "line_value v" "list_all line_ok ps" using Cons.prems p by (auto simp: line_ok_def [of "(k, v)"])
  from scan_next_line [OF kv(1,2) no_blank_lines [OF kv(3), of r] Cons.prems(2)] Cons.prems(3) p
  obtain s' where s': "scan_next s = (s', True)" "at_line s'" "hsB s' = print_lines ps @ rChar # nChar # r"
    "hsKey s' = norm_key (hsDisableNormalizing s) k" "hsValue s' = v"
    "hsHLen s' = hsHLen s + int (length (k @ bs '': '' @ v @ [rChar, nChar]))"
    "hsTail s' = hsTail s" "hsDisableNormalizing s' = hsDisableNormalizing s" by auto
  from Cons.IH [OF kv(3) s'(2,3)] obtain e where e:
    "scan_all s' = (map (\<lambda>(k, v). (norm_key (hsDisableNormalizing s') k, v)) ps, e)" "hsErr e = None" "hsB e = r"
    "hsHLen e = hsHLen s' + int (length (print_lines ps) + 2)" "hsTail e = hsTail s'" by blast
  show ?case
    using s' e p by (subst scan_all.simps) simp
qed

section \<open>A folded value\<close>

text \<open>A value on two lines: the parts of a clean single fold.\<close>

definition fold_parts :: "bytes \<Rightarrow> bytes \<Rightarrow> bool" where
  "fold_parts v1 v2 \<longleftrightarrow>
     rChar \<notin> set v1 \<and> nChar \<notin> set v1 \<and> rChar \<notin> set v2 \<and> nChar \<notin> set v2 \<and> 0x3A \<notin> set v2 \<and>
     v1 \<noteq> [] \<and> hd v1 \<noteq> spChar \<and> hd v1 \<noteq> tabChar \<and>
     v2 \<noteq> [] \<and> hd v2 \<noteq> spChar \<and> hd v2 \<noteq> tabChar \<and> last v2 \<noteq> spChar \<and> last v2 \<noteq> tabChar"

lemma fold_loop_plain:
  "rChar \<notin> set v \<Longrightarrow> nChar \<notin> set v \<Longrightarrow> fold_loop (v @ w) once False = (v @ fst (fold_loop w once False), snd (fold_loop w once False))"
  by (induction v) (auto split: prod.splits)

lemma fold_loop_start:
  "rChar \<notin> set v \<Longrightarrow> nChar \<notin> set v \<Longrightarrow> v \<noteq> [] \<Longrightarrow> hd v \<noteq> spChar \<Longrightarrow> hd v \<noteq> tabChar \<Longrightarrow>
     fold_loop v once True = (v, 0)"
  using fold_loop_plain [of "tl v" "[]" once] by (cases v) auto

lemma fold_loop_once:
  assumes "fold_parts v1 v2"
  shows "fold_loop (v1 @ rChar # nChar # spChar # v2) False False = (v1 @ spChar # v2, 2)"
  using assms fold_loop_plain [of v1 "rChar # nChar # spChar # v2" False] fold_loop_start [of v2 True]
  by (simp add: fold_parts_def)

lemma normalizeHeaderValue_fold:
  assumes f: "fold_loop ov False False = (nv, k)" and ov: "ov \<noteq> []" and ob: "ob = ov @ rChar # nChar # r"
  shows "normalizeHeaderValue ov ob h =
           \<lparr>fdValue = nv, fdDone = nv @ [rChar, nChar], fdB = r, fdTail = drop (length ob - k) ob, fdLen = h - int k\<rparr>"
proof -
  have l: "length nv + k = length ov" using fold_loop_length [of ov False False] by (simp add: f)
  have D: "drop (length nv + k) ob = rChar # nChar # r" unfolding l ob by simp
  have lb: "length ob - k = length nv + (2 + length r)" unfolding ob using l by simp
  have ne: "\<not> length ov \<le> 0" using ov by simp
  show ?thesis
    unfolding normalizeHeaderValue_def f Let_def prod.case D lb if_not_P [OF ne]
    by (simp add: nth_append slice_def)
qed

lemma normalizeHeaderValue_once:
  assumes "fold_parts v1 v2" "ob = (v1 @ rChar # nChar # spChar # v2) @ rChar # nChar # r"
  shows "normalizeHeaderValue (v1 @ rChar # nChar # spChar # v2) ob h =
           \<lparr>fdValue = v1 @ spChar # v2, fdDone = (v1 @ spChar # v2) @ [rChar, nChar], fdB = r,
            fdTail = drop (length ob - 2) ob, fdLen = h - int 2\<rparr>"
  by (rule normalizeHeaderValue_fold [OF fold_loop_once [OF assms(1)] _ assms(2)]) simp

lemma value_end_once:
  assumes "fold_parts v1 v2" "no_blank r"
  defines "ov \<equiv> v1 @ rChar # nChar # spChar # v2"
  shows "value_end (ov @ rChar # nChar # r) (length v1 + 1) False = (length ov + 1, True, None)"
proof -
  let ?b = "v1 @ rChar # nChar # spChar # v2 @ rChar # nChar # r"
  have d: "index_byte (v2 @ rChar # nChar # r) nChar = Some (length v2 + 1)"
    using assms(1) index_byte_first [of nChar "v2 @ [rChar]" r] by (simp add: fold_parts_def)
  have c: "index_byte (slice ?b (Suc (Suc (length v1))) (Suc (Suc (Suc (Suc (length v1 + length v2)))))) 0x3A = None"
    using assms(1) by (intro index_byte_notin) (auto simp: slice_def fold_parts_def take_Cons' dest: in_set_takeD)
  have e: "value_end ?b (Suc (Suc (Suc (Suc (length v1 + length v2))))) True = (Suc (Suc (Suc (Suc (length v1 + length v2)))), True, None)"
    using assms(2) by (subst value_end.simps) (cases r; simp add: no_blank_def nth_append)
  show ?thesis
    using assms(1) c e unfolding ov_def
    by (subst value_end.simps) (simp add: d nth_append)
qed

lemma take_value_multi:
  assumes e: "value_end (hsB s) n False = (length ov + 1, True, None)" and b: "hsB s = ov @ rChar # nChar # r"
    and l: "ov \<noteq> []" "last ov \<noteq> spChar" "last ov \<noteq> tabChar"
  shows "take_value s n =
           (let f = normalizeHeaderValue ov (hsB s) (hsHLen s + int (length ov + 1) + 1)
            in (s\<lparr>hsHLen := fdLen f, hsValue := fdValue f, hsDone := hsDone s @ fdDone f, hsB := fdB f,
                  hsTail := fdTail f @ hsTail s\<rparr>, True))"
proof -
  have "trim_end (ov @ [rChar]) (length ov) = length ov"
    using l by (intro trim_end_id) (auto simp: nth_append last_conv_nth)
  then show ?thesis
    unfolding take_value_def e prod.case option.case using b by (simp add: Let_def nth_append)
qed

lemma take_value_once:
  assumes v: "fold_parts v1 v2" and r: "no_blank r"
    and b: "hsB s = (v1 @ rChar # nChar # spChar # v2) @ rChar # nChar # r"
  shows "take_value s (length v1 + 1) =
           (s\<lparr>hsHLen := hsHLen s + int (length v1 + length v2 + 3), hsValue := v1 @ spChar # v2,
             hsDone := hsDone s @ v1 @ spChar # v2 @ [rChar, nChar], hsB := r,
             hsTail := drop (length (hsB s) - 2) (hsB s) @ hsTail s\<rparr>, True)"
proof -
  let ?ov = "v1 @ rChar # nChar # spChar # v2"
  have "take_value s (length v1 + 1) =
           (let f = normalizeHeaderValue ?ov (hsB s) (hsHLen s + int (length ?ov + 1) + 1)
            in (s\<lparr>hsHLen := fdLen f, hsValue := fdValue f, hsDone := hsDone s @ fdDone f, hsB := fdB f,
                  hsTail := fdTail f @ hsTail s\<rparr>, True))"
    using v value_end_once [OF v r, folded b] by (intro take_value_multi [OF _ b]) (auto simp: fold_parts_def)
  then show ?thesis
    unfolding normalizeHeaderValue_once [OF v b] Let_def by simp
qed

lemma drop_all_but_two: "drop (length (xs @ x # y # r) - 2) (xs @ x # y # r) = drop (length r) (x # y # r)"
  by simp

lemma scan_next_fold:
  assumes k: "line_key k" and v: "fold_parts v1 v2" and r: "no_blank r" and s: "at_line s"
    and b: "hsB s = k @ bs '': '' @ v1 @ [rChar, nChar, spChar] @ v2 @ rChar # nChar # r"
  shows "\<exists>s'. scan_next s = (s', True) \<and> at_line s' \<and> hsB s' = r \<and> hsKey s' = norm_key (hsDisableNormalizing s) k \<and>
           hsValue s' = v1 @ spChar # v2 \<and> hsHLen s' = hsHLen s + int (length (k @ bs '': '' @ v1 @ [spChar] @ v2 @ [rChar, nChar])) \<and>
           hsTail s' = drop (length r) (rChar # nChar # r) @ hsTail s \<and> hsDisableNormalizing s' = hsDisableNormalizing s \<and>
           hsDone s' = hsDone s @ norm_key (hsDisableNormalizing s) k @ bs '': '' @ v1 @ [spChar] @ v2 @ [rChar, nChar]"
proof -
  let ?k = "norm_key (hsDisableNormalizing s) k"
  let ?w = "(v1 @ rChar # nChar # spChar # v2) @ rChar # nChar # r"
  let ?s = "s\<lparr>hsNextColon := None, hsKey := ?k, hsB := ?k @ 0x3A # spChar # ?w\<rparr>"
  let ?t = "?s\<lparr>hsHLen := hsHLen ?s + int (length (?k @ [0x3A]) + 1), hsDone := hsDone ?s @ (?k @ [0x3A]) @ [spChar],
      hsB := ?w, hsNextNewLine := hsNextNewLine ?s - 1\<rparr>"
  have i: "index_byte ?w nChar = Some (length v1 + 1)"
    using v index_byte_first [of nChar "v1 @ [rChar]" "spChar # v2 @ rChar # nChar # r"] by (simp add: fold_parts_def)
  have w: "no_blank ?w" using v by (cases v1) (auto simp: fold_parts_def no_blank_def)
  have "scan_next s = scan_value ?s (length (?k @ [0x3A]))"
    using scan_next_key [OF k s, of "spChar # ?w"] b by simp
  also have "\<dots> = take_value ?t (length v1 + 1)"
    using s by (intro scan_value_first [OF _ w i]) (simp_all add: at_line_def)
  also have "\<dots> = (?t\<lparr>hsHLen := hsHLen ?t + int (length v1 + length v2 + 3), hsValue := v1 @ spChar # v2,
             hsDone := hsDone ?t @ v1 @ spChar # v2 @ [rChar, nChar], hsB := r,
             hsTail := drop (length (hsB ?t) - 2) (hsB ?t) @ hsTail ?t\<rparr>, True)"
    by (rule take_value_once [OF v r]) simp
  finally have "scan_next s = (?t\<lparr>hsHLen := hsHLen ?t + int (length v1 + length v2 + 3), hsValue := v1 @ spChar # v2,
             hsDone := hsDone ?t @ v1 @ spChar # v2 @ [rChar, nChar], hsB := r,
             hsTail := drop (length (hsB ?t) - 2) (hsB ?t) @ hsTail ?t\<rparr>, True)" .
  moreover have "drop (length ?w - 2) ?w = drop (length r) (rChar # nChar # r)" by (rule drop_all_but_two)
  ultimately show ?thesis
    using s unfolding at_line_def by (simp add: norm_key_def del: drop_append)
qed

section \<open>Properties of the lexical layer\<close>

text \<open>C33: Header names are matched case-insensitively through their canonical form: two names have the same
  canonical form exactly when they are equal up to the case of ASCII letters, the canonical form is its own
  canonical form, and it is the form that \<^verbatim>\<open>AppendNormalizedHeaderKey\<close> appends.\<close>

theorem header_names_case:
  "(normalizeHeaderKeyV2 a = normalizeHeaderKeyV2 b \<longleftrightarrow> map toLowerTable a = map toLowerTable b) \<and>
   normalizeHeaderKeyV2 (AppendNormalizedHeaderKey [] a) = AppendNormalizedHeaderKey [] a"
  by (simp add: normalizeHeaderKey_eq_iff AppendNormalizedHeaderKey_def)

text \<open>C20: Values cannot inject header lines: \<^verbatim>\<open>initHeaderV\<close>, which cleans what it hands to the setters, and
  \<^verbatim>\<open>removeNewLines\<close> replace every carriage return and every line feed by a space and change no other byte, so the
  result holds neither of the two.\<close>

theorem no_header_injection:
  fixes raw bufV :: bytes
  defines "v \<equiv> snd (initHeaderV bufV raw)"
  shows "removeNewLines raw = v \<and> v = map (\<lambda>c. if c = rChar \<or> c = nChar then spChar else c) raw \<and>
         rChar \<notin> set v \<and> nChar \<notin> set v"
proof -
  have "(\<lambda>c. if c = rChar \<or> c = nChar then spChar else c) = newline_to_space" by (auto simp: newline_to_space_def)
  then have v: "v = map (\<lambda>c. if c = rChar \<or> c = nChar then spChar else c) raw" by (simp add: v_def initHeaderV_eq)
  then show ?thesis by (auto simp: removeNewLines_eq v_def initHeaderV_eq)
qed

text \<open>C21: A block of header lines in canonical printed form is read back exactly: the scanner returns the printed
  pairs in order (names in canonical form unless normalizing is off), reports no error, leaves the bytes that
  follow the empty line, and its byte count is the length of the block.\<close>

theorem header_block_roundtrip:
  assumes "list_all line_ok ps"
  shows "\<exists>e. scan_all (new_scanner (print_lines ps @ [rChar, nChar] @ body) dis) =
               (map (\<lambda>(k, v). (norm_key dis k, v)) ps, e) \<and>
             hsErr e = None \<and> hsB e = body \<and> hsHLen e = int (length (print_lines ps) + 2)"
  using scan_all_print [OF assms, of "new_scanner (print_lines ps @ [rChar, nChar] @ body) dis" body]
  by (auto simp: new_scanner_def at_line_def)

theorem header_block_roundtrip_witness:
  "\<exists>e. scan_all (new_scanner (bs ''host: a'' @ [rChar, nChar, rChar, nChar] @ bs ''xy'') False) = ([(bs ''Host'', bs ''a'')], e) \<and>
     hsErr e = None \<and> hsB e = bs ''xy'' \<and> hsHLen e = 11"
  using header_block_roundtrip [of "[(bs ''host'', bs ''a'')]" "bs ''xy''" False]
  by (simp add: line_ok_def line_key_def line_value_def norm_key_def normalizeHeaderKeyV2_def
      toUpperTable_def toLowerTable_def)

text \<open>A value folded over two lines is joined inside the read buffer, which loses two bytes, and the bytes that
  follow are moved down to close the gap. The slice the scanner goes on with is right, and the byte count is the
  length of the joined line; but the buffer behind that slice keeps the last two bytes of the input once more, so the
  byte count is two less than the number of bytes of the block that the reader delivered.\<close>

theorem folded_value_duplicates_tail:
  assumes "line_key k" "fold_parts v1 v2" "no_blank r" "2 \<le> length r"
  defines "line \<equiv> k @ bs '': '' @ v1 @ [rChar, nChar, spChar] @ v2 @ [rChar, nChar]"
  shows "\<exists>s. scan_next (new_scanner (line @ r) dis) = (s, True) \<and> hsKey s = norm_key dis k \<and>
             hsValue s = v1 @ [spChar] @ v2 \<and> hsB s = r \<and> hsTail s = drop (length r - 2) r \<and>
             hsHLen s = int (length line) - 2"
proof -
  have b: "hsB (new_scanner (line @ r) dis) = k @ bs '': '' @ v1 @ [rChar, nChar, spChar] @ v2 @ rChar # nChar # r"
    by (simp add: new_scanner_def line_def)
  have a: "at_line (new_scanner (line @ r) dis)" by (simp add: new_scanner_def at_line_def)
  have "drop (length r) (rChar # nChar # r) = drop (length r - 2) r"
    using assms(4) by (cases "length r"; cases "length r - 1") auto
  with scan_next_fold [OF assms(1-3) a b] show ?thesis
    by (auto simp: new_scanner_def line_def)
qed

theorem folded_value_duplicates_tail_witness:
  "\<exists>s. scan_next (new_scanner (bs ''A: b'' @ [rChar, nChar] @ bs '' c'' @ [rChar, nChar, rChar, nChar] @ bs ''xyz'') False) = (s, True) \<and>
     hsValue s = bs ''b c'' \<and> hsTail s = bs ''yz''"
  using folded_value_duplicates_tail [of "bs ''A''" "bs ''b''" "bs ''c''" "[rChar, nChar] @ bs ''xyz''" False]
  by (auto simp: line_key_def fold_parts_def no_blank_def)

end
