(* ===== verification/HeaderFields.thy ===== *)
theory HeaderFields
  imports HeaderScanner
begin

unbundle bit_operations_syntax

text \<open>
  The rules of single header fields in \<^verbatim>\<open>header.go\<close> that requests and responses share: the names
  with a meaning of their own, valid bytes, forbidden trailers, parameters, content codings and multipart
  boundaries, and the status line of \<^verbatim>\<open>status.go\<close>.
\<close>

named_theorems hdr_names \<open>the literal texts of header names and values\<close>

section \<open>Names and values with a meaning\<close>

definition strHost :: bytes where [hdr_names]: "strHost = bs ''Host''"
definition strUserAgent :: bytes where [hdr_names]: "strUserAgent = bs ''User-Agent''"
definition strContentType :: bytes where [hdr_names]: "strContentType = bs ''Content-Type''"
definition strContentLength :: bytes where [hdr_names]: "strContentLength = bs ''Content-Length''"
definition strContentEncoding :: bytes where [hdr_names]: "strContentEncoding = bs ''Content-Encoding''"
definition strContentRange :: bytes where [hdr_names]: "strContentRange = bs ''Content-Range''"
definition strConnection :: bytes where [hdr_names]: "strConnection = bs ''Connection''"
definition strCookie :: bytes where [hdr_names]: "strCookie = bs ''Cookie''"
definition strSetCookie :: bytes where [hdr_names]: "strSetCookie = bs ''Set-Cookie''"
definition strServer :: bytes where [hdr_names]: "strServer = bs ''Server''"
definition strDate :: bytes where [hdr_names]: "strDate = bs ''Date''"
definition strTransferEncoding :: bytes where [hdr_names]: "strTransferEncoding = bs ''Transfer-Encoding''"
definition strTrailer :: bytes where [hdr_names]: "strTrailer = bs ''Trailer''"
definition strTE :: bytes where [hdr_names]: "strTE = bs ''TE''"
definition strAuthorization :: bytes where [hdr_names]: "strAuthorization = bs ''Authorization''"
definition strExpect :: bytes where [hdr_names]: "strExpect = bs ''Expect''"
definition strMaxForwards :: bytes where [hdr_names]: "strMaxForwards = bs ''Max-Forwards''"
definition strProxyConnection :: bytes where [hdr_names]: "strProxyConnection = bs ''Proxy-Connection''"
definition strProxyAuthenticate :: bytes where [hdr_names]: "strProxyAuthenticate = bs ''Proxy-Authenticate''"
definition strProxyAuthorization :: bytes where [hdr_names]: "strProxyAuthorization = bs ''Proxy-Authorization''"
definition strWWWAuthenticate :: bytes where [hdr_names]: "strWWWAuthenticate = bs ''WWW-Authenticate''"
definition strRange :: bytes where [hdr_names]: "strRange = bs ''Range''"
definition strReferer :: bytes where [hdr_names]: "strReferer = bs ''Referer''"
definition strAcceptEncoding :: bytes where [hdr_names]: "strAcceptEncoding = bs ''Accept-Encoding''"
definition strLastModified :: bytes where [hdr_names]: "strLastModified = bs ''Last-Modified''"
definition strVary :: bytes where [hdr_names]: "strVary = bs ''Vary''"
definition strKeepAlive :: bytes where [hdr_names]: "strKeepAlive = bs ''keep-alive''"
definition strClose :: bytes where [hdr_names]: "strClose = bs ''close''"
definition strChunked :: bytes where [hdr_names]: "strChunked = bs ''chunked''"
definition strUpgrade :: bytes where [hdr_names]: "strUpgrade = bs ''Upgrade''"
definition strHTTP11 :: bytes where [hdr_names]: "strHTTP11 = bs ''HTTP/1.1''"
definition strDefaultContentType :: bytes where [hdr_names]: "strDefaultContentType = bs ''application/octet-stream''"
definition defaultContentType :: bytes where [hdr_names]: "defaultContentType = bs ''text/plain; charset=utf-8''"
definition strMultipartFormData :: bytes where [hdr_names]: "strMultipartFormData = bs ''multipart/form-data''"
definition strBoundary :: bytes where [hdr_names]: "strBoundary = bs ''boundary''"

section \<open>Valid bytes and forbidden trailers\<close>

definition validHeaderFieldByte :: "byte \<Rightarrow> bool" where
  "validHeaderFieldByte c \<longleftrightarrow> c < 128 \<and> validHeaderFieldByteTable c"

definition validHeaderValueByte :: "byte \<Rightarrow> bool" where
  "validHeaderValueByte c \<longleftrightarrow> validHeaderValueByteTable c"

definition isValidMethod :: "bytes \<Rightarrow> bool" where
  "isValidMethod method \<longleftrightarrow> list_all validMethodValueByteTable method"

definition isBadTrailer :: "bytes \<Rightarrow> bool \<Rightarrow> bool" where
  "isBadTrailer key dis =
     (if length key = 0 then True
      else let c = key ! 0 OR 0x20
      in if c = 0x61 then headNameCompare key strAuthorization dis
         else if c = 0x63 then
           (if length key > length strContentType \<and> headNameCompare (take 8 key) (take 8 strContentType) dis
            then headNameCompare (drop 8 key) (drop 8 strContentEncoding) dis \<or>
                 headNameCompare (drop 8 key) (drop 8 strContentLength) dis \<or>
                 headNameCompare (drop 8 key) (drop 8 strContentType) dis \<or>
                 headNameCompare (drop 8 key) (drop 8 strContentRange) dis
            else headNameCompare key strConnection dis)
         else if c = 0x65 then headNameCompare key strExpect dis
         else if c = 0x68 then headNameCompare key strHost dis
         else if c = 0x6B then headNameCompare key strKeepAlive dis
         else if c = 0x6D then headNameCompare key strMaxForwards dis
         else if c = 0x70 then
           (if length key > length strProxyConnection \<and> headNameCompare (take 6 key) (take 6 strProxyConnection) dis
            then headNameCompare (drop 6 key) (drop 6 strProxyConnection) dis \<or>
                 headNameCompare (drop 6 key) (drop 6 strProxyAuthenticate) dis \<or>
                 headNameCompare (drop 6 key) (drop 6 strProxyAuthorization) dis
            else False)
         else if c = 0x72 then headNameCompare key strRange dis
         else if c = 0x74 then
           headNameCompare key strTE dis \<or> headNameCompare key strTrailer dis \<or>
           headNameCompare key strTransferEncoding dis
         else if c = 0x77 then headNameCompare key strWWWAuthenticate dis
         else False)"

section \<open>Parameters of a value\<close>

text \<open>The offset of the closing quote of a quoted string.\<close>

fun quote_end :: "bytes \<Rightarrow> bool \<Rightarrow> nat option" where
  "quote_end [] escaping = None"
| "quote_end (c # b) escaping =
     (if c = 0x22 \<and> \<not> escaping then Some 0
      else map_option Suc (quote_end b (c = 0x5C \<and> \<not> escaping)))"

text \<open>The callback works on a state and says whether to go on.\<close>

function VisitHeaderParams :: "bytes \<Rightarrow> (bytes \<Rightarrow> bytes \<Rightarrow> 's \<Rightarrow> 's \<times> bool) \<Rightarrow> 's \<Rightarrow> 's" where
  "VisitHeaderParams b f s =
     (let idxSemi = length (takeWhile (\<lambda>c. c \<noteq> 0x3B) b)
      in if idxSemi \<ge> length b then s
         else let b = dropWhile (\<lambda>c. c = spChar) (drop (idxSemi + 1) b)
         in if b = [] \<or> \<not> validHeaderFieldByte (b ! 0) then s
         else let n = length (takeWhile validHeaderFieldByte b)
         in if n + 1 \<ge> length b \<or> b ! n \<noteq> 0x3D then s
         else let param = take n b; m = n + 1
         in if validHeaderFieldByte (b ! m)
            then (let n = m + length (takeWhile validHeaderFieldByte (drop m b))
                  in (case f param (slice b m n) s of
                        (s, False) \<Rightarrow> s
                      | (s, True) \<Rightarrow> VisitHeaderParams (drop n b) f s))
            else if b ! m = 0x22
            then (case quote_end (drop (m + 1) b) False of
                    None \<Rightarrow> s
                  | Some k \<Rightarrow>
                      (case f param (slice b (m + 1) (m + 1 + k)) s of
                         (s, False) \<Rightarrow> s
                       | (s, True) \<Rightarrow> VisitHeaderParams (drop (m + 1 + k + 1) b) f s))
            else s)"
  by pat_completeness auto
termination
proof (relation "measure (\<lambda>(b, f, s). length b)", goal_cases)
  case 1
  then show ?case by simp
next
  case (2 b f s idx b' n param m n' s' go)
  have "length b' \<le> length b" unfolding 2(3) by (rule le_trans [OF length_dropWhile_le]) simp
  moreover have "b \<noteq> []" using 2(2) by auto
  ultimately show ?case using 2 by (auto simp: Let_def)
next
  case (3 b f s idx b' n param m k s' go)
  have "length b' \<le> length b" unfolding 3(3) by (rule le_trans [OF length_dropWhile_le]) simp
  moreover have "b \<noteq> []" using 3(2) by auto
  ultimately show ?case using 3 by (auto simp: Let_def)
qed

declare VisitHeaderParams.simps [simp del]

section \<open>Multipart boundaries and content codings\<close>

text \<open>The loop of \<^verbatim>\<open>MultipartFormBoundary\<close>: \<open>n\<close> is the index of the semicolon that precedes the next
  parameter.\<close>

function MultipartFormBoundary_loop :: "bytes \<Rightarrow> nat \<Rightarrow> bytes option" where
  "MultipartFormBoundary_loop b n =
     (if b = [] then None
      else (let n = n + 1;
                n = n + length (takeWhile (\<lambda>c. c = spChar) (drop n b));
                b = drop n b
            in if \<not> has_prefix b strBoundary
               then (case index_byte b 0x3B of None \<Rightarrow> None | Some n \<Rightarrow> MultipartFormBoundary_loop b n)
               else (let b = drop (length strBoundary) b
                     in if b = [] \<or> b ! 0 \<noteq> 0x3D then None
                        else (let b = drop 1 b;
                                  b = (case index_byte b 0x3B of Some n \<Rightarrow> take n b | None \<Rightarrow> b)
                              in Some (if length b > 1 \<and> b ! 0 = 0x22 \<and> last b = 0x22
                                       then butlast (drop 1 b) else b)))))"
  by pat_completeness auto
termination
  by (relation "measure (\<lambda>(b, n). length b)") auto

declare MultipartFormBoundary_loop.simps [simp del]

text \<open>The boundary in a given Content-Type value; \<open>None\<close> is the nil slice.\<close>

definition multipart_boundary :: "bytes \<Rightarrow> bytes option" where
  "multipart_boundary b =
     (if \<not> has_prefix b strMultipartFormData then None
      else (let b = drop (length strMultipartFormData) b
            in if b = [] \<or> b ! 0 \<noteq> 0x3B then None else MultipartFormBoundary_loop b 0))"

definition HasAcceptEncodingBytes :: "bytes \<Rightarrow> bytes \<Rightarrow> bool" where
  "HasAcceptEncodingBytes ae acceptEncoding =
     (case index_bytes ae acceptEncoding of
        None \<Rightarrow> False
      | Some n \<Rightarrow>
          let b = drop (n + length acceptEncoding) ae
          in if b \<noteq> [] \<and> b ! 0 \<noteq> 0x2C then False
             else if n = 0 then True else ae ! (n - 1) = spChar)"

section \<open>Status lines\<close>

definition statusMessages :: "(int \<times> string) list" where
  "statusMessages =
   [(100, ''Continue''), (101, ''Switching Protocols''), (102, ''Processing''),
    (103, ''Early Hints''), (200, ''OK''), (201, ''Created''), (202, ''Accepted''),
    (203, ''Non-Authoritative Information''), (204, ''No Content''), (205, ''Reset Content''),
    (206, ''Partial Content''), (207, ''Multi-Status''), (208, ''Already Reported''),
    (226, ''IM Used''), (300, ''Multiple Choices''), (301, ''Moved Permanently''), (302, ''Found''),
    (303, ''See Other''), (304, ''Not Modified''), (305, ''Use Proxy''),
    (307, ''Temporary Redirect''), (308, ''Permanent Redirect''), (400, ''Bad Request''),
    (401, ''Unauthorized''), (402, ''Payment Required''), (403, ''Forbidden''), (404, ''Not Found''),
    (405, ''Method Not Allowed''), (406, ''Not Acceptable''),
    (407, ''Proxy Authentication Required''), (408, ''Request Timeout''), (409, ''Conflict''),
    (410, ''Gone''), (411, ''Length Required''), (412, ''Precondition Failed''),
    (413, ''Request Entity Too Large''), (414, ''Request URI Too Long''),
    (415, ''Unsupported Media Type''), (416, ''Requested Range Not Satisfiable''),
    (417, ''Expectation Failed''), (418, ''I'' @ [CHR 0x27] @ ''m a teapot''),
    (421, ''Misdirected Request''), (422, ''Unprocessable Entity''), (423, ''Locked''),
    (424, ''Failed Dependency''), (426, ''Upgrade Required''), (428, ''Precondition Required''),
    (429, ''Too Many Requests''), (431, ''Request Header Fields Too Large''),
    (451, ''Unavailable For Legal Reasons''), (500, ''Internal Server Error''),
    (501, ''Not Implemented''), (502, ''Bad Gateway''), (503, ''Service Unavailable''),
    (504, ''Gateway Timeout''), (505, ''HTTP Version Not Supported''),
    (506, ''Variant Also Negotiates''), (507, ''Insufficient Storage''), (508, ''Loop Detected''),
    (510, ''Not Extended''), (511, ''Network Authentication Required'')]"

definition StatusMessage :: "int \<Rightarrow> bytes" where
  "StatusMessage statusCode =
     (if statusCode < 100 \<or> statusCode > 511 then bs ''Unknown Status Code''
      else (case map_of statusMessages statusCode of
              Some s \<Rightarrow> bs s
            | None \<Rightarrow> bs ''Unknown Status Code''))"

text \<open>\<^verbatim>\<open>strconv.AppendInt\<close> in base ten.\<close>

definition AppendInt :: "bytes \<Rightarrow> int \<Rightarrow> bytes" where
  "AppendInt dst n = dst @ (if n < 0 then 0x2D # dec_digits (nat (- n)) else dec_digits (nat n))"

definition formatStatusLine :: "bytes \<Rightarrow> bytes \<Rightarrow> int \<Rightarrow> bytes \<Rightarrow> bytes" where
  "formatStatusLine dst protocol statusCode statusText =
     AppendInt (dst @ protocol @ [spChar]) statusCode @ [spChar] @
     (if statusText = [] then StatusMessage statusCode else statusText) @ [rChar, nChar]"

definition bodyNotAllowedForStatus :: "int \<Rightarrow> bool" where
  "bodyNotAllowedForStatus statusCode =
     (if statusCode < 100 \<or> statusCode = 200 then False
      else statusCode = 304 \<or> statusCode = 204 \<or> statusCode < 200)"

definition suppressedHeaders :: "int \<Rightarrow> bytes list" where
  "suppressedHeaders status =
     (if status = 304 then [strContentType, strContentLength, strTransferEncoding]
      else if bodyNotAllowedForStatus status then [strContentLength, strTransferEncoding]
      else [])"

section \<open>Which trailers are refused\<close>

definition forbidden_names :: "bytes list" where
  "forbidden_names =
     [[], strAuthorization, strContentEncoding, strContentLength, strContentRange, strConnection, strExpect, strHost,
      strKeepAlive, strMaxForwards, strProxyAuthenticate, strProxyAuthorization, strRange, strTE, strTrailer,
      strTransferEncoding, strWWWAuthenticate]"

lemma take_drop_eqI: "take n xs = take n ys \<Longrightarrow> drop n xs = drop n ys \<Longrightarrow> xs = ys"
  by (metis append_take_drop_id)

lemma bad_trailer_names: "key \<in> set forbidden_names \<Longrightarrow> isBadTrailer key False"
  unfolding forbidden_names_def list.set insert_iff empty_iff
  by (elim disjE) (simp_all add: isBadTrailer_def headNameCompare_def hdr_names)

lemma bad_trailer_content:
  "take 8 key = take 8 strContentType \<Longrightarrow> drop 8 key = drop 8 x \<Longrightarrow> take 8 x = take 8 strContentType \<Longrightarrow> key = x"
  by (rule take_drop_eqI [of 8]) simp_all

lemma bad_trailer_proxy:
  "take 6 key = take 6 strProxyConnection \<Longrightarrow> drop 6 key = drop 6 x \<Longrightarrow> take 6 x = take 6 strProxyConnection \<Longrightarrow> key = x"
  by (rule take_drop_eqI [of 6]) simp_all

lemma name_prefixes:
  "take 8 strContentEncoding = take 8 strContentType" "take 8 strContentLength = take 8 strContentType"
  "take 8 strContentRange = take 8 strContentType" "take 6 strProxyAuthenticate = take 6 strProxyConnection"
  "take 6 strProxyAuthorization = take 6 strProxyConnection"
  by (simp_all add: hdr_names)

lemma bad_trailer_only: "isBadTrailer key False \<Longrightarrow> key \<in> set forbidden_names"
proof -
  assume a: "isBadTrailer key False"
  have ct: "\<not> (length key > length strContentType \<and> take 8 key = take 8 strContentType \<and> drop 8 key = drop 8 strContentType)"
    using bad_trailer_content [of key strContentType] by auto
  have pc: "\<not> (length key > length strProxyConnection \<and> take 6 key = take 6 strProxyConnection \<and> drop 6 key = drop 6 strProxyConnection)"
    using bad_trailer_proxy [of key strProxyConnection] by auto
  show ?thesis
    using a ct pc unfolding isBadTrailer_def headNameCompare_def forbidden_names_def Let_def
    by (auto split: if_splits dest: bad_trailer_content bad_trailer_proxy simp: name_prefixes)
qed

text \<open>C40: Where names are compared exactly, \<^verbatim>\<open>isBadTrailer\<close> refuses the empty name and exactly sixteen others. Because of
  the strict length tests before the comparison of the tails it accepts \<open>Content-Type\<close>, which the comments of the setters
  name as forbidden, and \<open>Proxy-Connection\<close>, though its code compares with both. The names \<open>TE\<close>, \<open>WWW-Authenticate\<close> and
  \<open>Keep-Alive\<close> are refused only as the constants spell them: their canonical forms, to which the setters of a request bring
  a name first, are accepted.\<close>

theorem forbidden_trailers:
  "(isBadTrailer key False \<longleftrightarrow> key \<in> set forbidden_names) \<and>
   \<not> isBadTrailer strContentType dis \<and> \<not> isBadTrailer strProxyConnection dis \<and>
   \<not> isBadTrailer (normalizeHeaderKeyV2 strTE) False \<and> \<not> isBadTrailer (normalizeHeaderKeyV2 strWWWAuthenticate) False \<and>
   \<not> isBadTrailer (normalizeHeaderKeyV2 strKeepAlive) False"
proof -
  have "\<not> isBadTrailer strContentType dis" "\<not> isBadTrailer strProxyConnection dis"
    by (simp_all add: isBadTrailer_def headNameCompare_def caseInsensitiveCompare_def hdr_names)
  moreover have "\<not> isBadTrailer (normalizeHeaderKeyV2 strTE) False"
    "\<not> isBadTrailer (normalizeHeaderKeyV2 strWWWAuthenticate) False" "\<not> isBadTrailer (normalizeHeaderKeyV2 strKeepAlive) False"
    by (simp_all add: isBadTrailer_def headNameCompare_def hdr_names normalizeHeaderKeyV2_def toUpperTable_def toLowerTable_def)
  moreover have "isBadTrailer key False \<longleftrightarrow> key \<in> set forbidden_names"
    using bad_trailer_names bad_trailer_only by blast
  ultimately show ?thesis by blast
qed

end
