(* ===== verification/ScanInvariant.thy ===== *)
theory ScanInvariant
  imports HeaderScanner
begin

text \<open>
  What the header scanner keeps of the buffer it works in, for every input: the number of bytes never changes,
  and its byte count is the length of what it has passed, except after a folded value with trailing blanks,
  where the next line cannot be read without an error. The loops that discard the counted bytes from the
  reader rely on this.
\<close>

section \<open>The end of a value\<close>

lemma value_end_nl:
  "value_end b n multi = (m, multi', next) \<Longrightarrow> n < length b \<Longrightarrow> b ! n = nChar \<Longrightarrow>
     b ! m = nChar \<and> (multi' \<and> \<not> multi \<longrightarrow> n < m)"
proof (induction b n multi rule: value_end.induct)
  case (1 b n multi)
  show ?case
  proof (cases "n + 1 \<ge> length b \<or> b ! (n + 1) \<noteq> spChar \<and> b ! (n + 1) \<noteq> tabChar")
    case True
    with "1.prems" show ?thesis by (subst (asm) value_end.simps) (auto split: if_splits)
  next
    case False
    show ?thesis
    proof (cases "index_byte (drop (n + 1) b) nChar")
      case None
      with False "1.prems" show ?thesis by (subst (asm) value_end.simps) auto
    next
      case (Some d)
      note d = index_byte_SomeD [OF Some]
      have nl: "n + d + 1 < length b" "b ! (n + d + 1) = nChar" using d by (auto simp: add.commute add.left_commute)
      show ?thesis
        using "1.prems" False Some "1.IH" [OF _ _ Some] nl value_end_lt [of b "n + d + 1" True m multi' "next"]
        by (subst (asm) value_end.simps) (auto split: if_splits option.splits)
    qed
  qed
qed

lemma trim_end_gt: "k < n \<Longrightarrow> v ! k \<noteq> spChar \<Longrightarrow> v ! k \<noteq> tabChar \<Longrightarrow> k < trim_end v n"
  by (induction n) (auto simp: less_Suc_eq)

lemma trim_end_blank: "trim_end v n \<le> i \<Longrightarrow> i < n \<Longrightarrow> v ! i = spChar \<or> v ! i = tabChar"
  by (induction n) (auto simp: less_Suc_eq split: if_splits)

section \<open>Joining a folded value\<close>

definition fold_skip :: "bytes \<Rightarrow> nat \<Rightarrow> nat" where
  "fold_skip ob j =
     (if ob ! j = rChar then (if ob ! (j + 1) = nChar then 2 else 1) else if ob ! j = nChar then 1 else 0)"

lemma normalizeHeaderValue_gen:
  assumes f: "fold_loop ov False False = (nv, k)" and ov: "ov = take j ob" and j: "0 < j" "j + 1 < length ob \<or> j < length ob \<and> ob ! j \<noteq> rChar"
  shows "normalizeHeaderValue ov ob h =
           \<lparr>fdValue = nv, fdDone = nv @ take (fold_skip ob j) (drop j ob), fdB = drop (j + fold_skip ob j) ob,
            fdTail = drop (length ob - k) ob, fdLen = h - int k\<rparr>"
proof -
  have lj: "length ov = j" "j < length ob" using ov j by auto
  have l: "length nv + k = j" using fold_loop_length [of ov False False] lj by (simp add: f)
  let ?ob = "nv @ drop j ob @ drop (length ob - k) ob"
  have w: "?ob ! length nv = ob ! j" using lj by (simp add: nth_append)
  have w1: "ob ! j = rChar \<Longrightarrow> ?ob ! (length nv + 1) = ob ! (j + 1)" using j by (auto simp: nth_append)
  have sk: "(if ?ob ! length nv = rChar then (if ?ob ! (length nv + 1) = nChar then 2 else 1)
             else if ?ob ! length nv = nChar then 1 else 0) = fold_skip ob j"
    unfolding fold_skip_def using w w1 by auto
  have le: "fold_skip ob j \<le> length ob - j" using j by (auto simp: fold_skip_def)
  have lb: "length ob - k = length nv + (length ob - j)" using l lj by simp
  have ne: "\<not> length ov \<le> 0" using lj j by simp
  have s1: "take (length nv + fold_skip ob j) ?ob = nv @ take (fold_skip ob j) (drop j ob)"
    using le by simp
  have s2: "slice ?ob (length nv + fold_skip ob j) (length ob - k) = drop (j + fold_skip ob j) ob"
    using le unfolding slice_def lb by (simp add: add.commute)
  have s3: "drop (length ob - k) ?ob = drop (length ob - k) ob"
    unfolding lb by simp
  show ?thesis
    unfolding normalizeHeaderValue_def f Let_def prod.case l if_not_P [OF ne] sk s1 s2 s3 by simp
qed

section \<open>Alignment\<close>

text \<open>A colon seen ahead comes with the position of its line feed.\<close>

definition pend_ok :: "headerScanner \<Rightarrow> bool" where
  "pend_ok s \<longleftrightarrow>
     (case hsNextColon s of
        None \<Rightarrow> hsNextNewLine s < 0
      | Some c \<Rightarrow> 0 \<le> hsNextNewLine s \<and> c + 1 + nat (hsNextNewLine s) < length (hsB s) \<and>
                  hsB s ! (c + 1 + nat (hsNextNewLine s)) = nChar)"

definition counted :: "headerScanner \<Rightarrow> bool" where
  "counted s \<longleftrightarrow> hsHLen s = int (length (hsDone s)) \<and> hsErr s = None"

definition aligned :: "headerScanner \<Rightarrow> bool" where
  "aligned s \<longleftrightarrow> counted s \<and> pend_ok s"

text \<open>The scanner stands in front of the blanks it should have passed.\<close>

definition misaligned :: "headerScanner \<Rightarrow> bool" where
  "misaligned s \<longleftrightarrow>
     hsErr s = None \<and> hsNextColon s \<noteq> Some 0 \<and>
     (\<exists>w r. hsB s = w @ nChar # r \<and> w \<noteq> [] \<and> set w \<subseteq> {spChar, tabChar, rChar} \<and> (hd w = spChar \<or> hd w = tabChar))"

definition mem_length :: "headerScanner \<Rightarrow> nat" where
  "mem_length s = length (hsDone s) + length (hsB s) + length (hsTail s)"

lemma index_slice_blank:
  assumes "n + 1 < length b" "b ! (n + 1) \<noteq> c" "index_byte (slice b (n + 1) e) c = Some i"
  shows "0 < i"
proof (rule ccontr)
  assume "\<not> 0 < i"
  with index_byte_SomeD [OF assms(3)] have "slice b (n + 1) e ! 0 = c" "0 < length (slice b (n + 1) e)" by auto
  with assms show False by (auto simp: slice_def)
qed

lemma value_end_colon:
  "value_end b n multi = (m, multi', Some (c, l)) \<Longrightarrow> 0 < c"
proof (induction b n multi rule: value_end.induct)
  case (1 b n multi)
  show ?case
  proof (cases "n + 1 \<ge> length b \<or> b ! (n + 1) \<noteq> spChar \<and> b ! (n + 1) \<noteq> tabChar")
    case True
    with "1.prems" show ?thesis by (subst (asm) value_end.simps) (auto split: if_splits)
  next
    case False
    then have nc: "n + 1 < length b" "b ! (n + 1) \<noteq> 0x3A" by auto
    show ?thesis
    proof (cases "index_byte (drop (n + 1) b) nChar")
      case None
      with False "1.prems" show ?thesis by (subst (asm) value_end.simps) auto
    next
      case (Some d)
      show ?thesis
        using "1.prems" False Some "1.IH" [OF _ _ Some] index_slice_blank [OF nc]
        by (subst (asm) value_end.simps) (auto split: if_splits option.splits)
    qed
  qed
qed

text \<open>The value that is cut off: \<open>m\<close> is the index of its final line feed.\<close>

definition value_cut :: "bytes \<Rightarrow> nat \<Rightarrow> nat" where
  "value_cut b m = trim_end (take m b) (if m > 0 \<and> b ! (m - 1) = rChar then m - 1 else m)"

lemma value_cut_le: "value_cut b m \<le> m"
  using trim_end_le [of "take m b" m] trim_end_le [of "take m b" "m - 1"] by (auto simp: value_cut_def)

lemma value_cut_multi:
  assumes "n < m" "m < length b" "b ! n = nChar"
  shows "0 < value_cut b m"
proof -
  let ?e = "if m > 0 \<and> b ! (m - 1) = rChar then m - 1 else m"
  have "n < ?e" using assms by (cases "n = m - 1") auto
  then have "n < trim_end (take m b) ?e" using assms by (intro trim_end_gt) (auto split: if_splits)
  then show ?thesis unfolding value_cut_def by simp
qed

lemma value_cut_exact:
  assumes "m < length b" "b ! m = nChar" "0 < m"
  shows "value_cut b m + fold_skip b (value_cut b m) = m + 1 \<or>
         (b ! value_cut b m = spChar \<or> b ! value_cut b m = tabChar) \<and> value_cut b m < m \<and>
         set (slice b (value_cut b m) m) \<subseteq> {spChar, tabChar, rChar}"
proof -
  define e where "e = (if m > 0 \<and> b ! (m - 1) = rChar then m - 1 else m)"
  define j where "j = value_cut b m"
  have j: "j = trim_end (take m b) e" by (simp add: j_def e_def value_cut_def)
  have je: "j \<le> e" unfolding j by (rule trim_end_le)
  have em: "e \<le> m" "e = m \<or> e = m - 1 \<and> b ! e = rChar" by (auto simp: e_def)
  show ?thesis
  proof (cases "j = e")
    case True
    then have "j + fold_skip b j = m + 1" using em assms by (auto simp: fold_skip_def)
    then show ?thesis by (simp add: j_def)
  next
    case False
    with je have lt: "j < e" by simp
    have bl: "b ! i = spChar \<or> b ! i = tabChar" if "j \<le> i" "i < e" for i
      using trim_end_blank [of "take m b" e i] that em j by (cases "i < m") auto
    have "set (slice b j m) \<subseteq> {spChar, tabChar, rChar}"
    proof
      fix x assume "x \<in> set (slice b j m)"
      then obtain i where i: "i < m - j" "x = b ! (j + i)"
        using assms by (auto simp: slice_def in_set_conv_nth)
      show "x \<in> {spChar, tabChar, rChar}"
      proof (cases "j + i < e")
        case True
        with bl [of "j + i"] i show ?thesis by auto
      next
        case False
        with i em have "j + i = e" "b ! e = rChar" by auto
        with i show ?thesis by simp
      qed
    qed
    with bl [of j] lt em show ?thesis by (auto simp: j_def)
  qed
qed

lemma value_end_next:
  "value_end b n multi = (m, multi', Some (c, l)) \<Longrightarrow>
     0 \<le> l \<and> m + 1 + (c + 1 + nat l) < length b \<and> b ! (m + 1 + (c + 1 + nat l)) = nChar"
proof (induction b n multi rule: value_end.induct)
  case (1 b n multi)
  show ?case
  proof (cases "n + 1 \<ge> length b \<or> b ! (n + 1) \<noteq> spChar \<and> b ! (n + 1) \<noteq> tabChar")
    case True
    with "1.prems" show ?thesis by (subst (asm) value_end.simps) (auto split: if_splits)
  next
    case False
    show ?thesis
    proof (cases "index_byte (drop (n + 1) b) nChar")
      case None
      with False "1.prems" show ?thesis by (subst (asm) value_end.simps) auto
    next
      case (Some d)
      note d = index_byte_SomeD [OF Some]
      have nl: "n + 1 + d < length b" "b ! (n + 1 + d) = nChar" using d by (auto simp: add.commute add.left_commute)
      show ?thesis
      proof (cases "d = 0 \<or> d = 1 \<and> b ! (n + 1) = rChar")
        case True
        with "1.prems" False Some show ?thesis by (subst (asm) value_end.simps) auto
      next
        case nd: False
        show ?thesis
        proof (cases "index_byte (slice b (n + 1) (n + d + 1)) 0x3A")
          case None
          with "1.prems" False Some nd have "value_end b (n + d + 1) True = (m, multi', Some (c, l))"
            by (subst (asm) value_end.simps) auto
          with "1.IH" [OF _ _ Some _ _ None] False nd show ?thesis by auto
        next
          case c: (Some c')
          with "1.prems" False Some nd have m: "m = n" "c = c'" "l = int d - int c - 1"
            by (subst (asm) value_end.simps, auto)+
          have "c' < d" using index_byte_lt [OF c] by (simp add: slice_def split: if_splits)
          with m have "c + 1 + nat l = d" "0 \<le> l" by linarith+
          with nl m(1) show ?thesis by simp
        qed
      qed
    qed
  qed
qed

text \<open>What \<^verbatim>\<open>next\<close> leaves when it takes the value that ends at the line feed \<open>m\<close>.\<close>

lemma take_value_cases:
  assumes t: "take_value s n = (s', True)"
  obtains m multi nx where "value_end (hsB s) n False = (m, multi, nx)" "m < length (hsB s)"
    "hsErr s' = hsErr s" "hsKey s' = hsKey s" "hsDisableNormalizing s' = hsDisableNormalizing s"
    "hsNextColon s' = (case nx of None \<Rightarrow> hsNextColon s | Some (c, l) \<Rightarrow> Some c)"
    "hsNextNewLine s' = (case nx of None \<Rightarrow> hsNextNewLine s | Some (c, l) \<Rightarrow> l)"
    "\<not> multi \<Longrightarrow> hsHLen s' = hsHLen s + int m + 1 \<and> hsDone s' = hsDone s @ take (m + 1) (hsB s) \<and>
       hsB s' = drop (m + 1) (hsB s) \<and> hsTail s' = hsTail s"
    "multi \<Longrightarrow> (let f = normalizeHeaderValue (take (value_cut (hsB s) m) (hsB s)) (hsB s) (hsHLen s + int m + 1)
       in hsHLen s' = fdLen f \<and> hsDone s' = hsDone s @ fdDone f \<and> hsB s' = fdB f \<and> hsTail s' = fdTail f @ hsTail s)"
proof -
  obtain m multi nx where v: "value_end (hsB s) n False = (m, multi, nx)" by (cases "value_end (hsB s) n False")
  let ?s = "case nx of None \<Rightarrow> s | Some (c, l) \<Rightarrow> s\<lparr>hsNextColon := Some c, hsNextNewLine := l\<rparr>"
  have f: "hsB ?s = hsB s" "hsErr ?s = hsErr s" "hsKey ?s = hsKey s" "hsDone ?s = hsDone s" "hsTail ?s = hsTail s"
    "hsHLen ?s = hsHLen s" "hsDisableNormalizing ?s = hsDisableNormalizing s"
    "hsNextColon ?s = (case nx of None \<Rightarrow> hsNextColon s | Some (c, l) \<Rightarrow> Some c)"
    "hsNextNewLine ?s = (case nx of None \<Rightarrow> hsNextNewLine s | Some (c, l) \<Rightarrow> l)"
    by (auto split: option.splits)
  have m: "m < length (hsB s)"
    using t unfolding take_value_def v prod.case Let_def f by (auto split: if_splits)
  have c: "take (trim_end (take m (hsB s)) (if m > 0 \<and> take m (hsB s) ! (m - 1) = rChar then m - 1 else m)) (take m (hsB s)) =
      take (value_cut (hsB s) m) (hsB s)"
    using value_cut_le [of "hsB s" m] by (auto simp: value_cut_def min_def intro: arg_cong2 [where f = take])
  have e: "\<not> m \<ge> length (hsB s)" using m by simp
  show ?thesis
  proof (cases multi)
    case True
    show ?thesis
      using t unfolding take_value_def v prod.case Let_def f if_not_P [OF e] headerScanner.simps c
      by (intro that [OF v m]) (auto simp: True f)
  next
    case False
    show ?thesis
      using t unfolding take_value_def v prod.case Let_def f if_not_P [OF e] headerScanner.simps c
      by (intro that [OF v m]) (auto simp: False f)
  qed
qed

lemma take_value_pend:
  assumes "value_end b n False = (m, multi, nx)" "hsNextColon s = None" "hsNextNewLine s < 0"
    "hsNextColon s' = (case nx of None \<Rightarrow> hsNextColon s | Some (c, l) \<Rightarrow> Some c)"
    "hsNextNewLine s' = (case nx of None \<Rightarrow> hsNextNewLine s | Some (c, l) \<Rightarrow> l)"
    "hsB s' = drop (m + 1) b"
  shows "pend_ok s'"
proof (cases nx)
  case None
  with assms show ?thesis by (simp add: pend_ok_def)
next
  case (Some p)
  obtain c l where p: "p = (c, l)" by (cases p)
  from value_end_next [OF assms(1) [unfolded Some p]] assms Some p show ?thesis
    by (auto simp: pend_ok_def)
qed

lemma take_value_inv:
  assumes t: "take_value s n = (s', True)" and n: "n < length (hsB s)" "hsB s ! n = nChar"
    and a: "counted s" "hsNextColon s = None" "hsNextNewLine s < 0"
  shows "mem_length s' = mem_length s \<and> (aligned s' \<or> misaligned s')"
proof (rule take_value_cases [OF t])
  let ?b = "hsB s"
  fix m multi nx
  assume v: "value_end ?b n False = (m, multi, nx)" and m: "m < length ?b"
    and f: "hsErr s' = hsErr s" and "hsKey s' = hsKey s" "hsDisableNormalizing s' = hsDisableNormalizing s"
    and g: "hsNextColon s' = (case nx of None \<Rightarrow> hsNextColon s | Some (c, l) \<Rightarrow> Some c)"
    "hsNextNewLine s' = (case nx of None \<Rightarrow> hsNextNewLine s | Some (c, l) \<Rightarrow> l)"
    and plain: "\<not> multi \<Longrightarrow> hsHLen s' = hsHLen s + int m + 1 \<and> hsDone s' = hsDone s @ take (m + 1) ?b \<and>
       hsB s' = drop (m + 1) ?b \<and> hsTail s' = hsTail s"
    and joined: "multi \<Longrightarrow> (let f = normalizeHeaderValue (take (value_cut ?b m) ?b) ?b (hsHLen s + int m + 1)
       in hsHLen s' = fdLen f \<and> hsDone s' = hsDone s @ fdDone f \<and> hsB s' = fdB f \<and> hsTail s' = fdTail f @ hsTail s)"
  note nl = value_end_nl [OF v n]
  note pend = take_value_pend [OF v a(2,3) g]
  show ?thesis
  proof (cases multi)
    case False
    from plain [OF this] m a f pend show ?thesis
      by (auto simp: aligned_def counted_def mem_length_def)
  next
    case True
    define j where "j = value_cut ?b m"
    have j: "0 < j" "j \<le> m" using True nl value_cut_multi [of n m ?b] m n value_cut_le [of ?b m] by (auto simp: j_def)
    obtain nv k where fl: "fold_loop (take j ?b) False False = (nv, k)" by (cases "fold_loop (take j ?b) False False")
    have l: "length nv + k = j" using fold_loop_length [of "take j ?b" False False] fl j m by simp
    have jc: "j + 1 < length ?b \<or> j < length ?b \<and> ?b ! j \<noteq> rChar"
      using j m nl by (cases "j = m") auto
    have sk: "fold_skip ?b j \<le> length ?b - j" using jc by (auto simp: fold_skip_def)
    from joined [OF True] have q: "hsHLen s' = hsHLen s + int m + 1 - int k"
      "hsDone s' = hsDone s @ nv @ take (fold_skip ?b j) (drop j ?b)" "hsB s' = drop (j + fold_skip ?b j) ?b"
      "hsTail s' = drop (length ?b - k) ?b @ hsTail s"
      unfolding j_def [symmetric] normalizeHeaderValue_gen [OF fl refl j(1) jc] Let_def by simp_all
    have mem: "mem_length s' = mem_length s" using q l sk m j by (simp add: mem_length_def)
    consider (exact) "j + fold_skip ?b j = m + 1"
      | (blank) "?b ! j = spChar \<or> ?b ! j = tabChar" "j < m" "set (slice ?b j m) \<subseteq> {spChar, tabChar, rChar}"
      using value_cut_exact [of m ?b] m nl j by (auto simp: j_def)
    then show ?thesis
    proof cases
      case exact
      then have "hsHLen s' = int (length (hsDone s'))" using q(1,2) l sk a(1) by (simp add: counted_def)
      moreover have "pend_ok s'" using pend q(3) exact by simp
      ultimately show ?thesis using mem f a(1) by (simp add: aligned_def counted_def)
    next
      case blank
      then have "hsB s' = drop j ?b" using q(3) by (auto simp: fold_skip_def)
      also have "drop j ?b = slice ?b j m @ drop m ?b"
        using blank(2) by (simp add: slice_def) (metis add_diff_inverse_nat append_take_drop_id drop_drop less_imp_le not_less add.commute)
      also have "drop m ?b = nChar # drop (m + 1) ?b" using Cons_nth_drop_Suc [OF m] nl by simp
      finally have b: "hsB s' = slice ?b j m @ nChar # drop (m + 1) ?b" .
      have h: "slice ?b j m \<noteq> []" "hd (slice ?b j m) = ?b ! j"
        using blank(2) m by (auto simp: slice_def hd_drop_conv_nth hd_conv_nth)
      have "hsNextColon s' \<noteq> Some 0"
        using g(1) a(2) value_end_colon [of ?b n False m multi] v by (auto split: option.splits prod.splits)
      with b h blank f a(1) have "misaligned s'"
        unfolding misaligned_def counted_def by auto
      with mem show ?thesis by blast
    qed
  qed
qed

lemma take_value_False:
  assumes "take_value s n = (s', False)"
  shows "hsErr s' = Some errNeedMore \<and> mem_length s' = mem_length s"
proof -
  obtain m multi nx where v: "value_end (hsB s) n False = (m, multi, nx)" by (cases "value_end (hsB s) n False")
  let ?s = "case nx of None \<Rightarrow> s | Some (c, l) \<Rightarrow> s\<lparr>hsNextColon := Some c, hsNextNewLine := l\<rparr>"
  have f: "hsB ?s = hsB s" "mem_length ?s = mem_length s"
    by (auto simp: mem_length_def split: option.splits)
  have "s' = ?s\<lparr>hsErr := Some errNeedMore\<rparr>"
    using assms unfolding take_value_def v prod.case Let_def f by (simp split: if_splits)
  with f(2) show ?thesis by (simp add: mem_length_def)
qed

lemma scan_value_False:
  assumes "scan_value s n = (s', False)"
  shows "hsErr s' = Some errNeedMore \<and> mem_length s' = mem_length s"
proof -
  have m: "length (take k xs) + length (drop k xs) = length xs" for k and xs :: bytes by simp
  show ?thesis
    using assms unfolding scan_value_def Let_def
    by (auto simp: mem_length_def min_def split: if_splits option.splits dest!: take_value_False)
qed

lemma scan_value_inv:
  assumes v: "scan_value s n = (s', True)" and c: "counted s" "hsNextColon s = None" and n: "n \<le> length (hsB s)"
    and nl: "0 \<le> hsNextNewLine s \<Longrightarrow>
       n + nat (hsNextNewLine s) < length (hsB s) \<and> hsB s ! (n + nat (hsNextNewLine s)) = nChar"
  shows "mem_length s' = mem_length s \<and> (aligned s' \<or> misaligned s')"
proof -
  define bl where "bl = length (takeWhile (\<lambda>c. c = spChar \<or> c = tabChar) (drop n (hsB s)))"
  define l where "l = hsNextNewLine s - int bl"
  define t where "t = s\<lparr>hsHLen := hsHLen s + int (n + bl), hsDone := hsDone s @ take (n + bl) (hsB s),
      hsB := drop (n + bl) (hsB s)\<rparr>"
  have "bl \<le> length (drop n (hsB s))" unfolding bl_def by (rule length_takeWhile_le)
  then have b: "n + bl \<le> length (hsB s)" using n by simp
  have t1: "counted (t\<lparr>hsNextNewLine := z\<rparr>)" "mem_length (t\<lparr>hsNextNewLine := z\<rparr>) = mem_length s" for z
    using c b by (auto simp: t_def counted_def mem_length_def)
  have e: "scan_value s n =
      (if l \<ge> 0 then take_value (t\<lparr>hsNextNewLine := -1\<rparr>) (nat l)
       else (case index_byte (hsB t) nChar of
               None \<Rightarrow> (t\<lparr>hsErr := Some errNeedMore, hsNextNewLine := l\<rparr>, False)
             | Some n \<Rightarrow> take_value (t\<lparr>hsNextNewLine := l\<rparr>) n))"
    unfolding scan_value_def Let_def bl_def [symmetric] l_def t_def by simp
  show ?thesis
  proof (cases "l \<ge> 0")
    case True
    have "hsB t ! nat l = hsB s ! (n + nat (hsNextNewLine s))" "nat l < length (hsB t)"
      using True nl b by (auto simp: t_def l_def nat_diff_distrib)
    with True nl v take_value_inv [of "t\<lparr>hsNextNewLine := -1\<rparr>" "nat l" s'] t1 [of "-1"] c(2) show ?thesis
      unfolding e by (simp add: t_def l_def)
  next
    case False
    with v obtain k where k: "index_byte (hsB t) nChar = Some k" "take_value (t\<lparr>hsNextNewLine := l\<rparr>) k = (s', True)"
      unfolding e by (auto split: option.splits)
    with False index_byte_SomeD [OF k(1)] take_value_inv [OF k(2)] t1 [of l] c(2) show ?thesis
      by (simp add: t_def)
  qed
qed

section \<open>One line\<close>

lemma scan_next_inv:
  assumes s: "scan_next s = (s', True)" and a: "aligned s"
  shows "mem_length s' = mem_length s \<and> (aligned s' \<or> misaligned s')"
proof -
  define key where "key n = (if hsDisableNormalizing s then take n (hsB s) else normalizeHeaderKeyV2 (take n (hsB s)))" for n
  have lk: "n \<le> length (hsB s) \<Longrightarrow> length (key n) = n" for n by (simp add: key_def)
  define t where "t n = s\<lparr>hsNextColon := None, hsKey := key n, hsB := key n @ drop n (hsB s)\<rparr>" for n
  have go: ?thesis
    if v: "scan_value (t n) (n + 1) = (s', True)" and n: "n < length (hsB s)"
      and nl: "0 \<le> hsNextNewLine s \<Longrightarrow> n + 1 + nat (hsNextNewLine s) < length (hsB s) \<and>
                hsB s ! (n + 1 + nat (hsNextNewLine s)) = nChar" for n
  proof -
    have "counted (t n)" "mem_length (t n) = mem_length s" "length (hsB (t n)) = length (hsB s)"
      using a n lk [of n] by (auto simp: t_def counted_def aligned_def mem_length_def)
    moreover have "hsB (t n) ! (n + 1 + k) = hsB s ! (n + 1 + k)" for k
      using n lk [of n] by (simp add: t_def nth_append)
    ultimately show ?thesis
      using scan_value_inv [OF v] n nl by (auto simp: t_def)
  qed
  show ?thesis
  proof (cases "hsNextColon s")
    case (Some n)
    with s have "scan_value (t n) (n + 1) = (s', True)"
      unfolding scan_next_def Let_def t_def key_def by (auto split: if_splits)
    moreover have "0 \<le> hsNextNewLine s \<and> n + 1 + nat (hsNextNewLine s) < length (hsB s) \<and>
        hsB s ! (n + 1 + nat (hsNextNewLine s)) = nChar"
      using a Some by (simp add: aligned_def pend_ok_def)
    ultimately show ?thesis using go [of n] by auto
  next
    case None
    with s obtain n where n: "index_byte (hsB s) 0x3A = Some n" "scan_value (t n) (n + 1) = (s', True)"
      unfolding scan_next_def Let_def t_def key_def by (auto split: if_splits sum.splits option.splits)
    moreover have "hsNextNewLine s < 0" using a None by (simp add: aligned_def pend_ok_def)
    ultimately show ?thesis using go [of n] index_byte_lt [OF n(1)] by auto
  qed
qed

lemma scan_next_cases:
  assumes "scan_next s = (s', r)"
  shows "\<not> r \<and> (\<exists>k \<le> length (hsB s). s' = s\<lparr>hsDone := hsDone s @ take k (hsB s), hsB := drop k (hsB s), hsHLen := hsHLen s + int k\<rparr>) \<or>
    \<not> r \<and> (\<exists>e. s' = s\<lparr>hsNextColon := None, hsErr := Some e\<rparr> \<and> (e = errNeedMore \<or> e = errInvalidName)) \<or>
    (\<exists>n. scan_value (s\<lparr>hsNextColon := None, hsKey := norm_key (hsDisableNormalizing s) (take n (hsB s)),
            hsB := norm_key (hsDisableNormalizing s) (take n (hsB s)) @ drop n (hsB s)\<rparr>) (n + 1) = (s', r) \<and>
         (hsNextColon s = Some n \<or>
          hsNextColon s = None \<and> index_byte (hsB s) 0x3A = Some n \<and> (\<exists>x. index_byte (hsB s) nChar = Some x \<and> n \<le> x)))"
    (is "?stop \<or> ?fail \<or> ?line")
proof -
  let ?b = "hsB s"
  consider (crlf) "length ?b \<ge> 2 \<and> ?b ! 0 = rChar \<and> ?b ! 1 = nChar"
    | (lf) "\<not> (length ?b \<ge> 2 \<and> ?b ! 0 = rChar \<and> ?b ! 1 = nChar)" "length ?b \<ge> 1 \<and> ?b ! 0 = nChar"
    | (other) "\<not> (length ?b \<ge> 2 \<and> ?b ! 0 = rChar \<and> ?b ! 1 = nChar)" "\<not> (length ?b \<ge> 1 \<and> ?b ! 0 = nChar)"
    by blast
  then show ?thesis
  proof cases
    case crlf
    with assms have ?stop unfolding scan_next_def Let_def by (auto intro!: exI [of _ 2])
    then show ?thesis by blast
  next
    case lf
    with assms have ?stop unfolding scan_next_def Let_def if_not_P [OF lf(1)] by (auto intro!: exI [of _ 1])
    then show ?thesis by blast
  next
    case other
    show ?thesis
    proof (cases "hsNextColon s")
      case (Some n)
      with assms have ?line
        unfolding scan_next_def Let_def if_not_P [OF other(1)] if_not_P [OF other(2)] by (auto simp: norm_key_def)
      then show ?thesis by blast
    next
      case None
      show ?thesis
      proof (cases "\<exists>n x. index_byte ?b 0x3A = Some n \<and> index_byte ?b nChar = Some x \<and> n \<le> x")
        case True
        with None assms have ?line
          unfolding scan_next_def Let_def if_not_P [OF other(1)] if_not_P [OF other(2)] by (auto simp: norm_key_def)
        then show ?thesis by blast
      next
        case False
        with None assms have ?fail
          unfolding scan_next_def Let_def if_not_P [OF other(1)] if_not_P [OF other(2)]
          by (auto split: option.splits if_splits)
        then show ?thesis by blast
      qed
    qed
  qed
qed

lemma scan_next_False:
  assumes s: "scan_next s = (s', False)" and e: "hsErr s = None"
  shows "(hsErr s' = None \<longrightarrow> counted s \<longrightarrow> counted s') \<and> mem_length s' = mem_length s \<and>
         (\<forall>e. hsErr s' = Some e \<longrightarrow> e = errNeedMore \<or> e = errInvalidName)"
  using scan_next_cases [OF s]
proof (elim disjE conjE exE)
  fix k assume "k \<le> length (hsB s)"
    "s' = s\<lparr>hsDone := hsDone s @ take k (hsB s), hsB := drop k (hsB s), hsHLen := hsHLen s + int k\<rparr>"
  with e show ?thesis by (simp add: counted_def mem_length_def)
next
  fix e' assume "s' = s\<lparr>hsNextColon := None, hsErr := Some e'\<rparr>" "e' = errNeedMore"
  then show ?thesis by (simp add: counted_def mem_length_def)
next
  fix e' assume "s' = s\<lparr>hsNextColon := None, hsErr := Some e'\<rparr>" "e' = errInvalidName"
  then show ?thesis by (simp add: counted_def mem_length_def)
next
  fix n assume "scan_value (s\<lparr>hsNextColon := None, hsKey := norm_key (hsDisableNormalizing s) (take n (hsB s)),
            hsB := norm_key (hsDisableNormalizing s) (take n (hsB s)) @ drop n (hsB s)\<rparr>) (n + 1) = (s', False)"
  from scan_value_False [OF this] show ?thesis by (simp add: mem_length_def norm_key_def min_def)
next
  fix n assume "scan_value (s\<lparr>hsNextColon := None, hsKey := norm_key (hsDisableNormalizing s) (take n (hsB s)),
            hsB := norm_key (hsDisableNormalizing s) (take n (hsB s)) @ drop n (hsB s)\<rparr>) (n + 1) = (s', False)"
  from scan_value_False [OF this] show ?thesis by (simp add: mem_length_def norm_key_def min_def)
qed

lemma hd_normalize_blank: "b \<noteq> [] \<Longrightarrow> hd b = spChar \<or> hd b = tabChar \<Longrightarrow> hd (normalizeHeaderKeyV2 b) = hd b"
  by (cases b) (auto simp: normalizeHeaderKeyV2_def toUpperTable_def)

lemma take_value_key: "take_value s n = (s', True) \<Longrightarrow> hsKey s' = hsKey s"
  by (erule take_value_cases)

lemma scan_value_key: "scan_value s n = (s', True) \<Longrightarrow> hsKey s' = hsKey s"
  unfolding scan_value_def Let_def
  by (auto split: if_splits option.splits dest!: take_value_key)

text \<open>A misaligned scanner cannot go on: it reports an error, or a name that begins with a blank.\<close>

lemma misaligned_next:
  assumes m: "misaligned s" and s: "scan_next s = (s', r)"
  shows "if r then hsKey s' \<noteq> [] \<and> (hd (hsKey s') = spChar \<or> hd (hsKey s') = tabChar) else hsErr s' \<noteq> None"
proof -
  from m obtain w b where w: "hsB s = w @ nChar # b" "w \<noteq> []" "set w \<subseteq> {spChar, tabChar, rChar}"
    "hd w = spChar \<or> hd w = tabChar" and c: "hsNextColon s \<noteq> Some 0" and e: "hsErr s = None"
    by (auto simp: misaligned_def)
  have lf: "index_byte (hsB s) nChar = Some (length w)"
  proof -
    have "nChar \<notin> set w" using w(3) by auto
    then show ?thesis unfolding w(1) by (rule index_byte_first)
  qed
  have "0x3A \<notin> set w" using w(3) by auto
  then have nc: "index_byte (hsB s) 0x3A \<noteq> Some n" if "n \<le> length w" for n
    using w(1) that by (auto simp: index_byte_append split: option.splits)
  have first: "\<not> (length (hsB s) \<ge> 2 \<and> hsB s ! 0 = rChar \<and> hsB s ! 1 = nChar)" "\<not> (length (hsB s) \<ge> 1 \<and> hsB s ! 0 = nChar)"
    using w by (cases w; auto)+
  have key: "norm_key d (take n (hsB s)) \<noteq> [] \<and>
      (hd (norm_key d (take n (hsB s))) = spChar \<or> hd (norm_key d (take n (hsB s))) = tabChar)" if "0 < n" for n d
  proof -
    have "take n (hsB s) \<noteq> []" "hd (take n (hsB s)) = hd w" using w that by (cases w; cases n; auto)+
    with w(4) show ?thesis by (auto simp: norm_key_def hd_normalize_blank)
  qed
  show ?thesis
  proof (cases "hsNextColon s")
    case None
    have "scan_next s = (s\<lparr>hsNextColon := None, hsErr := Some errNeedMore\<rparr>, False) \<or>
          scan_next s = (s\<lparr>hsNextColon := None, hsErr := Some errInvalidName\<rparr>, False)"
      unfolding scan_next_def Let_def if_not_P [OF first(1)] if_not_P [OF first(2)] None lf
      using nc by (auto split: option.splits simp: not_less)
    with s show ?thesis by auto
  next
    case (Some n)
    with c have n: "0 < n" by auto
    let ?t = "s\<lparr>hsNextColon := None, hsKey := norm_key (hsDisableNormalizing s) (take n (hsB s)),
            hsB := norm_key (hsDisableNormalizing s) (take n (hsB s)) @ drop n (hsB s)\<rparr>"
    from Some have "scan_next s = scan_value ?t (n + 1)"
      unfolding scan_next_def Let_def if_not_P [OF first(1)] if_not_P [OF first(2)] by (simp add: norm_key_def)
    with s have v: "scan_value ?t (n + 1) = (s', r)" by simp
    show ?thesis
    proof (cases r)
      case True
      with v have "scan_value ?t (n + 1) = (s', True)" by simp
      from scan_value_key [OF this] key [OF n] True show ?thesis by simp
    next
      case False
      with v have "scan_value ?t (n + 1) = (s', False)" by simp
      from scan_value_False [OF this] False show ?thesis by simp
    qed
  qed
qed

lemma new_scanner_aligned: "aligned (new_scanner b d)" "mem_length (new_scanner b d) = length b"
  by (simp_all add: new_scanner_def aligned_def counted_def pend_ok_def mem_length_def)

section \<open>The memory never grows or shrinks\<close>

lemma value_end_multi:
  assumes v: "value_end b n False = (m, True, nx)"
  shows "m < length b \<and> b ! m = nChar"
proof -
  have "\<not> n + 1 \<ge> length b" "\<not> (b ! (n + 1) \<noteq> spChar \<and> b ! (n + 1) \<noteq> tabChar)"
    using v by (subst (asm) value_end.simps; auto split: if_splits)+
  note e = if_not_P [OF this(1)] if_not_P [OF this(2)]
  from v obtain d where d: "index_byte (drop (n + 1) b) nChar = Some d" and r: "value_end b (n + d + 1) True = (m, True, nx)"
    by (subst (asm) value_end.simps) (auto simp: e split: if_splits option.splits)
  have "n + d + 1 < length b" "b ! (n + d + 1) = nChar"
    using index_byte_SomeD [OF d] by (auto simp: add.commute add.left_commute)
  with value_end_nl [OF r] value_end_lt [OF r] show ?thesis by blast
qed

lemma length_normalizeHeaderValue:
  fixes h :: int
  assumes "j \<le> m" "m < length ob" "ob ! m = nChar"
  defines "f \<equiv> normalizeHeaderValue (take j ob) ob h"
  shows "length (fdDone f) + length (fdB f) + length (fdTail f) = length ob"
proof (cases "j = 0")
  case True
  then show ?thesis by (simp add: f_def normalizeHeaderValue_def)
next
  case False
  obtain nv k where fl: "fold_loop (take j ob) False False = (nv, k)" by (cases "fold_loop (take j ob) False False")
  have l: "length nv + k = j" using fold_loop_length [of "take j ob" False False] fl assms by simp
  have jc: "j + 1 < length ob \<or> j < length ob \<and> ob ! j \<noteq> rChar" using assms by (cases "j = m") auto
  have "fold_skip ob j \<le> length ob - j" using jc by (auto simp: fold_skip_def)
  with l assms(1,2) False show ?thesis
    unfolding f_def normalizeHeaderValue_gen [OF fl refl _ jc, OF False [THEN neq0_conv [THEN iffD1]]] by simp
qed

lemma take_value_mem: "take_value s n = (s', True) \<Longrightarrow> mem_length s' = mem_length s"
proof (erule take_value_cases)
  fix m multi nx
  assume v: "value_end (hsB s) n False = (m, multi, nx)" "m < length (hsB s)"
    and p: "\<not> multi \<Longrightarrow> hsHLen s' = hsHLen s + int m + 1 \<and> hsDone s' = hsDone s @ take (m + 1) (hsB s) \<and>
       hsB s' = drop (m + 1) (hsB s) \<and> hsTail s' = hsTail s"
    and j: "multi \<Longrightarrow> (let f = normalizeHeaderValue (take (value_cut (hsB s) m) (hsB s)) (hsB s) (hsHLen s + int m + 1)
       in hsHLen s' = fdLen f \<and> hsDone s' = hsDone s @ fdDone f \<and> hsB s' = fdB f \<and> hsTail s' = fdTail f @ hsTail s)"
  show "mem_length s' = mem_length s"
  proof (cases multi)
    case False
    with p v(2) show ?thesis by (simp add: mem_length_def)
  next
    case True
    with v value_end_multi [of "hsB s" n m nx] have "hsB s ! m = nChar" by simp
    from length_normalizeHeaderValue [OF value_cut_le [of "hsB s"] v(2) this, of "hsHLen s + int m + 1"] j [OF True]
    show ?thesis by (simp add: mem_length_def Let_def)
  qed
qed

lemma scan_value_mem: "scan_value s n = (s', r) \<Longrightarrow> mem_length s' = mem_length s"
proof (cases r)
  case True
  assume "scan_value s n = (s', r)"
  with True have "scan_value s n = (s', True)" by simp
  then show ?thesis
    unfolding scan_value_def Let_def
    by (auto simp: mem_length_def min_def split: if_splits option.splits dest!: take_value_mem)
qed (auto dest: scan_value_False)

lemma scan_next_mem: "scan_next s = (s', r) \<Longrightarrow> mem_length s' = mem_length s"
  by (drule scan_next_cases, elim disjE conjE exE)
    (auto simp: mem_length_def norm_key_def min_def dest!: scan_value_mem)

lemma take_value_dis: "take_value s n = (s', True) \<Longrightarrow> hsDisableNormalizing s' = hsDisableNormalizing s"
  by (erule take_value_cases)

lemma scan_value_dis: "scan_value s n = (s', True) \<Longrightarrow> hsDisableNormalizing s' = hsDisableNormalizing s"
  unfolding scan_value_def Let_def
  by (auto split: if_splits option.splits dest!: take_value_dis)

lemma scan_next_dis: "scan_next s = (s', True) \<Longrightarrow> hsDisableNormalizing s' = hsDisableNormalizing s"
  by (drule scan_next_cases, elim disjE conjE exE) (auto dest!: scan_value_dis)

section \<open>The loops over the lines\<close>

text \<open>
  The loops of \<^verbatim>\<open>header.go\<close> over a header block share one shape: call \<^verbatim>\<open>next\<close>, treat the line, go on. A client
  of the scanner gives the treatment \<open>step\<close> of a line and a set of states \<open>bad\<close> from which it never reports success;
  it promises to refuse a name that begins with a blank.
\<close>

fun apply_lines ::
  "('h \<Rightarrow> bool \<Rightarrow> bytes \<Rightarrow> bytes \<Rightarrow> 'h \<times> header_error option) \<Rightarrow> 'h \<Rightarrow> bool \<Rightarrow> (bytes \<times> bytes) list \<Rightarrow> 'h \<times> header_error option" where
  "apply_lines step h d [] = (h, None)"
| "apply_lines step h d ((k, v) # ps) =
     (case step h d k v of (h', Some e) \<Rightarrow> (h', Some e) | (h', None) \<Rightarrow> apply_lines step h' d ps)"

locale scan_client =
  fixes loop :: "'h \<Rightarrow> headerScanner \<Rightarrow> 'h \<times> headerScanner \<times> header_error option"
    and step :: "'h \<Rightarrow> bool \<Rightarrow> bytes \<Rightarrow> bytes \<Rightarrow> 'h \<times> header_error option"
    and bad :: "'h \<Rightarrow> bool"
  assumes loop_eq: "loop h s =
      (case scan_next s of
         (s', False) \<Rightarrow> (h, s', None)
       | (s', True) \<Rightarrow>
           (case step h (hsDisableNormalizing s') (hsKey s') (hsValue s') of
              (h', Some e) \<Rightarrow> (h', s', Some e)
            | (h', None) \<Rightarrow> loop h' s'))"
    and step_blank: "k \<noteq> [] \<Longrightarrow> hd k = spChar \<or> hd k = tabChar \<Longrightarrow> step h d k v = (h', None) \<Longrightarrow> bad h'"
    and step_bad: "bad h \<Longrightarrow> step h d k v = (h', None) \<Longrightarrow> bad h'"
    and step_error: "step h d k v = (h', Some e) \<Longrightarrow> e \<noteq> errNeedMore"
begin

lemma loop_mem: "loop h s = (h', s', e) \<Longrightarrow> mem_length s' = mem_length s \<and> e \<noteq> Some errNeedMore"
proof (induction "length (hsB s)" arbitrary: h s rule: less_induct)
  case less
  obtain t r where t: "scan_next s = (t, r)" by (cases "scan_next s")
  note m = scan_next_mem [OF t]
  show ?case
  proof (cases r)
    case False
    with less.prems t m show ?thesis by (subst (asm) loop_eq) simp
  next
    case True
    obtain h1 e1 where st: "step h (hsDisableNormalizing t) (hsKey t) (hsValue t) = (h1, e1)"
      by (cases "step h (hsDisableNormalizing t) (hsKey t) (hsValue t)")
    show ?thesis
    proof (cases e1)
      case None
      with less.prems t True st have "loop h1 t = (h', s', e)" by (subst (asm) loop_eq) simp
      from less.hyps [OF scan_next_progress this] t True m show ?thesis by simp
    next
      case (Some x)
      with less.prems t True st m step_error [of h _ _ _ h1 x] show ?thesis by (subst (asm) loop_eq) auto
    qed
  qed
qed

lemma loop_bad: "loop h s = (h', s', None) \<Longrightarrow> bad h \<Longrightarrow> bad h'"
proof (induction "length (hsB s)" arbitrary: h s rule: less_induct)
  case less
  obtain t r where t: "scan_next s = (t, r)" by (cases "scan_next s")
  show ?case
  proof (cases r)
    case False
    with less.prems t show ?thesis by (subst (asm) loop_eq) simp
  next
    case True
    with less.prems t obtain h1 where st: "step h (hsDisableNormalizing t) (hsKey t) (hsValue t) = (h1, None)"
      and l: "loop h1 t = (h', s', None)" by (subst (asm) loop_eq) (auto split: option.splits prod.splits)
    from less.hyps [OF scan_next_progress l step_bad [OF less.prems(2) st]] t True show ?thesis by simp
  qed
qed

lemma loop_invariant:
  assumes inv: "\<And>h d k v h' e. P h \<Longrightarrow> step h d k v = (h', e) \<Longrightarrow> P h'"
  shows "loop h s = (h', s', e) \<Longrightarrow> P h \<Longrightarrow> P h'"
proof (induction "length (hsB s)" arbitrary: h s rule: less_induct)
  case less
  obtain t r where t: "scan_next s = (t, r)" by (cases "scan_next s")
  show ?case
  proof (cases r)
    case False
    with less.prems t show ?thesis by (subst (asm) loop_eq) simp
  next
    case True
    obtain h1 e1 where st: "step h (hsDisableNormalizing t) (hsKey t) (hsValue t) = (h1, e1)"
      by (cases "step h (hsDisableNormalizing t) (hsKey t) (hsValue t)")
    note p = inv [OF less.prems(2) st]
    show ?thesis
    proof (cases e1)
      case None
      with less.prems t True st have "loop h1 t = (h', s', e)" by (subst (asm) loop_eq) simp
      from less.hyps [OF scan_next_progress this p] t True show ?thesis by simp
    next
      case (Some x)
      with less.prems t True st p show ?thesis by (subst (asm) loop_eq) auto
    qed
  qed
qed

text \<open>A loop that ends without an error has counted exactly the bytes it passed.\<close>

lemma loop_counted:
  "loop h s = (h', s', None) \<Longrightarrow> aligned s \<or> misaligned s \<Longrightarrow> hsErr s' = None \<Longrightarrow> \<not> bad h' \<Longrightarrow> counted s'"
proof (induction "length (hsB s)" arbitrary: h s rule: less_induct)
  case less
  obtain t r where t: "scan_next s = (t, r)" by (cases "scan_next s")
  show ?case
  proof (cases r)
    case False
    with less.prems t have s': "s' = t" "scan_next s = (s', False)" by (auto simp: loop_eq [of h s])
    show ?thesis
      using less.prems s' scan_next_False [OF s'(2)] misaligned_next [OF _ s'(2)]
      by (auto simp: aligned_def counted_def misaligned_def)
  next
    case True
    with less.prems t obtain h1 where st: "step h (hsDisableNormalizing t) (hsKey t) (hsValue t) = (h1, None)"
      and l: "loop h1 t = (h', s', None)" by (subst (asm) loop_eq) (auto split: option.splits prod.splits)
    have t': "scan_next s = (t, True)" using t True by simp
    from less.prems(2) show ?thesis
    proof
      assume "aligned s"
      with scan_next_inv [OF t'] less.hyps [OF scan_next_progress [OF t'] l] less.prems(3,4) show ?thesis by blast
    next
      assume "misaligned s"
      from misaligned_next [OF this t'] step_blank [OF _ _ st] loop_bad [OF l] less.prems(4) show ?thesis by auto
    qed
  qed
qed

text \<open>What the loop does to the client's state is a fold over the scanned lines.\<close>

lemma loop_lines:
  "case apply_lines step h (hsDisableNormalizing s) (fst (scan_all s)) of
     (h', None) \<Rightarrow> loop h s = (h', snd (scan_all s), None)
   | (h', Some e) \<Rightarrow> \<exists>s'. loop h s = (h', s', Some e)"
proof (induction "length (hsB s)" arbitrary: h s rule: less_induct)
  case less
  obtain t r where t: "scan_next s = (t, r)" by (cases "scan_next s")
  show ?case
  proof (cases r)
    case False
    with t show ?thesis by (subst scan_all.simps, subst loop_eq, subst (2) scan_all.simps) simp
  next
    case True
    with t have t': "scan_next s = (t, True)" by simp
    have sa: "scan_all s = ((hsKey t, hsValue t) # fst (scan_all t), snd (scan_all t))"
      by (subst scan_all.simps) (simp add: t' split_beta)
    obtain h1 e1 where st: "step h (hsDisableNormalizing t) (hsKey t) (hsValue t) = (h1, e1)"
      by (cases "step h (hsDisableNormalizing t) (hsKey t) (hsValue t)")
    note IH = less.hyps [OF scan_next_progress [OF t'], of h1]
    show ?thesis
      using IH unfolding sa loop_eq [of h s] t'
      by (cases e1) (simp_all add: st scan_next_dis [OF t', symmetric])
  qed
qed

end

end
