(* ===== verification/ReadLoop.thy ===== *)
theory ReadLoop
  imports HeaderScanner
begin

text \<open>
  The interface between the loops that read a header or a trailer and the parsers they call. All four loops
  of \<^verbatim>\<open>header.go\<close> peek at the buffered bytes, parse them in place, and start again with one byte more than
  is buffered when the parser reports that data is missing. The locales state what the loops rely on and show
  what follows for every parser that keeps it.
\<close>

section \<open>Peeking at a live connection\<close>

lemma fill_live:
  assumes "br_live r" "length (brBuf r) < brSize r" "brSrc r \<noteq> []"
  shows "br_live (fill r) \<and> length (brBuf r) < length (brBuf (fill r))"
proof -
  obtain seg rest where src: "brSrc r = seg # rest" using assms(3) by (cases "brSrc r") auto
  have seg: "seg \<noteq> []" using assms(1) src by (auto simp: br_live_def no_empty_def)
  let ?k = "brSize r - length (brBuf r)"
  have "min ?k (length seg) > 0" using assms(2) seg by simp
  then have "fill r = r\<lparr>brBuf := brBuf r @ take ?k seg, brSrc := (if length seg > ?k then drop ?k seg # rest else rest)\<rparr>"
    unfolding fill_Suc fill_loop.simps using src by (simp add: read_into_def Let_def)
  with assms(1,2) seg src show ?thesis by (auto simp: br_live_def br_ok_def no_empty_def)
qed

lemma peek_fill_live:
  "br_live r \<Longrightarrow> n \<le> brSize r \<Longrightarrow> n \<le> length (pending r) \<Longrightarrow>
     br_live (peek_fill r n) \<and> n \<le> length (brBuf (peek_fill r n))"
proof (induction r n rule: peek_fill.induct)
  case (1 r n)
  show ?case
  proof (cases "length (brBuf r) < n \<and> length (brBuf r) < brSize r \<and> brErr r = None")
    case True
    then have "brSrc r \<noteq> []" using "1.prems"(3) by (auto simp: pending_def)
    with True "1.prems" fill_live [of r] "1.IH" [OF True] show ?thesis
      by (simp add: peek_fill.simps [of r n])
  next
    case False
    then have "peek_fill r n = r" by (simp add: peek_fill.simps [of r n] if_not_P)
    with False "1.prems" show ?thesis by (auto simp: br_live_def)
  qed
qed

lemma Peek_live:
  assumes "br_live r" "n \<le> brSize r" "n \<le> length (pending r)"
  shows "\<exists>r'. br_Peek r n = (r', take n (brBuf r'), None) \<and> br_live r' \<and> pending r' = pending r \<and> n \<le> length (brBuf r') \<and>
           brSize r' = brSize r \<and> brEnd r' = brEnd r"
proof -
  have l: "br_live (r\<lparr>brLast := None\<rparr>)" using assms(1) by (simp add: br_live_def)
  with peek_fill_live [OF l, of n] peek_fill_facts [of "r\<lparr>brLast := None\<rparr>" n] assms show ?thesis
    by (auto simp: br_Peek_def Let_def)
qed

section \<open>One attempt\<close>

definition read_inv :: "('h \<Rightarrow> nat \<Rightarrow> bool) \<Rightarrow> 'h \<Rightarrow> breader \<Rightarrow> bool" where
  "read_inv pinv h r \<longleftrightarrow> br_ok r \<and> pinv h (length (brBuf r))"

lemma Peek_result:
  assumes "br_Peek r n = (r1, b, e)" "n = length b" "br_ok r"
  shows "e = None"
  using assms peek_fill_facts [of "r\<lparr>brLast := None\<rparr>" n] by (auto simp: br_Peek_def Let_def br_ok_def split: if_splits)

locale header_parser =
  fixes parse :: "'h \<Rightarrow> bytes \<Rightarrow> 'h \<times> bytes \<times> int \<times> header_error option"
    and io :: "io_error \<Rightarrow> header_error"
    and tryRead :: "'h \<Rightarrow> breader \<Rightarrow> nat \<Rightarrow> ('h \<times> breader \<times> header_error option) option"
    and pinv :: "'h \<Rightarrow> nat \<Rightarrow> bool"
  assumes try_eq: "tryRead h r n =
      (case br_Peek r n of
         (r, b, err) \<Rightarrow>
           if n \<noteq> length b then Some (h, r, map_option io err)
           else (case mustPeekBuffered r of
                   None \<Rightarrow> None
                 | Some (r, b) \<Rightarrow>
                     (case parse h b of
                        (h, b', l, Some e) \<Rightarrow> Some (h, r\<lparr>brBuf := b'\<rparr>, Some e)
                      | (h, b', l, None) \<Rightarrow> map_option (\<lambda>r. (h, r, None)) (mustDiscard (r\<lparr>brBuf := b'\<rparr>) l))))"
    and io_more: "io x \<noteq> errNeedMore"
    and pinv_mono: "pinv h k \<Longrightarrow> k \<le> k' \<Longrightarrow> pinv h k'"
    and parse_length: "parse h b = (h', b', l, e) \<Longrightarrow> length b' = length b"
    and parse_more: "pinv h (length b) \<Longrightarrow> parse h b = (h', b', l, Some errNeedMore) \<Longrightarrow> pinv h' (length b)"
    and parse_done: "b \<noteq> [] \<Longrightarrow> pinv h (length b) \<Longrightarrow> parse h b = (h', b', l, None) \<Longrightarrow> 0 \<le> l \<and> nat l \<le> length b"
begin

lemma try_buffered:
  assumes p: "br_Peek r n = (r1, b, None)" and r: "br_ok r" and n: "0 < n"
  shows "tryRead h r n =
      (case parse h (brBuf r1) of
         (h, b', l, Some e) \<Rightarrow> Some (h, r1\<lparr>brLast := None, brBuf := b'\<rparr>, Some e)
       | (h, b', l, None) \<Rightarrow> map_option (\<lambda>r. (h, r, None)) (mustDiscard (r1\<lparr>brLast := None, brBuf := b'\<rparr>) l))"
proof -
  note f = Peek_facts [OF p]
  have "length b = n" "brBuf r1 \<noteq> []" "br_ok r1" using f r n by auto
  then show ?thesis unfolding try_eq p by (simp add: mustPeekBuffered_ok)
qed

lemma try_total:
  assumes i: "read_inv pinv h r" and n: "0 < n"
  shows "tryRead h r n \<noteq> None"
proof -
  obtain r1 b err where p: "br_Peek r n = (r1, b, err)" by (cases "br_Peek r n")
  have r: "br_ok r" using i by (simp add: read_inv_def)
  show ?thesis
  proof (cases "n = length b")
    case False
    then show ?thesis unfolding try_eq p by simp
  next
    case True
    with Peek_result [OF p True r] p have p: "br_Peek r n = (r1, b, None)" by simp
    note f = Peek_facts [OF p]
    have b: "brBuf r1 \<noteq> []" "pinv h (length (brBuf r1))"
      using f(3,4) n i pinv_mono [of h "length (brBuf r)"] prefix_length_le [OF f(3)] by (auto simp: read_inv_def)
    obtain h' b' l e where q: "parse h (brBuf r1) = (h', b', l, e)" by (cases "parse h (brBuf r1)")
    show ?thesis
    proof (cases e)
      case None
      have "0 \<le> l \<and> nat l \<le> length b'" using parse_done [OF b] parse_length [OF q] q None by simp
      with mustDiscard_ok [of l "r1\<lparr>brLast := None, brBuf := b'\<rparr>"] obtain r2 where
        "mustDiscard (r1\<lparr>brLast := None, brBuf := b'\<rparr>) l = Some r2" by auto
      with None q show ?thesis unfolding try_buffered [OF p r n] by simp
    next
      case (Some x)
      with q show ?thesis unfolding try_buffered [OF p r n] by simp
    qed
  qed
qed

lemma try_more:
  assumes i: "read_inv pinv h r" and n: "0 < n" and t: "tryRead h r n = Some (h', r', Some errNeedMore)"
  shows "read_inv pinv h' r' \<and> n \<le> br_Buffered r' \<and> br_Buffered r' \<le> brSize r \<and> brSize r' = brSize r"
proof -
  obtain r1 b err where p: "br_Peek r n = (r1, b, err)" by (cases "br_Peek r n")
  have r: "br_ok r" using i by (simp add: read_inv_def)
  have nb: "n = length b"
    using t io_more unfolding try_eq p by (auto split: if_splits)
  with Peek_result [OF p nb r] p have p: "br_Peek r n = (r1, b, None)" by simp
  note f = Peek_facts [OF p]
  have b: "pinv h (length (brBuf r1))"
    using f(3) i pinv_mono [of h "length (brBuf r)"] prefix_length_le [OF f(3)] by (auto simp: read_inv_def)
  obtain h1 b' l e where q: "parse h (brBuf r1) = (h1, b', l, e)" by (cases "parse h (brBuf r1)")
  have "e = Some errNeedMore" "h1 = h'" "r' = r1\<lparr>brLast := None, brBuf := b'\<rparr>"
    using t q unfolding try_buffered [OF p r n] by (cases e; auto)+
  with parse_more [OF b] q parse_length [OF q] f r show ?thesis
    by (auto simp: read_inv_def br_ok_def br_Buffered_def)
qed

end

section \<open>The loop\<close>

locale header_reader = header_parser parse io tryRead pinv
  for parse :: "'h \<Rightarrow> bytes \<Rightarrow> 'h \<times> bytes \<times> int \<times> header_error option"
    and io tryRead pinv +
  fixes loop :: "'h \<Rightarrow> breader \<Rightarrow> nat \<Rightarrow> ('h \<times> breader \<times> header_error option) option"
    and final :: "header_error \<Rightarrow> header_error"
  assumes loop_eq: "loop h r n =
      (case tryRead h r n of
         None \<Rightarrow> None
       | Some (h', r', None) \<Rightarrow> Some (h', r', None)
       | Some (h', r', Some e) \<Rightarrow>
           if e \<noteq> errNeedMore then Some (h', r', Some (final e)) else loop h' r' (br_Buffered r' + 1))"
    and final_more: "e \<noteq> errNeedMore \<Longrightarrow> final e \<noteq> errNeedMore"
begin

text \<open>Whatever the connection delivers, the loop returns: it neither runs forever nor panics, and it never
  gives up with the request for more data.\<close>

lemma loop_returns:
  "read_inv pinv h r \<Longrightarrow> 0 < n \<Longrightarrow> \<exists>h' r' e. loop h r n = Some (h', r', e) \<and> e \<noteq> Some errNeedMore"
proof (induction "Suc (brSize r) - n" arbitrary: h r n rule: less_induct)
  case less
  obtain h' r' e where t: "tryRead h r n = Some (h', r', e)" using try_total [OF less.prems] by auto
  show ?case
  proof (cases "e = Some errNeedMore")
    case True
    note m = try_more [OF less.prems t [unfolded True]]
    then have "Suc (brSize r') - (br_Buffered r' + 1) < Suc (brSize r) - n" by linarith
    from less.hyps [OF this, of h'] m t True show ?thesis by (subst loop_eq) simp
  next
    case False
    with t final_more show ?thesis by (subst loop_eq) (auto split: option.splits)
  qed
qed

text \<open>If the parser asks for more data on every shorter prefix of the input and accepts every longer one with the
  same result, the loop delivers that result however the input is cut into segments.\<close>

lemma loop_complete:
  assumes more: "\<And>h b. h \<in> S \<Longrightarrow> prefix b w \<Longrightarrow> b \<noteq> [] \<Longrightarrow> length b < L \<Longrightarrow>
        \<exists>h' l. parse h b = (h', b, l, Some errNeedMore) \<and> h' \<in> S"
    and ok: "\<And>h b. h \<in> S \<Longrightarrow> prefix b w \<Longrightarrow> L \<le> length b \<Longrightarrow>
        \<exists>b'. parse h b = (hf, b', int L, None) \<and> drop L b' = drop L b"
    and L: "L \<le> length w"
  shows "br_live r \<Longrightarrow> pending r = w \<Longrightarrow> L \<le> brSize r \<Longrightarrow> h \<in> S \<Longrightarrow> 0 < n \<Longrightarrow> n \<le> L \<Longrightarrow>
     \<exists>r'. loop h r n = Some (hf, r', None) \<and> pending r' = drop L w \<and> br_live r' \<and> brSize r' = brSize r \<and> brEnd r' = brEnd r"
proof (induction "L - n" arbitrary: h r n rule: less_induct)
  case less
  have r: "br_ok r" using less.prems(1) by (simp add: br_live_def)
  from Peek_live [OF less.prems(1), of n] less.prems L obtain r1 where
    p: "br_Peek r n = (r1, take n (brBuf r1), None)" and r1: "br_live r1" "pending r1 = w" "n \<le> length (brBuf r1)" "brSize r1 = brSize r"
      "brEnd r1 = brEnd r"
    by auto
  have pre: "prefix (brBuf r1) w" using r1(2) by (auto simp: pending_def)
  have ne: "brBuf r1 \<noteq> []" using r1(3) less.prems(5) by auto
  note t = try_buffered [OF p r less.prems(5)]
  show ?case
  proof (cases "length (brBuf r1) < L")
    case True
    from more [OF less.prems(4) pre ne True] obtain h' l where
      h': "parse h (brBuf r1) = (h', brBuf r1, l, Some errNeedMore)" "h' \<in> S" by blast
    let ?r = "r1\<lparr>brLast := None, brBuf := brBuf r1\<rparr>"
    have "loop h r n = loop h' ?r (length (brBuf r1) + 1)"
      by (subst loop_eq) (simp add: t h' br_Buffered_def)
    moreover have "br_live ?r" "pending ?r = w" "L \<le> brSize ?r"
      using r1 less.prems(3) by (auto simp: br_live_def br_ok_def no_empty_def pending_def)
    ultimately show ?thesis
      using less.hyps [of "length (brBuf r1) + 1" ?r h'] h' True r1(3-5) less.prems(6) by simp
  next
    case False
    with ok [OF less.prems(4) pre] obtain b' where h': "parse h (brBuf r1) = (hf, b', int L, None)" and b': "drop L b' = drop L (brBuf r1)"
      by auto
    let ?r = "r1\<lparr>brLast := None, brBuf := b'\<rparr>"
    have "nat (int L) \<le> length (brBuf ?r)" using False parse_length [OF h'] by simp
    from mustDiscard_ok [OF _ this] obtain r2 where d: "mustDiscard ?r (int L) = Some r2" "brBuf r2 = drop L b'"
      "brSrc r2 = brSrc r1" "brSize r2 = brSize r1" "brEnd r2 = brEnd r1" "brErr r2 = brErr r1" by auto
    have "loop h r n = Some (hf, r2, None)" by (subst loop_eq) (simp add: t h' d)
    moreover have "pending r2 = drop L w" using d False r1(2) b' by (auto simp: pending_def)
    moreover have "br_live r2" using d r1(1) parse_length [OF h'] by (auto simp: br_live_def br_ok_def no_empty_def)
    ultimately show ?thesis using d r1(4,5) by auto
  qed
qed

end

end
