(* ===== verification/RequestHeader.thy ===== *)
theory RequestHeader
  imports HeaderFields ScanInvariant ReadLoop
begin

unbundle bit_operations_syntax

text \<open>
  \<^verbatim>\<open>RequestHeader\<close> of \<^verbatim>\<open>header.go\<close>: its fields, setters and getters, cookies and trailers, parsing from
  a buffered reader and printing. Methods that take a \<^verbatim>\<open>string\<close> and their \<^verbatim>\<open>[]byte\<close> twins share one
  definition. A method that only reads is a function of the header; one that writes returns the new header.
\<close>

section \<open>The header\<close>

record RequestHeader =
  rqContentLengthBytes :: bytes
  rqMethod :: bytes
  rqRequestURI :: bytes
  rqProto :: bytes
  rqHost :: bytes
  rqContentType :: bytes
  rqUserAgent :: bytes
  rqMulHeader :: "bytes list"
  rqH :: kvslice
  rqTrailer :: kvslice
  rqCookies :: kvslice
  rqRawHeaders :: bytes
  rqContentLength :: int
  rqBufK :: bytes
  rqBufV :: bytes
  rqNoHTTP11 :: bool
  rqConnectionClose :: bool
  rqCookiesCollected :: bool
  rqContentLengthSeen :: bool
  rqDisableSpecialHeader :: bool
  rqDisableNormalizing :: bool
  rqNoDefaultContentType :: bool
  rqSecureErrorLogMessage :: bool
  rqFirstLineLen :: int

definition emptyRequestHeader :: RequestHeader where
  "emptyRequestHeader =
     \<lparr>rqContentLengthBytes = [], rqMethod = [], rqRequestURI = [], rqProto = [], rqHost = [], rqContentType = [],
      rqUserAgent = [], rqMulHeader = [], rqH = emptyArgs, rqTrailer = emptyArgs, rqCookies = emptyArgs,
      rqRawHeaders = [], rqContentLength = 0, rqBufK = [], rqBufV = [], rqNoHTTP11 = False,
      rqConnectionClose = False, rqCookiesCollected = False, rqContentLengthSeen = False,
      rqDisableSpecialHeader = False, rqDisableNormalizing = False, rqNoDefaultContentType = False,
      rqSecureErrorLogMessage = False, rqFirstLineLen = 0\<rparr>"

definition RequestHeader_resetSkipNormalize :: "RequestHeader \<Rightarrow> RequestHeader" where
  "RequestHeader_resetSkipNormalize h =
     h\<lparr>rqContentLengthBytes := [], rqMethod := [], rqRequestURI := [], rqProto := [], rqHost := [],
       rqContentType := [], rqUserAgent := [], rqMulHeader := [], rqH := resetArgs (rqH h),
       rqTrailer := resetArgs (rqTrailer h), rqCookies := resetArgs (rqCookies h), rqRawHeaders := [],
       rqContentLength := 0, rqFirstLineLen := 0, rqNoHTTP11 := False, rqConnectionClose := False,
       rqCookiesCollected := False, rqContentLengthSeen := False\<rparr>"

definition RequestHeader_Reset :: "RequestHeader \<Rightarrow> RequestHeader" where
  "RequestHeader_Reset h =
     RequestHeader_resetSkipNormalize
       (h\<lparr>rqDisableSpecialHeader := False, rqDisableNormalizing := False, rqNoDefaultContentType := False,
          rqSecureErrorLogMessage := False\<rparr>)"

text \<open>\<^verbatim>\<open>dst.trailer = append(dst.trailer, h.trailer...)\<close> copies the elements of the trailer slice.\<close>

definition append_kvs :: "kvslice \<Rightarrow> kvslice \<Rightarrow> kvslice" where
  "append_kvs dst src = \<lparr>live = live dst @ live src, spare = drop (length (live src)) (spare dst)\<rparr>"

definition RequestHeader_CopyTo :: "RequestHeader \<Rightarrow> RequestHeader \<Rightarrow> RequestHeader" where
  "RequestHeader_CopyTo h dst =
     (let dst = RequestHeader_Reset dst;
          dst = dst\<lparr>rqDisableNormalizing := rqDisableNormalizing h, rqNoHTTP11 := rqNoHTTP11 h,
                    rqConnectionClose := rqConnectionClose h, rqNoDefaultContentType := rqNoDefaultContentType h\<rparr>
      in dst\<lparr>rqContentLength := rqContentLength h,
             rqContentLengthBytes := rqContentLengthBytes dst @ rqContentLengthBytes h,
             rqMethod := rqMethod dst @ rqMethod h, rqProto := rqProto dst @ rqProto h,
             rqRequestURI := rqRequestURI dst @ rqRequestURI h, rqHost := rqHost dst @ rqHost h,
             rqContentType := rqContentType dst @ rqContentType h, rqUserAgent := rqUserAgent dst @ rqUserAgent h,
             rqTrailer := append_kvs (rqTrailer dst) (rqTrailer h), rqH := copyArgs (rqH dst) (rqH h),
             rqCookies := copyArgs (rqCookies dst) (rqCookies h), rqCookiesCollected := rqCookiesCollected h,
             rqRawHeaders := rqRawHeaders dst @ rqRawHeaders h, rqContentLengthSeen := rqContentLengthSeen h,
             rqFirstLineLen := rqFirstLineLen h\<rparr>)"

section \<open>Cookies\<close>

function collectCookies_loop :: "kvslice \<Rightarrow> kvslice \<Rightarrow> nat \<Rightarrow> kvslice \<times> kvslice" where
  "collectCookies_loop h cookies i =
     (if i < length (live h)
      then (let kv = live h ! i
            in if caseInsensitiveCompare (kvKey kv) strCookie
               then collectCookies_loop
                      \<lparr>live = take i (live h) @ drop (i + 1) (live h), spare = kv # spare h\<rparr>
                      (parseRequestCookies cookies (kvValue kv)) i
               else collectCookies_loop h cookies (i + 1))
      else (h, cookies))"
  by pat_completeness auto
termination
  by (relation "measure (\<lambda>(h, cookies, i). length (live h) - i)") auto

declare collectCookies_loop.simps [simp del]

definition collectCookies :: "RequestHeader \<Rightarrow> RequestHeader" where
  "collectCookies h =
     (if rqCookiesCollected h then h
      else (case collectCookies_loop (rqH h) (rqCookies h) 0 of
              (hs, cs) \<Rightarrow> h\<lparr>rqH := hs, rqCookies := cs, rqCookiesCollected := True\<rparr>))"

section \<open>Reading the header\<close>

definition RequestHeader_Host :: "RequestHeader \<Rightarrow> bytes" where
  "RequestHeader_Host h = (if rqDisableSpecialHeader h then peek_bytes (rqH h) strHost else rqHost h)"

definition RequestHeader_UserAgent :: "RequestHeader \<Rightarrow> bytes" where
  "RequestHeader_UserAgent h =
     (if rqDisableSpecialHeader h then peek_bytes (rqH h) strUserAgent else rqUserAgent h)"

definition RequestHeader_ContentType :: "RequestHeader \<Rightarrow> bytes" where
  "RequestHeader_ContentType h =
     (if rqDisableSpecialHeader h then peek_bytes (rqH h) strContentType else rqContentType h)"

definition RequestHeader_ContentEncoding :: "RequestHeader \<Rightarrow> bytes" where
  "RequestHeader_ContentEncoding h = peek_bytes (rqH h) strContentEncoding"

definition RequestHeader_Referer :: "RequestHeader \<Rightarrow> bytes" where
  "RequestHeader_Referer h = peek_bytes (rqH h) strReferer"

definition RequestHeader_Method :: "RequestHeader \<Rightarrow> bytes" where
  "RequestHeader_Method h = (if rqMethod h = [] then bs ''GET'' else rqMethod h)"

definition RequestHeader_Protocol :: "RequestHeader \<Rightarrow> bytes" where
  "RequestHeader_Protocol h = (if rqProto h = [] then strHTTP11 else rqProto h)"

definition RequestHeader_RequestURI :: "RequestHeader \<Rightarrow> bytes" where
  "RequestHeader_RequestURI h = (if rqRequestURI h = [] then bs ''/'' else rqRequestURI h)"

text \<open>\<^verbatim>\<open>IsGet\<close>, \<^verbatim>\<open>IsPost\<close>, \<^verbatim>\<open>IsPut\<close> and the others compare with one method name.\<close>

definition RequestHeader_IsMethod :: "RequestHeader \<Rightarrow> bytes \<Rightarrow> bool" where
  "RequestHeader_IsMethod h m \<longleftrightarrow> RequestHeader_Method h = m"

definition RequestHeader_ignoreBody :: "RequestHeader \<Rightarrow> bool" where
  "RequestHeader_ignoreBody h \<longleftrightarrow> RequestHeader_IsMethod h (bs ''GET'') \<or> RequestHeader_IsMethod h (bs ''HEAD'')"

definition RequestHeader_MultipartFormBoundary :: "RequestHeader \<Rightarrow> bytes option" where
  "RequestHeader_MultipartFormBoundary h = multipart_boundary (RequestHeader_ContentType h)"

definition RequestHeader_peekSpecial :: "RequestHeader \<Rightarrow> bytes \<Rightarrow> bytes option" where
  "RequestHeader_peekSpecial h key =
     (if length key = 0 then None
      else let c = key ! 0
      in if c = 0x48 then (if key = strHost then Some (RequestHeader_Host h) else None)
         else if c = 0x55 then (if key = strUserAgent then Some (RequestHeader_UserAgent h) else None)
         else if c = 0x43 then
           (if key = strContentType then Some (RequestHeader_ContentType h)
            else if key = strCookie
            then (if rqCookiesCollected h then Some (appendRequestCookieBytes [] (live (rqCookies h))) else None)
            else if key = strConnection then (if rqConnectionClose h then Some strClose else None)
            else if key = strContentLength then Some (rqContentLengthBytes h)
            else None)
         else if c = 0x54 then
           (if key = strTrailer then Some (appendArgsKeyBytes [] (live (rqTrailer h)) (bs '', '')) else None)
         else None)"

definition RequestHeader_peek :: "RequestHeader \<Rightarrow> bytes \<Rightarrow> bytes" where
  "RequestHeader_peek h key =
     (case RequestHeader_peekSpecial h key of Some r \<Rightarrow> r | None \<Rightarrow> peek_bytes (rqH h) key)"

definition RequestHeader_PeekBytes :: "RequestHeader \<Rightarrow> bytes \<Rightarrow> RequestHeader \<times> bytes" where
  "RequestHeader_PeekBytes h key =
     (case initHeaderK (rqBufK h) key (rqDisableNormalizing h) of
        (bufK, key) \<Rightarrow> (h\<lparr>rqBufK := bufK\<rparr>, RequestHeader_peek h key))"

definition RequestHeader_peekAll :: "RequestHeader \<Rightarrow> bytes \<Rightarrow> RequestHeader" where
  "RequestHeader_peekAll h key =
     (let h = h\<lparr>rqMulHeader := []\<rparr>
      in (case RequestHeader_peekSpecial h key of
            Some r \<Rightarrow>
              if r \<noteq> [] then h\<lparr>rqMulHeader := rqMulHeader h @ [r]\<rparr>
              else h\<lparr>rqMulHeader := peekAllArgBytesToDst (rqMulHeader h) (live (rqH h)) key\<rparr>
          | None \<Rightarrow> h\<lparr>rqMulHeader := peekAllArgBytesToDst (rqMulHeader h) (live (rqH h)) key\<rparr>))"

definition RequestHeader_PeekKeys :: "RequestHeader \<Rightarrow> RequestHeader" where
  "RequestHeader_PeekKeys h = h\<lparr>rqMulHeader := peekArgsKeys [] (live (rqH h))\<rparr>"

definition RequestHeader_PeekTrailerKeys :: "RequestHeader \<Rightarrow> RequestHeader" where
  "RequestHeader_PeekTrailerKeys h = h\<lparr>rqMulHeader := peekArgsKeys [] (live (rqTrailer h))\<rparr>"

definition RequestHeader_Cookie :: "RequestHeader \<Rightarrow> bytes \<Rightarrow> RequestHeader \<times> bytes option" where
  "RequestHeader_Cookie h key =
     (let h = collectCookies h in (h, peekArgStr (live (rqCookies h)) key))"

definition RequestHeader_ConnectionUpgrade :: "RequestHeader \<Rightarrow> RequestHeader \<times> bool" where
  "RequestHeader_ConnectionUpgrade h =
     (case RequestHeader_PeekBytes h strConnection of (h, v) \<Rightarrow> (h, hasHeaderValue v strUpgrade))"

definition RequestHeader_HasAcceptEncodingBytes :: "RequestHeader \<Rightarrow> bytes \<Rightarrow> bool" where
  "RequestHeader_HasAcceptEncodingBytes h acceptEncoding =
     HasAcceptEncodingBytes (RequestHeader_peek h strAcceptEncoding) acceptEncoding"

definition RequestHeader_TransferEncoding :: "RequestHeader \<Rightarrow> bytes" where
  "RequestHeader_TransferEncoding h =
     (let t = RequestHeader_peek h strTransferEncoding
      in if t = [] then (if rqContentLength h = -1 then strChunked else []) else t)"

definition RequestHeader_VisitAll :: "RequestHeader \<Rightarrow> (bytes \<Rightarrow> bytes \<Rightarrow> 's \<Rightarrow> 's) \<Rightarrow> 's \<Rightarrow> RequestHeader \<times> 's" where
  "RequestHeader_VisitAll h f s =
     (let host = RequestHeader_Host h;
          s = (if host \<noteq> [] then f strHost host s else s);
          s = (if rqContentLengthBytes h \<noteq> [] then f strContentLength (rqContentLengthBytes h) s else s);
          ct = RequestHeader_ContentType h;
          s = (if ct \<noteq> [] then f strContentType ct s else s);
          ua = RequestHeader_UserAgent h;
          s = (if ua \<noteq> [] then f strUserAgent ua s else s);
          s = (if live (rqTrailer h) \<noteq> []
               then f strTrailer (appendArgsKeyBytes [] (live (rqTrailer h)) (bs '', '')) s else s);
          h = collectCookies h;
          h = (if live (rqCookies h) \<noteq> []
               then h\<lparr>rqBufV := appendRequestCookieBytes [] (live (rqCookies h))\<rparr> else h);
          s = (if live (rqCookies h) \<noteq> [] then f strCookie (rqBufV h) s else s);
          s = visitArgs (live (rqH h)) f s;
          s = (if rqConnectionClose h then f strConnection strClose s else s)
      in (h, s))"

definition RequestHeader_Len :: "RequestHeader \<Rightarrow> RequestHeader \<times> nat" where
  "RequestHeader_Len h = RequestHeader_VisitAll h (\<lambda>_ _ n. n + 1) 0"

text \<open>\<^verbatim>\<open>VisitAllInOrder\<close> scans the raw copy again, which the scanner rewrites in place.\<close>

definition RequestHeader_VisitAllInOrder :: "RequestHeader \<Rightarrow> (bytes \<Rightarrow> bytes \<Rightarrow> 's \<Rightarrow> 's) \<Rightarrow> 's \<Rightarrow> RequestHeader \<times> 's" where
  "RequestHeader_VisitAllInOrder h f s =
     (case scan_all (new_scanner (rqRawHeaders h) (rqDisableNormalizing h)) of
        (ps, e) \<Rightarrow>
          (h\<lparr>rqRawHeaders := hsDone e @ hsB e @ hsTail e\<rparr>,
           fold (\<lambda>(k, v) s. if k \<noteq> [] then f k v s else s) ps s))"

section \<open>Changing the header\<close>

definition RequestHeader_setNonSpecial :: "RequestHeader \<Rightarrow> bytes \<Rightarrow> bytes \<Rightarrow> RequestHeader" where
  "RequestHeader_setNonSpecial h key value = h\<lparr>rqH := setArg (rqH h) key value False\<rparr>"

definition RequestHeader_SetByteRange :: "RequestHeader \<Rightarrow> int \<Rightarrow> int \<Rightarrow> RequestHeader option" where
  "RequestHeader_SetByteRange h startPos endPos =
     (let b = bs ''bytes'' @ [0x3D];
          endPos = (if startPos \<ge> 0 then endPos else wrap64 (- startPos))
      in (case (if startPos \<ge> 0 then AppendUint b startPos else Some b) of
            None \<Rightarrow> None
          | Some b \<Rightarrow>
              let b = b @ [0x2D]
              in (case (if endPos \<ge> 0 then AppendUint b endPos else Some b) of
                    None \<Rightarrow> None
                  | Some b \<Rightarrow> Some (RequestHeader_setNonSpecial (h\<lparr>rqBufV := b\<rparr>) strRange b))))"

definition RequestHeader_SetConnectionClose :: "RequestHeader \<Rightarrow> RequestHeader" where
  "RequestHeader_SetConnectionClose h = h\<lparr>rqConnectionClose := True\<rparr>"

definition RequestHeader_ResetConnectionClose :: "RequestHeader \<Rightarrow> RequestHeader" where
  "RequestHeader_ResetConnectionClose h =
     (if rqConnectionClose h
      then h\<lparr>rqConnectionClose := False, rqH := delAllArgs (rqH h) strConnection\<rparr> else h)"

definition RequestHeader_SetContentLength :: "RequestHeader \<Rightarrow> int \<Rightarrow> RequestHeader option" where
  "RequestHeader_SetContentLength h contentLength =
     (let h = h\<lparr>rqContentLength := contentLength\<rparr>
      in if contentLength \<ge> 0
         then (case AppendUint [] contentLength of
                 None \<Rightarrow> None
               | Some b \<Rightarrow> Some (h\<lparr>rqContentLengthBytes := b, rqH := delAllArgs (rqH h) strTransferEncoding\<rparr>))
         else Some (h\<lparr>rqContentLengthBytes := [],
                      rqH := setArg (rqH h) strTransferEncoding strChunked False\<rparr>))"

definition RequestHeader_SetContentTypeBytes :: "RequestHeader \<Rightarrow> bytes \<Rightarrow> RequestHeader" where
  "RequestHeader_SetContentTypeBytes h contentType = h\<lparr>rqContentType := contentType\<rparr>"

definition RequestHeader_SetContentEncodingBytes :: "RequestHeader \<Rightarrow> bytes \<Rightarrow> RequestHeader" where
  "RequestHeader_SetContentEncodingBytes h contentEncoding =
     RequestHeader_setNonSpecial h strContentEncoding contentEncoding"

definition RequestHeader_SetMultipartFormBoundary :: "RequestHeader \<Rightarrow> bytes \<Rightarrow> RequestHeader" where
  "RequestHeader_SetMultipartFormBoundary h boundary =
     (let b = strMultipartFormData @ [0x3B, spChar] @ strBoundary @ [0x3D] @ boundary
      in RequestHeader_SetContentTypeBytes (h\<lparr>rqBufV := b\<rparr>) b)"

definition RequestHeader_SetHostBytes :: "RequestHeader \<Rightarrow> bytes \<Rightarrow> RequestHeader" where
  "RequestHeader_SetHostBytes h host = h\<lparr>rqHost := host\<rparr>"

definition RequestHeader_SetUserAgentBytes :: "RequestHeader \<Rightarrow> bytes \<Rightarrow> RequestHeader" where
  "RequestHeader_SetUserAgentBytes h userAgent = h\<lparr>rqUserAgent := userAgent\<rparr>"

definition RequestHeader_SetRefererBytes :: "RequestHeader \<Rightarrow> bytes \<Rightarrow> RequestHeader" where
  "RequestHeader_SetRefererBytes h referer = RequestHeader_setNonSpecial h strReferer referer"

definition RequestHeader_SetMethodBytes :: "RequestHeader \<Rightarrow> bytes \<Rightarrow> RequestHeader" where
  "RequestHeader_SetMethodBytes h method = h\<lparr>rqMethod := method\<rparr>"

definition RequestHeader_SetProtocolBytes :: "RequestHeader \<Rightarrow> bytes \<Rightarrow> RequestHeader" where
  "RequestHeader_SetProtocolBytes h method = h\<lparr>rqProto := method, rqNoHTTP11 := method \<noteq> strHTTP11\<rparr>"

definition RequestHeader_SetRequestURIBytes :: "RequestHeader \<Rightarrow> bytes \<Rightarrow> RequestHeader" where
  "RequestHeader_SetRequestURIBytes h requestURI = h\<lparr>rqRequestURI := requestURI\<rparr>"

text \<open>\<^verbatim>\<open>AddTrailerBytes\<close>: the names between the commas, canonical form first, then the check.\<close>

function RequestHeader_trailer_loop :: "RequestHeader \<Rightarrow> header_error option \<Rightarrow> bytes \<Rightarrow> RequestHeader \<times> header_error option" where
  "RequestHeader_trailer_loop h err trailer =
     (if trailer = [] then (h, err)
      else (let i = (case index_byte trailer 0x2C of None \<Rightarrow> length trailer | Some i \<Rightarrow> i);
                key = stripSpace (take i trailer)
            in (case initHeaderK (rqBufK h) key (rqDisableNormalizing h) of
                  (bufK, key) \<Rightarrow>
                    let h = h\<lparr>rqBufK := bufK\<rparr>
                    in if isBadTrailer key (rqDisableNormalizing h)
                       then RequestHeader_trailer_loop h (Some (BadTrailerKey key)) (drop (i + 1) trailer)
                       else RequestHeader_trailer_loop (h\<lparr>rqTrailer := appendArg (rqTrailer h) key [] True\<rparr>) err
                              (drop (i + 1) trailer))))"
  by pat_completeness auto
termination
  by (relation "measure (\<lambda>(h, err, t). length t)") auto

declare RequestHeader_trailer_loop.simps [simp del]

definition RequestHeader_AddTrailerBytes :: "RequestHeader \<Rightarrow> bytes \<Rightarrow> RequestHeader \<times> header_error option" where
  "RequestHeader_AddTrailerBytes h trailer = RequestHeader_trailer_loop h None trailer"

definition RequestHeader_SetTrailerBytes :: "RequestHeader \<Rightarrow> bytes \<Rightarrow> RequestHeader \<times> header_error option" where
  "RequestHeader_SetTrailerBytes h trailer =
     RequestHeader_AddTrailerBytes (h\<lparr>rqTrailer := resetArgs (rqTrailer h)\<rparr>) trailer"

definition RequestHeader_del :: "RequestHeader \<Rightarrow> bytes \<Rightarrow> RequestHeader" where
  "RequestHeader_del h key =
     (let h = (if key = strHost then h\<lparr>rqHost := []\<rparr>
               else if key = strContentType then h\<lparr>rqContentType := []\<rparr>
               else if key = strUserAgent then h\<lparr>rqUserAgent := []\<rparr>
               else if key = strCookie then h\<lparr>rqCookies := resetArgs (rqCookies h)\<rparr>
               else if key = strContentLength then h\<lparr>rqContentLength := 0, rqContentLengthBytes := []\<rparr>
               else if key = strConnection then h\<lparr>rqConnectionClose := False\<rparr>
               else if key = strTrailer then h\<lparr>rqTrailer := resetArgs (rqTrailer h)\<rparr>
               else h)
      in h\<lparr>rqH := delAllArgs (rqH h) key\<rparr>)"

definition RequestHeader_DelBytes :: "RequestHeader \<Rightarrow> bytes \<Rightarrow> RequestHeader" where
  "RequestHeader_DelBytes h key =
     (case initHeaderK (rqBufK h) key (rqDisableNormalizing h) of
        (bufK, key) \<Rightarrow> RequestHeader_del (h\<lparr>rqBufK := bufK\<rparr>) key)"

definition RequestHeader_setSpecialHeader :: "RequestHeader \<Rightarrow> bytes \<Rightarrow> bytes \<Rightarrow> bool \<Rightarrow> RequestHeader \<times> bool" where
  "RequestHeader_setSpecialHeader h key value isSet =
     (if length key = 0 \<or> rqDisableSpecialHeader h then (h, False)
      else let c = key ! 0 OR 0x20
      in if c = 0x63 then
           (if strContentType = key then (RequestHeader_SetContentTypeBytes h value, True)
            else if strContentLength = key
            then (case parseContentLength value of
                    Some n \<Rightarrow> (h\<lparr>rqContentLength := n, rqContentLengthBytes := value\<rparr>, True)
                  | None \<Rightarrow> (h, True))
            else if strConnection = key
            then (if strClose = value then (RequestHeader_SetConnectionClose h, True)
                  else (RequestHeader_setNonSpecial (RequestHeader_ResetConnectionClose h) key value, True))
            else if strCookie = key
            then (let h = collectCookies h;
                      h = (if isSet then h\<lparr>rqCookies := resetArgs (rqCookies h)\<rparr> else h)
                  in (h\<lparr>rqCookies := parseRequestCookies (rqCookies h) value\<rparr>, True))
            else (h, False))
         else if c = 0x74 then
           (if strTransferEncoding = key then (h, True)
            else if strTrailer = key then (fst (RequestHeader_SetTrailerBytes h value), True)
            else (h, False))
         else if c = 0x68 then
           (if strHost = key then (RequestHeader_SetHostBytes h value, True) else (h, False))
         else if c = 0x75 then
           (if strUserAgent = key then (RequestHeader_SetUserAgentBytes h value, True) else (h, False))
         else (h, False))"

definition RequestHeader_addCanonical :: "RequestHeader \<Rightarrow> bytes \<Rightarrow> bytes \<Rightarrow> RequestHeader" where
  "RequestHeader_addCanonical h key value =
     (case RequestHeader_setSpecialHeader h key value False of
        (h, True) \<Rightarrow> h
      | (h, False) \<Rightarrow> h\<lparr>rqH := appendArg (rqH h) key value False\<rparr>)"

definition RequestHeader_setCanonical :: "RequestHeader \<Rightarrow> bytes \<Rightarrow> bytes \<Rightarrow> RequestHeader" where
  "RequestHeader_setCanonical h key value =
     (case RequestHeader_setSpecialHeader h key value True of
        (h, True) \<Rightarrow> h
      | (h, False) \<Rightarrow> RequestHeader_setNonSpecial h key value)"

definition RequestHeader_AddBytesKV :: "RequestHeader \<Rightarrow> bytes \<Rightarrow> bytes \<Rightarrow> RequestHeader" where
  "RequestHeader_AddBytesKV h key value =
     (case initHeaderK (rqBufK h) key (rqDisableNormalizing h) of
        (bufK, key) \<Rightarrow>
          (case initHeaderV (rqBufV h) value of
             (bufV, value) \<Rightarrow> RequestHeader_addCanonical (h\<lparr>rqBufK := bufK, rqBufV := bufV\<rparr>) key value))"

definition RequestHeader_SetBytesKV :: "RequestHeader \<Rightarrow> bytes \<Rightarrow> bytes \<Rightarrow> RequestHeader" where
  "RequestHeader_SetBytesKV h key value =
     (case initHeaderK (rqBufK h) key (rqDisableNormalizing h) of
        (bufK, key) \<Rightarrow>
          (case initHeaderV (rqBufV h) value of
             (bufV, value) \<Rightarrow> RequestHeader_setCanonical (h\<lparr>rqBufK := bufK, rqBufV := bufV\<rparr>) key value))"

definition RequestHeader_AddCanonical :: "RequestHeader \<Rightarrow> bytes \<Rightarrow> bytes \<Rightarrow> RequestHeader" where
  "RequestHeader_AddCanonical h key value =
     (case initHeaderV (rqBufV h) value of
        (bufV, value) \<Rightarrow> RequestHeader_AddBytesKV (h\<lparr>rqBufV := bufV\<rparr>) key value)"

definition RequestHeader_SetCanonical :: "RequestHeader \<Rightarrow> bytes \<Rightarrow> bytes \<Rightarrow> RequestHeader" where
  "RequestHeader_SetCanonical h key value =
     (case initHeaderV (rqBufV h) value of
        (bufV, value) \<Rightarrow> RequestHeader_setCanonical (h\<lparr>rqBufV := bufV\<rparr>) key value)"

definition RequestHeader_SetContentEncoding :: "RequestHeader \<Rightarrow> bytes \<Rightarrow> RequestHeader" where
  "RequestHeader_SetContentEncoding h v = RequestHeader_SetBytesKV h strContentEncoding v"

definition RequestHeader_SetReferer :: "RequestHeader \<Rightarrow> bytes \<Rightarrow> RequestHeader" where
  "RequestHeader_SetReferer h v = RequestHeader_SetBytesKV h strReferer v"

definition RequestHeader_SetCookie :: "RequestHeader \<Rightarrow> bytes \<Rightarrow> bytes \<Rightarrow> RequestHeader" where
  "RequestHeader_SetCookie h key value =
     (let h = collectCookies h in h\<lparr>rqCookies := setArg (rqCookies h) key value False\<rparr>)"

text \<open>\<^verbatim>\<open>SetCookieBytes\<close> fills a slot without resetting its \<^verbatim>\<open>noValue\<close> mark.\<close>

definition RequestHeader_SetCookieBytes :: "RequestHeader \<Rightarrow> bytes \<Rightarrow> RequestHeader" where
  "RequestHeader_SetCookieBytes h value =
     (let cs = allocArg (rqCookies h); kv = last_kv cs
      in h\<lparr>rqCookies := set_last cs (kv\<lparr>kvKey := getCookieKey (kvKey kv) value, kvValue := value\<rparr>)\<rparr>)"

definition RequestHeader_DelCookie :: "RequestHeader \<Rightarrow> bytes \<Rightarrow> RequestHeader" where
  "RequestHeader_DelCookie h key =
     (let h = collectCookies h in h\<lparr>rqCookies := delAllArgs (rqCookies h) key\<rparr>)"

definition RequestHeader_DelAllCookies :: "RequestHeader \<Rightarrow> RequestHeader" where
  "RequestHeader_DelAllCookies h =
     (let h = collectCookies h in h\<lparr>rqCookies := resetArgs (rqCookies h)\<rparr>)"

section \<open>Printing\<close>

text \<open>The header lines of \<^verbatim>\<open>h.h\<close> whose name is not announced as a trailer.\<close>

fun append_untrailed :: "bytes \<Rightarrow> argsKV list \<Rightarrow> argsKV list \<Rightarrow> bytes" where
  "append_untrailed dst [] trailer = dst"
| "append_untrailed dst (kv # h) trailer =
     append_untrailed
       (if list_ex (\<lambda>t. kvKey kv = kvKey t) trailer then dst else appendHeaderLine dst (kvKey kv) (kvValue kv)) h trailer"

definition RequestHeader_AppendBytes :: "RequestHeader \<Rightarrow> bytes \<Rightarrow> bytes" where
  "RequestHeader_AppendBytes h dst =
     (let dst = dst @ RequestHeader_Method h @ [spChar] @ RequestHeader_RequestURI h @ [spChar] @
                RequestHeader_Protocol h @ [rChar, nChar];
          special = \<not> rqDisableSpecialHeader h;
          ua = RequestHeader_UserAgent h;
          dst = (if ua \<noteq> [] \<and> special then appendHeaderLine dst strUserAgent ua else dst);
          host = RequestHeader_Host h;
          dst = (if host \<noteq> [] \<and> special then appendHeaderLine dst strHost host else dst);
          ct = RequestHeader_ContentType h;
          ct = (if \<not> rqNoDefaultContentType h \<and> ct = [] \<and> \<not> RequestHeader_ignoreBody h then strDefaultContentType else ct);
          dst = (if ct \<noteq> [] \<and> special then appendHeaderLine dst strContentType ct else dst);
          dst = (if rqContentLengthBytes h \<noteq> [] \<and> special
                 then appendHeaderLine dst strContentLength (rqContentLengthBytes h) else dst);
          dst = append_untrailed dst (live (rqH h)) (live (rqTrailer h));
          dst = (if live (rqTrailer h) \<noteq> []
                 then appendHeaderLine dst strTrailer (appendArgsKeyBytes [] (live (rqTrailer h)) (bs '', '')) else dst);
          dst = (if live (rqCookies h) \<noteq> [] \<and> special
                 then appendRequestCookieBytes (dst @ strCookie @ bs '': '') (live (rqCookies h)) @ [rChar, nChar]
                 else dst);
          dst = (if rqConnectionClose h \<and> special then appendHeaderLine dst strConnection strClose else dst)
      in dst @ [rChar, nChar])"

definition RequestHeader_Header :: "RequestHeader \<Rightarrow> RequestHeader \<times> bytes" where
  "RequestHeader_Header h = (let b = RequestHeader_AppendBytes h [] in (h\<lparr>rqBufV := b\<rparr>, b))"

definition RequestHeader_TrailerHeader :: "RequestHeader \<Rightarrow> RequestHeader \<times> bytes" where
  "RequestHeader_TrailerHeader h =
     (let b = fold (\<lambda>t b. appendHeaderLine b (kvKey t) (RequestHeader_peek h (kvKey t))) (live (rqTrailer h)) []
              @ [rChar, nChar]
      in (h\<lparr>rqBufV := b\<rparr>, b))"

section \<open>Parsing\<close>

text \<open>\<^verbatim>\<open>parseFirstLine\<close>. The local \<^verbatim>\<open>method\<close> is cut from the line, but the validity test looks at
  \<^verbatim>\<open>h.method\<close>, the method the header had before. The code builds \<^verbatim>\<open>method\<close> in the array of \<^verbatim>\<open>h.method\<close>, so
  that the test sees as many of the new bytes as the old method is long; here it sees the old ones. There is no difference
  in the two cases that reading gives rise to: the old method is empty behind a reset, and the same when a line is parsed
  again.\<close>

definition RequestHeader_parseFirstLine :: "RequestHeader \<Rightarrow> bytes \<Rightarrow> RequestHeader \<times> int \<times> header_error option" where
  "RequestHeader_parseFirstLine h buf =
     (case nextLine buf of
        None \<Rightarrow> (h, 0, Some errNeedMore)
      | Some (firstLine, bNext) \<Rightarrow>
          (case index_byte firstLine spChar of
             None \<Rightarrow> (h, 0, Some (RequestMethodNotFound firstLine))
           | Some n1 \<Rightarrow>
               if n1 = 0 then (h, 0, Some (RequestMethodNotFound firstLine))
               else let method = take n1 firstLine
               in if \<not> isValidMethod (rqMethod h) then (h, 0, Some (InvalidMethod method))
               else let b = drop (n1 + 1) firstLine
               in (case last_index_byte b spChar of
                     None \<Rightarrow> (h, 0, Some (RequestURINotFound firstLine))
                   | Some n1 \<Rightarrow>
                       if n1 = 0 then (h, 0, Some (RequestURINotFound firstLine))
                       else let protoStr = drop (n1 + 1) b
                       in if length protoStr \<noteq> length strHTTP11 \<or> \<not> has_prefix protoStr (take 5 strHTTP11) \<or>
                             protoStr ! 5 < 0x30 \<or> protoStr ! 5 > 0x39 \<or> protoStr ! 7 < 0x30 \<or> protoStr ! 7 > 0x39
                          then (h, 0, Some (UnsupportedHTTPVersion protoStr))
                          else (let l = int (length buf - length bNext)
                                in (h\<lparr>rqMethod := method, rqNoHTTP11 := protoStr \<noteq> strHTTP11, rqProto := protoStr,
                                      rqRequestURI := take n1 b, rqFirstLineLen := l\<rparr>, l, None)))))"

text \<open>The \<^verbatim>\<open>switch\<close> of \<^verbatim>\<open>parseHeaders\<close> on one line.\<close>

definition RequestHeader_line :: "RequestHeader \<Rightarrow> bool \<Rightarrow> bytes \<Rightarrow> bytes \<Rightarrow> RequestHeader \<times> header_error option" where
  "RequestHeader_line h dis key value =
     (let other = (h\<lparr>rqH := appendArg (rqH h) key value False\<rparr>, None)
      in if rqDisableSpecialHeader h then other
         else let c = key ! 0 OR 0x20
         in if c = 0x68 \<and> headNameCompare key strHost dis then (h\<lparr>rqHost := value\<rparr>, None)
         else if c = 0x75 \<and> headNameCompare key strUserAgent dis then (h\<lparr>rqUserAgent := value\<rparr>, None)
         else if c = 0x63 then
           (if headNameCompare key strContentType dis then (h\<lparr>rqContentType := value\<rparr>, None)
            else if headNameCompare key strContentLength dis
            then (if rqContentLengthSeen h then (h, Some MultipleContentLengthErr)
                  else let h = h\<lparr>rqContentLengthSeen := True\<rparr>
                  in if rqContentLength h \<noteq> -1
                     then (case parseContentLength value of
                             None \<Rightarrow> (h\<lparr>rqContentLength := -1\<rparr>, Some ContentLengthNotIntErr)
                           | Some n \<Rightarrow> (h\<lparr>rqContentLength := n, rqContentLengthBytes := value\<rparr>, None))
                     else (h, None))
            else if headNameCompare key strConnection dis
            then (if value = strClose then (h\<lparr>rqConnectionClose := True\<rparr>, None)
                  else (h\<lparr>rqConnectionClose := False, rqH := appendArg (rqH h) key value False\<rparr>, None))
            else other)
         else if c = 0x74 then
           (if headNameCompare key strTransferEncoding dis
            then (if \<not> headNameCompare value strChunked (rqDisableSpecialHeader h)
                  then (h, Some (UnsupportedTEError value))
                  else (h\<lparr>rqContentLength := -1,
                          rqH := setArg (rqH h) strTransferEncoding strChunked False\<rparr>, None))
            else if headNameCompare key strTrailer dis then RequestHeader_SetTrailerBytes h value
            else other)
         else other)"

text \<open>The checks that precede the \<^verbatim>\<open>switch\<close>, for requests and responses.\<close>

definition check_line :: "bytes \<Rightarrow> bytes \<Rightarrow> header_error option" where
  "check_line key value =
     (if length key = 0 then Some EmptyHeaderKeyErr
      else if \<not> list_all validHeaderFieldByte key then Some (InvalidHeaderKey key)
      else if \<not> list_all validHeaderValueByte value then Some (InvalidHeaderValue value)
      else None)"

function RequestHeader_parseHeaders_loop ::
  "RequestHeader \<Rightarrow> headerScanner \<Rightarrow> RequestHeader \<times> headerScanner \<times> header_error option" where
  "RequestHeader_parseHeaders_loop h s =
     (case scan_next s of
        (s', False) \<Rightarrow> (h, s', None)
      | (s', True) \<Rightarrow>
          (case check_line (hsKey s') (hsValue s') of
             Some e \<Rightarrow> (h, s', Some e)
           | None \<Rightarrow>
               (case RequestHeader_line h (hsDisableNormalizing s') (hsKey s') (hsValue s') of
                  (h', Some e) \<Rightarrow> (h', s', Some e)
                | (h', None) \<Rightarrow> RequestHeader_parseHeaders_loop h' s')))"
  by pat_completeness auto
termination
  by (relation "measure (\<lambda>(h, s). length (hsB s))") (auto dest: scan_next_progress [OF sym])

declare RequestHeader_parseHeaders_loop.simps [simp del]

text \<open>The memory the scanner leaves in the buffer it was given.\<close>

definition scanned_buf :: "headerScanner \<Rightarrow> bytes" where
  "scanned_buf s = hsDone s @ hsB s @ hsTail s"

text \<open>The rules after the loop. The second component of the result is the buffer as the scanner leaves it.\<close>

definition RequestHeader_finish :: "RequestHeader \<Rightarrow> RequestHeader" where
  "RequestHeader_finish h =
     (let h = (if rqContentLength h < 0 then h\<lparr>rqContentLengthBytes := []\<rparr> else h)
      in if rqNoHTTP11 h \<and> \<not> rqConnectionClose h
         then h\<lparr>rqConnectionClose := \<not> hasHeaderValue (peek_bytes (rqH h) strConnection) strKeepAlive\<rparr> else h)"

definition RequestHeader_parseHeaders ::
  "RequestHeader \<Rightarrow> bytes \<Rightarrow> RequestHeader \<times> bytes \<times> int \<times> header_error option" where
  "RequestHeader_parseHeaders h buf =
     (let h = h\<lparr>rqContentLength := 0, rqContentLengthSeen := False\<rparr>
      in (case RequestHeader_parseHeaders_loop h (new_scanner buf (rqDisableNormalizing h)) of
            (h, s, Some e) \<Rightarrow> (h, scanned_buf s, 0, Some e)
          | (h, s, None) \<Rightarrow>
              (case hsErr s of
                 Some e \<Rightarrow> (h, scanned_buf s, 0, Some e)
               | None \<Rightarrow> (RequestHeader_finish h, scanned_buf s, hsHLen s, None))))"

definition RequestHeader_parse ::
  "RequestHeader \<Rightarrow> bytes \<Rightarrow> RequestHeader \<times> bytes \<times> int \<times> header_error option" where
  "RequestHeader_parse h buf =
     (case (if rqFirstLineLen h = 0 then RequestHeader_parseFirstLine h buf else (h, rqFirstLineLen h, None)) of
        (h, m, Some e) \<Rightarrow> (h, buf, 0, Some e)
      | (h, m, None) \<Rightarrow>
          let line = take (nat m) buf; rest = drop (nat m) buf
          in (case readRawHeaders [] rest of
                (raw, _, Some e) \<Rightarrow> (h\<lparr>rqRawHeaders := raw\<rparr>, buf, 0, Some e)
              | (raw, _, None) \<Rightarrow>
                  (case RequestHeader_parseHeaders (h\<lparr>rqRawHeaders := raw\<rparr>) rest of
                     (h, rest', _, Some e) \<Rightarrow> (h, line @ rest', 0, Some e)
                   | (h, rest', n1, None) \<Rightarrow> (h, line @ rest', m + n1, None))))"

function RequestHeader_parseTrailer_loop ::
  "RequestHeader \<Rightarrow> headerScanner \<Rightarrow> RequestHeader \<times> headerScanner \<times> header_error option" where
  "RequestHeader_parseTrailer_loop h s =
     (case scan_next s of
        (s', False) \<Rightarrow> (h, s', None)
      | (s', True) \<Rightarrow>
          if hsKey s' \<noteq> []
          then (if spChar \<in> set (hsKey s') \<or> tabChar \<in> set (hsKey s')
                then (h, s', Some (InvalidTrailerKey (hsKey s')))
                else RequestHeader_parseTrailer_loop
                       (h\<lparr>rqH := appendArg (rqH h) (hsKey s') (hsValue s') False\<rparr>) s')
          else RequestHeader_parseTrailer_loop h s')"
  by pat_completeness auto
termination
  by (relation "measure (\<lambda>(h, s). length (hsB s))") (auto dest: scan_next_progress [OF sym])

declare RequestHeader_parseTrailer_loop.simps [simp del]

definition RequestHeader_parseTrailer ::
  "RequestHeader \<Rightarrow> bytes \<Rightarrow> RequestHeader \<times> bytes \<times> int \<times> header_error option" where
  "RequestHeader_parseTrailer h buf =
     (case RequestHeader_parseTrailer_loop h (new_scanner buf (rqDisableNormalizing h)) of
        (h, s, Some e) \<Rightarrow> (h, scanned_buf s, 0, Some e)
      | (h, s, None) \<Rightarrow>
          (case hsErr s of
             Some e \<Rightarrow> (h, scanned_buf s, 0, Some e)
           | None \<Rightarrow> (h, scanned_buf s, hsHLen s, None)))"

section \<open>Reading from a connection\<close>

text \<open>One attempt with at least \<open>n\<close> buffered bytes; \<open>None\<close> is a panic.\<close>

definition header_eof :: "io_error \<Rightarrow> header_error" where
  "header_eof e = (if e = EOF then ErrUnexpectedHeaderEOF else IOErr e)"

definition RequestHeader_tryRead ::
  "RequestHeader \<Rightarrow> breader \<Rightarrow> nat \<Rightarrow> (RequestHeader \<times> breader \<times> header_error option) option" where
  "RequestHeader_tryRead h r n =
     (case br_Peek r n of
        (r, b, err) \<Rightarrow>
          if n \<noteq> length b then Some (h, r, map_option header_eof err)
          else (case mustPeekBuffered r of
                  None \<Rightarrow> None
                | Some (r, b) \<Rightarrow>
                    (case RequestHeader_parse h b of
                       (h, b', headersLen, Some e) \<Rightarrow> Some (h, r\<lparr>brBuf := b'\<rparr>, Some e)
                     | (h, b', headersLen, None) \<Rightarrow>
                         map_option (\<lambda>r. (h, r, None)) (mustDiscard (r\<lparr>brBuf := b'\<rparr>) headersLen))))"

partial_function (option) RequestHeader_read_loop ::
  "bool \<Rightarrow> RequestHeader \<Rightarrow> breader \<Rightarrow> nat \<Rightarrow> (RequestHeader \<times> breader \<times> header_error option) option" where
  "RequestHeader_read_loop waitForMore h r n =
     (case RequestHeader_tryRead h r n of
        None \<Rightarrow> None
      | Some (h', r', None) \<Rightarrow> Some (h', r', None)
      | Some (h', r', Some e) \<Rightarrow>
          if \<not> waitForMore \<or> e \<noteq> errNeedMore
          then Some (h', r', Some (if e = IOErr ErrBufferFull then HeaderBufferSmallErr else e))
          else RequestHeader_read_loop waitForMore h' r' (br_Buffered r' + 1))"

definition RequestHeader_readLoop ::
  "RequestHeader \<Rightarrow> breader \<Rightarrow> bool \<Rightarrow> bool \<Rightarrow> bool \<Rightarrow> (RequestHeader \<times> breader \<times> header_error option) option" where
  "RequestHeader_readLoop h r waitForMore prevMethodIsPost dontReset =
     (let r = (if prevMethodIsPost
               then (case br_Peek r 4 of (r, peek, _) \<Rightarrow> fst (br_Discard r (numLeadingCRorLF peek))) else r);
          h = (if dontReset then h else RequestHeader_resetSkipNormalize h)
      in RequestHeader_read_loop waitForMore h r 1)"

definition RequestHeader_Read ::
  "RequestHeader \<Rightarrow> breader \<Rightarrow> (RequestHeader \<times> breader \<times> header_error option) option" where
  "RequestHeader_Read h r = RequestHeader_readLoop h r True False False"

definition trailer_io :: "io_error \<Rightarrow> header_error" where
  "trailer_io e =
     (if e = EOF then ErrUnexpectedTrailerEOF
      else if e = ErrBufferFull then TrailerHeaderBufferSmallErr else IOErr e)"

definition RequestHeader_tryReadTrailer ::
  "RequestHeader \<Rightarrow> breader \<Rightarrow> nat \<Rightarrow> (RequestHeader \<times> breader \<times> header_error option) option" where
  "RequestHeader_tryReadTrailer h r n =
     (case br_Peek r n of
        (r, b, err) \<Rightarrow>
          if length b \<noteq> n then Some (h, r, map_option trailer_io err)
          else (case mustPeekBuffered r of
                  None \<Rightarrow> None
                | Some (r, b) \<Rightarrow>
                    (case RequestHeader_parseTrailer h b of
                       (h, b', headersLen, Some e) \<Rightarrow> Some (h, r\<lparr>brBuf := b'\<rparr>, Some e)
                     | (h, b', headersLen, None) \<Rightarrow>
                         map_option (\<lambda>r. (h, r, None)) (mustDiscard (r\<lparr>brBuf := b'\<rparr>) headersLen))))"

partial_function (option) RequestHeader_trailer_read_loop ::
  "RequestHeader \<Rightarrow> breader \<Rightarrow> nat \<Rightarrow> (RequestHeader \<times> breader \<times> header_error option) option" where
  "RequestHeader_trailer_read_loop h r n =
     (case RequestHeader_tryReadTrailer h r n of
        None \<Rightarrow> None
      | Some (h', r', None) \<Rightarrow> Some (h', r', None)
      | Some (h', r', Some e) \<Rightarrow>
          if e \<noteq> errNeedMore then Some (h', r', Some e)
          else RequestHeader_trailer_read_loop h' r' (br_Buffered r' + 1))"

definition RequestHeader_ReadTrailer ::
  "RequestHeader \<Rightarrow> breader \<Rightarrow> (RequestHeader \<times> breader \<times> header_error option) option" where
  "RequestHeader_ReadTrailer h r =
     (case br_Peek r 2 of
        (r, buf, err) \<Rightarrow>
          if buf = [rChar, nChar] then Some (h, fst (br_Discard r 2), map_option IOErr err)
          else if length buf < 2
          then Some (h, r, map_option (\<lambda>e. if e = EOF then ErrUnexpectedTrailerEOF else IOErr e) err)
          else RequestHeader_trailer_read_loop h r 1)"

end
