(* ===== verification/RequestRead.thy ===== *)
theory RequestRead
  imports RequestHeader
begin

unbundle bit_operations_syntax

text \<open>
  Reading a request header: the loops of \<^verbatim>\<open>RequestHeader\<close> as clients of the scanner and as parsers of the
  read loop, message framing, and the header delivered in any segmentation.
\<close>

section \<open>The request header as a client of the scanner\<close>

definition rq_step :: "RequestHeader \<Rightarrow> bool \<Rightarrow> bytes \<Rightarrow> bytes \<Rightarrow> RequestHeader \<times> header_error option" where
  "rq_step h d k v = (case check_line k v of Some e \<Rightarrow> (h, Some e) | None \<Rightarrow> RequestHeader_line h d k v)"

definition rq_trailer_step :: "RequestHeader \<Rightarrow> bool \<Rightarrow> bytes \<Rightarrow> bytes \<Rightarrow> RequestHeader \<times> header_error option" where
  "rq_trailer_step h d k v =
     (if k \<noteq> []
      then (if spChar \<in> set k \<or> tabChar \<in> set k then (h, Some (InvalidTrailerKey k))
            else (h\<lparr>rqH := appendArg (rqH h) k v False\<rparr>, None))
      else (h, None))"

lemma check_line_blank: "k \<noteq> [] \<Longrightarrow> hd k = spChar \<or> hd k = tabChar \<Longrightarrow> check_line k v \<noteq> None"
  by (cases k) (auto simp: check_line_def validHeaderFieldByte_def validHeaderFieldByteTable_def)

lemma check_line_error: "check_line k v = Some e \<Longrightarrow> e \<noteq> errNeedMore"
  by (auto simp: check_line_def split: if_splits)

text \<open>One round of \<^verbatim>\<open>AddTrailerBytes\<close>.\<close>

lemma trailer_loop_step:
  assumes "t \<noteq> []"
  obtains k i bk where
    "RequestHeader_trailer_loop h err t =
       (if isBadTrailer k (rqDisableNormalizing h)
        then RequestHeader_trailer_loop (h\<lparr>rqBufK := bk\<rparr>) (Some (BadTrailerKey k)) (drop (i + 1) t)
        else RequestHeader_trailer_loop (h\<lparr>rqBufK := bk, rqTrailer := appendArg (rqTrailer h) k [] True\<rparr>) err (drop (i + 1) t))"
    "k = norm_key (rqDisableNormalizing h) (stripSpace (take i t))"
proof -
  define i where "i = (case index_byte t 0x2C of None \<Rightarrow> length t | Some i \<Rightarrow> i)"
  obtain bk k where ik: "initHeaderK (rqBufK h) (stripSpace (take i t)) (rqDisableNormalizing h) = (bk, k)"
    by (cases "initHeaderK (rqBufK h) (stripSpace (take i t)) (rqDisableNormalizing h)")
  have "k = norm_key (rqDisableNormalizing h) (stripSpace (take i t))"
    using ik by (auto simp: initHeaderK_def norm_key_def Let_def split: if_splits)
  moreover have "RequestHeader_trailer_loop h err t =
       (if isBadTrailer k (rqDisableNormalizing h)
        then RequestHeader_trailer_loop (h\<lparr>rqBufK := bk\<rparr>) (Some (BadTrailerKey k)) (drop (i + 1) t)
        else RequestHeader_trailer_loop (h\<lparr>rqBufK := bk, rqTrailer := appendArg (rqTrailer h) k [] True\<rparr>) err (drop (i + 1) t))"
    using assms by (subst RequestHeader_trailer_loop.simps) (simp add: i_def [symmetric] ik Let_def)
  ultimately show ?thesis using that by blast
qed

lemma trailer_loop_facts:
  "RequestHeader_trailer_loop h err t = (h', e) \<Longrightarrow>
     (\<exists>bk tr. h' = h\<lparr>rqBufK := bk, rqTrailer := tr\<rparr>) \<and> (e = err \<or> (\<exists>k. e = Some (BadTrailerKey k)))"
proof (induction "length t" arbitrary: h err t rule: less_induct)
  case less
  show ?case
  proof (cases "t = []")
    case True
    with less.prems have "h' = h" "e = err" by (simp_all add: RequestHeader_trailer_loop.simps [of h err "[]"])
    then show ?thesis by (auto intro!: exI [of _ "rqBufK h"] exI [of _ "rqTrailer h"])
  next
    case False
    obtain k i bk where st: "RequestHeader_trailer_loop h err t =
       (if isBadTrailer k (rqDisableNormalizing h)
        then RequestHeader_trailer_loop (h\<lparr>rqBufK := bk\<rparr>) (Some (BadTrailerKey k)) (drop (i + 1) t)
        else RequestHeader_trailer_loop (h\<lparr>rqBufK := bk, rqTrailer := appendArg (rqTrailer h) k [] True\<rparr>) err (drop (i + 1) t))"
      by (rule trailer_loop_step [OF False, of h err])
    have l: "length (drop (i + 1) t) < length t" using False by simp
    show ?thesis
    proof (cases "isBadTrailer k (rqDisableNormalizing h)")
      case True
      with less.hyps [OF l, of "h\<lparr>rqBufK := bk\<rparr>" "Some (BadTrailerKey k)"] less.prems st show ?thesis by auto
    next
      case False
      with less.hyps [OF l, of "h\<lparr>rqBufK := bk, rqTrailer := appendArg (rqTrailer h) k [] True\<rparr>" err] less.prems st
      show ?thesis by auto
    qed
  qed
qed

lemma SetTrailer_facts:
  assumes "RequestHeader_SetTrailerBytes h v = (h', e)"
  shows "\<exists>bk tr. h' = h\<lparr>rqBufK := bk, rqTrailer := tr\<rparr>" "e = None \<or> (\<exists>k. e = Some (BadTrailerKey k))"
  using trailer_loop_facts [OF assms [unfolded RequestHeader_SetTrailerBytes_def RequestHeader_AddTrailerBytes_def]]
  by auto

section \<open>The lines without the switch on the first byte\<close>

lemma compare_first: "headNameCompare k x d \<Longrightarrow> x \<noteq> [] \<Longrightarrow> k ! 0 OR 0x20 = x ! 0 OR 0x20"
  by (cases k; cases x) (auto simp: headNameCompare_def caseInsensitiveCompare_def split: if_splits)

lemma first_bytes:
  "headNameCompare k strHost d \<Longrightarrow> k ! 0 OR 0x20 = 0x68" "headNameCompare k strUserAgent d \<Longrightarrow> k ! 0 OR 0x20 = 0x75"
  "headNameCompare k strContentType d \<Longrightarrow> k ! 0 OR 0x20 = 0x63" "headNameCompare k strContentLength d \<Longrightarrow> k ! 0 OR 0x20 = 0x63"
  "headNameCompare k strConnection d \<Longrightarrow> k ! 0 OR 0x20 = 0x63" "headNameCompare k strTransferEncoding d \<Longrightarrow> k ! 0 OR 0x20 = 0x74"
  "headNameCompare k strTrailer d \<Longrightarrow> k ! 0 OR 0x20 = 0x74"
  by (drule compare_first; simp add: hdr_names)+

lemma RequestHeader_line_flat:
  assumes "\<not> rqDisableSpecialHeader h"
  shows "RequestHeader_line h d k v =
     (if headNameCompare k strHost d then (h\<lparr>rqHost := v\<rparr>, None)
      else if headNameCompare k strUserAgent d then (h\<lparr>rqUserAgent := v\<rparr>, None)
      else if headNameCompare k strContentType d then (h\<lparr>rqContentType := v\<rparr>, None)
      else if headNameCompare k strContentLength d
      then (if rqContentLengthSeen h then (h, Some MultipleContentLengthErr)
            else if rqContentLength h = -1 then (h\<lparr>rqContentLengthSeen := True\<rparr>, None)
            else (case parseContentLength v of
                    None \<Rightarrow> (h\<lparr>rqContentLengthSeen := True, rqContentLength := -1\<rparr>, Some ContentLengthNotIntErr)
                  | Some n \<Rightarrow> (h\<lparr>rqContentLengthSeen := True, rqContentLength := n, rqContentLengthBytes := v\<rparr>, None)))
      else if headNameCompare k strConnection d
      then (if v = strClose then (h\<lparr>rqConnectionClose := True\<rparr>, None)
            else (h\<lparr>rqConnectionClose := False, rqH := appendArg (rqH h) k v False\<rparr>, None))
      else if headNameCompare k strTransferEncoding d
      then (if v = strChunked
            then (h\<lparr>rqContentLength := -1, rqH := setArg (rqH h) strTransferEncoding strChunked False\<rparr>, None)
            else (h, Some (UnsupportedTEError v)))
      else if headNameCompare k strTrailer d then RequestHeader_SetTrailerBytes h v
      else (h\<lparr>rqH := appendArg (rqH h) k v False\<rparr>, None))"
proof -
  have c: "headNameCompare v strChunked (rqDisableSpecialHeader h) \<longleftrightarrow> v = strChunked"
    using assms by (simp add: headNameCompare_def)
  note u = RequestHeader_line_def Let_def c if_not_P [OF assms]
  consider "headNameCompare k strHost d" | "\<not> headNameCompare k strHost d" "headNameCompare k strUserAgent d"
    | "k ! 0 OR 0x20 = 0x63" | "k ! 0 OR 0x20 = 0x74"
    | "\<not> headNameCompare k strHost d" "\<not> headNameCompare k strUserAgent d" "k ! 0 OR 0x20 \<noteq> 0x63" "k ! 0 OR 0x20 \<noteq> 0x74"
    by blast
  then show ?thesis
  proof cases
    case 1
    with first_bytes(1) [OF 1] show ?thesis unfolding u by simp
  next
    case 2
    with first_bytes(2) [OF 2(2)] show ?thesis unfolding u by simp
  next
    case 3
    then have "\<not> headNameCompare k strHost d" "\<not> headNameCompare k strUserAgent d" "\<not> headNameCompare k strTransferEncoding d"
      "\<not> headNameCompare k strTrailer d"
      using first_bytes [of k d] by auto
    with 3 show ?thesis unfolding u by (simp cong: if_cong)
  next
    case 4
    then have "\<not> headNameCompare k strHost d" "\<not> headNameCompare k strUserAgent d" "\<not> headNameCompare k strContentType d"
      "\<not> headNameCompare k strContentLength d" "\<not> headNameCompare k strConnection d"
      using first_bytes [of k d] by auto
    with 4 show ?thesis unfolding u by simp
  next
    case 5
    then have "\<not> headNameCompare k strContentType d" "\<not> headNameCompare k strContentLength d"
      "\<not> headNameCompare k strConnection d" "\<not> headNameCompare k strTransferEncoding d" "\<not> headNameCompare k strTrailer d"
      using first_bytes [of k d] by auto
    with 5 show ?thesis unfolding u by simp
  qed
qed

lemma RequestHeader_line_raw:
  "rqDisableSpecialHeader h \<Longrightarrow> RequestHeader_line h d k v = (h\<lparr>rqH := appendArg (rqH h) k v False\<rparr>, None)"
  by (simp add: RequestHeader_line_def)

lemma RequestHeader_line_error: "RequestHeader_line h d k v = (h', Some e) \<Longrightarrow> e \<noteq> errNeedMore"
  by (cases "rqDisableSpecialHeader h")
    (auto simp: RequestHeader_line_raw RequestHeader_line_flat split: if_splits option.splits dest: SetTrailer_facts(2))

lemma RequestHeader_line_first: "RequestHeader_line h d k v = (h', e) \<Longrightarrow> rqFirstLineLen h' = rqFirstLineLen h"
  by (cases "rqDisableSpecialHeader h")
    (auto simp: RequestHeader_line_raw RequestHeader_line_flat split: if_splits option.splits dest: SetTrailer_facts(1))

interpretation rq_headers: scan_client RequestHeader_parseHeaders_loop rq_step "\<lambda>_. False"
proof unfold_locales
  fix h s
  show "RequestHeader_parseHeaders_loop h s =
      (case scan_next s of
         (s', False) \<Rightarrow> (h, s', None)
       | (s', True) \<Rightarrow>
           (case rq_step h (hsDisableNormalizing s') (hsKey s') (hsValue s') of
              (h', Some e) \<Rightarrow> (h', s', Some e)
            | (h', None) \<Rightarrow> RequestHeader_parseHeaders_loop h' s'))"
    by (subst RequestHeader_parseHeaders_loop.simps) (auto simp: rq_step_def split: prod.splits bool.splits option.splits)
next
  fix k h d v h'
  assume "k \<noteq> []" "hd k = spChar \<or> hd k = tabChar" "rq_step h d k v = (h', None)"
  with check_line_blank [of k v] show False by (auto simp: rq_step_def split: option.splits)
next
  fix h d k v h' e
  assume "rq_step h d k v = (h', Some e)"
  then show "e \<noteq> errNeedMore"
    by (auto simp: rq_step_def split: option.splits dest: check_line_error RequestHeader_line_error)
qed auto

interpretation rq_trailers: scan_client RequestHeader_parseTrailer_loop rq_trailer_step "\<lambda>_. False"
proof unfold_locales
  fix h s
  show "RequestHeader_parseTrailer_loop h s =
      (case scan_next s of
         (s', False) \<Rightarrow> (h, s', None)
       | (s', True) \<Rightarrow>
           (case rq_trailer_step h (hsDisableNormalizing s') (hsKey s') (hsValue s') of
              (h', Some e) \<Rightarrow> (h', s', Some e)
            | (h', None) \<Rightarrow> RequestHeader_parseTrailer_loop h' s'))"
    by (subst RequestHeader_parseTrailer_loop.simps) (auto simp: rq_trailer_step_def split: prod.splits bool.splits)
next
  fix k h d v h'
  assume "k \<noteq> []" "hd k = spChar \<or> hd k = tabChar" "rq_trailer_step h d k v = (h', None)"
  then show False by (cases k) (auto simp: rq_trailer_step_def split: if_splits)
qed (auto simp: rq_trailer_step_def split: if_splits)

section \<open>The request header as a parser of the read loop\<close>

lemma scanned_buf_length [simp]: "length (scanned_buf s) = mem_length s"
  by (simp add: scanned_buf_def mem_length_def)

lemma counted_le: "counted s \<Longrightarrow> 0 \<le> hsHLen s \<and> nat (hsHLen s) \<le> mem_length s"
  by (simp add: counted_def mem_length_def)

lemma parseHeaders_facts:
  assumes "RequestHeader_parseHeaders h buf = (h', buf', n, e)"
  shows "length buf' = length buf" "e = None \<Longrightarrow> 0 \<le> n \<and> nat n \<le> length buf"
proof -
  let ?h = "h\<lparr>rqContentLength := 0, rqContentLengthSeen := False\<rparr>"
  obtain h1 s1 e1 where l: "RequestHeader_parseHeaders_loop ?h (new_scanner buf (rqDisableNormalizing ?h)) = (h1, s1, e1)"
    by (cases "RequestHeader_parseHeaders_loop ?h (new_scanner buf (rqDisableNormalizing ?h))")
  note m = rq_headers.loop_mem [OF l] new_scanner_aligned [of buf "rqDisableNormalizing ?h"]
  show "length buf' = length buf"
    using assms m unfolding RequestHeader_parseHeaders_def Let_def l by (auto split: option.splits)
  assume "e = None"
  with assms have e: "e1 = None" "hsErr s1 = None" "n = hsHLen s1"
    unfolding RequestHeader_parseHeaders_def Let_def l by (auto split: option.splits)
  with rq_headers.loop_counted [of ?h "new_scanner buf (rqDisableNormalizing ?h)" h1 s1] l m counted_le [of s1]
  show "0 \<le> n \<and> nat n \<le> length buf" by simp
qed

lemma parseTrailer_facts:
  assumes "RequestHeader_parseTrailer h buf = (h', buf', n, e)"
  shows "length buf' = length buf" "e = None \<Longrightarrow> 0 \<le> n \<and> nat n \<le> length buf"
proof -
  obtain h1 s1 e1 where l: "RequestHeader_parseTrailer_loop h (new_scanner buf (rqDisableNormalizing h)) = (h1, s1, e1)"
    by (cases "RequestHeader_parseTrailer_loop h (new_scanner buf (rqDisableNormalizing h))")
  note m = rq_trailers.loop_mem [OF l] new_scanner_aligned [of buf "rqDisableNormalizing h"]
  show "length buf' = length buf"
    using assms m unfolding RequestHeader_parseTrailer_def Let_def l by (auto split: option.splits)
  assume "e = None"
  with assms have e: "e1 = None" "hsErr s1 = None" "n = hsHLen s1"
    unfolding RequestHeader_parseTrailer_def Let_def l by (auto split: option.splits)
  with rq_trailers.loop_counted [of h "new_scanner buf (rqDisableNormalizing h)" h1 s1] l m counted_le [of s1]
  show "0 \<le> n \<and> nat n \<le> length buf" by simp
qed

text \<open>The stored length of the first line never exceeds what is buffered.\<close>

definition rq_pinv :: "RequestHeader \<Rightarrow> nat \<Rightarrow> bool" where
  "rq_pinv h k \<longleftrightarrow> 0 \<le> rqFirstLineLen h \<and> rqFirstLineLen h \<le> int k"

lemma nextLine_length: "nextLine b = Some (l, r) \<Longrightarrow> length r < length b"
  by (auto simp: nextLine_def Let_def dest: index_byte_lt split: option.splits)

lemma parseFirstLine_facts:
  assumes "RequestHeader_parseFirstLine h buf = (h', m, e)"
  shows "e = None \<Longrightarrow> rqFirstLineLen h' = m \<and> 0 < m \<and> m \<le> int (length buf)" "e \<noteq> None \<Longrightarrow> h' = h"
  using assms unfolding RequestHeader_parseFirstLine_def
  by (auto simp: Let_def dest: nextLine_length split: option.splits prod.splits if_splits)

lemma parseHeaders_first:
  assumes "RequestHeader_parseHeaders h buf = (h', buf', n, e)"
  shows "rqFirstLineLen h' = rqFirstLineLen h"
proof -
  let ?h = "h\<lparr>rqContentLength := 0, rqContentLengthSeen := False\<rparr>"
  obtain h1 s1 e1 where l: "RequestHeader_parseHeaders_loop ?h (new_scanner buf (rqDisableNormalizing ?h)) = (h1, s1, e1)"
    by (cases "RequestHeader_parseHeaders_loop ?h (new_scanner buf (rqDisableNormalizing ?h))")
  have "rqFirstLineLen h1 = rqFirstLineLen ?h"
    by (rule rq_headers.loop_invariant [where P = "\<lambda>h. rqFirstLineLen h = rqFirstLineLen ?h", OF _ l])
      (auto simp: rq_step_def split: option.splits dest: RequestHeader_line_first)
  then show ?thesis
    using assms unfolding RequestHeader_parseHeaders_def Let_def l
    by (auto simp: RequestHeader_finish_def Let_def split: option.splits)
qed

lemma parse_facts:
  assumes "RequestHeader_parse h buf = (h', buf', n, e)"
  shows "length buf' = length buf"
    and "rq_pinv h (length buf) \<Longrightarrow> rq_pinv h' (length buf)"
    and "rq_pinv h (length buf) \<Longrightarrow> e = None \<Longrightarrow> 0 \<le> n \<and> nat n \<le> length buf"
proof -
  obtain h1 m e1 where f: "(if rqFirstLineLen h = 0 then RequestHeader_parseFirstLine h buf else (h, rqFirstLineLen h, None)) = (h1, m, e1)"
    by (cases "if rqFirstLineLen h = 0 then RequestHeader_parseFirstLine h buf else (h, rqFirstLineLen h, None)")
  have m: "rq_pinv h1 (length buf) \<and> (e1 = None \<longrightarrow> 0 \<le> m \<and> m \<le> int (length buf) \<and> rqFirstLineLen h1 = m)"
    if "rq_pinv h (length buf)"
    using f that parseFirstLine_facts [of h buf h1 m e1] by (cases e1) (auto simp: rq_pinv_def split: if_splits)
  obtain raw k e2 where r: "readRawHeaders [] (drop (nat m) buf) = (raw, k, e2)"
    by (cases "readRawHeaders [] (drop (nat m) buf)")
  obtain h3 b3 n3 e3 where p: "RequestHeader_parseHeaders (h1\<lparr>rqRawHeaders := raw\<rparr>) (drop (nat m) buf) = (h3, b3, n3, e3)"
    by (cases "RequestHeader_parseHeaders (h1\<lparr>rqRawHeaders := raw\<rparr>) (drop (nat m) buf)")
  note pf = parseHeaders_facts [OF p] parseHeaders_first [OF p]
  note d = assms [unfolded RequestHeader_parse_def f prod.case Let_def r p]
  show "length buf' = length buf"
    using d pf(1) by (auto split: option.splits)
  show "rq_pinv h' (length buf)" if "rq_pinv h (length buf)"
    using d pf(3) m [OF that] by (auto simp: rq_pinv_def split: option.splits)
  show "0 \<le> n \<and> nat n \<le> length buf" if "rq_pinv h (length buf)" "e = None"
    using d pf(2) m [OF that(1)] that(2) by (auto split: option.splits)
qed

interpretation rq_reader: header_reader RequestHeader_parse header_eof RequestHeader_tryRead rq_pinv
  "RequestHeader_read_loop True" "\<lambda>e. if e = IOErr ErrBufferFull then HeaderBufferSmallErr else e"
proof unfold_locales
  fix h r n
  show "RequestHeader_read_loop True h r n =
      (case RequestHeader_tryRead h r n of
         None \<Rightarrow> None
       | Some (h', r', None) \<Rightarrow> Some (h', r', None)
       | Some (h', r', Some e) \<Rightarrow>
           if e \<noteq> errNeedMore then Some (h', r', Some (if e = IOErr ErrBufferFull then HeaderBufferSmallErr else e))
           else RequestHeader_read_loop True h' r' (br_Buffered r' + 1))"
    by (subst RequestHeader_read_loop.simps) (auto split: option.splits)
  fix x
  show "header_eof x \<noteq> errNeedMore" by (simp add: header_eof_def)
qed (auto simp: RequestHeader_tryRead_def rq_pinv_def dest: parse_facts(1) parse_facts(2) [unfolded rq_pinv_def]
      parse_facts(3) [unfolded rq_pinv_def])

interpretation rq_trailer_reader: header_reader RequestHeader_parseTrailer trailer_io RequestHeader_tryReadTrailer
  "\<lambda>_ _. True" RequestHeader_trailer_read_loop "\<lambda>e. e"
proof unfold_locales
  fix h r n
  show "RequestHeader_trailer_read_loop h r n =
      (case RequestHeader_tryReadTrailer h r n of
         None \<Rightarrow> None
       | Some (h', r', None) \<Rightarrow> Some (h', r', None)
       | Some (h', r', Some e) \<Rightarrow>
           if e \<noteq> errNeedMore then Some (h', r', Some e)
           else RequestHeader_trailer_read_loop h' r' (br_Buffered r' + 1))"
    by (subst RequestHeader_trailer_read_loop.simps) (rule refl)
  show "RequestHeader_tryReadTrailer h r n =
      (case br_Peek r n of
         (r, b, err) \<Rightarrow>
           if n \<noteq> length b then Some (h, r, map_option trailer_io err)
           else (case mustPeekBuffered r of
                   None \<Rightarrow> None
                 | Some (r, b) \<Rightarrow>
                     (case RequestHeader_parseTrailer h b of
                        (h, b', l, Some e) \<Rightarrow> Some (h, r\<lparr>brBuf := b'\<rparr>, Some e)
                      | (h, b', l, None) \<Rightarrow> map_option (\<lambda>r. (h, r, None)) (mustDiscard (r\<lparr>brBuf := b'\<rparr>) l))))"
    unfolding RequestHeader_tryReadTrailer_def by (simp add: eq_commute)
  fix x
  show "trailer_io x \<noteq> errNeedMore" by (simp add: trailer_io_def)
qed (auto dest: parseTrailer_facts)

section \<open>Reading always returns\<close>

lemma reset_pinv: "rq_pinv (RequestHeader_resetSkipNormalize h) k"
  by (simp add: rq_pinv_def RequestHeader_resetSkipNormalize_def)

text \<open>C22: For every connection, whatever it delivers and however it fails, reading a request header and reading a
  request trailer return: the loops end, none of their sanity checks panics, and the internal request for more data
  is never the result.\<close>

theorem request_Read_returns:
  assumes "br_ok r"
  shows "(\<exists>h' r' e. RequestHeader_Read h r = Some (h', r', e) \<and> e \<noteq> Some errNeedMore) \<and>
         (\<exists>h' r' e. RequestHeader_ReadTrailer h r = Some (h', r', e) \<and> e \<noteq> Some errNeedMore)"
proof
  have "read_inv rq_pinv (RequestHeader_resetSkipNormalize h) r" using assms by (simp add: read_inv_def reset_pinv)
  from rq_reader.loop_returns [OF this, of 1]
  show "\<exists>h' r' e. RequestHeader_Read h r = Some (h', r', e) \<and> e \<noteq> Some errNeedMore"
    by (simp add: RequestHeader_Read_def RequestHeader_readLoop_def)
  obtain r1 b e where p: "br_Peek r 2 = (r1, b, e)" by (cases "br_Peek r 2")
  have "read_inv (\<lambda>_ _. True) h r1" using Peek_facts(2) [OF p] assms by (simp add: read_inv_def)
  from rq_trailer_reader.loop_returns [OF this, of 1]
  show "\<exists>h' r' e. RequestHeader_ReadTrailer h r = Some (h', r', e) \<and> e \<noteq> Some errNeedMore"
    unfolding RequestHeader_ReadTrailer_def p by (cases e) auto
qed

theorem request_Read_returns_witness:
  "\<exists>h' r' e. RequestHeader_Read emptyRequestHeader (new_reader 16 [bs ''GET '']) = Some (h', r', e) \<and> e \<noteq> Some errNeedMore"
  using request_Read_returns [of "new_reader 16 [bs ''GET '']" emptyRequestHeader] by (simp add: br_ok_def new_reader_def)

section \<open>Message framing\<close>

lemma parseUintBuf_loop_nonneg:
  "parseUintBuf_loop b i v = (w, n, None) \<Longrightarrow> 0 \<le> v \<Longrightarrow> 0 \<le> w"
  by (induction b i v rule: parseUintBuf_loop.induct) (auto simp: Let_def split: if_splits)

lemma parseContentLength_nonneg: "parseContentLength v = Some n \<Longrightarrow> 0 \<le> n"
  by (auto simp: parseContentLength_def parseUintBuf_def split: prod.splits option.splits if_splits
      dest: parseUintBuf_loop_nonneg)

definition line_values :: "bytes \<Rightarrow> (bytes \<times> bytes) list \<Rightarrow> bytes list" where
  "line_values name ps = map snd (filter (\<lambda>p. fst p = name) ps)"

lemma line_values_simps [simp]:
  "line_values name [] = []"
  "line_values name ((k, v) # ps) = (if k = name then v # line_values name ps else line_values name ps)"
  by (simp_all add: line_values_def)

lemma names_distinct:
  "strContentLength \<noteq> strTransferEncoding" "strHost \<noteq> strContentLength" "strHost \<noteq> strTransferEncoding"
  "strUserAgent \<noteq> strContentLength" "strUserAgent \<noteq> strTransferEncoding" "strContentType \<noteq> strContentLength"
  "strContentType \<noteq> strTransferEncoding" "strConnection \<noteq> strContentLength" "strConnection \<noteq> strTransferEncoding"
  "strTrailer \<noteq> strContentLength" "strTrailer \<noteq> strTransferEncoding"
  by (simp_all add: hdr_names)

text \<open>What one accepted line does to the fields that frame the message.\<close>

lemma rq_step_framing:
  assumes "rq_step h False k v = (h', None)" "\<not> rqDisableSpecialHeader h"
  shows "\<not> rqDisableSpecialHeader h'"
    and "k = strContentLength \<Longrightarrow> \<not> rqContentLengthSeen h \<and> rqContentLengthSeen h' \<and>
           (if rqContentLength h = -1 then rqContentLength h' = -1
            else parseContentLength v = Some (rqContentLength h'))"
    and "k = strTransferEncoding \<Longrightarrow> v = strChunked \<and> rqContentLength h' = -1 \<and> rqContentLengthSeen h' = rqContentLengthSeen h"
    and "k \<noteq> strContentLength \<Longrightarrow> k \<noteq> strTransferEncoding \<Longrightarrow>
           rqContentLength h' = rqContentLength h \<and> rqContentLengthSeen h' = rqContentLengthSeen h"
proof -
  from assms(1) have l: "RequestHeader_line h False k v = (h', None)"
    by (auto simp: rq_step_def split: option.splits)
  note l = l [unfolded RequestHeader_line_flat [OF assms(2)] headNameCompare_def not_False_eq_True if_True]
  show "\<not> rqDisableSpecialHeader h'"
    using l assms(2) by (auto split: if_splits option.splits dest: SetTrailer_facts(1))
  show "k = strContentLength \<Longrightarrow> \<not> rqContentLengthSeen h \<and> rqContentLengthSeen h' \<and>
           (if rqContentLength h = -1 then rqContentLength h' = -1
            else parseContentLength v = Some (rqContentLength h'))"
    using l names_distinct by (auto split: if_splits option.splits)
  show "k = strTransferEncoding \<Longrightarrow> v = strChunked \<and> rqContentLength h' = -1 \<and> rqContentLengthSeen h' = rqContentLengthSeen h"
    using l names_distinct by (auto split: if_splits option.splits)
  show "k \<noteq> strContentLength \<Longrightarrow> k \<noteq> strTransferEncoding \<Longrightarrow>
           rqContentLength h' = rqContentLength h \<and> rqContentLengthSeen h' = rqContentLengthSeen h"
    using l by (auto split: if_splits option.splits dest: SetTrailer_facts(1))
qed

definition framed :: "int \<Rightarrow> bytes list \<Rightarrow> bytes list \<Rightarrow> int \<Rightarrow> bool" where
  "framed l cls tes l' \<longleftrightarrow>
     (if l = -1 \<or> tes \<noteq> [] then l' = -1
      else (\<forall>v \<in> set cls. parseContentLength v \<noteq> None) \<and> l' = (case cls of [] \<Rightarrow> l | v # _ \<Rightarrow> the (parseContentLength v)))"

lemma apply_lines_framing:
  assumes "apply_lines rq_step h False ps = (h', None)" "\<not> rqDisableSpecialHeader h" "0 \<le> rqContentLength h \<or> rqContentLength h = -1"
  shows "(rqContentLengthSeen h \<longrightarrow> line_values strContentLength ps = []) \<and> length (line_values strContentLength ps) \<le> 1 \<and>
         set (line_values strTransferEncoding ps) \<subseteq> {strChunked} \<and>
         framed (rqContentLength h) (line_values strContentLength ps) (line_values strTransferEncoding ps) (rqContentLength h')"
  using assms
proof (induction ps arbitrary: h)
  case Nil
  then show ?case by (auto simp: framed_def)
next
  case (Cons p ps)
  obtain k v where p: "p = (k, v)" by (cases p)
  from Cons.prems(1) obtain h1 where st: "rq_step h False k v = (h1, None)"
    and r: "apply_lines rq_step h1 False ps = (h', None)" by (auto simp: p split: prod.splits option.splits)
  note f = rq_step_framing [OF st Cons.prems(2)]
  consider (cl) "k = strContentLength" | (te) "k = strTransferEncoding"
    | (other) "k \<noteq> strContentLength" "k \<noteq> strTransferEncoding" by blast
  then show ?case
  proof cases
    case cl
    have n: "0 \<le> rqContentLength h1 \<or> rqContentLength h1 = -1"
      using f(2) [OF cl] parseContentLength_nonneg by (auto split: if_splits)
    from Cons.IH [OF r f(1) n] f(2) [OF cl] cl names_distinct(1) parseContentLength_nonneg Cons.prems(3) show ?thesis
      by (auto simp: p framed_def split: if_splits)
  next
    case te
    with Cons.IH [OF r f(1)] f(3) [OF te] names_distinct(1) show ?thesis by (auto simp: p framed_def)
  next
    case other
    with Cons.IH [OF r f(1)] f(4) [OF other] Cons.prems(3) show ?thesis by (auto simp: p)
  qed
qed

text \<open>C11: An accepted request header frames its message in one way. Of the scanned lines at most one is a
  Content-Length, every Transfer-Encoding is exactly \<open>chunked\<close>; if there is a Transfer-Encoding the body is chunked and the
  recorded Content-Length text is dropped, whatever Content-Length says; otherwise the length is the number in the
  Content-Length line, which is never negative, or zero. This holds for every buffer that is accepted.\<close>

theorem request_framing:
  assumes "RequestHeader_parseHeaders h buf = (h', buf', n, None)" "\<not> rqDisableSpecialHeader h" "\<not> rqDisableNormalizing h"
  defines "cls \<equiv> line_values strContentLength (fst (scan_all (new_scanner buf False)))"
    and "tes \<equiv> line_values strTransferEncoding (fst (scan_all (new_scanner buf False)))"
  shows "length cls \<le> 1 \<and> set tes \<subseteq> {strChunked} \<and>
         (if tes \<noteq> [] then rqContentLength h' = -1 \<and> rqContentLengthBytes h' = []
          else rqContentLength h' = (case cls of [] \<Rightarrow> 0 | v # _ \<Rightarrow> the (parseContentLength v)) \<and>
               (\<forall>v \<in> set cls. parseContentLength v = Some (rqContentLength h')) \<and> 0 \<le> rqContentLength h')"
proof -
  let ?h = "h\<lparr>rqContentLength := 0, rqContentLengthSeen := False\<rparr>"
  let ?s = "new_scanner buf False"
  have d: "rqDisableNormalizing ?h = False" "hsDisableNormalizing ?s = False"
    using assms(3) by (simp_all add: new_scanner_def)
  obtain h1 where h1: "apply_lines rq_step ?h False (fst (scan_all ?s)) = (h1, None)"
    and h': "h' = RequestHeader_finish h1"
    using rq_headers.loop_lines [of ?h ?s] assms(1) unfolding RequestHeader_parseHeaders_def Let_def d
    by (auto split: prod.splits option.splits)
  have "rqContentLength h' = rqContentLength h1" "rqContentLength h1 < 0 \<Longrightarrow> rqContentLengthBytes h' = []"
    by (simp_all add: h' RequestHeader_finish_def Let_def)
  with apply_lines_framing [OF h1] assms(2) show ?thesis
    unfolding cls_def [symmetric] tes_def [symmetric] framed_def
    by (cases cls) (auto split: if_splits dest: parseContentLength_nonneg)
qed

lemma loop_mem_scan_all: "mem_length (snd (scan_all s)) = mem_length s"
proof (induction "length (hsB s)" arbitrary: s rule: less_induct)
  case less
  obtain t r where t: "scan_next s = (t, r)" by (cases "scan_next s")
  show ?case
    using less.hyps [of t] scan_next_progress [of s t] scan_next_mem [OF t] t
    by (cases r) (subst scan_all.simps, simp add: split_beta)+
qed

text \<open>A printed block is parsed line by line, and the bytes behind it stay where they are.\<close>

lemma parseHeaders_print:
  assumes ps: "list_all line_ok ps"
    and st: "apply_lines rq_step (h\<lparr>rqContentLength := 0, rqContentLengthSeen := False\<rparr>) d (map (\<lambda>(k, v). (norm_key d k, v)) ps) = (h1, None)"
    and d: "rqDisableNormalizing h = d"
  defines "L \<equiv> length (print_lines ps) + 2"
  shows "\<exists>b. RequestHeader_parseHeaders h (print_lines ps @ [rChar, nChar] @ body) = (RequestHeader_finish h1, b, int L, None) \<and>
             drop L b = body"
proof -
  let ?s = "new_scanner (print_lines ps @ [rChar, nChar] @ body) d"
  have s: "at_line ?s" "hsB ?s = print_lines ps @ rChar # nChar # body" "hsDisableNormalizing ?s = d" "hsHLen ?s = 0" "hsTail ?s = []"
    by (simp_all add: new_scanner_def at_line_def)
  from scan_all_print [OF ps s(1,2)] s obtain e where e: "scan_all ?s = (map (\<lambda>(k, v). (norm_key d k, v)) ps, e)"
    "hsErr e = None" "hsB e = body" "hsHLen e = int L" "hsTail e = []" by (auto simp: L_def)
  have l: "RequestHeader_parseHeaders_loop (h\<lparr>rqContentLength := 0, rqContentLengthSeen := False\<rparr>) ?s = (h1, e, None)"
    using rq_headers.loop_lines [of "h\<lparr>rqContentLength := 0, rqContentLengthSeen := False\<rparr>" ?s] st e s(3) by simp
  have "length (hsDone e) = L"
    using loop_mem_scan_all [of ?s] e new_scanner_aligned(2) [of "print_lines ps @ [rChar, nChar] @ body" d]
    by (simp add: mem_length_def L_def)
  then have "drop L (scanned_buf e) = body" using e by (simp add: scanned_buf_def)
  moreover have "RequestHeader_parseHeaders h (print_lines ps @ [rChar, nChar] @ body) = (RequestHeader_finish h1, scanned_buf e, int L, None)"
    unfolding RequestHeader_parseHeaders_def Let_def using d l e by simp
  ultimately show ?thesis by blast
qed

definition sample_framing :: "(bytes \<times> bytes) list" where
  "sample_framing = [(strContentLength, bs ''5''), (strTransferEncoding, strChunked)]"

lemma sample_framing_lines: "list_all line_ok sample_framing"
  by (simp add: sample_framing_def line_ok_def line_key_def line_value_def hdr_names)

lemma check_line_None:
  "k \<noteq> [] \<Longrightarrow> list_all validHeaderFieldByte k \<Longrightarrow> list_all validHeaderValueByte v \<Longrightarrow> check_line k v = None"
  by (simp add: check_line_def)

lemma names_valid:
  "list_all validHeaderFieldByte strContentLength" "list_all validHeaderFieldByte strTransferEncoding"
  "list_all validHeaderFieldByte strHost" "list_all validHeaderFieldByte strUserAgent" "list_all validHeaderFieldByte strContentType"
  "list_all validHeaderFieldByte strConnection" "list_all validHeaderFieldByte strCookie"
  "list_all validHeaderValueByte strChunked" "list_all validHeaderValueByte strClose"
  by (simp_all add: hdr_names validHeaderFieldByte_def validHeaderFieldByteTable_def validHeaderValueByte_def validHeaderValueByteTable_def)

lemma names_normal:
  "normalizeHeaderKeyV2 strContentLength = strContentLength" "normalizeHeaderKeyV2 strTransferEncoding = strTransferEncoding"
  "normalizeHeaderKeyV2 strHost = strHost" "normalizeHeaderKeyV2 strUserAgent = strUserAgent"
  "normalizeHeaderKeyV2 strContentType = strContentType" "normalizeHeaderKeyV2 strConnection = strConnection"
  "normalizeHeaderKeyV2 strCookie = strCookie"
  by (simp_all add: hdr_names normalizeHeaderKeyV2_def toUpperTable_def toLowerTable_def)

definition special_names :: "bytes list" where
  "special_names = [strHost, strUserAgent, strContentType, strContentLength, strConnection, strTransferEncoding, strTrailer]"

lemma special_names_distinct: "distinct special_names" "[] \<notin> set special_names" "strCookie \<notin> set special_names"
  by (simp_all add: special_names_def hdr_names)

lemma special_names_neq:
  "strHost \<noteq> strUserAgent" "strHost \<noteq> strContentType" "strHost \<noteq> strContentLength" "strHost \<noteq> strConnection"
  "strHost \<noteq> strTransferEncoding" "strHost \<noteq> strTrailer" "strUserAgent \<noteq> strHost" "strUserAgent \<noteq> strContentType"
  "strUserAgent \<noteq> strContentLength" "strUserAgent \<noteq> strConnection" "strUserAgent \<noteq> strTransferEncoding" "strUserAgent \<noteq> strTrailer"
  "strContentType \<noteq> strHost" "strContentType \<noteq> strUserAgent" "strContentType \<noteq> strContentLength" "strContentType \<noteq> strConnection"
  "strContentType \<noteq> strTransferEncoding" "strContentType \<noteq> strTrailer" "strContentLength \<noteq> strHost" "strContentLength \<noteq> strUserAgent"
  "strContentLength \<noteq> strContentType" "strContentLength \<noteq> strConnection" "strContentLength \<noteq> strTransferEncoding" "strContentLength \<noteq> strTrailer"
  "strConnection \<noteq> strHost" "strConnection \<noteq> strUserAgent" "strConnection \<noteq> strContentType" "strConnection \<noteq> strContentLength"
  "strConnection \<noteq> strTransferEncoding" "strConnection \<noteq> strTrailer" "strTransferEncoding \<noteq> strHost" "strTransferEncoding \<noteq> strUserAgent"
  "strTransferEncoding \<noteq> strContentType" "strTransferEncoding \<noteq> strContentLength" "strTransferEncoding \<noteq> strConnection" "strTransferEncoding \<noteq> strTrailer"
  "strTrailer \<noteq> strHost" "strTrailer \<noteq> strUserAgent" "strTrailer \<noteq> strContentType" "strTrailer \<noteq> strContentLength"
  "strTrailer \<noteq> strConnection" "strTrailer \<noteq> strTransferEncoding"
  using special_names_distinct(1) by (auto simp: special_names_def)

lemma names_not_Nil [simp]:
  "strHost \<noteq> []" "strUserAgent \<noteq> []" "strContentType \<noteq> []" "strContentLength \<noteq> []" "strConnection \<noteq> []"
  "strTransferEncoding \<noteq> []" "strTrailer \<noteq> []" "strCookie \<noteq> []"
  by (simp_all add: hdr_names)

lemma rq_step_special:
  assumes "\<not> rqDisableSpecialHeader h" "list_all validHeaderValueByte v"
  shows "rq_step h False strHost v = (h\<lparr>rqHost := v\<rparr>, None)"
    and "rq_step h False strUserAgent v = (h\<lparr>rqUserAgent := v\<rparr>, None)"
    and "rq_step h False strContentType v = (h\<lparr>rqContentType := v\<rparr>, None)"
    and "\<not> rqContentLengthSeen h \<Longrightarrow> rqContentLength h \<noteq> -1 \<Longrightarrow> parseContentLength v = Some n \<Longrightarrow>
           rq_step h False strContentLength v = (h\<lparr>rqContentLengthSeen := True, rqContentLength := n, rqContentLengthBytes := v\<rparr>, None)"
    and "v = strClose \<Longrightarrow> rq_step h False strConnection v = (h\<lparr>rqConnectionClose := True\<rparr>, None)"
    and "v = strChunked \<Longrightarrow> rq_step h False strTransferEncoding v =
           (h\<lparr>rqContentLength := -1, rqH := setArg (rqH h) strTransferEncoding strChunked False\<rparr>, None)"
    and "k \<notin> set special_names \<Longrightarrow> k \<noteq> [] \<Longrightarrow> list_all validHeaderFieldByte k \<Longrightarrow>
           rq_step h False k v = (h\<lparr>rqH := appendArg (rqH h) k v False\<rparr>, None)"
  using assms
  by (simp_all add: special_names_neq special_names_def rq_step_def check_line_None names_valid RequestHeader_line_flat headNameCompare_def)

theorem request_framing_witness:
  "\<exists>h' buf' n. RequestHeader_parseHeaders emptyRequestHeader (print_lines sample_framing @ [rChar, nChar]) = (h', buf', n, None) \<and>
     rqContentLength h' = -1 \<and> rqContentLengthBytes h' = []"
proof -
  let ?h = "emptyRequestHeader\<lparr>rqContentLength := 0, rqContentLengthSeen := False\<rparr>"
  have v: "list_all validHeaderValueByte (bs ''5'')" by (simp add: validHeaderValueByte_def validHeaderValueByteTable_def)
  have p: "parseContentLength (bs ''5'') = Some 5"
    by (simp add: parseContentLength_def parseUintBuf_def wrap64_def)
  have "\<exists>h1. apply_lines rq_step ?h False sample_framing = (h1, None)"
    using rq_step_special(4) [of ?h "bs ''5''" 5] rq_step_special(6) [of _ strChunked] p v names_valid(8)
    by (simp add: sample_framing_def emptyRequestHeader_def)
  then obtain h1 where h1: "apply_lines rq_step ?h False (map (\<lambda>(k, v). (norm_key False k, v)) sample_framing) = (h1, None)"
    by (auto simp: sample_framing_def norm_key_def names_normal)
  have d: "rqDisableNormalizing emptyRequestHeader = False" "rqDisableSpecialHeader emptyRequestHeader = False"
    by (simp_all add: emptyRequestHeader_def)
  from parseHeaders_print [OF sample_framing_lines h1 d(1), of "[]"] obtain b n where
    b: "RequestHeader_parseHeaders emptyRequestHeader (print_lines sample_framing @ [rChar, nChar]) = (RequestHeader_finish h1, b, n, None)"
    by auto
  let ?s = "new_scanner (print_lines sample_framing @ [rChar, nChar]) False"
  have "fst (scan_all ?s) = map (\<lambda>(k, v). (norm_key False k, v)) sample_framing"
    using scan_all_print [OF sample_framing_lines, of ?s "[]"] by (auto simp: new_scanner_def at_line_def)
  then have "line_values strTransferEncoding (fst (scan_all ?s)) \<noteq> []"
    by (simp add: sample_framing_def norm_key_def names_normal)
  with request_framing [OF b] d b show ?thesis by auto
qed

end
