(* ===== verification/RequestRoundtrip.thy ===== *)
theory RequestRoundtrip
  imports RequestRead
begin

text \<open>
  A request header that is printed, sent over a connection in any segmentation and read again. The theory also
  holds what the reader accepts as a request line.
\<close>

section \<open>The end of the header block\<close>

text \<open>The length of the block up to and with the first empty line.\<close>

function raw_end :: "bytes \<Rightarrow> nat option" where
  "raw_end b =
     (case index_byte b nChar of
        None \<Rightarrow> None
      | Some k \<Rightarrow> if k = 1 \<and> b ! 0 = rChar \<or> k = 0 then Some (k + 1)
                  else map_option (\<lambda>e. k + 1 + e) (raw_end (drop (k + 1) b)))"
  by pat_completeness auto
termination
  by (relation "measure length") (auto dest: index_byte_lt)

declare raw_end.simps [simp del]

lemma raw_loop_eq: "readRawHeaders_loop buf b m n = map_option (\<lambda>k. n + k) (raw_end (drop m b))"
proof (induction buf b m n rule: readRawHeaders_loop.induct)
  case (1 buf b m n)
  show ?case
  proof (cases "index_byte (drop m b) nChar")
    case None
    then show ?thesis by (subst readRawHeaders_loop.simps, subst raw_end.simps) simp
  next
    case (Some k)
    with "1.IH" [OF refl Some refl refl] show ?thesis
      by (subst readRawHeaders_loop.simps, subst raw_end.simps) (auto simp: option.map_comp comp_def add.assoc)
  qed
qed

lemma readRawHeaders_more: "raw_end buf = None \<Longrightarrow> readRawHeaders [] buf = ([], 0, Some errNeedMore)"
proof (cases "index_byte buf nChar")
  case None
  then show ?thesis by (simp add: readRawHeaders_def)
next
  case (Some k)
  moreover assume "raw_end buf = None"
  ultimately show ?thesis
    by (subst (asm) raw_end.simps) (auto simp: readRawHeaders_def raw_loop_eq split: if_splits)
qed

lemma readRawHeaders_done:
  assumes "raw_end buf = Some n"
  shows "readRawHeaders [] buf = (if take 1 buf = [nChar] \<or> take 2 buf = [rChar, nChar] then [] else take n buf, n, None)"
proof (cases "index_byte buf nChar")
  case None
  with assms show ?thesis by (subst (asm) raw_end.simps) simp
next
  case (Some k)
  note k = index_byte_SomeD [OF Some]
  have "k = 1 \<and> buf ! 0 = rChar \<or> k = 0 \<longleftrightarrow> take 1 buf = [nChar] \<or> take 2 buf = [rChar, nChar]"
    using k by (cases buf; cases "tl buf"; cases k; cases "k - 1") (auto split: if_splits)
  with assms Some show ?thesis
    by (subst (asm) raw_end.simps) (auto simp: readRawHeaders_def raw_loop_eq split: if_splits)
qed

lemma raw_end_line:
  assumes "nChar \<notin> set l" "l \<noteq> []" "l \<noteq> [rChar]"
  shows "raw_end (l @ nChar # r) = map_option (\<lambda>e. length l + 1 + e) (raw_end r)"
proof -
  have "\<not> (length l = 1 \<and> (l @ nChar # r) ! 0 = rChar \<or> length l = 0)" using assms by (cases l) auto
  then show ?thesis
    by (subst raw_end.simps) (simp only: index_byte_first [OF assms(1)] option.case if_False, simp)
qed

lemma raw_end_blank: "raw_end (rChar # nChar # r) = Some 2"
  by (simp add: raw_end.simps)

lemma raw_end_short: "nChar \<notin> set b \<Longrightarrow> raw_end b = None"
  by (simp add: raw_end.simps)

text \<open>A printed line up to its line feed.\<close>

definition line_text :: "bytes \<times> bytes \<Rightarrow> bytes" where
  "line_text p = fst p @ bs '': '' @ snd p @ [rChar]"

lemma print_lines_Cons: "print_lines (p # ps) = line_text p @ nChar # print_lines ps"
  by (cases p) (simp add: line_text_def)

lemma line_text_ok: "line_ok p \<Longrightarrow> nChar \<notin> set (line_text p) \<and> line_text p \<noteq> [] \<and> line_text p \<noteq> [rChar]"
  by (cases p; cases "fst p") (auto simp: line_text_def line_ok_def line_key_def line_value_def)

lemma raw_end_print:
  "list_all line_ok ps \<Longrightarrow> raw_end (print_lines ps @ rChar # nChar # r) = Some (length (print_lines ps) + 2)"
proof (induction ps)
  case Nil
  then show ?case by (simp add: raw_end_blank)
next
  case (Cons p ps)
  then have "line_ok p" by simp
  from line_text_ok [OF this] Cons show ?case
    by (simp add: print_lines_Cons raw_end_line)
qed

lemma readRawHeaders_print:
  assumes "list_all line_ok ps"
  shows "readRawHeaders [] (print_lines ps @ rChar # nChar # r) =
           (if ps = [] then [] else print_lines ps @ [rChar, nChar], length (print_lines ps) + 2, None)"
proof -
  have "take 1 (print_lines ps @ rChar # nChar # r) \<noteq> [nChar] \<and> take 2 (print_lines ps @ rChar # nChar # r) \<noteq> [rChar, nChar]"
    if "ps \<noteq> []"
  proof -
    from that obtain p qs where p: "ps = p # qs" by (cases ps) auto
    with assms have "line_ok p" by simp
    from line_text_ok [OF this] show ?thesis
      unfolding p print_lines_Cons by (cases "line_text p"; cases "tl (line_text p)") auto
  qed
  then show ?thesis using readRawHeaders_done [OF raw_end_print [OF assms, of r]] by auto
qed

lemma raw_end_prefix:
  "list_all line_ok ps \<Longrightarrow> prefix b (print_lines ps @ [rChar, nChar]) \<Longrightarrow> length b < length (print_lines ps) + 2 \<Longrightarrow>
     raw_end b = None"
proof (induction ps arbitrary: b)
  case Nil
  then have "b = [] \<or> b = [rChar]" by (auto simp: prefix_Cons)
  then show ?case by (auto intro: raw_end_short)
next
  case (Cons p ps)
  then have ok: "line_ok p" by simp
  note t = line_text_ok [OF ok]
  show ?case
  proof (cases "length b \<le> length (line_text p)")
    case True
    have "prefix b (line_text p)"
      by (rule prefix_length_prefix [OF Cons.prems(2) _ True]) (simp add: print_lines_Cons)
    then have "nChar \<notin> set b" using t set_mono_prefix by blast
    then show ?thesis by (rule raw_end_short)
  next
    case False
    have "prefix (line_text p @ [nChar]) b"
      by (rule prefix_length_prefix [OF _ Cons.prems(2)]) (use False in \<open>simp_all add: print_lines_Cons\<close>)
    then obtain b' where b': "b = line_text p @ nChar # b'" by (auto simp: prefix_def)
    with Cons.prems have "prefix b' (print_lines ps @ [rChar, nChar])" "length b' < length (print_lines ps) + 2"
      by (simp_all add: print_lines_Cons)
    with Cons.IH Cons.prems(1) t b' show ?thesis by (simp add: raw_end_line)
  qed
qed

section \<open>The request line\<close>

definition first_line :: "bytes \<Rightarrow> bytes \<Rightarrow> bytes \<Rightarrow> bytes" where
  "first_line m u p = m @ [spChar] @ u @ [spChar] @ p"

definition version_ok :: "bytes \<Rightarrow> bool" where
  "version_ok p \<longleftrightarrow>
     length p = 8 \<and> take 5 p = bs ''HTTP/'' \<and> 0x30 \<le> p ! 5 \<and> p ! 5 \<le> 0x39 \<and> 0x30 \<le> p ! 7 \<and> p ! 7 \<le> 0x39 \<and>
     spChar \<notin> set p \<and> nChar \<notin> set p"

definition first_ok :: "bytes \<Rightarrow> bytes \<Rightarrow> bytes \<Rightarrow> bool" where
  "first_ok m u p \<longleftrightarrow>
     m \<noteq> [] \<and> spChar \<notin> set m \<and> nChar \<notin> set m \<and> u \<noteq> [] \<and> nChar \<notin> set u \<and> version_ok p"

definition with_line :: "RequestHeader \<Rightarrow> bytes \<Rightarrow> bytes \<Rightarrow> bytes \<Rightarrow> RequestHeader" where
  "with_line h m u p =
     h\<lparr>rqMethod := m, rqNoHTTP11 := p \<noteq> strHTTP11, rqProto := p, rqRequestURI := u,
       rqFirstLineLen := int (length (first_line m u p) + 2)\<rparr>"

lemma nextLine_line: "nChar \<notin> set l \<Longrightarrow> nextLine (l @ rChar # nChar # r) = Some (l, r)"
  using index_byte_first [of nChar "l @ [rChar]" r] by (simp add: nextLine_def nth_append)

lemma nextLine_short: "nChar \<notin> set b \<Longrightarrow> nextLine b = None"
  by (simp add: nextLine_def)

lemma version_checks:
  assumes "version_ok p"
  shows "\<not> (length p \<noteq> length strHTTP11 \<or> \<not> has_prefix p (take 5 strHTTP11) \<or> p ! 5 < 0x30 \<or> p ! 5 > 0x39 \<or> p ! 7 < 0x30 \<or> p ! 7 > 0x39)"
proof -
  have "length strHTTP11 = 8" "take 5 strHTTP11 = bs ''HTTP/''" by (simp_all add: hdr_names)
  moreover have "has_prefix p (take 5 p)" by (simp add: has_prefix_prefix take_is_prefix)
  ultimately show ?thesis using assms by (auto simp: version_ok_def not_less)
qed

lemma parseFirstLine_ok:
  assumes f: "first_ok m u p" and h: "isValidMethod (rqMethod h)"
  shows "RequestHeader_parseFirstLine h (first_line m u p @ rChar # nChar # r) =
           (with_line h m u p, int (length (first_line m u p) + 2), None)"
proof -
  have fl: "nChar \<notin> set (first_line m u p)" using f by (auto simp: first_line_def first_ok_def version_ok_def)
  have i: "index_byte (first_line m u p) spChar = Some (length m)"
    using f index_byte_first [of spChar m "u @ spChar # p"] by (simp add: first_line_def first_ok_def)
  have l: "last_index_byte (u @ spChar # p) spChar = Some (length u)"
    using f by (intro last_index_byte_last) (simp add: first_ok_def version_ok_def)
  have d: "take (length m) (first_line m u p) = m" "drop (length m + 1) (first_line m u p) = u @ spChar # p"
    by (simp_all add: first_line_def)
  have n: "m \<noteq> []" "u \<noteq> []" using f by (simp_all add: first_ok_def)
  have v: "version_ok p" using f by (simp add: first_ok_def)
  have len: "length (first_line m u p @ rChar # nChar # r) - length r = length (first_line m u p) + 2" by simp
  show ?thesis
    unfolding RequestHeader_parseFirstLine_def nextLine_line [OF fl] option.case prod.case i Let_def d l len
    using n h version_checks [OF v] by (simp add: with_line_def)
qed

text \<open>The request line is checked less than the code and its comments intend. On a header that has just been
  reset, every non-empty method without a space or line feed is accepted and stored, because the test for valid
  method bytes is applied to the header's old method; and the byte between the two digits of the version is not
  looked at, although the comment demands a dot.\<close>

theorem request_line_unchecked:
  assumes "m \<noteq> []" "spChar \<notin> set m" "nChar \<notin> set m" "sep \<noteq> spChar" "sep \<noteq> nChar"
  shows "\<exists>h' n. RequestHeader_parseFirstLine (RequestHeader_resetSkipNormalize h)
                  (m @ bs '' / HTTP/1'' @ [sep] @ bs ''1'' @ [rChar, nChar]) = (h', n, None) \<and>
                rqMethod h' = m \<and> rqProto h' = bs ''HTTP/1'' @ [sep] @ bs ''1''"
proof -
  let ?p = "bs ''HTTP/1'' @ [sep] @ bs ''1''"
  have "version_ok ?p" using assms(4,5) by (simp add: version_ok_def)
  then have "first_ok m (bs ''/'') ?p" using assms by (simp add: first_ok_def)
  moreover have "isValidMethod (rqMethod (RequestHeader_resetSkipNormalize h))"
    by (simp add: isValidMethod_def RequestHeader_resetSkipNormalize_def)
  ultimately have "RequestHeader_parseFirstLine (RequestHeader_resetSkipNormalize h) (first_line m (bs ''/'') ?p @ rChar # nChar # []) =
      (with_line (RequestHeader_resetSkipNormalize h) m (bs ''/'') ?p, int (length (first_line m (bs ''/'') ?p) + 2), None)"
    by (rule parseFirstLine_ok)
  then show ?thesis by (simp add: first_line_def with_line_def)
qed

theorem request_line_unchecked_witness:
  "\<exists>h' n. RequestHeader_parseFirstLine (RequestHeader_resetSkipNormalize emptyRequestHeader)
            (bs ''G(T'' @ bs '' / HTTP/1'' @ bs ''x'' @ bs ''1'' @ [rChar, nChar]) = (h', n, None) \<and>
     rqMethod h' = bs ''G(T'' \<and> rqProto h' = bs ''HTTP/1x1'' \<and> \<not> isValidMethod (bs ''G(T'')"
  using request_line_unchecked [of "bs ''G(T''" "0x78" emptyRequestHeader]
  by (simp add: isValidMethod_def validMethodValueByteTable_def)

section \<open>Any segmentation\<close>

lemma prefix_cut: "prefix b (h @ x) \<Longrightarrow> length b \<le> length h \<Longrightarrow> prefix b h"
  by (rule prefix_length_prefix) auto

lemma prefix_extend: "prefix b (h @ x) \<Longrightarrow> length h \<le> length b \<Longrightarrow> \<exists>y. b = h @ y"
  using prefix_length_prefix [of h "h @ x" b] by (auto simp: prefix_def)

lemma parse_segment:
  assumes f: "first_ok m u p" and ps: "list_all line_ok ps" and h0: "rqFirstLineLen h0 = 0" "rqMethod h0 = []" "rqRawHeaders h0 = []"
    and d: "rqDisableNormalizing h0 = d"
    and h: "h = h0 \<or> h = with_line h0 m u p"
  defines "hd1 \<equiv> first_line m u p @ [rChar, nChar]" and "blk \<equiv> print_lines ps @ [rChar, nChar]"
  shows "prefix b (hd1 @ blk) \<Longrightarrow> length b < length (hd1 @ blk) \<Longrightarrow>
           \<exists>h' l. RequestHeader_parse h b = (h', b, l, Some errNeedMore) \<and> (h' = h0 \<or> h' = with_line h0 m u p)"
    and "apply_lines rq_step (with_line h0 m u p\<lparr>rqRawHeaders := if ps = [] then [] else blk, rqContentLength := 0, rqContentLengthSeen := False\<rparr>) d
             (map (\<lambda>(k, v). (norm_key d k, v)) ps) = (h1, None) \<Longrightarrow>
           \<exists>b'. RequestHeader_parse h (hd1 @ blk @ y) = (RequestHeader_finish h1, b', int (length (hd1 @ blk)), None) \<and>
                 drop (length (hd1 @ blk)) b' = y"
proof -
  have fl: "nChar \<notin> set (first_line m u p)" using f by (auto simp: first_line_def first_ok_def version_ok_def)
  have raw0: "with_line h0 m u p\<lparr>rqRawHeaders := []\<rparr> = with_line h0 m u p"
    using h0(3) by (simp add: with_line_def)
  have len: "rqFirstLineLen (with_line h0 m u p) = int (length hd1)" "length hd1 > 0"
    by (simp_all add: with_line_def hd1_def)
  have P: "(if rqFirstLineLen h = 0 then RequestHeader_parseFirstLine h (hd1 @ x) else (h, rqFirstLineLen h, None)) =
      (with_line h0 m u p, int (length hd1), None)" for x
    using h
  proof
    assume "h = h0"
    then show ?thesis
      using parseFirstLine_ok [OF f, of h0 x] h0 by (simp add: hd1_def isValidMethod_def)
  next
    assume "h = with_line h0 m u p"
    with len show ?thesis by simp
  qed
  have more: "RequestHeader_parse h (hd1 @ x) = (with_line h0 m u p, hd1 @ x, 0, Some errNeedMore)" if "raw_end x = None" for x
    unfolding RequestHeader_parse_def P prod.case option.case Let_def
    using readRawHeaders_more [OF that] by (simp add: raw0)
  show "\<exists>h' l. RequestHeader_parse h b = (h', b, l, Some errNeedMore) \<and> (h' = h0 \<or> h' = with_line h0 m u p)"
    if b: "prefix b (hd1 @ blk)" "length b < length (hd1 @ blk)"
  proof (cases "length hd1 \<le> length b")
    case True
    with prefix_extend [OF b(1)] obtain x where x: "b = hd1 @ x" by auto
    with b have "prefix x blk" "length x < length blk" by auto
    with raw_end_prefix [OF ps] have "raw_end x = None" by (simp add: blk_def)
    with more [of x] x show ?thesis by simp
  next
    case False
    with prefix_cut [OF b(1)] have pre: "prefix b hd1" by simp
    have nb: "nChar \<notin> set b"
    proof -
      have "prefix b (first_line m u p @ [rChar])"
        by (rule prefix_length_prefix [OF pre]) (use False in \<open>auto simp: hd1_def\<close>)
      then show ?thesis using fl set_mono_prefix [of b] by fastforce
    qed
    from h show ?thesis
    proof
      assume "h = h0"
      then show ?thesis
        using h0 nextLine_short [OF nb] by (simp add: RequestHeader_parse_def RequestHeader_parseFirstLine_def)
    next
      assume h: "h = with_line h0 m u p"
      have "drop (length hd1) b = []" using False by simp
      moreover have "readRawHeaders [] [] = ([], 0, Some errNeedMore)" by (simp add: readRawHeaders_def)
      moreover have "rqFirstLineLen h \<noteq> 0" using h len by simp
      ultimately show ?thesis
        unfolding RequestHeader_parse_def using h len raw0 by simp
    qed
  qed
  define raw where "raw = (if ps = [] then [] else blk)"
  have raw: "readRawHeaders [] (blk @ y) = (raw, length blk, None)"
    using readRawHeaders_print [OF ps, of y] by (simp add: blk_def raw_def)
  show "\<exists>b'. RequestHeader_parse h (hd1 @ blk @ y) = (RequestHeader_finish h1, b', int (length (hd1 @ blk)), None) \<and>
                 drop (length (hd1 @ blk)) b' = y"
    if a: "apply_lines rq_step (with_line h0 m u p\<lparr>rqRawHeaders := if ps = [] then [] else blk, rqContentLength := 0, rqContentLengthSeen := False\<rparr>) d
             (map (\<lambda>(k, v). (norm_key d k, v)) ps) = (h1, None)"
  proof -
    have "rqDisableNormalizing (with_line h0 m u p\<lparr>rqRawHeaders := raw\<rparr>) = d" using d by (simp add: with_line_def)
    from parseHeaders_print [OF ps a [folded raw_def] this, of y] obtain b where
      b: "RequestHeader_parseHeaders (with_line h0 m u p\<lparr>rqRawHeaders := raw\<rparr>) (blk @ y) = (RequestHeader_finish h1, b, int (length blk), None)"
      "drop (length blk) b = y" by (auto simp: blk_def)
    have "RequestHeader_parse h (hd1 @ blk @ y) = (RequestHeader_finish h1, hd1 @ b, int (length (hd1 @ blk)), None)"
      unfolding RequestHeader_parse_def P prod.case option.case Let_def by (simp add: raw b)
    moreover have "drop (length (hd1 @ blk)) (hd1 @ b) = y" using b by simp
    ultimately show ?thesis by blast
  qed
qed

text \<open>The header that reading a request line and header lines leaves, starting from a reset header.\<close>

definition read_target :: "RequestHeader \<Rightarrow> bytes \<Rightarrow> bytes \<Rightarrow> bytes \<Rightarrow> (bytes \<times> bytes) list \<Rightarrow> RequestHeader" where
  "read_target h m u p ps =
     with_line (RequestHeader_resetSkipNormalize h) m u p
       \<lparr>rqRawHeaders := if ps = [] then [] else print_lines ps @ [rChar, nChar], rqContentLength := 0, rqContentLengthSeen := False\<rparr>"

lemma Read_lines:
  assumes f: "first_ok m u p" and ps: "list_all line_ok ps"
    and st: "apply_lines rq_step (read_target h m u p ps) (rqDisableNormalizing h)
               (map (\<lambda>(k, v). (norm_key (rqDisableNormalizing h) k, v)) ps) = (h1, None)"
    and r: "br_live r" "pending r = first_line m u p @ [rChar, nChar] @ print_lines ps @ [rChar, nChar] @ body"
    and L: "length (first_line m u p) + length (print_lines ps) + 4 \<le> brSize r"
  shows "\<exists>r'. RequestHeader_Read h r = Some (RequestHeader_finish h1, r', None) \<and> pending r' = body \<and> br_live r' \<and>
           brSize r' = brSize r \<and> brEnd r' = brEnd r"
proof -
  define h0 where "h0 = RequestHeader_resetSkipNormalize h"
  have h0: "rqFirstLineLen h0 = 0" "rqMethod h0 = []" "rqRawHeaders h0 = []" "rqDisableNormalizing h0 = rqDisableNormalizing h"
    by (simp_all add: h0_def RequestHeader_resetSkipNormalize_def)
  define hd where "hd = (first_line m u p @ [rChar, nChar]) @ print_lines ps @ [rChar, nChar]"
  have w: "pending r = hd @ body" using r(2) by (simp add: hd_def)
  have st': "apply_lines rq_step (with_line h0 m u p\<lparr>rqRawHeaders := if ps = [] then [] else print_lines ps @ [rChar, nChar],
      rqContentLength := 0, rqContentLengthSeen := False\<rparr>) (rqDisableNormalizing h) (map (\<lambda>(k, v). (norm_key (rqDisableNormalizing h) k, v)) ps) = (h1, None)"
    using st by (simp add: read_target_def h0_def)
  have "\<exists>r'. RequestHeader_read_loop True h0 r 1 = Some (RequestHeader_finish h1, r', None) \<and> pending r' = drop (length hd) (hd @ body) \<and>
      br_live r' \<and> brSize r' = brSize r \<and> brEnd r' = brEnd r"
  proof (rule rq_reader.loop_complete [where S = "{h0, with_line h0 m u p}" and w = "hd @ body" and L = "length hd"])
    fix h b
    assume h: "h \<in> {h0, with_line h0 m u p}" and b: "prefix b (hd @ body)" "length b < length hd"
    have "prefix b hd" by (rule prefix_cut [OF b(1)]) (use b(2) in simp)
    from parse_segment(1) [OF f ps h0(1-3) refl _ this [unfolded hd_def] b(2) [unfolded hd_def], of h] h
    show "\<exists>h' l. RequestHeader_parse h b = (h', b, l, Some errNeedMore) \<and> h' \<in> {h0, with_line h0 m u p}" by auto
  next
    fix h b
    assume h: "h \<in> {h0, with_line h0 m u p}" and b: "prefix b (hd @ body)" "length hd \<le> length b"
    from prefix_extend [OF b] obtain y where y: "b = hd @ y" by blast
    have "\<exists>b'. RequestHeader_parse h (hd @ y) = (RequestHeader_finish h1, b', int (length hd), None) \<and> drop (length hd) b' = y"
      using parse_segment(2) [OF f ps h0 _ st', of h y] h unfolding hd_def append_assoc by auto
    then show "\<exists>b'. RequestHeader_parse h b = (RequestHeader_finish h1, b', int (length hd), None) \<and> drop (length hd) b' = drop (length hd) b"
      unfolding y by simp
  qed (use r(1) w L in \<open>auto simp: hd_def\<close>)
  then show ?thesis by (simp add: RequestHeader_Read_def RequestHeader_readLoop_def h0_def)
qed

section \<open>Collecting cookies\<close>

definition is_cookie :: "argsKV \<Rightarrow> bool" where
  "is_cookie kv \<longleftrightarrow> caseInsensitiveCompare (kvKey kv) strCookie"

definition cookies_of :: "argsKV list \<Rightarrow> (bytes \<times> bytes) list" where
  "cookies_of l = concat (map (\<lambda>kv. filter cookie_nonblank (map cookie_kv (cookie_pieces (kvValue kv)))) (filter is_cookie l))"

lemma collectCookies_loop_eq:
  "i \<le> length (live h) \<Longrightarrow> collectCookies_loop h cs i = (h', cs') \<Longrightarrow>
     live h' = take i (live h) @ filter (\<lambda>kv. \<not> is_cookie kv) (drop i (live h)) \<and>
     kv_pairs (live cs') = kv_pairs (live cs) @ cookies_of (drop i (live h))"
proof (induction h cs i rule: collectCookies_loop.induct)
  case (1 h cs i)
  show ?case
  proof (cases "i < length (live h)")
    case False
    with "1.prems" have "(h, cs) = (h', cs')" by (subst (asm) collectCookies_loop.simps) simp
    with False "1.prems"(1) show ?thesis by (simp add: cookies_of_def)
  next
    case True
    have d: "drop i (live h) = live h ! i # drop (i + 1) (live h)" using True by (simp add: Cons_nth_drop_Suc)
    have t: "take (i + 1) (live h) = take i (live h) @ [live h ! i]" using True by (simp add: take_Suc_conv_app_nth)
    show ?thesis
    proof (cases "caseInsensitiveCompare (kvKey (live h ! i)) strCookie")
      case c: True
      let ?h = "\<lparr>live = take i (live h) @ drop (i + 1) (live h), spare = live h ! i # spare h\<rparr>"
      have "collectCookies_loop ?h (parseRequestCookies cs (kvValue (live h ! i))) i = (h', cs')"
        using "1.prems"(2) True c by (subst (asm) collectCookies_loop.simps) (simp add: Let_def)
      moreover have "i \<le> length (live ?h)" "take i (live ?h) = take i (live h)" "drop i (live ?h) = drop (i + 1) (live h)"
        using True by simp_all
      ultimately show ?thesis
        using "1.IH"(1) [OF True refl c] c unfolding d by (simp add: is_cookie_def cookies_of_def parseRequestCookies_eq)
    next
      case c: False
      have "collectCookies_loop h cs (i + 1) = (h', cs')"
        using "1.prems"(2) True c by (subst (asm) collectCookies_loop.simps) (simp add: Let_def)
      with "1.IH"(2) [OF True refl c] c True show ?thesis
        unfolding d by (simp add: t [simplified] is_cookie_def cookies_of_def)
    qed
  qed
qed

lemma collectCookies_eq:
  assumes "\<not> rqCookiesCollected h"
  shows "live (rqH (collectCookies h)) = filter (\<lambda>kv. \<not> is_cookie kv) (live (rqH h))"
    and "kv_pairs (live (rqCookies (collectCookies h))) = kv_pairs (live (rqCookies h)) @ cookies_of (live (rqH h))"
proof -
  obtain h' cs' where l: "collectCookies_loop (rqH h) (rqCookies h) 0 = (h', cs')" by (cases "collectCookies_loop (rqH h) (rqCookies h) 0")
  from collectCookies_loop_eq [OF _ l] assms
  show "live (rqH (collectCookies h)) = filter (\<lambda>kv. \<not> is_cookie kv) (live (rqH h))"
    "kv_pairs (live (rqCookies (collectCookies h))) = kv_pairs (live (rqCookies h)) @ cookies_of (live (rqH h))"
    by (simp_all add: collectCookies_def l)
qed

section \<open>What is printed\<close>

definition opt_line :: "bytes \<Rightarrow> bytes \<Rightarrow> (bytes \<times> bytes) list" where
  "opt_line k v = (if v \<noteq> [] then [(k, v)] else [])"

definition printed_type :: "RequestHeader \<Rightarrow> bytes" where
  "printed_type h =
     (if \<not> rqNoDefaultContentType h \<and> rqContentType h = [] \<and> \<not> RequestHeader_ignoreBody h then strDefaultContentType
      else rqContentType h)"

definition printed_length :: "RequestHeader \<Rightarrow> int" where
  "printed_length h =
     (if rqContentLengthBytes h = [] then 0
      else (case parseContentLength (rqContentLengthBytes h) of Some n \<Rightarrow> n | None \<Rightarrow> 0))"

definition cookie_line :: "RequestHeader \<Rightarrow> (bytes \<times> bytes) list" where
  "cookie_line h = (if live (rqCookies h) \<noteq> [] then [(strCookie, print_cookies (kv_pairs (live (rqCookies h))))] else [])"

definition request_lines :: "RequestHeader \<Rightarrow> (bytes \<times> bytes) list" where
  "request_lines h =
     opt_line strUserAgent (rqUserAgent h) @ opt_line strHost (rqHost h) @ opt_line strContentType (printed_type h) @
     opt_line strContentLength (rqContentLengthBytes h) @ kv_pairs (live (rqH h)) @ cookie_line h @
     (if rqConnectionClose h then [(strConnection, strClose)] else [])"

lemma appendHeaderLine_eq: "appendHeaderLine dst k v = dst @ print_lines [(k, v)]"
  by (simp add: appendHeaderLine_def)

lemma append_untrailed_eq: "append_untrailed dst l [] = dst @ print_lines (kv_pairs l)"
  by (induction l arbitrary: dst) (simp_all add: appendHeaderLine_eq)

lemma AppendBytes_eq:
  assumes "live (rqTrailer h) = []" "\<not> rqDisableSpecialHeader h"
  shows "RequestHeader_AppendBytes h dst =
           dst @ first_line (RequestHeader_Method h) (RequestHeader_RequestURI h) (RequestHeader_Protocol h) @ [rChar, nChar] @
           print_lines (request_lines h) @ [rChar, nChar]"
proof -
  have g: "RequestHeader_UserAgent h = rqUserAgent h" "RequestHeader_Host h = rqHost h" "RequestHeader_ContentType h = rqContentType h"
    using assms(2) by (simp_all add: RequestHeader_UserAgent_def RequestHeader_Host_def RequestHeader_ContentType_def)
  have pt: "(if \<not> rqNoDefaultContentType h \<and> rqContentType h = [] \<and> \<not> RequestHeader_ignoreBody h then strDefaultContentType
      else rqContentType h) = printed_type h"
    by (simp only: printed_type_def)
  have l: "(if c then appendHeaderLine dst k v else dst) = dst @ print_lines (if c then [(k, v)] else [])"
    "(if c then appendRequestCookieBytes (dst @ strCookie @ bs '': '') l @ [rChar, nChar] else dst) =
      dst @ print_lines (if c then [(strCookie, print_cookies (kv_pairs l))] else [])" for c dst k v l
    by (simp_all add: appendHeaderLine_eq appendRequestCookieBytes_eq)
  have n: "(\<not> rqDisableSpecialHeader h) = True" "(live (rqTrailer h) \<noteq> []) = False" using assms by simp_all
  show ?thesis
    by (simp only: RequestHeader_AppendBytes_def Let_def g pt l n assms(1) append_untrailed_eq simp_thms if_False)
      (simp add: request_lines_def first_line_def opt_line_def cookie_line_def)
qed

text \<open>Fields that survive: valid bytes, no surrounding blanks, a canonical name without a meaning of its own.\<close>

definition value_ok :: "bytes \<Rightarrow> bool" where
  "value_ok v \<longleftrightarrow> line_value v \<and> list_all validHeaderValueByte v"

definition field_ok :: "bytes \<times> bytes \<Rightarrow> bool" where
  "field_ok p \<longleftrightarrow>
     fst p \<noteq> [] \<and> list_all validHeaderFieldByte (fst p) \<and> normalizeHeaderKeyV2 (fst p) = fst p \<and>
     fst p \<notin> set special_names \<and> \<not> caseInsensitiveCompare (fst p) strCookie \<and> value_ok (snd p)"

definition printable :: "RequestHeader \<Rightarrow> bool" where
  "printable h \<longleftrightarrow>
     \<not> rqDisableSpecialHeader h \<and> live (rqTrailer h) = [] \<and>
     first_ok (RequestHeader_Method h) (RequestHeader_RequestURI h) (RequestHeader_Protocol h) \<and>
     value_ok (rqUserAgent h) \<and> value_ok (rqHost h) \<and> value_ok (rqContentType h) \<and> value_ok (rqContentLengthBytes h) \<and>
     (rqContentLengthBytes h = [] \<or> parseContentLength (rqContentLengthBytes h) \<noteq> None) \<and>
     list_all field_ok (kv_pairs (live (rqH h))) \<and>
     list_all request_cookie_ok (kv_pairs (live (rqCookies h))) \<and> value_ok (print_cookies (kv_pairs (live (rqCookies h)))) \<and>
     (RequestHeader_Protocol h \<noteq> strHTTP11 \<longrightarrow> rqConnectionClose h)"

lemma field_bytes:
  "\<not> validHeaderFieldByte 0x3A" "\<not> validHeaderFieldByte nChar" "\<not> validHeaderFieldByte spChar" "\<not> validHeaderFieldByte tabChar"
  by (simp_all add: validHeaderFieldByte_def validHeaderFieldByteTable_def)

lemma field_line_key: "k \<noteq> [] \<Longrightarrow> list_all validHeaderFieldByte k \<Longrightarrow> line_key k"
  using field_bytes by (cases k) (auto simp: line_key_def list_all_iff)

lemma literals_ok: "value_ok strDefaultContentType" "value_ok strClose" "value_ok []"
  by (simp_all add: value_ok_def line_value_def hdr_names validHeaderValueByte_def validHeaderValueByteTable_def)

lemma opt_line_ok: "value_ok v \<Longrightarrow> list_all validHeaderFieldByte k \<Longrightarrow> k \<noteq> [] \<Longrightarrow> list_all line_ok (opt_line k v)"
  by (simp add: opt_line_def value_ok_def line_ok_def field_line_key)

lemma printable_lines:
  assumes "printable h"
  shows "list_all line_ok (request_lines h)"
proof -
  have "value_ok (printed_type h)" using assms literals_ok by (simp add: printed_type_def printable_def)
  moreover have "list_all line_ok (kv_pairs (live (rqH h)))"
    using assms unfolding printable_def list_all_iff by (auto simp: field_ok_def value_ok_def line_ok_def list_all_iff intro!: field_line_key)
  moreover have "list_all line_ok (cookie_line h)"
    using assms names_valid by (simp add: cookie_line_def printable_def line_ok_def value_ok_def field_line_key)
  moreover have "line_ok (strConnection, strClose)"
    using literals_ok names_valid by (simp add: line_ok_def value_ok_def field_line_key)
  ultimately show ?thesis
    using assms names_valid by (simp add: request_lines_def printable_def opt_line_ok)
qed

lemma printable_normal:
  assumes "printable h"
  shows "map (\<lambda>(k, v). (norm_key False k, v)) (request_lines h) = request_lines h"
proof -
  have "map (\<lambda>(k, v). (norm_key False k, v)) (kv_pairs (live (rqH h))) = kv_pairs (live (rqH h))"
    using assms by (intro map_idI) (auto simp: printable_def list_all_iff field_ok_def norm_key_def)
  then show ?thesis
    by (simp add: request_lines_def opt_line_def cookie_line_def norm_key_def names_normal)
qed

section \<open>What is read back\<close>

lemma apply_lines_append:
  "apply_lines step h d (ps @ qs) = (case apply_lines step h d ps of (h', None) \<Rightarrow> apply_lines step h' d qs | r \<Rightarrow> r)"
  by (induction ps arbitrary: h) (auto split: prod.splits option.splits)

lemma apply_then: "apply_lines step h d ps = (h', None) \<Longrightarrow> apply_lines step h d (ps @ qs) = apply_lines step h' d qs"
  by (simp add: apply_lines_append)

lemma apply_fields:
  "\<not> rqDisableSpecialHeader h \<Longrightarrow> \<forall>p \<in> set ps. fst p \<noteq> [] \<and> list_all validHeaderFieldByte (fst p) \<and> fst p \<notin> set special_names \<and> list_all validHeaderValueByte (snd p) \<Longrightarrow>
     \<exists>s. apply_lines rq_step h False ps = (h\<lparr>rqH := s\<rparr>, None) \<and> kv_pairs (live s) = kv_pairs (live (rqH h)) @ ps"
proof (induction ps arbitrary: h)
  case Nil
  then show ?case by (auto intro!: exI [of _ "rqH h"])
next
  case (Cons p ps)
  obtain k v where p: "p = (k, v)" by (cases p)
  let ?h = "h\<lparr>rqH := appendArg (rqH h) k v False\<rparr>"
  have "rq_step h False k v = (?h, None)" using Cons.prems p by (intro rq_step_special(7)) auto
  with Cons.IH [of ?h] Cons.prems p show ?case by (auto simp: mkKV_def)
qed

lemma apply_opt_line:
  assumes "rq_step h False k v = (h', None)" "v = [] \<Longrightarrow> h' = h"
  shows "apply_lines rq_step h False (opt_line k v) = (h', None)"
  using assms by (simp add: opt_line_def)

text \<open>The fields of the header that the printed lines leave, one group of lines after the other.\<close>

lemma apply_request_lines:
  assumes h: "printable h" and t: "\<not> rqDisableSpecialHeader t" "rqUserAgent t = []" "rqHost t = []" "rqContentType t = []"
    "rqContentLengthBytes t = []" "rqContentLength t = 0" "\<not> rqContentLengthSeen t" "\<not> rqConnectionClose t" "live (rqH t) = []"
  shows "\<exists>s n seen. apply_lines rq_step t False (request_lines h) =
     (t\<lparr>rqUserAgent := rqUserAgent h, rqHost := rqHost h, rqContentType := printed_type h, rqContentLengthSeen := seen, rqContentLength := n,
        rqContentLengthBytes := rqContentLengthBytes h, rqH := s, rqConnectionClose := rqConnectionClose h\<rparr>, None) \<and>
     0 \<le> n \<and> kv_pairs (live s) = kv_pairs (live (rqH h)) @ cookie_line h \<and> n = printed_length h"
proof -
  have v: "list_all validHeaderValueByte (rqUserAgent h)" "list_all validHeaderValueByte (rqHost h)" "list_all validHeaderValueByte (printed_type h)"
    "list_all validHeaderValueByte (rqContentLengthBytes h)" "list_all validHeaderValueByte strClose"
    using h literals_ok by (auto simp: printable_def value_ok_def printed_type_def)
  define t1 where "t1 = t\<lparr>rqUserAgent := rqUserAgent h\<rparr>"
  have s1: "apply_lines rq_step t False (opt_line strUserAgent (rqUserAgent h)) = (t1, None)"
    by (rule apply_opt_line) (simp_all add: rq_step_special(2) t v t1_def)
  define t2 where "t2 = t1\<lparr>rqHost := rqHost h\<rparr>"
  have s2: "apply_lines rq_step t1 False (opt_line strHost (rqHost h)) = (t2, None)"
    by (rule apply_opt_line) (simp_all add: rq_step_special(1) t v t1_def t2_def)
  define t3 where "t3 = t2\<lparr>rqContentType := printed_type h\<rparr>"
  have s3: "apply_lines rq_step t2 False (opt_line strContentType (printed_type h)) = (t3, None)"
    by (rule apply_opt_line) (simp_all add: rq_step_special(3) t v t1_def t2_def t3_def)
  have "\<exists>n seen. apply_lines rq_step t3 False (opt_line strContentLength (rqContentLengthBytes h)) =
      (t3\<lparr>rqContentLengthSeen := seen, rqContentLength := n, rqContentLengthBytes := rqContentLengthBytes h\<rparr>, None) \<and> 0 \<le> n \<and> n = printed_length h"
  proof (cases "rqContentLengthBytes h = []")
    case True
    then show ?thesis
      using t by (intro exI [of _ 0] exI [of _ False]) (simp add: opt_line_def t1_def t2_def t3_def printed_length_def)
  next
    case False
    with h obtain n where n: "parseContentLength (rqContentLengthBytes h) = Some n" by (auto simp: printable_def)
    have "rq_step t3 False strContentLength (rqContentLengthBytes h) =
        (t3\<lparr>rqContentLengthSeen := True, rqContentLength := n, rqContentLengthBytes := rqContentLengthBytes h\<rparr>, None)"
      by (rule rq_step_special(4)) (simp_all add: t v n t1_def t2_def t3_def)
    with False parseContentLength_nonneg [OF n] n show ?thesis by (auto simp: opt_line_def printed_length_def)
  qed
  then obtain n seen where n: "0 \<le> n" "n = printed_length h" and s4: "apply_lines rq_step t3 False (opt_line strContentLength (rqContentLengthBytes h)) =
      (t3\<lparr>rqContentLengthSeen := seen, rqContentLength := n, rqContentLengthBytes := rqContentLengthBytes h\<rparr>, None)" by blast
  define t4 where "t4 = t3\<lparr>rqContentLengthSeen := seen, rqContentLength := n, rqContentLengthBytes := rqContentLengthBytes h\<rparr>"
  have t4: "\<not> rqDisableSpecialHeader t4" "live (rqH t4) = []" "\<not> rqConnectionClose t4"
    by (simp_all add: t4_def t3_def t2_def t1_def t)
  have "\<forall>p \<in> set (kv_pairs (live (rqH h)) @ cookie_line h).
      fst p \<noteq> [] \<and> list_all validHeaderFieldByte (fst p) \<and> fst p \<notin> set special_names \<and> list_all validHeaderValueByte (snd p)"
  proof
    fix p assume "p \<in> set (kv_pairs (live (rqH h)) @ cookie_line h)"
    then consider "p \<in> set (kv_pairs (live (rqH h)))" | "p = (strCookie, print_cookies (kv_pairs (live (rqCookies h))))"
      by (auto simp: cookie_line_def split: if_splits)
    then show "fst p \<noteq> [] \<and> list_all validHeaderFieldByte (fst p) \<and> fst p \<notin> set special_names \<and> list_all validHeaderValueByte (snd p)"
    proof cases
      case 1
      with h have "field_ok p" by (simp add: printable_def list_all_iff)
      then show ?thesis by (simp add: field_ok_def value_ok_def)
    next
      case 2
      with h names_valid(7) special_names_distinct(3) show ?thesis by (simp add: printable_def value_ok_def)
    qed
  qed
  from apply_fields [OF t4(1) this] t4(2) obtain s where s5: "apply_lines rq_step t4 False (kv_pairs (live (rqH h)) @ cookie_line h) = (t4\<lparr>rqH := s\<rparr>, None)"
    and s: "kv_pairs (live s) = kv_pairs (live (rqH h)) @ cookie_line h" by auto
  have s6: "apply_lines rq_step (t4\<lparr>rqH := s\<rparr>) False (if rqConnectionClose h then [(strConnection, strClose)] else []) =
      (t4\<lparr>rqH := s, rqConnectionClose := rqConnectionClose h\<rparr>, None)"
    using t4 by (simp add: rq_step_special(5) v)
  have "apply_lines rq_step t False (request_lines h) = (t4\<lparr>rqH := s, rqConnectionClose := rqConnectionClose h\<rparr>, None)"
    unfolding request_lines_def apply_then [OF s1] apply_then [OF s2] apply_then [OF s3] apply_then [OF s4, folded t4_def]
    using apply_then [OF s5] s6 by simp
  with n s show ?thesis unfolding t4_def t3_def t2_def t1_def by auto
qed

lemma cookies_of_lines:
  assumes h: "printable h" and s: "kv_pairs (live s) = kv_pairs (live (rqH h)) @ cookie_line h"
  shows "kv_pairs (filter (\<lambda>kv. \<not> is_cookie kv) (live s)) = kv_pairs (live (rqH h))"
    and "cookies_of (live s) = kv_pairs (live (rqCookies h))"
proof -
  have f: "kv_pairs (filter (\<lambda>kv. P (kvKey kv)) l) = filter (\<lambda>p. P (fst p)) (kv_pairs l)" for P l
    by (induction l) auto
  have cv: "map (\<lambda>kv. g (kvValue kv)) l = map (\<lambda>p. g (snd p)) (kv_pairs l)" for g :: "bytes \<Rightarrow> 'x" and l
    by (induction l) auto
  have plain: "\<forall>p \<in> set (kv_pairs (live (rqH h))). \<not> caseInsensitiveCompare (fst p) strCookie"
    using h by (auto simp: printable_def list_all_iff field_ok_def)
  have ck: "caseInsensitiveCompare strCookie strCookie" by (simp add: caseInsensitiveCompare_def list_all2_refl)
  show "kv_pairs (filter (\<lambda>kv. \<not> is_cookie kv) (live s)) = kv_pairs (live (rqH h))"
    unfolding is_cookie_def f [of "\<lambda>k. \<not> caseInsensitiveCompare k strCookie"] s using plain ck
    by (auto simp: cookie_line_def intro!: filter_True)
  have c: "kv_pairs (filter is_cookie (live s)) = cookie_line h"
    unfolding is_cookie_def f [of "\<lambda>k. caseInsensitiveCompare k strCookie"] s using plain ck
    by (auto simp: cookie_line_def filter_empty_conv)
  have ok: "list_all request_cookie_ok (kv_pairs (live (rqCookies h)))" using h by (simp add: printable_def)
  then have "filter cookie_nonblank (kv_pairs (live (rqCookies h))) = kv_pairs (live (rqCookies h))"
    by (auto simp: list_all_iff request_cookie_ok_def cookie_nonblank_def intro!: filter_True)
  with pieces_print_cookies [of "[]", OF _ ok] show "cookies_of (live s) = kv_pairs (live (rqCookies h))"
    unfolding cookies_of_def cv [of "\<lambda>v. filter cookie_nonblank (map cookie_kv (cookie_pieces v))"] c
    by (auto simp: cookie_line_def)
qed

lemma request_header_read:
  assumes h: "printable h" and g: "\<not> rqDisableSpecialHeader g" "\<not> rqDisableNormalizing g"
    and r: "br_live r" "pending r = RequestHeader_AppendBytes h [] @ body" "length (RequestHeader_AppendBytes h []) \<le> brSize r"
  shows "\<exists>h' r'. RequestHeader_Read g r = Some (h', r', None) \<and> pending r' = body \<and>
           br_live r' \<and> brSize r' = brSize r \<and> brEnd r' = brEnd r \<and> rqContentLength h' = printed_length h \<and> live (rqTrailer h') = [] \<and>
           kv_pairs (live (rqH h')) = kv_pairs (live (rqH h)) @ cookie_line h \<and> \<not> rqCookiesCollected h' \<and> \<not> rqDisableSpecialHeader h' \<and> \<not> rqDisableNormalizing h' \<and>
           rqMethod h' = RequestHeader_Method h \<and> rqRequestURI h' = RequestHeader_RequestURI h \<and> rqProto h' = RequestHeader_Protocol h \<and>
           rqNoHTTP11 h' = (RequestHeader_Protocol h \<noteq> strHTTP11) \<and>
           rqHost h' = rqHost h \<and> rqUserAgent h' = rqUserAgent h \<and> rqContentType h' = printed_type h \<and>
           rqContentLengthBytes h' = rqContentLengthBytes h \<and> rqConnectionClose h' = rqConnectionClose h \<and>
           kv_pairs (live (rqH (collectCookies h'))) = kv_pairs (live (rqH h)) \<and>
           kv_pairs (live (rqCookies (collectCookies h'))) = kv_pairs (live (rqCookies h))"
proof -
  let ?m = "RequestHeader_Method h" and ?u = "RequestHeader_RequestURI h" and ?p = "RequestHeader_Protocol h"
  have ab: "RequestHeader_AppendBytes h [] = first_line ?m ?u ?p @ [rChar, nChar] @ print_lines (request_lines h) @ [rChar, nChar]"
    using AppendBytes_eq [of h "[]"] h by (simp add: printable_def)
  have f: "first_ok ?m ?u ?p" using h by (simp add: printable_def)
  define t where "t = read_target g ?m ?u ?p (request_lines h)"
  have t: "\<not> rqDisableSpecialHeader t" "rqUserAgent t = []" "rqHost t = []" "rqContentType t = []"
    "rqContentLengthBytes t = []" "rqContentLength t = 0" "\<not> rqContentLengthSeen t" "\<not> rqConnectionClose t" "live (rqH t) = []"
    using g by (simp_all add: t_def read_target_def with_line_def RequestHeader_resetSkipNormalize_def)
  have t': "rqMethod t = ?m" "rqRequestURI t = ?u" "rqProto t = ?p" "rqNoHTTP11 t = (?p \<noteq> strHTTP11)" "\<not> rqCookiesCollected t" "live (rqCookies t) = []" "live (rqTrailer t) = []"
    "\<not> rqDisableNormalizing t"
    using g by (simp_all add: t_def read_target_def with_line_def RequestHeader_resetSkipNormalize_def)
  from apply_request_lines [OF h t] obtain s n seen where st: "apply_lines rq_step t False (request_lines h) =
     (t\<lparr>rqUserAgent := rqUserAgent h, rqHost := rqHost h, rqContentType := printed_type h, rqContentLengthSeen := seen, rqContentLength := n,
        rqContentLengthBytes := rqContentLengthBytes h, rqH := s, rqConnectionClose := rqConnectionClose h\<rparr>, None)" (is "_ = (?h1, None)")
    and n: "0 \<le> n" "n = printed_length h" and s: "kv_pairs (live s) = kv_pairs (live (rqH h)) @ cookie_line h" by blast
  have "\<not> (rqNoHTTP11 ?h1 \<and> \<not> rqConnectionClose ?h1)" using h t'(4) by (auto simp: printable_def)
  then have fin: "RequestHeader_finish ?h1 = ?h1"
    unfolding RequestHeader_finish_def Let_def using n by (simp del: de_Morgan_conj)
  have "\<exists>r'. RequestHeader_Read g r = Some (RequestHeader_finish ?h1, r', None) \<and> pending r' = body \<and> br_live r' \<and>
      brSize r' = brSize r \<and> brEnd r' = brEnd r"
    by (rule Read_lines [OF f printable_lines [OF h] _ r(1)])
      (use g printable_normal [OF h] st r ab in \<open>simp_all add: t_def\<close>)
  then obtain r' where r': "RequestHeader_Read g r = Some (?h1, r', None)" "pending r' = body"
    "br_live r'" "brSize r' = brSize r" "brEnd r' = brEnd r" unfolding fin by blast
  have c: "\<not> rqCookiesCollected ?h1" using t' by simp
  note cc = collectCookies_eq [OF c]
  show ?thesis
    using r' t(1) t' n(2) s cc cookies_of_lines [OF h s] by (intro exI [of _ ?h1] exI [of _ r']) simp
qed

text \<open>C8: A request header that is printed is read back, however the connection cuts the text into segments. Request
  line, special headers, all other headers in order, cookies and the connection flag come back as they were (an empty
  content type as the default one where the printer adds it), the reader stops exactly at the body, and the result
  does not depend on what the header that is read into held before.\<close>

theorem request_header_roundtrip:
  assumes h: "printable h" and g: "\<not> rqDisableSpecialHeader g" "\<not> rqDisableNormalizing g"
    and r: "br_live r" "pending r = RequestHeader_AppendBytes h [] @ body" "length (RequestHeader_AppendBytes h []) \<le> brSize r"
  shows "\<exists>h' r'. RequestHeader_Read g r = Some (h', r', None) \<and> pending r' = body \<and>
           rqMethod h' = RequestHeader_Method h \<and> rqRequestURI h' = RequestHeader_RequestURI h \<and> rqProto h' = RequestHeader_Protocol h \<and>
           rqHost h' = rqHost h \<and> rqUserAgent h' = rqUserAgent h \<and> rqContentType h' = printed_type h \<and>
           rqContentLengthBytes h' = rqContentLengthBytes h \<and> rqConnectionClose h' = rqConnectionClose h \<and>
           kv_pairs (live (rqH (collectCookies h'))) = kv_pairs (live (rqH h)) \<and>
           kv_pairs (live (rqCookies (collectCookies h'))) = kv_pairs (live (rqCookies h))"
  using request_header_read [OF assms] by blast

definition sample_request :: RequestHeader where
  "sample_request = emptyRequestHeader\<lparr>rqHost := bs ''h'', rqCookies := appendArg emptyArgs (bs ''a'') (bs ''1'') False\<rparr>"

lemma sample_request_text:
  "RequestHeader_AppendBytes sample_request [] =
     bs ''GET / HT'' @ bs ''TP/1.1'' @ [rChar, nChar] @ bs ''Host: h'' @ [rChar, nChar] @ bs ''Cookie: a=1'' @ [rChar, nChar, rChar, nChar]"
  by (simp add: AppendBytes_eq sample_request_def emptyRequestHeader_def request_lines_def first_line_def opt_line_def printed_type_def
      RequestHeader_Method_def RequestHeader_RequestURI_def RequestHeader_Protocol_def RequestHeader_ignoreBody_def RequestHeader_IsMethod_def
      cookie_line_def mkKV_def hdr_names)

lemma sample_request_printable: "printable sample_request"
  by (simp add: printable_def sample_request_def emptyRequestHeader_def first_ok_def version_ok_def value_ok_def line_value_def
      RequestHeader_Method_def RequestHeader_RequestURI_def RequestHeader_Protocol_def mkKV_def request_cookie_ok_def trimmed_def unquoted_def
      validHeaderValueByte_def validHeaderValueByteTable_def hdr_names)

theorem request_header_roundtrip_witness:
  "\<exists>h' r'. RequestHeader_Read emptyRequestHeader
       (new_reader 64 [bs ''GET / HT'', bs ''TP/1.1'' @ [rChar, nChar] @ bs ''Host: h'' @ [rChar, nChar] @ bs ''Coo'',
          bs ''kie: a=1'' @ [rChar, nChar, rChar, nChar] @ bs ''xy'']) = Some (h', r', None) \<and>
     pending r' = bs ''xy'' \<and> rqMethod h' = bs ''GET'' \<and> rqHost h' = bs ''h'' \<and>
     kv_pairs (live (rqCookies (collectCookies h'))) = [(bs ''a'', bs ''1'')]"
proof -
  let ?r = "new_reader 64 [bs ''GET / HT'', bs ''TP/1.1'' @ [rChar, nChar] @ bs ''Host: h'' @ [rChar, nChar] @ bs ''Coo'',
          bs ''kie: a=1'' @ [rChar, nChar, rChar, nChar] @ bs ''xy'']"
  have "br_live ?r" "pending ?r = RequestHeader_AppendBytes sample_request [] @ bs ''xy''"
    "length (RequestHeader_AppendBytes sample_request []) \<le> brSize ?r"
    by (simp_all add: new_reader_def br_live_def br_ok_def no_empty_def pending_def sample_request_text)
  moreover have "\<not> rqDisableSpecialHeader emptyRequestHeader" "\<not> rqDisableNormalizing emptyRequestHeader"
    by (simp_all add: emptyRequestHeader_def)
  moreover have "RequestHeader_Method sample_request = bs ''GET''" "rqHost sample_request = bs ''h''"
    "kv_pairs (live (rqCookies sample_request)) = [(bs ''a'', bs ''1'')]"
    by (simp_all add: sample_request_def emptyRequestHeader_def RequestHeader_Method_def mkKV_def)
  ultimately show ?thesis
    using request_header_roundtrip [OF sample_request_printable, of emptyRequestHeader ?r "bs ''xy''"] by auto
qed

end
