(* ===== verification/Body.thy ===== *)
theory Body
  imports BufReader
begin

text \<open>
  Message bodies: \<^verbatim>\<open>roundUpForSliceCap\<close> of \<^verbatim>\<open>round2_64.go\<close> and the readers and writers of bodies in
  \<^verbatim>\<open>http.go\<close> (\<^verbatim>\<open>appendBodyFixedSize\<close>, \<^verbatim>\<open>readBody\<close>, \<^verbatim>\<open>readBodyIdentity\<close>, \<^verbatim>\<open>parseChunkSize\<close>,
  \<^verbatim>\<open>readBodyChunked\<close>, \<^verbatim>\<open>writeChunk\<close>, \<^verbatim>\<open>writeBodyChunked\<close>), on top of \<^verbatim>\<open>Read\<close> of a buffered reader and of a
  buffered writer.
\<close>

section \<open>Read of a buffered reader\<close>

text \<open>\<^verbatim>\<open>Read(p)\<close> with a slice \<open>p\<close> of length \<open>n\<close>: buffered bytes are copied; an empty buffer is refilled by
  one read of the connection, which goes straight into \<open>p\<close> when \<open>p\<close> is at least as large as the buffer.\<close>

definition conn_read :: "breader \<Rightarrow> nat \<Rightarrow> breader \<times> bytes \<times> io_error option" where
  "conn_read r n =
     (case brSrc r of
        [] \<Rightarrow> (r, [], Some (brEnd r))
      | seg # rest \<Rightarrow> (r\<lparr>brSrc := (if length seg > n then drop n seg # rest else rest)\<rparr>, take n seg, None))"

definition br_copy :: "breader \<Rightarrow> nat \<Rightarrow> breader \<times> bytes \<times> io_error option" where
  "br_copy r n =
     (let b = take n (brBuf r) in (r\<lparr>brBuf := drop n (brBuf r), brLast := Some (last b)\<rparr>, b, None))"

definition br_Read :: "breader \<Rightarrow> nat \<Rightarrow> breader \<times> bytes \<times> io_error option" where
  "br_Read r n =
     (if n = 0 then (if brBuf r \<noteq> [] then (r, [], None) else (r\<lparr>brErr := None\<rparr>, [], brErr r))
      else if brBuf r \<noteq> [] then br_copy r n
      else if brErr r \<noteq> None then (r\<lparr>brErr := None\<rparr>, [], brErr r)
      else if n \<ge> brSize r
      then (case conn_read r n of (r, b, e) \<Rightarrow> (if b = [] then r else r\<lparr>brLast := Some (last b)\<rparr>, b, e))
      else (case conn_read r (brSize r) of
              (r, b, e) \<Rightarrow> if b = [] then (r, [], e) else br_copy (r\<lparr>brBuf := b\<rparr>) n))"

lemma take_drop_split: "n \<le> m \<Longrightarrow> take n xs @ drop n (take m xs) @ drop m xs = xs"
  by (metis append.assoc append_take_drop_id min.absorb1 take_take)

lemma Read_facts:
  assumes "br_Read r n = (r', b, e)"
  shows "pending r = b @ pending r'" "length b \<le> n" "brSize r' = brSize r" "brEnd r' = brEnd r"
    "br_ok r \<Longrightarrow> br_ok r'" "no_empty r \<Longrightarrow> no_empty r'"
  using assms
  by (auto simp: br_Read_def br_copy_def conn_read_def Let_def pending_def br_ok_def no_empty_def take_drop_split
      split: if_splits list.splits)

lemma Read_shrinks:
  assumes "(r', b, e) = br_Read r n" "b \<noteq> []"
  shows "length (pending r') < length (pending r)" "n - length b < n"
  using Read_facts(1,2) [OF assms(1) [symmetric]] assms(2) by (cases b; simp)+

lemma Read_live:
  assumes "br_live r" "0 < n" "pending r \<noteq> []"
  shows "\<exists>r' b. br_Read r n = (r', b, None) \<and> b \<noteq> [] \<and> length b \<le> n \<and> pending r = b @ pending r' \<and> br_live r' \<and>
           brEnd r' = brEnd r \<and> brSize r' = brSize r"
proof -
  obtain r' b e where R: "br_Read r n = (r', b, e)" by (metis prod_cases3)
  have "e = None \<and> b \<noteq> [] \<and> brErr r' = None"
    using R assms
    by (auto simp: br_Read_def br_copy_def conn_read_def Let_def pending_def br_live_def no_empty_def
        split: if_splits list.splits)
  then show ?thesis using R Read_facts [OF R] assms by (auto simp: br_live_def)
qed

lemma Read_end:
  assumes "br_live r" "0 < n" "pending r = []"
  shows "br_Read r n = (r, [], Some (brEnd r))"
proof -
  have "brSrc r = []" "brBuf r = []"
    using assms by (cases "brSrc r"; auto simp: br_live_def no_empty_def pending_def)+
  with assms show ?thesis by (simp add: br_Read_def conn_read_def br_live_def)
qed

section \<open>Rounding a capacity up to a power of two\<close>

definition smear :: "64 word \<Rightarrow> 64 word" where
  "smear x =
     (let x = or x (drop_bit 1 x); x = or x (drop_bit 2 x); x = or x (drop_bit 4 x);
          x = or x (drop_bit 8 x); x = or x (drop_bit 16 x)
      in x)"

definition roundUpForSliceCap :: "int \<Rightarrow> int" where
  "roundUpForSliceCap n =
     (if n \<le> 0 then 0
      else if n > 100 * 1024 * 1024 then n
      else sint (smear (word_of_int (n - 1)) + 1))"

section \<open>Bodies of known length\<close>

datatype body_error =
    BodyIO io_error
  | BodyHex hex_error
  | ErrBodyTooLarge
  | ErrBrokenChunk
  | BodyReadZero
  | ErrUnexpectedReqBodyEOF
  | ErrUnexpectedRespBodyEOF
  | errChunkedStream

text \<open>The largest size that \<^verbatim>\<open>make\<close> accepts on a 64-bit platform; a larger one is a panic. No slice has a
  larger capacity either, so a body that needs more than this always reaches the \<^verbatim>\<open>make\<close>, whatever capacity
  the caller's slice has, and one that needs less never panics.\<close>

definition maxAlloc :: int where
  "maxAlloc = 2 ^ 48"

function fixed_loop :: "breader \<Rightarrow> bytes \<Rightarrow> nat \<Rightarrow> breader \<times> bytes \<times> body_error option" where
  "fixed_loop r dst n =
     (case br_Read r n of
        (r, b, e) \<Rightarrow>
          if b = [] then (r, dst, Some (case e of None \<Rightarrow> BodyReadZero | Some e \<Rightarrow> BodyIO e))
          else if length b = n then (r, dst @ b, None)
          else fixed_loop r (dst @ b) (n - length b))"
  by pat_completeness auto
termination
  by (relation "measure (\<lambda>(r, dst, n). n)") (auto dest: Read_shrinks)

declare fixed_loop.simps [simp del]

definition appendBodyFixedSize :: "breader \<Rightarrow> bytes \<Rightarrow> int \<Rightarrow> (breader \<times> bytes \<times> body_error option) option" where
  "appendBodyFixedSize r dst n =
     (if n = 0 then Some (r, dst, None)
      else if n < 0 \<or> int (length dst) + n > maxAlloc then None
      else Some (fixed_loop r dst (nat n)))"

definition readBody :: "breader \<Rightarrow> int \<Rightarrow> int \<Rightarrow> bytes \<Rightarrow> (breader \<times> bytes \<times> body_error option) option" where
  "readBody r contentLength maxBodySize dst =
     (if maxBodySize > 0 \<and> contentLength > maxBodySize then Some (r, dst, Some ErrBodyTooLarge)
      else appendBodyFixedSize r dst contentLength)"

section \<open>Bodies that last until the connection is closed\<close>

text \<open>\<open>len\<close> is the length of the slice the loop fills, \<open>b\<close> what it holds so far (\<^verbatim>\<open>dst[:offset]\<close>). A reader in
  the model never returns bytes together with an error, as \<^verbatim>\<open>bufio.Reader\<close> never does.\<close>

function identity_loop :: "breader \<Rightarrow> int \<Rightarrow> int \<Rightarrow> bytes \<Rightarrow> (breader \<times> bytes \<times> body_error option) option" where
  "identity_loop r maxBodySize len b =
     (case br_Read r (nat (len - int (length b))) of
        (r, p, e) \<Rightarrow>
          if p = []
          then Some (r, b, case e of None \<Rightarrow> Some BodyReadZero | Some e \<Rightarrow> if e = EOF then None else Some (BodyIO e))
          else
            let b = b @ p; offset = int (length b)
            in if maxBodySize > 0 \<and> offset > maxBodySize then Some (r, b, Some ErrBodyTooLarge)
               else (case e of
                 Some e \<Rightarrow> Some (r, b, if e = EOF then None else Some (BodyIO e))
               | None \<Rightarrow>
                 if len = offset
                 then (let n = roundUpForSliceCap (2 * offset);
                           n = (if maxBodySize > 0 \<and> n > maxBodySize then maxBodySize + 1 else n)
                       in if n > maxAlloc then None else identity_loop r maxBodySize n b)
                 else identity_loop r maxBodySize len b))"
  by pat_completeness auto
termination
  by (relation "measure (\<lambda>(r, m, len, b). length (pending r))") (simp, (clarify, drule (1) Read_shrinks(1), simp)+)

declare identity_loop.simps [simp del]

text \<open>\<open>cap\<close> is the capacity of the slice that the caller hands in.\<close>

definition readBodyIdentity :: "breader \<Rightarrow> int \<Rightarrow> nat \<Rightarrow> (breader \<times> bytes \<times> body_error option) option" where
  "readBodyIdentity r maxBodySize cap = identity_loop r maxBodySize (if cap = 0 then 1024 else int cap) []"

section \<open>Chunked bodies\<close>

abbreviation strCRLF :: bytes where "strCRLF \<equiv> [rChar, nChar]"

fun expect_bytes :: "breader \<Rightarrow> bytes \<Rightarrow> breader \<times> body_error option" where
  "expect_bytes r [] = (r, None)"
| "expect_bytes r (x # xs) =
     (case br_ReadByte r of
        (r, c, Some e) \<Rightarrow> (r, Some (BodyIO e))
      | (r, c, None) \<Rightarrow> if c \<noteq> x then (r, Some ErrBrokenChunk) else expect_bytes r xs)"

definition readCrLf :: "breader \<Rightarrow> breader \<times> body_error option" where
  "readCrLf r = expect_bytes r strCRLF"

lemma ReadByte_facts:
  assumes "br_ReadByte r = (r', c, e)"
  shows "e = None \<Longrightarrow> pending r = c # pending r' \<and> brLast r' = Some c"
    "e \<noteq> None \<Longrightarrow> pending r' = pending r" "brSize r' = brSize r" "brEnd r' = brEnd r"
proof -
  let ?f = "if brBuf r = [] \<and> brErr r = None then fill r else r"
  have f: "pending ?f = pending r" "brSize ?f = brSize r" "brEnd ?f = brEnd r" by simp_all
  have "brBuf ?f = [] \<Longrightarrow> brErr ?f \<noteq> None"
    using fill_loop_progress [of 100 r] by (auto simp: fill_def split: if_splits)
  then show "e = None \<Longrightarrow> pending r = c # pending r' \<and> brLast r' = Some c"
    "e \<noteq> None \<Longrightarrow> pending r' = pending r" "brSize r' = brSize r" "brEnd r' = brEnd r"
    using assms f unfolding br_ReadByte_def Let_def
    by (auto simp: pending_def [of "?f"] pending_def [of r'] split: list.splits simp del: f)
qed

text \<open>Everything between the digits of the size and the carriage return is skipped.\<close>

function skip_extension :: "breader \<Rightarrow> breader \<times> body_error option" where
  "skip_extension r =
     (case br_ReadByte r of
        (r, c, Some e) \<Rightarrow> (r, Some (BodyIO e))
      | (r, c, None) \<Rightarrow>
          if c \<noteq> rChar then skip_extension r
          else (case br_UnreadByte r of
                  (r, Some e) \<Rightarrow> (r, Some (BodyIO e))
                | (r, None) \<Rightarrow> (r, None)))"
  by pat_completeness auto
termination
  by (relation "measure (\<lambda>r. length (pending r))") (auto dest!: sym [of _ "br_ReadByte _"] ReadByte_facts(1))

declare skip_extension.simps [simp del]

fun hex_to_body :: "hex_error \<Rightarrow> body_error" where
  "hex_to_body (HexIO e) = BodyIO e"
| "hex_to_body e = BodyHex e"

definition parseChunkSize :: "breader \<Rightarrow> breader \<times> int \<times> body_error option" where
  "parseChunkSize r =
     (case readHexInt r of
        (r, n, Some e) \<Rightarrow> (r, -1, Some (hex_to_body e))
      | (r, n, None) \<Rightarrow>
          (case skip_extension r of
             (r, Some e) \<Rightarrow> (r, -1, Some e)
           | (r, None) \<Rightarrow>
               (case readCrLf r of
                  (r, Some e) \<Rightarrow> (r, -1, Some e)
                | (r, None) \<Rightarrow> (r, n, None))))"

text \<open>On any reader the loop stops after at most the \<open>n\<close> bytes it was asked for, and reports success only
  with all of them.\<close>

lemma fixed_loop_facts:
  "fixed_loop r dst n = (r', b, e) \<Longrightarrow>
     \<exists>p. b = dst @ p \<and> pending r = p @ pending r' \<and> length p \<le> n \<and> (e = None \<longrightarrow> length p = n) \<and> brEnd r' = brEnd r \<and>
       (br_ok r \<longrightarrow> br_ok r') \<and> (no_empty r \<longrightarrow> no_empty r') \<and> brSize r' = brSize r"
proof (induction r dst n arbitrary: r' b e rule: fixed_loop.induct)
  case (1 r dst n)
  obtain r1 p1 e1 where R: "br_Read r n = (r1, p1, e1)" by (metis prod_cases3)
  note F = Read_facts [OF R]
  show ?case
  proof (cases "p1 = [] \<or> length p1 = n")
    case True
    then show ?thesis using "1.prems" R F by (auto simp: fixed_loop.simps [of r dst n] split: if_splits)
  next
    case False
    then have "fixed_loop r1 (dst @ p1) (n - length p1) = (r', b, e)"
      using "1.prems" R by (simp add: fixed_loop.simps [of r dst n])
    moreover have "p1 \<noteq> []" "length p1 \<noteq> n" using False by auto
    ultimately obtain p where
      "b = (dst @ p1) @ p \<and> pending r1 = p @ pending r' \<and> length p \<le> n - length p1 \<and>
       (e = None \<longrightarrow> length p = n - length p1) \<and> brEnd r' = brEnd r1 \<and>
       (br_ok r1 \<longrightarrow> br_ok r') \<and> (no_empty r1 \<longrightarrow> no_empty r') \<and> brSize r' = brSize r1"
      using "1.IH" [OF R [symmetric] refl] by blast
    then show ?thesis using F by (intro exI [of _ "p1 @ p"]) auto
  qed
qed

lemma UnreadByte_pending:
  "br_UnreadByte r = (r', None) \<Longrightarrow> brLast r = Some c \<Longrightarrow> pending r' = c # pending r"
  by (auto simp: br_UnreadByte_def pending_def)

lemma hex2int_le: "unat (hex2intTable c) \<le> 16"
  by (auto simp: hex2intTable_def word_le_nat_alt unat_arith_simps)

lemma readHexInt_loop_bound:
  assumes "readHexInt_loop r i (int v) = (r', n, None)" "v < 16 ^ i" "i \<le> 15"
  shows "0 \<le> n \<and> n < 2 ^ 60 \<and> length (pending r') \<le> length (pending r)"
  using assms
proof (induction "15 - i" arbitrary: r i v)
  case 0
  then have i: "i = 15" by simp
  obtain r1 c e where R: "br_ReadByte r = (r1, c, e)" by (metis prod_cases3)
  have v: "int v < 2 ^ 60" using 0 i by simp
  show ?case
  proof (cases e)
    case None
    with R ReadByte_facts(1) [OF R] 0 i v show ?thesis
      by (subst (asm) readHexInt_loop.simps)
        (auto simp: Let_def maxHexIntChars_def dest!: UnreadByte_pending split: if_splits option.splits prod.splits)
  next
    case (Some x)
    with R ReadByte_facts(2) [OF R] 0 i v show ?thesis
      by (subst (asm) readHexInt_loop.simps) (auto split: if_splits)
  qed
next
  case (Suc j)
  then have i: "i < 15" by simp
  have p: "(16::nat) ^ i \<le> 16 ^ 14" using i by (intro power_increasing) auto
  then have v: "int v < 2 ^ 59" using Suc.prems(2) by simp
  obtain r1 c e where R: "br_ReadByte r = (r1, c, e)" by (metis prod_cases3)
  let ?k = "unat (hex2intTable c)"
  have k: "?k \<le> 16" by (rule hex2int_le)
  show ?case
  proof (cases "e = None \<and> ?k \<noteq> 16")
    case True
    with k have k: "?k < 16" by simp
    from hex_step_eq [of "int v" ?k] v k have s: "hex_step (int v) ?k = int (v * 16 + ?k)" by simp
    have "readHexInt_loop r1 (i + 1) (int (v * 16 + ?k)) = (r', n, None)"
      using Suc.prems(1) R True i s by (subst (asm) readHexInt_loop.simps) (simp add: maxHexIntChars_def Let_def)
    moreover have "v * 16 + ?k < 16 ^ (i + 1)" using hex_bound [of v i ?k 1] Suc.prems(2) k by simp
    ultimately have "0 \<le> n \<and> n < 2 ^ 60 \<and> length (pending r') \<le> length (pending r1)"
      using Suc.hyps(1) [of "i + 1" r1 "v * 16 + ?k"] Suc.hyps(2) i by simp
    with ReadByte_facts(1) [OF R] True show ?thesis by simp
  next
    case False
    then show ?thesis using R Suc.prems(1) v ReadByte_facts(1,2) [OF R] i
      by (subst (asm) readHexInt_loop.simps)
        (auto simp: Let_def maxHexIntChars_def dest!: UnreadByte_pending split: if_splits option.splits prod.splits)
  qed
qed

lemma skip_extension_pending:
  "skip_extension r = (r', None) \<Longrightarrow> length (pending r') \<le> length (pending r)"
proof (induction r arbitrary: r' rule: skip_extension.induct)
  case (1 r)
  obtain r1 c e where R: "br_ReadByte r = (r1, c, e)" by (metis prod_cases3)
  with "1.prems" have e: "e = None" by (subst (asm) skip_extension.simps) (auto split: option.splits)
  show ?case
  proof (cases "c = rChar")
    case True
    then show ?thesis using "1.prems" R e ReadByte_facts(1) [OF R]
      by (subst (asm) skip_extension.simps) (auto dest!: UnreadByte_pending split: option.splits prod.splits)
  next
    case False
    then have "skip_extension r1 = (r', None)"
      using "1.prems" R e by (subst (asm) skip_extension.simps) simp
    from "1.IH" [OF R [symmetric] refl e False this] show ?thesis using ReadByte_facts(1) [OF R] e by simp
  qed
qed

lemma expect_bytes_pending: "expect_bytes r xs = (r', None) \<Longrightarrow> pending r = xs @ pending r'"
proof (induction xs arbitrary: r)
  case (Cons x xs)
  obtain r1 c e where R: "br_ReadByte r = (r1, c, e)" by (metis prod_cases3)
  with Cons.prems Cons.IH [of r1] ReadByte_facts(1) [OF R] show ?case by (auto split: option.splits if_splits)
qed simp

lemma parseChunkSize_bound:
  assumes "parseChunkSize r = (r', n, None)"
  shows "0 \<le> n" "n < 2 ^ 60" "length (pending r') < length (pending r)"
proof -
  from assms obtain r1 r2 where R: "readHexInt r = (r1, n, None)" "skip_extension r1 = (r2, None)" "readCrLf r2 = (r', None)"
    by (auto simp: parseChunkSize_def split: prod.splits option.splits)
  from readHexInt_loop_bound [of r 0 0 r1 n] R(1) have
    "0 \<le> n \<and> n < 2 ^ 60 \<and> length (pending r1) \<le> length (pending r)" by (simp add: readHexInt_def)
  moreover have "length (pending r2) \<le> length (pending r1)" by (rule skip_extension_pending [OF R(2)])
  moreover have "length (pending r2) = length (pending r') + 2"
    using expect_bytes_pending [OF R(3) [unfolded readCrLf_def]] by simp
  ultimately show "0 \<le> n" "n < 2 ^ 60" "length (pending r') < length (pending r)" by simp_all
qed

lemma chunk_step_shrinks:
  assumes "parseChunkSize r = (r1, n, None)" "appendBodyFixedSize r1 dst (n + 2) = Some (r2, b, None)"
  shows "length (pending r2) < length (pending r)"
proof -
  have "fixed_loop r1 dst (nat (n + 2)) = (r2, b, None)"
    using assms parseChunkSize_bound(1) [OF assms(1)] by (simp add: appendBodyFixedSize_def split: if_splits)
  then have "length (pending r2) \<le> length (pending r1)" using fixed_loop_facts by fastforce
  then show ?thesis using parseChunkSize_bound(3) [OF assms(1)] by simp
qed

text \<open>\<open>None\<close> is the panic of \<^verbatim>\<open>make\<close>: every turn of the loop takes bytes off the connection, so it ends.\<close>

function chunked_loop :: "breader \<Rightarrow> int \<Rightarrow> bytes \<Rightarrow> (breader \<times> bytes \<times> body_error option) option" where
  "chunked_loop r maxBodySize dst =
     (case parseChunkSize r of
        (r, chunkSize, Some e) \<Rightarrow> Some (r, dst, Some e)
      | (r, chunkSize, None) \<Rightarrow>
          if chunkSize = 0 then Some (r, dst, None)
          else if maxBodySize > 0 \<and> int (length dst) + chunkSize > maxBodySize
          then Some (r, dst, Some ErrBodyTooLarge)
          else (case appendBodyFixedSize r dst (chunkSize + 2) of
                  None \<Rightarrow> None
                | Some (r, dst, Some e) \<Rightarrow> Some (r, dst, Some e)
                | Some (r, dst, None) \<Rightarrow>
                    if drop (length dst - 2) dst \<noteq> strCRLF then Some (r, dst, Some ErrBrokenChunk)
                    else chunked_loop r maxBodySize (take (length dst - 2) dst)))"
  by pat_completeness auto
termination
  by (relation "measure (\<lambda>(r, _, _). length (pending r))") (auto dest: chunk_step_shrinks [OF sym])

declare chunked_loop.simps [simp del]

definition readBodyChunked :: "breader \<Rightarrow> int \<Rightarrow> bytes \<Rightarrow> (breader \<times> bytes \<times> body_error option) option" where
  "readBodyChunked r maxBodySize dst = (if length dst > 0 then None else chunked_loop r maxBodySize dst)"

section \<open>A buffered writer\<close>

text \<open>\<^verbatim>\<open>bufio.Writer\<close>: the buffered bytes, the capacity of the buffer, what the connection has accepted so far,
  how much more it accepts before it fails (\<open>None\<close>: it never fails), and the error that sticks.\<close>

record bwriter =
  bwBuf :: bytes
  bwSize :: nat
  bwOut :: bytes
  bwRoom :: "nat option"
  bwErr :: "io_error option"

definition conn_write :: "bwriter \<Rightarrow> bytes \<Rightarrow> bwriter \<times> nat" where
  "conn_write w p =
     (case bwRoom w of
        None \<Rightarrow> (w\<lparr>bwOut := bwOut w @ p\<rparr>, length p)
      | Some k \<Rightarrow>
          if length p \<le> k then (w\<lparr>bwOut := bwOut w @ p, bwRoom := Some (k - length p)\<rparr>, length p)
          else (w\<lparr>bwOut := bwOut w @ take k p, bwRoom := Some 0, bwErr := Some (OtherIO 0)\<rparr>, k))"

definition bw_Flush :: "bwriter \<Rightarrow> bwriter \<times> io_error option" where
  "bw_Flush w =
     (case bwErr w of
        Some e \<Rightarrow> (w, Some e)
      | None \<Rightarrow>
          if bwBuf w = [] then (w, None)
          else (case conn_write w (bwBuf w) of (w, n) \<Rightarrow> (w\<lparr>bwBuf := drop n (bwBuf w)\<rparr>, bwErr w)))"

function bw_Write :: "bwriter \<Rightarrow> bytes \<Rightarrow> bwriter \<times> io_error option" where
  "bw_Write w p =
     (let avail = bwSize w - length (bwBuf w)
      in if length p > avail \<and> bwErr w = None
         then (if bwBuf w = [] then (case conn_write w p of (w, n) \<Rightarrow> bw_Write w (drop n p))
               else bw_Write (fst (bw_Flush (w\<lparr>bwBuf := bwBuf w @ take avail p\<rparr>))) (drop avail p))
         else (case bwErr w of
                 Some e \<Rightarrow> (w, Some e)
               | None \<Rightarrow> (w\<lparr>bwBuf := bwBuf w @ p\<rparr>, None)))"
  by pat_completeness auto
termination
proof (relation "measure (\<lambda>(w, p). if bwErr w = None then 2 * length p + (if bwBuf w = [] then 0 else 1) else 0)", goal_cases)
  case 1
  then show ?case by simp
next
  case (2 w p)
  then show ?case by (auto simp: conn_write_def split: option.splits if_splits)
next
  case (3 w p)
  then show ?case by (auto simp: bw_Flush_def conn_write_def split: option.splits if_splits)
qed

declare bw_Write.simps [simp del]

fun bw_writes :: "bwriter \<Rightarrow> bytes list \<Rightarrow> bwriter \<times> io_error option" where
  "bw_writes w [] = (w, None)"
| "bw_writes w (p # ps) =
     (case bw_Write w p of (w, Some e) \<Rightarrow> (w, Some e) | (w, None) \<Rightarrow> bw_writes w ps)"

section \<open>Writing chunks\<close>

definition writeChunk :: "bwriter \<Rightarrow> bytes \<Rightarrow> (bwriter \<times> io_error option) option" where
  "writeChunk w b =
     (case writeHexInt (int (length b)) of
        None \<Rightarrow> None
      | Some s \<Rightarrow>
          Some (case bw_writes w [s, strCRLF, b, strCRLF] of
                  (w, Some e) \<Rightarrow> (w, Some e)
                | (w, None) \<Rightarrow> bw_Flush w))"

abbreviation chunkedEnd :: bytes where "chunkedEnd \<equiv> [0x30, rChar, nChar]"

text \<open>An \<^verbatim>\<open>io.Reader\<close> that a user hands over as a body: the results of its reads, in order, then \<^verbatim>\<open>io.EOF\<close> forever. A
  result that does not fit into the slice of the caller is delivered in pieces, its error with the last one. Such a reader
  has finitely many results before the end; the writer below takes any reader, also an endless one.\<close>

type_synonym rsource = "(bytes \<times> io_error option) list"

fun src_Read :: "rsource \<Rightarrow> nat \<Rightarrow> rsource \<times> bytes \<times> io_error option" where
  "src_Read [] n = ([], [], Some EOF)"
| "src_Read ((b, e) # rest) n =
     (if length b > n then ((drop n b, e) # rest, take n b, None) else (rest, b, e))"

text \<open>The loop is written for any reader \<open>rd\<close> (\<open>None\<close> is a panic of its \<^verbatim>\<open>Read\<close>) with an error that marks the end
  and an embedding of the errors of the connection. \<open>bufSize\<close> is the length of the slice it reads into.\<close>

partial_function (option) writeBodyChunked ::
  "('s \<Rightarrow> nat \<Rightarrow> ('s \<times> bytes \<times> 'e option) option) \<Rightarrow> 'e \<Rightarrow> (io_error \<Rightarrow> 'e) \<Rightarrow> nat \<Rightarrow> bwriter \<Rightarrow> 's \<Rightarrow> (bwriter \<times> 's \<times> 'e option) option" where
  "writeBodyChunked rd eof io bufSize w s =
     (case rd s bufSize of
        None \<Rightarrow> None
      | Some (s, b, e) \<Rightarrow>
          if b = []
          then (case e of
                  None \<Rightarrow> writeBodyChunked rd eof io bufSize w s
                | Some e \<Rightarrow>
                    if e = eof then (case bw_Write w chunkedEnd of (w, x) \<Rightarrow> Some (w, s, map_option io x))
                    else Some (w, s, Some e))
          else (case writeChunk w b of
                  None \<Rightarrow> None
                | Some (w, Some x) \<Rightarrow> Some (w, s, Some (io x))
                | Some (w, None) \<Rightarrow> writeBodyChunked rd eof io bufSize w s))"

abbreviation write_source :: "nat \<Rightarrow> bwriter \<Rightarrow> rsource \<Rightarrow> (bwriter \<times> rsource \<times> io_error option) option" where
  "write_source \<equiv> writeBodyChunked (\<lambda>s n. Some (src_Read s n)) EOF (\<lambda>e. e)"

section \<open>Capacities\<close>

lemma smear_double:
  fixes x y :: "64 word"
  assumes "\<And>i. bit y i \<longleftrightarrow> (\<exists>j < w. bit x (i + j))"
  shows "bit (or y (drop_bit w y)) i \<longleftrightarrow> (\<exists>j < 2 * w. bit x (i + j))"
proof -
  have "(\<exists>j < 2 * w. bit x (i + j)) \<longleftrightarrow> (\<exists>j < w. bit x (i + j)) \<or> (\<exists>j < w. bit x (i + (w + j)))"
    (is "?l \<longleftrightarrow> ?r")
  proof
    assume ?l
    then obtain j where j: "j < 2 * w" "bit x (i + j)" by blast
    show ?r
    proof (cases "j < w")
      case False
      with j have "j - w < w" "bit x (i + (w + (j - w)))" by simp_all
      then show ?thesis by blast
    qed (use j in blast)
  next
    assume ?r
    then obtain j where "j < w" "bit x (i + j) \<or> bit x (i + (w + j))" by blast
    then have "j < 2 * w \<and> bit x (i + j) \<or> w + j < 2 * w \<and> bit x (i + (w + j))" by auto
    then show ?l by blast
  qed
  then show ?thesis by (simp add: bit_or_iff bit_drop_bit_eq assms ac_simps)
qed

lemma bit_smear: "bit (smear x) i \<longleftrightarrow> (\<exists>j < 32. bit x (i + j))"
proof -
  have 0: "bit x i \<longleftrightarrow> (\<exists>j < 1. bit x (i + j))" for i by simp
  have m: "2 * (1::nat) = 2" "2 * (2::nat) = 4" "2 * (4::nat) = 8" "2 * (8::nat) = 16" "2 * (16::nat) = 32" by simp_all
  note 1 = smear_double [OF 0, unfolded m]
  note 2 = smear_double [OF 1, unfolded m]
  note 3 = smear_double [OF 2, unfolded m]
  note 4 = smear_double [OF 3, unfolded m]
  show ?thesis unfolding smear_def Let_def by (rule smear_double [OF 4, unfolded m])
qed

lemma smear_mask:
  assumes "x < 2 ^ Suc k" "2 ^ k \<le> x" "k < 32"
  shows "smear (word_of_nat x) = mask (Suc k)"
proof (rule bit_word_eqI)
  fix i assume i: "i < LENGTH(64)"
  have b: "bit (word_of_nat x :: 64 word) j \<longleftrightarrow> bit x j \<and> j < 64" for j
    using bit_word_of_int_iff [of "int x" j, where ?'a = 64] by (auto simp: bit_of_nat_iff_bit)
  have hi: "\<not> bit x j" if "k < j" for j
  proof -
    have "(2::nat) ^ Suc k \<le> 2 ^ j" using that by (intro power_increasing) auto
    with assms(1) have "x div 2 ^ j = 0" by simp
    then show ?thesis by (simp add: bit_iff_odd)
  qed
  have top: "bit x k"
  proof -
    have "x div 2 ^ k = 1" using assms by (intro div_nat_eqI) simp_all
    then show ?thesis by (simp add: bit_iff_odd)
  qed
  show "bit (smear (word_of_nat x)) i \<longleftrightarrow> bit (mask (Suc k) :: 64 word) i"
  proof (cases "i \<le> k")
    case True
    then have "bit (word_of_nat x :: 64 word) (i + (k - i))" "k - i < 32" using top assms(3) by (simp_all add: b)
    with True assms(3) show ?thesis by (auto simp: bit_smear bit_mask_iff)
  next
    case False
    then show ?thesis using hi by (auto simp: bit_smear bit_mask_iff b)
  qed
qed

lemma power_bracket: "0 < x \<Longrightarrow> \<exists>k. 2 ^ k \<le> x \<and> x < (2::nat) ^ Suc k"
  using ex_power_ivl1 [of 2 x] by auto

lemma roundUp_power:
  assumes "0 < n" "n \<le> 100 * 1024 * 1024"
  shows "\<exists>k. roundUpForSliceCap n = 2 ^ k \<and> n \<le> 2 ^ k \<and> 2 ^ k < 2 * n"
proof (cases "n = 1")
  case True
  have "smear 0 = 0" by (simp add: smear_def)
  with True show ?thesis by (intro exI [of _ 0]) (simp add: roundUpForSliceCap_def)
next
  case False
  let ?x = "nat (n - 1)"
  from False assms power_bracket [of ?x] obtain k where k: "2 ^ k \<le> ?x" "?x < 2 ^ Suc k" by auto
  have "(2::nat) ^ k < 2 ^ 27" using k(1) assms(2) by (simp add: le_nat_iff; linarith?)
  then have k27: "k < 27" by (rule power_less_imp_less_exp [rotated]) simp
  have "word_of_int (n - 1) = (word_of_nat ?x :: 64 word)" using assms by simp
  with smear_mask [OF k(2,1)] k27 have "smear (word_of_int (n - 1)) = mask (Suc k)" by simp
  then have "roundUpForSliceCap n = sint (2 ^ Suc k :: 64 word)"
    using assms by (simp add: roundUpForSliceCap_def mask_eq_exp_minus_1)
  also have "\<dots> = 2 ^ Suc k"
  proof -
    have "(2::int) ^ Suc k < 2 ^ 63" using k27 by (intro power_strict_increasing) auto
    moreover have "- (2 ^ 63) \<le> (2::int) ^ Suc k" by (rule order_trans [of _ 0]) simp_all
    ultimately have "signed_take_bit 63 ((2::int) ^ Suc k) = 2 ^ Suc k" by (rule signed_take_bit_int_eq_self [rotated])
    then show ?thesis using signed_of_int [of "2 ^ Suc k", where ?'b = 64 and ?'a = int]
      by (simp del: power_Suc)
  qed
  finally have "roundUpForSliceCap n = 2 ^ Suc k" .
  moreover have "n - 1 < 2 ^ Suc k" "2 ^ k \<le> n - 1" using k assms by (simp_all add: le_nat_iff nat_less_iff)
  ultimately show ?thesis by (intro exI [of _ "Suc k"]) simp
qed

lemma roundUp_bounds:
  assumes "0 < n"
  shows "n \<le> roundUpForSliceCap n" "roundUpForSliceCap n < 2 * n"
  using assms roundUp_power [of n] by (cases "n \<le> 100 * 1024 * 1024"; force simp: roundUpForSliceCap_def)+

section \<open>Reading a body of known length\<close>

lemma fixed_loop_live:
  assumes "br_live r" "0 < n" "n \<le> length (pending r)"
  shows "\<exists>r'. fixed_loop r dst n = (r', dst @ take n (pending r), None) \<and> pending r' = drop n (pending r) \<and>
           br_live r' \<and> brEnd r' = brEnd r"
  using assms
proof (induction r dst n rule: fixed_loop.induct)
  case (1 r dst n)
  then have "pending r \<noteq> []" by auto
  from Read_live [OF "1.prems"(1,2) this] obtain r1 b where R: "br_Read r n = (r1, b, None)" "b \<noteq> []" "length b \<le> n"
    "pending r = b @ pending r1" "br_live r1" "brEnd r1 = brEnd r" by blast
  show ?case
  proof (cases "length b = n")
    case True
    then show ?thesis using R by (simp add: fixed_loop.simps [of r dst n])
  next
    case False
    with R "1.prems"(3) have n: "0 < n - length b" "n - length b \<le> length (pending r1)" by auto
    from "1.IH" [OF R(1) [symmetric] refl R(2) False R(5) n] obtain r' where
      "fixed_loop r1 (dst @ b) (n - length b) = (r', (dst @ b) @ take (n - length b) (pending r1), None)"
      "pending r' = drop (n - length b) (pending r1)" "br_live r'" "brEnd r' = brEnd r1" by blast
    then show ?thesis using R False n by (simp add: fixed_loop.simps [of r dst n])
  qed
qed

lemma fixed_loop_short:
  assumes "br_live r" "length (pending r) < n"
  shows "\<exists>r'. fixed_loop r dst n = (r', dst @ pending r, Some (BodyIO (brEnd r))) \<and> pending r' = []"
  using assms
proof (induction r dst n rule: fixed_loop.induct)
  case (1 r dst n)
  then have n: "0 < n" by auto
  show ?case
  proof (cases "pending r = []")
    case True
    from Read_end [OF "1.prems"(1) n True] True show ?thesis by (simp add: fixed_loop.simps [of r dst n])
  next
    case False
    from Read_live [OF "1.prems"(1) n this] obtain r1 b where R: "br_Read r n = (r1, b, None)" "b \<noteq> []" "length b \<le> n"
      "pending r = b @ pending r1" "br_live r1" "brEnd r1 = brEnd r" by blast
    with "1.prems"(2) have l: "length b \<noteq> n" "length (pending r1) < n - length b" by auto
    from "1.IH" [OF R(1) [symmetric] refl R(2) l(1) R(5) l(2)] obtain r' where
      "fixed_loop r1 (dst @ b) (n - length b) = (r', (dst @ b) @ pending r1, Some (BodyIO (brEnd r1)))" "pending r' = []"
      by blast
    then show ?thesis using R l by (simp add: fixed_loop.simps [of r dst n])
  qed
qed

lemma append_exact:
  assumes "br_live r" "0 < n" "nat n \<le> length (pending r)" "int (length dst) + n \<le> maxAlloc"
  shows "\<exists>r'. appendBodyFixedSize r dst n = Some (r', dst @ take (nat n) (pending r), None) \<and>
           pending r' = drop (nat n) (pending r) \<and> br_live r' \<and> brEnd r' = brEnd r"
  using fixed_loop_live [of r "nat n" dst] assms by (auto simp: appendBodyFixedSize_def)

section \<open>Reading until the connection is closed\<close>

lemma identity_loop_live:
  assumes "br_live r" "brEnd r = EOF" "int (length b) < len" "0 < m \<longrightarrow> int (length b) \<le> m"
    and "length b + length (pending r) \<le> 2 ^ 46 \<or> 0 < m \<and> m < maxAlloc"
  shows "\<exists>r' b'. identity_loop r m len b =
           Some (r', b', if 0 < m \<and> int (length b + length (pending r)) > m then Some ErrBodyTooLarge else None) \<and>
         prefix b' (b @ pending r) \<and> (m \<le> 0 \<or> int (length b + length (pending r)) \<le> m \<longrightarrow> b' = b @ pending r)"
  using assms
proof (induction r m len b rule: identity_loop.induct)
  case (1 r m len b)
  let ?k = "nat (len - int (length b))"
  have k: "0 < ?k" using "1.prems"(3) by simp
  show ?case
  proof (cases "pending r = []")
    case True
    from Read_end [OF "1.prems"(1) k True] True "1.prems"(2,4) show ?thesis
      by (auto simp: identity_loop.simps [of r m len b])
  next
    case False
    from Read_live [OF "1.prems"(1) k this] obtain r1 p where R: "br_Read r ?k = (r1, p, None)" "p \<noteq> []" "length p \<le> ?k"
      "pending r = p @ pending r1" "br_live r1" "brEnd r1 = brEnd r" by blast
    have E: "brEnd r1 = EOF" using R(6) "1.prems"(2) by simp
    let ?b = "b @ p" and ?o = "int (length (b @ p))"
    show ?thesis
    proof (cases "0 < m \<and> ?o > m")
      case True
      then show ?thesis using R by (simp add: identity_loop.simps [of r m len b] Let_def)
    next
      case small: False
      let ?n = "if 0 < m \<and> roundUpForSliceCap (2 * ?o) > m then m + 1 else roundUpForSliceCap (2 * ?o)"
      have o: "0 < ?o" "?o \<le> int (length b + length (pending r))" using R by (cases p; simp)+
      have small': "0 < m \<longrightarrow> int (length ?b) \<le> m" using small by auto
      have B: "length ?b + length (pending r1) = length b + length (pending r)" using R(4) by simp
      have rest: "length ?b + length (pending r1) \<le> 2 ^ 46 \<or> 0 < m \<and> m < maxAlloc"
        using "1.prems"(5) unfolding B .
      have n: "?o < ?n" "?n \<le> maxAlloc"
        using roundUp_bounds [of "2 * ?o"] small o "1.prems"(5) by (auto simp: maxAlloc_def)
      have eq: "identity_loop r m len b = (if len = ?o then identity_loop r1 m ?n ?b else identity_loop r1 m len ?b)"
        unfolding identity_loop.simps [of r m len b] R(1) prod.case Let_def option.case
          if_not_P [OF R(2)] if_not_P [OF small] if_not_P [OF n(2) [unfolded not_less [symmetric]]] ..
      have "\<exists>r' b'. identity_loop r m len b =
           Some (r', b', if 0 < m \<and> int (length ?b + length (pending r1)) > m then Some ErrBodyTooLarge else None) \<and>
         prefix b' (?b @ pending r1) \<and> (m \<le> 0 \<or> int (length ?b + length (pending r1)) \<le> m \<longrightarrow> b' = ?b @ pending r1)"
      proof (cases "len = ?o")
        case True
        from "1.IH"(1) [OF R(1) [symmetric] refl R(2) refl refl small refl True refl refl _ R(5) E n(1) small' rest] n(2)
        show ?thesis using True eq by simp
      next
        case len: False
        have "int (length ?b) < len" using R(3) len k by (simp add: nat_le_iff le_nat_iff)
        from "1.IH"(2) [OF R(1) [symmetric] refl R(2) refl refl small refl len R(5) E this small' rest]
        show ?thesis using len eq by simp
      qed
      then show ?thesis unfolding B using R(4) by simp
    qed
  qed
qed

section \<open>Reading a chunk size\<close>

lemma readHexInt_written:
  assumes n: "n < 2 ^ 60" and r: "br_live r" and p: "pending r = hex_digits n @ c # p" and c: "hex2intTable c = 16"
  shows "\<exists>r'. readHexInt r = (r', int n, None) \<and> pending r' = c # p \<and> br_live r' \<and> brEnd r' = brEnd r"
proof -
  have m: "n < 16 ^ Suc 14" using n by simp
  have "0 + length (hex_digits n) \<le> 15" using hex_digits_length [OF m] by simp
  from readHex_digits [OF r p this, of 0] obtain r1 where r1:
    "readHexInt r = readHexInt_loop r1 (length (hex_digits n)) (int n)" "br_live r1" "pending r1 = c # p" "brEnd r1 = brEnd r"
    by (auto simp: readHexInt_def)
  from ReadByte_Cons [OF r1(2,3)] obtain r2 where r2:
    "br_ReadByte r1 = (r2, c, None)" "pending r2 = p" "br_live r2" "brLast r2 = Some c" "length (brBuf r2) < brSize r2"
    by blast
  let ?r = "r2\<lparr>brBuf := c # brBuf r2, brLast := None\<rparr>"
  have "readHexInt r = (?r, int n, None)"
    using r1(1) r2 c by (subst (asm) readHexInt_loop.simps) (simp add: br_UnreadByte_def Let_def)
  then show ?thesis using r1(4) r2 ReadByte_facts(4) [OF r2(1)] by (auto simp: pending_def br_live_def br_ok_def no_empty_def)
qed

lemma skip_extension_live:
  assumes "br_live r" "pending r = ext @ rChar # p" "rChar \<notin> set ext"
  shows "\<exists>r'. skip_extension r = (r', None) \<and> pending r' = rChar # p \<and> br_live r' \<and> brEnd r' = brEnd r"
  using assms
proof (induction ext arbitrary: r)
  case Nil
  then have "pending r = rChar # p" by simp
  from ReadByte_Cons [OF Nil(1) this] obtain r' where r':
    "br_ReadByte r = (r', rChar, None)" "pending r' = p" "br_live r'" "brLast r' = Some rChar" "length (brBuf r') < brSize r'"
    by blast
  then show ?case using ReadByte_facts(4) [OF r'(1)]
    by (auto simp: skip_extension.simps [of r] br_UnreadByte_def pending_def br_live_def br_ok_def no_empty_def)
next
  case (Cons x ext)
  then have "pending r = x # ext @ rChar # p" by simp
  from ReadByte_Cons [OF Cons.prems(1) this] obtain r1 where r1:
    "br_ReadByte r = (r1, x, None)" "pending r1 = ext @ rChar # p" "br_live r1" by blast
  from Cons.IH [OF r1(3,2)] Cons.prems(3) obtain r' where
    "skip_extension r1 = (r', None)" "pending r' = rChar # p" "br_live r'" "brEnd r' = brEnd r1" by auto
  then show ?case using r1 Cons.prems(3) ReadByte_facts(4) [OF r1(1)] by (auto simp: skip_extension.simps [of r])
qed

lemma expect_bytes_live:
  "br_live r \<Longrightarrow> pending r = xs @ p \<Longrightarrow>
     \<exists>r'. expect_bytes r xs = (r', None) \<and> pending r' = p \<and> br_live r' \<and> brEnd r' = brEnd r"
proof (induction xs arbitrary: r)
  case (Cons x xs)
  then have "pending r = x # xs @ p" by simp
  from ReadByte_Cons [OF Cons.prems(1) this] obtain r1 where r1:
    "br_ReadByte r = (r1, x, None)" "pending r1 = xs @ p" "br_live r1" by blast
  from Cons.IH [OF r1(3,2)] r1(1) ReadByte_facts(4) [OF r1(1)] show ?case by auto
qed simp

text \<open>A chunk extension that the reader accepts: nothing, or text that no digit begins and that holds no
  carriage return.\<close>

definition chunk_ext :: "bytes \<Rightarrow> bool" where
  "chunk_ext ext \<longleftrightarrow> rChar \<notin> set ext \<and> (ext = [] \<or> hex2intTable (hd ext) = 16)"

lemma parseChunkSize_live:
  assumes "br_live r" "pending r = hex_digits n @ ext @ strCRLF @ p" "n < 2 ^ 60" "chunk_ext ext"
  shows "\<exists>r'. parseChunkSize r = (r', int n, None) \<and> pending r' = p \<and> br_live r' \<and> brEnd r' = brEnd r"
proof -
  obtain c q where c: "ext @ strCRLF @ p = c # q" "hex2intTable c = 16"
    using assms(4) by (cases ext) (auto simp: chunk_ext_def hex2intTable_def)
  from readHexInt_written [OF assms(3,1) _ c(2)] assms(2) c(1) obtain r1 where r1:
    "readHexInt r = (r1, int n, None)" "pending r1 = ext @ rChar # nChar # p" "br_live r1" "brEnd r1 = brEnd r" by auto
  from skip_extension_live [OF r1(3,2)] assms(4) obtain r2 where r2:
    "skip_extension r1 = (r2, None)" "pending r2 = strCRLF @ p" "br_live r2" "brEnd r2 = brEnd r1"
    by (auto simp: chunk_ext_def)
  from expect_bytes_live [OF r2(3,2)] r1 r2 show ?thesis by (auto simp: parseChunkSize_def readCrLf_def)
qed

section \<open>Reading chunks\<close>

text \<open>A chunk on the wire, with its extension.\<close>

definition chunk_wire :: "bytes \<times> bytes \<Rightarrow> bytes" where
  "chunk_wire c = hex_digits (length (snd c)) @ fst c @ strCRLF @ snd c @ strCRLF"

definition last_chunk :: "bytes \<Rightarrow> bytes" where
  "last_chunk ext = hex_digits 0 @ ext @ strCRLF"

abbreviation chunk_data :: "(bytes \<times> bytes) list \<Rightarrow> bytes" where
  "chunk_data cs \<equiv> concat (map snd cs)"

lemma chunked_loop_live:
  assumes "br_live r" "pending r = concat (map chunk_wire cs) @ last_chunk ext @ p"
    and "\<forall>c \<in> set cs. chunk_ext (fst c) \<and> snd c \<noteq> []" "chunk_ext ext"
    and "int (length dst + length (chunk_data cs)) + 2 \<le> maxAlloc"
    and "m \<le> 0 \<or> int (length dst + length (chunk_data cs)) \<le> m"
  shows "\<exists>r'. chunked_loop r m dst = Some (r', dst @ chunk_data cs, None) \<and> pending r' = p \<and> br_live r' \<and> brEnd r' = brEnd r"
  using assms
proof (induction cs arbitrary: r dst)
  case Nil
  then have "pending r = hex_digits 0 @ ext @ strCRLF @ p" by (simp add: last_chunk_def)
  from parseChunkSize_live [OF Nil(1) this _ Nil(4)] show ?case by (auto simp: chunked_loop.simps [of r])
next
  case (Cons c cs)
  obtain x d where c: "c = (x, d)" by force
  let ?p = "concat (map chunk_wire cs) @ last_chunk ext @ p"
  have d: "d \<noteq> []" "chunk_ext x" using Cons.prems(3) c by auto
  have l: "int (length dst + length d) + 2 \<le> maxAlloc" using Cons.prems(5) c by simp
  have "pending r = hex_digits (length d) @ x @ strCRLF @ d @ strCRLF @ ?p"
    using Cons.prems(2) by (simp add: c chunk_wire_def [of "(x, d)"])
  moreover have "length d < 2 ^ 60" using l by (simp add: maxAlloc_def)
  ultimately obtain r1 where r1: "parseChunkSize r = (r1, int (length d), None)" "pending r1 = d @ strCRLF @ ?p"
    "br_live r1" "brEnd r1 = brEnd r"
    using parseChunkSize_live [OF Cons.prems(1) _ _ d(2), of "length d" "d @ strCRLF @ ?p"] by auto
  have "nat (int (length d) + 2) = length d + 2" by simp
  with append_exact [OF r1(3), of "int (length d) + 2" dst] r1(2) l obtain r2 where r2:
    "appendBodyFixedSize r1 dst (int (length d) + 2) = Some (r2, dst @ d @ strCRLF, None)" "pending r2 = ?p"
    "br_live r2" "brEnd r2 = brEnd r1"
    by auto
  have "chunked_loop r m dst = chunked_loop r2 m (dst @ d)"
    using r1(1) r2(1) d(1) Cons.prems(6) c by (subst chunked_loop.simps) auto
  moreover obtain r' where "chunked_loop r2 m (dst @ d) = Some (r', (dst @ d) @ chunk_data cs, None)" "pending r' = p"
    "br_live r'" "brEnd r' = brEnd r2"
    using Cons.IH [OF r2(3,2) _ Cons.prems(4), of "dst @ d"] Cons.prems(3,5,6) c by auto
  ultimately show ?case using c r1(4) r2(4) by auto
qed

section \<open>Every connection: the chunk reader returns, within its limit\<close>

lemma UnreadByte_size: "brSize (fst (br_UnreadByte r)) = brSize r"
  by (simp add: br_UnreadByte_def split: option.splits)

lemma expect_bytes_size: "brSize (fst (expect_bytes r xs)) = brSize r"
proof (induction xs arbitrary: r)
  case (Cons x xs)
  obtain r1 c e where R: "br_ReadByte r = (r1, c, e)" by (metis prod_cases3)
  with Cons.IH [of r1] ReadByte_facts(3) [OF R] show ?case by (auto split: option.splits)
qed simp

lemma skip_extension_size: "brSize (fst (skip_extension r)) = brSize r"
proof (induction r rule: skip_extension.induct)
  case (1 r)
  obtain r1 c e where R: "br_ReadByte r = (r1, c, e)" by (metis prod_cases3)
  with 1 [OF R [symmetric] refl] ReadByte_facts(3) [OF R] UnreadByte_size [of r1] show ?case
    by (subst skip_extension.simps) (auto split: option.splits prod.splits)
qed

lemma readHexInt_loop_size: "brSize (fst (readHexInt_loop r i n)) = brSize r"
proof (induction r i n rule: readHexInt_loop.induct)
  case (1 r i n)
  obtain r1 c e where R: "br_ReadByte r = (r1, c, e)" by (metis prod_cases3)
  with 1 [OF R [symmetric] refl] ReadByte_facts(3) [OF R] UnreadByte_size [of r1] show ?case
    by (subst readHexInt_loop.simps) (auto simp: Let_def split: option.splits prod.splits)
qed

lemma parseChunkSize_size: "brSize (fst (parseChunkSize r)) = brSize r"
proof -
  obtain r1 n e where R: "readHexInt r = (r1, n, e)" by (metis prod_cases3)
  obtain r2 e2 where S: "skip_extension r1 = (r2, e2)" by force
  obtain r3 e3 where C: "readCrLf r2 = (r3, e3)" by force
  show ?thesis
    using R S C readHexInt_loop_size [of r 0 0] skip_extension_size [of r1] expect_bytes_size [of r2 strCRLF]
    by (auto simp: parseChunkSize_def readHexInt_def readCrLf_def split: option.splits)
qed

lemma chunked_loop_bounded:
  assumes "0 < m" "m + 2 \<le> maxAlloc" "int (length dst) \<le> m"
  shows "\<exists>r' b e. chunked_loop r m dst = Some (r', b, e) \<and> int (length b) \<le> m + 2 \<and> (e = None \<longrightarrow> int (length b) \<le> m)"
  using assms
proof (induction "length (pending r)" arbitrary: r dst rule: less_induct)
  case less
  obtain r1 n e where R: "parseChunkSize r = (r1, n, e)" by (metis prod_cases3)
  show ?case
  proof (cases "e = None \<and> n \<noteq> 0 \<and> int (length dst) + n \<le> m")
    case False
    then show ?thesis using R less.prems by (subst chunked_loop.simps) (auto split: option.splits)
  next
    case True
    then have P: "parseChunkSize r = (r1, n, None)" and n: "0 < n" "int (length dst) + n + 2 \<le> maxAlloc"
      using R less.prems(2) parseChunkSize_bound(1) [of r r1 n] by auto
    obtain r2 b e2 where F: "fixed_loop r1 dst (nat (n + 2)) = (r2, b, e2)" by (metis prod_cases3)
    then have A: "appendBodyFixedSize r1 dst (n + 2) = Some (r2, b, e2)" using n by (simp add: appendBodyFixedSize_def)
    from fixed_loop_facts [OF F] obtain p where p: "b = dst @ p" "pending r1 = p @ pending r2" "length p \<le> nat (n + 2)"
      "e2 = None \<longrightarrow> length p = nat (n + 2)" by blast
    show ?thesis
    proof (cases "e2 = None \<and> drop (length b - 2) b = strCRLF")
      case False
      then show ?thesis using P A True p n by (subst chunked_loop.simps) (auto split: option.splits)
    next
      case ok: True
      let ?d = "take (length b - 2) b"
      have "length (pending r2) < length (pending r)" using parseChunkSize_bound(3) [OF P] p(2) by simp
      moreover have "int (length ?d) \<le> m" using p ok n True by simp
      moreover have "chunked_loop r m dst = chunked_loop r2 m ?d"
        using P A True ok by (subst chunked_loop.simps) simp
      ultimately show ?thesis using less.hyps [of r2 ?d] less.prems by simp
    qed
  qed
qed

section \<open>What a writer sends\<close>

text \<open>All bytes given to a writer, sent or still in its buffer.\<close>

definition bw_all :: "bwriter \<Rightarrow> bytes" where
  "bw_all w = bwOut w @ bwBuf w"

lemma Flush_facts:
  assumes "bw_Flush w = (w', e)"
  shows "bw_all w' = bw_all w" "e = bwErr w'" "e = None \<Longrightarrow> bwBuf w' = []"
    "bwRoom w = None \<Longrightarrow> bwRoom w' = None \<and> bwErr w' = bwErr w"
  using assms by (auto simp: bw_Flush_def conn_write_def bw_all_def split: option.splits if_splits)

text \<open>A failed write has sent a prefix of what was to be sent; without an error all of it is sent or buffered.\<close>

lemma Write_facts:
  "bw_Write w p = (w', e) \<Longrightarrow>
     e = bwErr w' \<and> prefix (bw_all w') (bw_all w @ p) \<and> (e = None \<longrightarrow> bw_all w' = bw_all w @ p) \<and>
     (bwRoom w = None \<longrightarrow> bwRoom w' = None \<and> e = bwErr w)"
proof (induction w p arbitrary: w' e rule: bw_Write.induct)
  case (1 w p)
  let ?a = "bwSize w - length (bwBuf w)"
  show ?case
  proof (cases "length p > ?a \<and> bwErr w = None")
    case False
    then show ?thesis using "1.prems" by (subst (asm) bw_Write.simps) (auto simp: Let_def bw_all_def split: option.splits)
  next
    case True
    show ?thesis
    proof (cases "bwBuf w = []")
      case buf: True
      obtain w1 n where C: "conn_write w p = (w1, n)" by force
      have "bw_Write w1 (drop n p) = (w', e)"
        using "1.prems" True buf C by (subst (asm) bw_Write.simps) (simp add: Let_def)
      from "1.IH"(1) [OF refl True buf C [symmetric] this] have
        "e = bwErr w' \<and> prefix (bw_all w') (bw_all w1 @ drop n p) \<and> (e = None \<longrightarrow> bw_all w' = bw_all w1 @ drop n p) \<and>
         (bwRoom w1 = None \<longrightarrow> bwRoom w' = None \<and> e = bwErr w1)" .
      moreover have "bw_all w1 @ drop n p = bw_all w @ p" "bwRoom w = None \<Longrightarrow> bwRoom w1 = None \<and> bwErr w1 = bwErr w"
        using C buf by (auto simp: conn_write_def bw_all_def split: option.splits if_splits)
      ultimately show ?thesis by auto
    next
      case buf: False
      let ?w = "w\<lparr>bwBuf := bwBuf w @ take ?a p\<rparr>"
      obtain w1 e1 where F: "bw_Flush ?w = (w1, e1)" by force
      have "bw_Write w1 (drop ?a p) = (w', e)"
        using "1.prems" True buf F by (subst (asm) bw_Write.simps) (simp add: Let_def)
      from "1.IH"(2) [OF refl True buf] this F have
        "e = bwErr w' \<and> prefix (bw_all w') (bw_all w1 @ drop ?a p) \<and> (e = None \<longrightarrow> bw_all w' = bw_all w1 @ drop ?a p) \<and>
         (bwRoom w1 = None \<longrightarrow> bwRoom w' = None \<and> e = bwErr w1)" by auto
      moreover have "bw_all w1 @ drop ?a p = bw_all w @ p" using Flush_facts(1) [OF F] by (simp add: bw_all_def)
      moreover have "bwRoom w = None \<Longrightarrow> bwRoom w1 = None \<and> bwErr w1 = bwErr w" using Flush_facts(4) [OF F] by simp
      ultimately show ?thesis by auto
    qed
  qed
qed

definition bw_live :: "bwriter \<Rightarrow> bool" where
  "bw_live w \<longleftrightarrow> bwRoom w = None \<and> bwErr w = None"

lemma Write_live:
  assumes "bw_live w"
  shows "\<exists>w'. bw_Write w p = (w', None) \<and> bw_all w' = bw_all w @ p \<and> bw_live w'"
  using Write_facts [of w p] assms by (cases "bw_Write w p") (auto simp: bw_live_def)

lemma writes_live: "bw_live w \<Longrightarrow> \<exists>w'. bw_writes w ps = (w', None) \<and> bw_all w' = bw_all w @ concat ps \<and> bw_live w'"
proof (induction ps arbitrary: w)
  case (Cons p ps)
  from Write_live [OF Cons.prems, of p] obtain w1 where "bw_Write w p = (w1, None)" "bw_all w1 = bw_all w @ p" "bw_live w1"
    by blast
  with Cons.IH [of w1] show ?case by auto
qed simp

lemma writeHexInt_digits: "n < 2 ^ 60 \<Longrightarrow> writeHexInt (int n) = Some (hex_digits n)"
  using writeHexInt_loop_eq [of n 15 "[]"] by (simp add: writeHexInt_def)

lemma writeChunk_live:
  assumes "bw_live w" "length b < 2 ^ 60"
  shows "\<exists>w'. writeChunk w b = Some (w', None) \<and> bw_all w' = bw_all w @ chunk_wire ([], b) \<and> bw_live w'"
proof -
  from writes_live [OF assms(1), of "[hex_digits (length b), strCRLF, b, strCRLF]"] obtain w1 where w1:
    "bw_writes w [hex_digits (length b), strCRLF, b, strCRLF] = (w1, None)"
    "bw_all w1 = bw_all w @ chunk_wire ([], b)" "bw_live w1"
    by (auto simp: chunk_wire_def)
  obtain w2 e where F: "bw_Flush w1 = (w2, e)" by force
  with Flush_facts [OF F] w1 show ?thesis
    by (auto simp: writeChunk_def writeHexInt_digits [OF assms(2)] bw_live_def)
qed

lemma src_Read_plain:
  assumes "0 < n"
  shows "src_Read (map (\<lambda>b. (b, None)) (d # ds)) n =
           (map (\<lambda>b. (b, None)) (if length d > n then drop n d # ds else ds), take n d, None)"
  using assms by simp

definition src_size :: "bytes list \<Rightarrow> nat" where
  "src_size ds = sum_list (map (\<lambda>d. Suc (length d)) ds)"

text \<open>The lemma is stated for any reader that reads a source through a wrapper \<open>f\<close> of its state.\<close>

lemma writeBodyChunked_live:
  assumes "bw_live w" "0 < bufSize" "length (concat ds) < 2 ^ 60"
    and rd: "\<And>src n. rd (f src) n = (case src_Read src n of (src', b, e) \<Rightarrow> Some (f src', b, map_option g e))" and eof: "g EOF = eof"
  shows "\<exists>w' cs. writeBodyChunked rd eof io bufSize w (f (map (\<lambda>b. (b, None)) ds)) = Some (w', f [], None) \<and> bw_live w' \<and>
           [] \<notin> set cs \<and> concat cs = concat ds \<and> (\<forall>c \<in> set cs. length c \<le> bufSize) \<and>
           bw_all w' = bw_all w @ concat (map (\<lambda>c. chunk_wire ([], c)) cs) @ chunkedEnd"
  using assms(1,3)
proof (induction "src_size ds" arbitrary: w ds rule: less_induct)
  case less
  show ?case
  proof (cases ds)
    case Nil
    from Write_live [OF less.prems(1), of chunkedEnd] Nil show ?thesis
      by (subst writeBodyChunked.simps) (auto simp: rd eof intro!: exI [of _ "[]"])
  next
    case (Cons d ds')
    let ?ds = "if length d > bufSize then drop bufSize d # ds' else ds'"
    have size: "src_size ?ds < src_size ds" using assms(2) Cons by (auto simp: src_size_def)
    have cat: "take bufSize d @ concat ?ds = concat ds" using Cons by simp
    show ?thesis
    proof (cases "d = []")
      case True
      then have "writeBodyChunked rd eof io bufSize w (f (map (\<lambda>b. (b, None)) ds)) = writeBodyChunked rd eof io bufSize w (f (map (\<lambda>b. (b, None)) ?ds))"
        using Cons by (subst writeBodyChunked.simps) (simp add: rd)
      moreover have "length (concat ?ds) < 2 ^ 60" using cat less.prems(2) by (metis True append_Nil take_Nil)
      ultimately show ?thesis using less.hyps [OF size less.prems(1)] cat True by auto
    next
      case d: False
      let ?b = "take bufSize d"
      have b: "?b \<noteq> []" "length ?b \<le> bufSize" using d assms(2) by simp_all
      have l: "length ?b + length (concat ?ds) < 2 ^ 60" using less.prems(2) unfolding cat [symmetric] by simp
      from writeChunk_live [OF less.prems(1), of ?b] l obtain w1 where w1:
        "writeChunk w ?b = Some (w1, None)" "bw_all w1 = bw_all w @ chunk_wire ([], ?b)" "bw_live w1" by auto
      have "writeBodyChunked rd eof io bufSize w (f (map (\<lambda>b. (b, None)) ds)) = writeBodyChunked rd eof io bufSize w1 (f (map (\<lambda>b. (b, None)) ?ds))"
        using Cons w1(1) b(1) src_Read_plain [OF assms(2), of d ds'] by (subst writeBodyChunked.simps) (simp add: rd)
      moreover from less.hyps [OF size w1(3)] l obtain w' cs where
        "writeBodyChunked rd eof io bufSize w1 (f (map (\<lambda>b. (b, None)) ?ds)) = Some (w', f [], None)" "bw_live w'"
        "[] \<notin> set cs" "concat cs = concat ?ds" "\<forall>c \<in> set cs. length c \<le> bufSize"
        "bw_all w' = bw_all w1 @ concat (map (\<lambda>c. chunk_wire ([], c)) cs) @ chunkedEnd"
        by auto
      ultimately show ?thesis using b w1(2) cat by (intro exI [of _ w'] exI [of _ "?b # cs"]) auto
    qed
  qed
qed

section \<open>Every connection: the other loops return\<close>

lemma identity_loop_bounded:
  assumes "0 < m" "m < maxAlloc" "int (length b) \<le> m"
  shows "\<exists>r' b' e. identity_loop r m len b = Some (r', b', e) \<and> (e = None \<longrightarrow> int (length b') \<le> m)"
  using assms
proof (induction r m len b rule: identity_loop.induct)
  case (1 r m len b)
  obtain r1 p e where R: "br_Read r (nat (len - int (length b))) = (r1, p, e)" by (metis prod_cases3)
  show ?case
  proof (cases "p = [] \<or> m < int (length (b @ p)) \<or> e \<noteq> None")
    case True
    then show ?thesis using R "1.prems" by (auto simp: identity_loop.simps [of r m len b] Let_def split: option.splits)
  next
    case False
    let ?b = "b @ p" and ?o = "int (length (b @ p))"
    have p: "p \<noteq> []" "\<not> (0 < m \<and> m < ?o)" "int (length ?b) \<le> m" and e: "e = None" using False by auto
    let ?n = "if 0 < m \<and> roundUpForSliceCap (2 * ?o) > m then m + 1 else roundUpForSliceCap (2 * ?o)"
    have n: "\<not> maxAlloc < ?n" using "1.prems"(1,2) by auto
    have eq: "identity_loop r m len b = (if len = ?o then identity_loop r1 m ?n ?b else identity_loop r1 m len ?b)"
      unfolding identity_loop.simps [of r m len b] R e prod.case Let_def option.case
        if_not_P [OF p(1)] if_not_P [OF p(2)] if_not_P [OF n] ..
    show ?thesis
    proof (cases "len = ?o")
      case True
      from "1.IH"(1) [OF R [symmetric] refl p(1) refl refl p(2) e True refl refl n "1.prems"(1,2) p(3)]
      show ?thesis using True eq by simp
    next
      case len: False
      from "1.IH"(2) [OF R [symmetric] refl p(1) refl refl p(2) e len "1.prems"(1,2) p(3)]
      show ?thesis using len eq by simp
    qed
  qed
qed

text \<open>The state of a stream after a number of reads.\<close>

primrec stream_after :: "('s \<Rightarrow> nat \<Rightarrow> ('s \<times> bytes \<times> 'e option) option) \<Rightarrow> nat \<Rightarrow> 's \<Rightarrow> nat \<Rightarrow> 's" where
  "stream_after rd n s 0 = s"
| "stream_after rd n s (Suc k) = stream_after rd n (case rd s n of None \<Rightarrow> s | Some (s', _) \<Rightarrow> s') k"

lemma chunk_writer_needs_error:
  assumes "writeBodyChunked rd eof io bufSize w s = Some y"
  shows "(\<forall>s n. \<exists>s' b e. rd s n = Some (s', b, e) \<and> length b \<le> n) \<longrightarrow> bufSize < 2 ^ 60 \<longrightarrow> bw_live w \<longrightarrow>
    (\<exists>k s' e. rd (stream_after rd bufSize s k) bufSize = Some (s', [], Some e))"
proof (rule writeBodyChunked.raw_induct
    [where P = "\<lambda>rd eof io bufSize w s y. (\<forall>s n. \<exists>s' b e. rd s n = Some (s', b, e) \<and> length b \<le> n) \<longrightarrow> bufSize < 2 ^ 60 \<longrightarrow>
       bw_live w \<longrightarrow> (\<exists>k s' e. rd (stream_after rd bufSize s k) bufSize = Some (s', [], Some e))", OF _ assms], intro impI, goal_cases)
  case (1 loop rd eof io bufSize w s y)
  obtain s1 c e where R: "rd s bufSize = Some (s1, c, e)" "length c \<le> bufSize" using 1(3) by blast
  have later: "\<exists>k s' e. rd (stream_after rd bufSize s k) bufSize = Some (s', [], Some e)"
    if "\<exists>k s' e. rd (stream_after rd bufSize s1 k) bufSize = Some (s', [], Some e)"
  proof -
    from that obtain k s' e where "rd (stream_after rd bufSize s1 k) bufSize = Some (s', [], Some e)" by blast
    then show ?thesis using R by (intro exI [of _ "Suc k"] exI [of _ s'] exI [of _ e]) simp
  qed
  consider "c = []" "e \<noteq> None" | "c = []" "e = None" | "c \<noteq> []" by blast
  then show ?case
  proof cases
    case 1
    then show ?thesis using R by (intro exI [of _ 0]) auto
  next
    case 2
    then have "loop rd eof io bufSize w s1 = Some y" using 1(2) R by simp
    then show ?thesis using 1(1) 1(3-5) later by blast
  next
    case 3
    have "length c < 2 ^ 60" using R(2) 1(4) by simp
    from writeChunk_live [OF 1(5) this] obtain w' where w': "writeChunk w c = Some (w', None)" "bw_live w'" by blast
    then have "loop rd eof io bufSize w' s1 = Some y" using 1(2) R 3 by simp
    then show ?thesis using 1(1) 1(3,4) w'(2) later by blast
  qed
qed

lemma chunk_writer_stops:
  assumes rd: "\<forall>s n. \<exists>s' b e. rd s n = Some (s', b, e) \<and> length b \<le> n" and b: "bufSize < 2 ^ 60"
  shows "rd (stream_after rd bufSize s k) bufSize = Some (s', [], Some e) \<Longrightarrow>
    \<exists>y. writeBodyChunked rd eof io bufSize w s = Some y"
proof (induction k arbitrary: s w)
  case 0
  then show ?case by (subst writeBodyChunked.simps) (auto split: prod.splits)
next
  case (Suc k)
  obtain s1 c e where R: "rd s bufSize = Some (s1, c, e)" "length c \<le> bufSize" using rd by blast
  have IH: "\<exists>y. writeBodyChunked rd eof io bufSize w' s1 = Some y" for w' using Suc R by simp
  have "length c < 2 ^ 60" using R(2) b by simp
  then have "writeChunk w c \<noteq> None" by (simp add: writeChunk_def writeHexInt_digits)
  then obtain w1 e1 where "writeChunk w c = Some (w1, e1)" by (cases "writeChunk w c") auto
  then show ?case using R IH by (subst writeBodyChunked.simps) (auto split: option.splits prod.splits)
qed

section \<open>The properties\<close>

text \<open>C15: What \<^verbatim>\<open>writeBodyChunked\<close> sends, \<^verbatim>\<open>readBodyChunked\<close> reads back. Whatever sizes the reads of the body
  stream have (empty ones included), the writer ends without an error; and on every live reader whose input
  begins with the bytes written, however the connection cuts them into segments, the reader returns exactly the
  concatenation of the stream and leaves the trailer and all that follows it unread. A limit that the body does
  not exceed makes no difference.\<close>

theorem chunked_body_roundtrip:
  assumes w: "bw_live w" and buf: "0 < bufSize" and l: "int (length (concat ds)) + 2 \<le> maxAlloc"
    and m: "m \<le> 0 \<or> int (length (concat ds)) \<le> m"
  shows "\<exists>w' wire. write_source bufSize w (map (\<lambda>b. (b, None)) ds) = Some (w', [], None) \<and>
           bw_all w' = bw_all w @ wire \<and>
           (\<forall>r p. br_live r \<and> pending r = wire @ p \<longrightarrow>
              (\<exists>r'. readBodyChunked r m [] = Some (r', concat ds, None) \<and> pending r' = p \<and> br_live r'))"
proof -
  have "length (concat ds) < 2 ^ 60" using l by (simp add: maxAlloc_def)
  from writeBodyChunked_live [OF w buf this, of "\<lambda>s n. Some (src_Read s n)" "\<lambda>s. s" "\<lambda>e. e" EOF "\<lambda>e. e"] obtain w' cs where W:
    "write_source bufSize w (map (\<lambda>b. (b, None)) ds) = Some (w', [], None)"
    "[] \<notin> set cs" "concat cs = concat ds"
    "bw_all w' = bw_all w @ concat (map (\<lambda>c. chunk_wire ([], c)) cs) @ chunkedEnd" by (auto simp: option.map_ident split: prod.splits)
  let ?cs = "map (\<lambda>c. ([], c)) cs"
  have wire: "concat (map (\<lambda>c. chunk_wire ([], c)) cs) @ chunkedEnd = concat (map chunk_wire ?cs) @ last_chunk []"
    by (simp add: comp_def last_chunk_def hex_digits.simps [of 0] lowerhex_def)
  have data: "chunk_data ?cs = concat ds" using W(3) by (simp add: comp_def)
  have "\<exists>r'. readBodyChunked r m [] = Some (r', concat ds, None) \<and> pending r' = p \<and> br_live r'"
    if r: "br_live r" "pending r = (concat (map chunk_wire ?cs) @ last_chunk []) @ p" for r p
    using chunked_loop_live [OF r(1), of ?cs "[]" p "[]" m] r(2) W(2) l m data
    by (auto simp: readBodyChunked_def chunk_ext_def)
  then show ?thesis using W(1,4) wire by (intro exI [of _ w']) (auto simp del: map_map)
qed

theorem chunked_body_roundtrip_witness:
  "\<exists>w' wire. write_source 3 \<lparr>bwBuf = [], bwSize = 4, bwOut = [], bwRoom = None, bwErr = None\<rparr>
       (map (\<lambda>b. (b, None)) [bs ''hello'', [], bs ''!'']) = Some (w', [], None) \<and>
     bw_all w' = wire \<and>
     (\<forall>r p. br_live r \<and> pending r = wire @ p \<longrightarrow>
        (\<exists>r'. readBodyChunked r 6 [] = Some (r', bs ''hello!'', None) \<and> pending r' = p \<and> br_live r'))"
  using chunked_body_roundtrip [of "\<lparr>bwBuf = [], bwSize = 4, bwOut = [], bwRoom = None, bwErr = None\<rparr>" 3
      "[bs ''hello'', [], bs ''!'']" 6]
  by (simp add: bw_live_def bw_all_def maxAlloc_def)

text \<open>With a limit on the size the three readers do not panic, on every connection that delivers finitely many bytes
  and then ends or fails. A peer that keeps sending a chunk extension is not covered: \<^verbatim>\<open>parseChunkSize\<close> skips it without a
  bound.\<close>

lemma body_readers_return:
  assumes "0 < m" "m + 2 \<le> maxAlloc" "0 \<le> n"
  shows "(\<exists>y. readBodyChunked r m [] = Some y) \<and> (\<exists>y. readBody r n m [] = Some y) \<and> (\<exists>y. readBodyIdentity r m cap = Some y)"
proof -
  have "\<exists>y. readBodyChunked r m [] = Some y"
    using chunked_loop_bounded [OF assms(1,2), of "[]" r] assms(1) by (auto simp: readBodyChunked_def)
  moreover have "\<exists>y. readBody r n m [] = Some y"
    using assms by (cases "fixed_loop r [] (nat n)") (auto simp: readBody_def appendBodyFixedSize_def)
  moreover have "\<exists>y. readBodyIdentity r m cap = Some y"
    using identity_loop_bounded [of m "[]" r] assms(1,2) unfolding readBodyIdentity_def by fastforce
  ultimately show ?thesis by blast
qed

text \<open>C16: When the chunk writer returns. For every body stream that keeps the contract of \<^verbatim>\<open>io.Reader\<close>, of any
  length, also an endless one, and a connection that accepts what is sent, \<^verbatim>\<open>writeBodyChunked\<close> returns if and only if some
  read of the stream yields an error and no bytes. In particular it never returns on a stream whose reads yield neither
  bytes nor an error, which the contract discourages but allows, and an error that comes with bytes does not end it.\<close>

theorem chunk_writer_returns_iff:
  assumes rd: "\<And>s n. \<exists>s' b e. rd s n = Some (s', b, e) \<and> length b \<le> n" and b: "bufSize < 2 ^ 60" and w: "bw_live w"
  shows "(\<exists>y. writeBodyChunked rd eof io bufSize w s = Some y) \<longleftrightarrow>
         (\<exists>k s' e. rd (stream_after rd bufSize s k) bufSize = Some (s', [], Some e))"
proof
  assume "\<exists>y. writeBodyChunked rd eof io bufSize w s = Some y"
  then obtain y where y: "writeBodyChunked rd eof io bufSize w s = Some y" by blast
  have "\<forall>s n. \<exists>s' b e. rd s n = Some (s', b, e) \<and> length b \<le> n" using rd by blast
  then show "\<exists>k s' e. rd (stream_after rd bufSize s k) bufSize = Some (s', [], Some e)"
    using chunk_writer_needs_error [OF y] b w by simp
next
  assume "\<exists>k s' e. rd (stream_after rd bufSize s k) bufSize = Some (s', [], Some e)"
  then show "\<exists>y. writeBodyChunked rd eof io bufSize w s = Some y"
    using chunk_writer_stops [of rd bufSize] rd b by blast
qed

theorem chunk_writer_returns_iff_witness:
  "writeBodyChunked (\<lambda>s n. Some (s, [], None)) EOF (\<lambda>e. e) 4096 \<lparr>bwBuf = [], bwSize = 4, bwOut = [], bwRoom = None, bwErr = None\<rparr> () = None \<and>
   (\<exists>y. writeBodyChunked (\<lambda>s n. Some (s - 1, [], if s = 0 then Some EOF else None)) EOF (\<lambda>e. e) 4096
          \<lparr>bwBuf = [], bwSize = 4, bwOut = [], bwRoom = None, bwErr = None\<rparr> (3 :: nat) = Some y)"
proof
  let ?w = "\<lparr>bwBuf = [], bwSize = 4, bwOut = [], bwRoom = None, bwErr = None\<rparr>"
  have w: "bw_live ?w" by (simp add: bw_live_def)
  have "\<not> (\<exists>y. writeBodyChunked (\<lambda>s n. Some (s, [], None)) EOF (\<lambda>e. e) 4096 ?w () = Some y)"
    by (subst chunk_writer_returns_iff) (simp_all add: w)
  then show "writeBodyChunked (\<lambda>s n. Some (s, [], None)) EOF (\<lambda>e. e) 4096 ?w () = None"
    by (simp only: not_ex not_Some_eq)
  show "\<exists>y. writeBodyChunked (\<lambda>s n. Some (s - 1, [], if s = 0 then Some EOF else None)) EOF (\<lambda>e. e) 4096 ?w (3 :: nat) = Some y"
    by (subst chunk_writer_returns_iff) (auto simp: w numeral_3_eq_3 intro!: exI [of _ "3"])
qed

text \<open>C17: The limit on the size of a body holds on every connection: a reader that reports success returns at
  most \<open>maxBodySize\<close> bytes, and the chunk reader never holds more than two bytes above it, the line break of the
  chunk it is reading, even when it fails.\<close>

theorem body_limit:
  assumes "0 < m" "m + 2 \<le> maxAlloc" "0 \<le> n"
  shows "(\<forall>r' b e. readBodyChunked r m [] = Some (r', b, e) \<longrightarrow>
            int (length b) \<le> m + 2 \<and> (e = None \<longrightarrow> int (length b) \<le> m)) \<and>
         (\<forall>r' b. readBody r n m [] = Some (r', b, None) \<longrightarrow> int (length b) = n \<and> n \<le> m) \<and>
         (\<forall>r' b. readBodyIdentity r m cap = Some (r', b, None) \<longrightarrow> int (length b) \<le> m)"
proof -
  have "\<forall>r' b e. readBodyChunked r m [] = Some (r', b, e) \<longrightarrow>
          int (length b) \<le> m + 2 \<and> (e = None \<longrightarrow> int (length b) \<le> m)"
    using chunked_loop_bounded [OF assms(1,2), of "[]" r] assms(1) by (auto simp: readBodyChunked_def)
  moreover have "\<forall>r' b. readBody r n m [] = Some (r', b, None) \<longrightarrow> int (length b) = n \<and> n \<le> m"
    using assms(1,3) by (auto simp: readBody_def appendBodyFixedSize_def dest!: fixed_loop_facts split: if_splits)
  moreover have "\<forall>r' b. readBodyIdentity r m cap = Some (r', b, None) \<longrightarrow> int (length b) \<le> m"
    using identity_loop_bounded [of m "[]" r "if cap = 0 then 1024 else int cap"] assms(1,2)
    by (auto simp: readBodyIdentity_def)
  ultimately show ?thesis by blast
qed

theorem body_limit_witness:
  "\<exists>r' b. readBodyIdentity (new_reader 16 [bs ''abc'', bs ''d'']) 5 0 = Some (r', b, None) \<and> int (length b) \<le> 5"
proof -
  let ?r = "new_reader 16 [bs ''abc'', bs ''d'']"
  have "br_live ?r" "brEnd ?r = EOF" "pending ?r = bs ''abcd''"
    by (simp_all add: new_reader_def br_live_def br_ok_def no_empty_def pending_def)
  then have "\<exists>r' b. readBodyIdentity ?r 5 0 = Some (r', b, None)"
    using identity_loop_live [of ?r "[]" 1024 5] by (auto simp: readBodyIdentity_def)
  then show ?thesis using body_limit [of 5 0 ?r 0] by (auto simp: maxAlloc_def)
qed

text \<open>The two readers of unframed and of length-framed bodies are exact. On a live connection that is closed
  after its last byte, \<^verbatim>\<open>readBody\<close> returns the first \<open>n\<close> bytes and leaves the rest for the next message, or fails
  with \<^verbatim>\<open>io.EOF\<close> when there are fewer; \<^verbatim>\<open>readBodyIdentity\<close> returns all bytes up to the end, or the error for a
  body above the limit, whatever capacity the slice of the caller has.\<close>

theorem body_exact:
  assumes r: "br_live r" and e: "brEnd r = EOF" and n: "0 < n" "n \<le> maxAlloc" and l: "length (pending r) \<le> 2 ^ 46"
  shows "(\<exists>r' b. readBody r n 0 [] = Some (r', b, if nat n \<le> length (pending r) then None else Some (BodyIO EOF)) \<and>
            b = take (nat n) (pending r) \<and> pending r' = drop (nat n) (pending r)) \<and>
         (\<exists>r' b. readBodyIdentity r m cap =
             Some (r', b, if 0 < m \<and> int (length (pending r)) > m then Some ErrBodyTooLarge else None) \<and>
           prefix b (pending r) \<and> (m \<le> 0 \<or> int (length (pending r)) \<le> m \<longrightarrow> b = pending r))"
proof (rule conjI, goal_cases)
  case 1
  have "\<exists>r'. fixed_loop r [] (nat n) = (r', take (nat n) (pending r), if nat n \<le> length (pending r) then None else Some (BodyIO EOF)) \<and>
          pending r' = drop (nat n) (pending r)"
  proof (cases "nat n \<le> length (pending r)")
    case True
    then show ?thesis using fixed_loop_live [OF r, of "nat n" "[]"] n by auto
  next
    case False
    then show ?thesis using fixed_loop_short [OF r, of "nat n" "[]"] e by auto
  qed
  then show ?case using n by (auto simp: readBody_def appendBodyFixedSize_def)
next
  case 2
  show ?case
    using identity_loop_live [OF r e, of "[]" "if cap = 0 then 1024 else int cap" m] l
    by (auto simp: readBodyIdentity_def)
qed

theorem body_exact_witness:
  "\<exists>r' b. readBodyIdentity (new_reader 16 [bs ''abc'', bs ''de'']) 5 1 = Some (r', b, None) \<and> b = bs ''abcde''"
  using body_exact [of "new_reader 16 [bs ''abc'', bs ''de'']" 1 5 1]
  by (simp add: new_reader_def br_live_def br_ok_def no_empty_def pending_def maxAlloc_def)

lemma hex_digits_long:
  "2 ^ 60 \<le> n \<Longrightarrow> \<exists>m k ds. hex_digits n = hex_digits m @ lowerhex (word_of_nat k) # ds \<and> k < 16 \<and> length (hex_digits m) = 15"
proof (induction n rule: hex_digits.induct)
  case (1 n)
  have h: "hex_digits n = hex_digits (n div 16) @ [lowerhex (word_of_nat (n mod 16))]"
    using "1.prems" by (simp add: hex_digits.simps [of n])
  show ?case
  proof (cases "2 ^ 60 \<le> n div 16")
    case True
    from "1.IH" [OF _ this] "1.prems" obtain m k ds where
      "hex_digits (n div 16) = hex_digits m @ lowerhex (word_of_nat k) # ds" "k < 16" "length (hex_digits m) = 15" by auto
    then show ?thesis using h by auto
  next
    case False
    have "length (hex_digits (n div 16)) \<le> 15" using hex_digits_length [of "n div 16" 14] False by simp
    moreover have "\<not> length (hex_digits (n div 16)) \<le> 14"
    proof
      assume "length (hex_digits (n div 16)) \<le> 14"
      then have "(16::nat) ^ length (hex_digits (n div 16)) \<le> 16 ^ 14" by (intro power_increasing) auto
      then show False using hex_digits_value [of "n div 16"] "1.prems" by simp
    qed
    ultimately have "length (hex_digits (n div 16)) = 15" by simp
    then show ?thesis using h by (intro exI [of _ "n div 16"] exI [of _ "n mod 16"] exI [of _ "[]"]) simp
  qed
qed

text \<open>Without a limit on the size, the size of a chunk is not checked before memory is requested for it. A peer
  that announces a chunk that with its line break is larger than any slice makes \<^verbatim>\<open>make\<close> panic before a byte of the
  chunk arrives; only a size of sixteen digits or more is refused as too large.\<close>

theorem huge_chunk_panics:
  assumes "br_live r" "pending r = hex_digits n @ ext @ strCRLF @ p" "chunk_ext ext" "int n + 2 > maxAlloc"
  shows "if n < 2 ^ 60 then readBodyChunked r 0 [] = None
         else \<exists>r'. readBodyChunked r 0 [] = Some (r', [], Some (BodyHex errTooLargeHexNum))"
proof (cases "n < 2 ^ 60")
  case True
  from parseChunkSize_live [OF assms(1,2) True assms(3)] obtain r' where "parseChunkSize r = (r', int n, None)" by blast
  moreover have "appendBodyFixedSize r' [] (int n + 2) = None" using assms(4) by (auto simp: appendBodyFixedSize_def)
  ultimately show ?thesis using True assms(4) by (auto simp: readBodyChunked_def chunked_loop.simps [of r 0] maxAlloc_def)
next
  case False
  then obtain m k ds where m: "hex_digits n = hex_digits m @ lowerhex (word_of_nat k) # ds" "k < 16" "length (hex_digits m) = 15"
    using hex_digits_long [of n] by auto
  have "pending r = hex_digits m @ lowerhex (word_of_nat k) # ds @ ext @ strCRLF @ p" using assms(2) m(1) by simp
  from readHex_digits [OF assms(1) this, of 0 0] m(3) obtain r1 where r1:
    "readHexInt r = readHexInt_loop r1 15 (int m)" "br_live r1" "pending r1 = lowerhex (word_of_nat k) # ds @ ext @ strCRLF @ p"
    by (auto simp: readHexInt_def)
  from ReadByte_Cons [OF r1(2,3)] obtain r2 where "br_ReadByte r1 = (r2, lowerhex (word_of_nat k), None)" by blast
  then have "readHexInt r = (r2, -1, Some errTooLargeHexNum)"
    using r1(1) m(2) hex2int_lowerhex [OF m(2)] by (simp add: readHexInt_loop.simps [of r1] Let_def maxHexIntChars_def)
  then show ?thesis using False by (simp add: readBodyChunked_def chunked_loop.simps [of r 0] parseChunkSize_def)
qed

theorem huge_chunk_panics_witness:
  "readBodyChunked (new_reader 4096 [bs ''1000000000000'' @ strCRLF]) 0 [] = None"
proof -
  let ?r = "new_reader 4096 [bs ''1000000000000'' @ strCRLF]"
  have "pending ?r = hex_digits (2 ^ 48) @ [] @ strCRLF @ []"
    by (simp add: new_reader_def pending_def hex_digits.simps lowerhex_def)
  moreover have "br_live ?r" "chunk_ext []" by (simp_all add: new_reader_def br_live_def br_ok_def no_empty_def chunk_ext_def)
  ultimately show ?thesis using huge_chunk_panics [of ?r "2 ^ 48" "[]" "[]"] by (simp add: maxAlloc_def)
qed

end
