(* ===== verification/ResponseHeader.thy ===== *)
theory ResponseHeader
  imports RequestHeader
begin

unbundle bit_operations_syntax

text \<open>
  \<^verbatim>\<open>ResponseHeader\<close> of \<^verbatim>\<open>header.go\<close>: its fields, setters and getters, cookies and trailers, parsing from
  a buffered reader and printing. The date line is taken from a value that a background goroutine refreshes;
  it is an argument of the printer.
\<close>

section \<open>The header\<close>

record ResponseHeader =
  rsStatusMessage :: bytes
  rsProtocol :: bytes
  rsContentLengthBytes :: bytes
  rsContentType :: bytes
  rsContentEncoding :: bytes
  rsServer :: bytes
  rsMulHeader :: "bytes list"
  rsH :: kvslice
  rsTrailer :: kvslice
  rsCookies :: kvslice
  rsBufK :: bytes
  rsBufV :: bytes
  rsStatusCode :: int
  rsContentLength :: int
  rsNoHTTP11 :: bool
  rsConnectionClose :: bool
  rsDisableNormalizing :: bool
  rsNoDefaultContentType :: bool
  rsSecureErrorLogMessage :: bool
  rsHeadMethod :: bool
  rsNoDefaultDate :: bool

definition emptyResponseHeader :: ResponseHeader where
  "emptyResponseHeader =
     \<lparr>rsStatusMessage = [], rsProtocol = [], rsContentLengthBytes = [], rsContentType = [], rsContentEncoding = [],
      rsServer = [], rsMulHeader = [], rsH = emptyArgs, rsTrailer = emptyArgs, rsCookies = emptyArgs, rsBufK = [],
      rsBufV = [], rsStatusCode = 0, rsContentLength = 0, rsNoHTTP11 = False, rsConnectionClose = False,
      rsDisableNormalizing = False, rsNoDefaultContentType = False, rsSecureErrorLogMessage = False,
      rsHeadMethod = False, rsNoDefaultDate = False\<rparr>"

definition ResponseHeader_resetSkipNormalize :: "ResponseHeader \<Rightarrow> ResponseHeader" where
  "ResponseHeader_resetSkipNormalize h =
     h\<lparr>rsStatusMessage := [], rsProtocol := [], rsContentLengthBytes := [], rsContentType := [],
       rsContentEncoding := [], rsServer := [], rsMulHeader := [], rsH := resetArgs (rsH h),
       rsTrailer := resetArgs (rsTrailer h), rsCookies := resetArgs (rsCookies h), rsStatusCode := 0,
       rsContentLength := 0, rsNoHTTP11 := False, rsConnectionClose := False\<rparr>"

definition ResponseHeader_Reset :: "ResponseHeader \<Rightarrow> ResponseHeader" where
  "ResponseHeader_Reset h =
     ResponseHeader_resetSkipNormalize
       (h\<lparr>rsDisableNormalizing := False, rsNoDefaultContentType := False, rsSecureErrorLogMessage := False,
          rsHeadMethod := False, rsNoDefaultDate := False\<rparr>)"

definition ResponseHeader_CopyTo :: "ResponseHeader \<Rightarrow> ResponseHeader \<Rightarrow> ResponseHeader" where
  "ResponseHeader_CopyTo h dst =
     (let dst = ResponseHeader_Reset dst;
          dst = dst\<lparr>rsDisableNormalizing := rsDisableNormalizing h, rsNoHTTP11 := rsNoHTTP11 h,
                    rsConnectionClose := rsConnectionClose h, rsNoDefaultContentType := rsNoDefaultContentType h,
                    rsNoDefaultDate := rsNoDefaultDate h\<rparr>
      in dst\<lparr>rsStatusCode := rsStatusCode h, rsStatusMessage := rsStatusMessage dst @ rsStatusMessage h,
             rsProtocol := rsProtocol dst @ rsProtocol h, rsContentLength := rsContentLength h,
             rsContentLengthBytes := rsContentLengthBytes dst @ rsContentLengthBytes h,
             rsContentType := rsContentType dst @ rsContentType h,
             rsContentEncoding := rsContentEncoding dst @ rsContentEncoding h, rsServer := rsServer dst @ rsServer h,
             rsH := copyArgs (rsH dst) (rsH h), rsCookies := copyArgs (rsCookies dst) (rsCookies h),
             rsTrailer := copyArgs (rsTrailer dst) (rsTrailer h)\<rparr>)"

definition ResponseHeader_DisableNormalizing :: "ResponseHeader \<Rightarrow> ResponseHeader" where
  "ResponseHeader_DisableNormalizing h = h\<lparr>rsDisableNormalizing := True\<rparr>"

definition ResponseHeader_EnableNormalizing :: "ResponseHeader \<Rightarrow> ResponseHeader" where
  "ResponseHeader_EnableNormalizing h = h\<lparr>rsDisableNormalizing := False\<rparr>"

definition ResponseHeader_SetNoDefaultContentType :: "ResponseHeader \<Rightarrow> bool \<Rightarrow> ResponseHeader" where
  "ResponseHeader_SetNoDefaultContentType h noDefaultContentType = h\<lparr>rsNoDefaultContentType := noDefaultContentType\<rparr>"

section \<open>Reading the header\<close>

definition ResponseHeader_IsHTTP11 :: "ResponseHeader \<Rightarrow> bool" where
  "ResponseHeader_IsHTTP11 h = (\<not> rsNoHTTP11 h)"

definition ResponseHeader_Protocol :: "ResponseHeader \<Rightarrow> bytes" where
  "ResponseHeader_Protocol h = (if rsProtocol h \<noteq> [] then rsProtocol h else strHTTP11)"

definition ResponseHeader_ContentType :: "ResponseHeader \<Rightarrow> bytes" where
  "ResponseHeader_ContentType h =
     (if \<not> rsNoDefaultContentType h \<and> rsContentType h = [] then defaultContentType else rsContentType h)"

definition ResponseHeader_mustSkipContentLength :: "ResponseHeader \<Rightarrow> bool" where
  "ResponseHeader_mustSkipContentLength h =
     (if rsStatusCode h < 100 \<or> rsStatusCode h = 200 then False
      else rsStatusCode h = 304 \<or> rsStatusCode h = 204 \<or> rsStatusCode h < 200)"

text \<open>\<^verbatim>\<open>peekSpecial\<close> refreshes the text of the content length on the way; the outer \<open>None\<close> is a panic of
  \<^verbatim>\<open>AppendUint\<close>.\<close>

definition ResponseHeader_peekSpecial :: "ResponseHeader \<Rightarrow> bytes \<Rightarrow> (ResponseHeader \<times> bytes option) option" where
  "ResponseHeader_peekSpecial h key =
     (if length key = 0 then Some (h, None)
      else let c = key ! 0
      in if c = 0x43 then
           (if key = strContentType then Some (h, Some (ResponseHeader_ContentType h))
            else if key = strContentEncoding then Some (h, Some (rsContentEncoding h))
            else if key = strConnection then Some (h, if rsConnectionClose h then Some strClose else None)
            else if key = strContentLength
            then (if rsContentLength h > 0
                  then map_option (\<lambda>b. (h\<lparr>rsContentLengthBytes := b\<rparr>, Some b)) (AppendUint [] (rsContentLength h))
                  else Some (h, Some []))
            else Some (h, None))
         else if c = 0x53 then
           (if key = strServer then Some (h, Some (rsServer h))
            else if key = strSetCookie then Some (h, Some (appendResponseCookieBytes [] (live (rsCookies h))))
            else Some (h, None))
         else if c = 0x54 then
           (if key = strTrailer then Some (h, Some (appendArgsKeyBytes [] (live (rsTrailer h)) (bs '', '')))
            else if key = strTransferEncoding then Some (h, Some (if rsContentLength h = -1 then strChunked else []))
            else Some (h, None))
         else Some (h, None))"

definition ResponseHeader_peek :: "ResponseHeader \<Rightarrow> bytes \<Rightarrow> (ResponseHeader \<times> bytes) option" where
  "ResponseHeader_peek h key =
     map_option (\<lambda>(h, r). (h, case r of Some r \<Rightarrow> r | None \<Rightarrow> peek_bytes (rsH h) key)) (ResponseHeader_peekSpecial h key)"

definition ResponseHeader_PeekBytes :: "ResponseHeader \<Rightarrow> bytes \<Rightarrow> (ResponseHeader \<times> bytes) option" where
  "ResponseHeader_PeekBytes h key =
     (case initHeaderK (rsBufK h) key (rsDisableNormalizing h) of
        (bufK, key) \<Rightarrow> ResponseHeader_peek (h\<lparr>rsBufK := bufK\<rparr>) key)"

definition ResponseHeader_peekAll :: "ResponseHeader \<Rightarrow> bytes \<Rightarrow> ResponseHeader option" where
  "ResponseHeader_peekAll h key =
     map_option
       (\<lambda>(h, r). case r of
          Some r \<Rightarrow>
            if r \<noteq> [] then h\<lparr>rsMulHeader := rsMulHeader h @ [r]\<rparr>
            else h\<lparr>rsMulHeader := peekAllArgBytesToDst (rsMulHeader h) (live (rsH h)) key\<rparr>
        | None \<Rightarrow> h\<lparr>rsMulHeader := peekAllArgBytesToDst (rsMulHeader h) (live (rsH h)) key\<rparr>)
       (ResponseHeader_peekSpecial (h\<lparr>rsMulHeader := []\<rparr>) key)"

definition ResponseHeader_PeekAllBytes :: "ResponseHeader \<Rightarrow> bytes \<Rightarrow> ResponseHeader option" where
  "ResponseHeader_PeekAllBytes h key =
     (case initHeaderK (rsBufK h) key (rsDisableNormalizing h) of
        (bufK, key) \<Rightarrow> ResponseHeader_peekAll (h\<lparr>rsBufK := bufK\<rparr>) key)"

definition ResponseHeader_PeekKeys :: "ResponseHeader \<Rightarrow> ResponseHeader" where
  "ResponseHeader_PeekKeys h = h\<lparr>rsMulHeader := peekArgsKeys [] (live (rsH h))\<rparr>"

definition ResponseHeader_PeekTrailerKeys :: "ResponseHeader \<Rightarrow> ResponseHeader" where
  "ResponseHeader_PeekTrailerKeys h = h\<lparr>rsMulHeader := peekArgsKeys [] (live (rsTrailer h))\<rparr>"

definition ResponseHeader_PeekCookie :: "ResponseHeader \<Rightarrow> bytes \<Rightarrow> bytes option" where
  "ResponseHeader_PeekCookie h key = peekArgStr (live (rsCookies h)) key"

text \<open>A stored cookie whose text is empty counts as present.\<close>

definition ResponseHeader_Cookie :: "'t time_ops \<Rightarrow> ResponseHeader \<Rightarrow> 't Cookie \<Rightarrow> 't Cookie \<times> bool" where
  "ResponseHeader_Cookie T h cookie =
     (case peekArgBytes (live (rsCookies h)) (ckKey cookie) of
        None \<Rightarrow> (cookie, False)
      | Some v \<Rightarrow> (fst (Cookie_ParseBytes T cookie v), True))"

definition ResponseHeader_ConnectionUpgrade :: "ResponseHeader \<Rightarrow> (ResponseHeader \<times> bool) option" where
  "ResponseHeader_ConnectionUpgrade h =
     map_option (\<lambda>(h, v). (h, hasHeaderValue v strUpgrade)) (ResponseHeader_PeekBytes h strConnection)"

definition ResponseHeader_Charset :: "ResponseHeader \<Rightarrow> (ResponseHeader \<times> bytes) option" where
  "ResponseHeader_Charset h =
     map_option
       (\<lambda>(h, ct). (h, if ct = [] then bs ''UTF-8''
                      else (case last_index_byte ct 0x3D of None \<Rightarrow> bs ''UTF-8'' | Some i \<Rightarrow> drop (i + 1) ct)))
       (ResponseHeader_PeekBytes h strContentType)"

definition ResponseHeader_VisitAll :: "ResponseHeader \<Rightarrow> (bytes \<Rightarrow> bytes \<Rightarrow> 's \<Rightarrow> 's) \<Rightarrow> 's \<Rightarrow> 's" where
  "ResponseHeader_VisitAll h f s =
     (let s = (if rsContentLengthBytes h \<noteq> [] then f strContentLength (rsContentLengthBytes h) s else s);
          ct = ResponseHeader_ContentType h;
          s = (if ct \<noteq> [] then f strContentType ct s else s);
          s = (if rsContentEncoding h \<noteq> [] then f strContentEncoding (rsContentEncoding h) s else s);
          s = (if rsServer h \<noteq> [] then f strServer (rsServer h) s else s);
          s = visitArgs (live (rsCookies h)) (\<lambda>_ v. f strSetCookie v) s;
          s = (if live (rsTrailer h) \<noteq> []
               then f strTrailer (appendArgsKeyBytes [] (live (rsTrailer h)) (bs '', '')) s else s);
          s = visitArgs (live (rsH h)) f s
      in if rsConnectionClose h then f strConnection strClose s else s)"

fun visitArgsKey :: "argsKV list \<Rightarrow> (bytes \<Rightarrow> 's \<Rightarrow> 's) \<Rightarrow> 's \<Rightarrow> 's" where
  "visitArgsKey [] f s = s"
| "visitArgsKey (kv # args) f s = visitArgsKey args f (f (kvKey kv) s)"

definition ResponseHeader_VisitAllTrailer :: "ResponseHeader \<Rightarrow> (bytes \<Rightarrow> 's \<Rightarrow> 's) \<Rightarrow> 's \<Rightarrow> 's" where
  "ResponseHeader_VisitAllTrailer h f s = visitArgsKey (live (rsTrailer h)) f s"

definition ResponseHeader_VisitAllCookie :: "ResponseHeader \<Rightarrow> (bytes \<Rightarrow> bytes \<Rightarrow> 's \<Rightarrow> 's) \<Rightarrow> 's \<Rightarrow> 's" where
  "ResponseHeader_VisitAllCookie h f s = visitArgs (live (rsCookies h)) f s"

definition ResponseHeader_Len :: "ResponseHeader \<Rightarrow> nat" where
  "ResponseHeader_Len h = ResponseHeader_VisitAll h (\<lambda>_ _ n. n + 1) 0"

section \<open>Changing the header\<close>

definition ResponseHeader_setNonSpecial :: "ResponseHeader \<Rightarrow> bytes \<Rightarrow> bytes \<Rightarrow> ResponseHeader" where
  "ResponseHeader_setNonSpecial h key value = h\<lparr>rsH := setArg (rsH h) key value False\<rparr>"

definition ResponseHeader_DelNoSpecialCanonical :: "ResponseHeader \<Rightarrow> bytes \<Rightarrow> ResponseHeader" where
  "ResponseHeader_DelNoSpecialCanonical h key = h\<lparr>rsH := delAllArgs (rsH h) key\<rparr>"

definition ResponseHeader_SetContentRange :: "ResponseHeader \<Rightarrow> int \<Rightarrow> int \<Rightarrow> int \<Rightarrow> ResponseHeader option" where
  "ResponseHeader_SetContentRange h startPos endPos contentLength =
     (case AppendUint (bs ''bytes'' @ [spChar]) startPos of
        None \<Rightarrow> None
      | Some b \<Rightarrow>
          (case AppendUint (b @ [0x2D]) endPos of
             None \<Rightarrow> None
           | Some b \<Rightarrow>
               (case AppendUint (b @ [0x2F]) contentLength of
                  None \<Rightarrow> None
                | Some b \<Rightarrow> Some (ResponseHeader_setNonSpecial (h\<lparr>rsBufV := b\<rparr>) strContentRange b))))"

definition ResponseHeader_SetStatusCode :: "ResponseHeader \<Rightarrow> int \<Rightarrow> ResponseHeader" where
  "ResponseHeader_SetStatusCode h statusCode = h\<lparr>rsStatusCode := statusCode\<rparr>"

definition ResponseHeader_SetStatusMessage :: "ResponseHeader \<Rightarrow> bytes \<Rightarrow> ResponseHeader" where
  "ResponseHeader_SetStatusMessage h statusMessage = h\<lparr>rsStatusMessage := statusMessage\<rparr>"

definition ResponseHeader_SetProtocol :: "ResponseHeader \<Rightarrow> bytes \<Rightarrow> ResponseHeader" where
  "ResponseHeader_SetProtocol h protocol = h\<lparr>rsProtocol := protocol\<rparr>"

definition ResponseHeader_SetLastModified :: "'t time_ops \<Rightarrow> ResponseHeader \<Rightarrow> 't \<Rightarrow> ResponseHeader option" where
  "ResponseHeader_SetLastModified T h t =
     map_option (\<lambda>b. ResponseHeader_setNonSpecial (h\<lparr>rsBufV := b\<rparr>) strLastModified b) (AppendHTTPDate T [] t)"

definition ResponseHeader_SetConnectionClose :: "ResponseHeader \<Rightarrow> ResponseHeader" where
  "ResponseHeader_SetConnectionClose h = h\<lparr>rsConnectionClose := True\<rparr>"

definition ResponseHeader_ResetConnectionClose :: "ResponseHeader \<Rightarrow> ResponseHeader" where
  "ResponseHeader_ResetConnectionClose h =
     (if rsConnectionClose h
      then h\<lparr>rsConnectionClose := False, rsH := delAllArgs (rsH h) strConnection\<rparr> else h)"

definition ResponseHeader_SetContentLength :: "ResponseHeader \<Rightarrow> int \<Rightarrow> ResponseHeader" where
  "ResponseHeader_SetContentLength h contentLength = h\<lparr>rsContentLength := contentLength\<rparr>"

definition ResponseHeader_SetContentTypeBytes :: "ResponseHeader \<Rightarrow> bytes \<Rightarrow> ResponseHeader" where
  "ResponseHeader_SetContentTypeBytes h contentType = h\<lparr>rsContentType := contentType\<rparr>"

definition ResponseHeader_SetContentEncodingBytes :: "ResponseHeader \<Rightarrow> bytes \<Rightarrow> ResponseHeader" where
  "ResponseHeader_SetContentEncodingBytes h contentEncoding = h\<lparr>rsContentEncoding := contentEncoding\<rparr>"

definition ResponseHeader_SetServerBytes :: "ResponseHeader \<Rightarrow> bytes \<Rightarrow> ResponseHeader" where
  "ResponseHeader_SetServerBytes h server = h\<lparr>rsServer := server\<rparr>"

text \<open>\<^verbatim>\<open>AddTrailerBytes\<close> of a response checks a name before it brings it into canonical form.\<close>

function ResponseHeader_trailer_loop :: "ResponseHeader \<Rightarrow> header_error option \<Rightarrow> bytes \<Rightarrow> ResponseHeader \<times> header_error option" where
  "ResponseHeader_trailer_loop h err trailer =
     (if trailer = [] then (h, err)
      else (let i = (case index_byte trailer 0x2C of None \<Rightarrow> length trailer | Some i \<Rightarrow> i);
                key = stripSpace (take i trailer)
            in if isBadTrailer key (rsDisableNormalizing h)
               then ResponseHeader_trailer_loop h (Some ErrBadTrailer) (drop (i + 1) trailer)
               else (case initHeaderK (rsBufK h) key (rsDisableNormalizing h) of
                       (bufK, key) \<Rightarrow>
                         ResponseHeader_trailer_loop
                           (h\<lparr>rsBufK := bufK, rsTrailer := appendArg (rsTrailer h) key [] True\<rparr>) err
                           (drop (i + 1) trailer))))"
  by pat_completeness auto
termination
  by (relation "measure (\<lambda>(h, err, t). length t)") auto

declare ResponseHeader_trailer_loop.simps [simp del]

definition ResponseHeader_AddTrailerBytes :: "ResponseHeader \<Rightarrow> bytes \<Rightarrow> ResponseHeader \<times> header_error option" where
  "ResponseHeader_AddTrailerBytes h trailer = ResponseHeader_trailer_loop h None trailer"

definition ResponseHeader_SetTrailerBytes :: "ResponseHeader \<Rightarrow> bytes \<Rightarrow> ResponseHeader \<times> header_error option" where
  "ResponseHeader_SetTrailerBytes h trailer =
     ResponseHeader_AddTrailerBytes (h\<lparr>rsTrailer := resetArgs (rsTrailer h)\<rparr>) trailer"

definition ResponseHeader_del :: "ResponseHeader \<Rightarrow> bytes \<Rightarrow> ResponseHeader" where
  "ResponseHeader_del h key =
     (let h = (if key = strContentType then h\<lparr>rsContentType := []\<rparr>
               else if key = strContentEncoding then h\<lparr>rsContentEncoding := []\<rparr>
               else if key = strServer then h\<lparr>rsServer := []\<rparr>
               else if key = strSetCookie then h\<lparr>rsCookies := resetArgs (rsCookies h)\<rparr>
               else if key = strContentLength then h\<lparr>rsContentLength := -2, rsContentLengthBytes := []\<rparr>
               else if key = strConnection then h\<lparr>rsConnectionClose := False\<rparr>
               else if key = strTrailer then h\<lparr>rsTrailer := resetArgs (rsTrailer h)\<rparr>
               else h)
      in h\<lparr>rsH := delAllArgs (rsH h) key\<rparr>)"

text \<open>\<^verbatim>\<open>DelBytes\<close> uses the value buffer for the canonical name.\<close>

definition ResponseHeader_DelBytes :: "ResponseHeader \<Rightarrow> bytes \<Rightarrow> ResponseHeader" where
  "ResponseHeader_DelBytes h key =
     (case initHeaderK (rsBufV h) key (rsDisableNormalizing h) of
        (bufV, key) \<Rightarrow> ResponseHeader_del (h\<lparr>rsBufV := bufV\<rparr>) key)"

definition ResponseHeader_SetCookieBytes :: "ResponseHeader \<Rightarrow> bytes \<Rightarrow> ResponseHeader" where
  "ResponseHeader_SetCookieBytes h value =
     (let cs = allocArg (rsCookies h); kv = last_kv cs
      in h\<lparr>rsCookies := set_last cs (kv\<lparr>kvKey := getCookieKey (kvKey kv) value, kvValue := value\<rparr>)\<rparr>)"

definition ResponseHeader_DelAllCookies :: "ResponseHeader \<Rightarrow> ResponseHeader" where
  "ResponseHeader_DelAllCookies h = h\<lparr>rsCookies := resetArgs (rsCookies h)\<rparr>"

definition ResponseHeader_setSpecialHeader :: "ResponseHeader \<Rightarrow> bytes \<Rightarrow> bytes \<Rightarrow> bool \<Rightarrow> ResponseHeader \<times> bool" where
  "ResponseHeader_setSpecialHeader h key value isSet =
     (if length key = 0 then (h, False)
      else let c = key ! 0 OR 0x20
      in if c = 0x63 then
           (if strContentType = key then (ResponseHeader_SetContentTypeBytes h value, True)
            else if strContentLength = key
            then (case parseContentLength value of
                    Some n \<Rightarrow> (h\<lparr>rsContentLength := n, rsContentLengthBytes := value\<rparr>, True)
                  | None \<Rightarrow> (h, True))
            else if strContentEncoding = key then (ResponseHeader_SetContentEncodingBytes h value, True)
            else if strConnection = key
            then (if strClose = value then (ResponseHeader_SetConnectionClose h, True)
                  else (ResponseHeader_setNonSpecial (ResponseHeader_ResetConnectionClose h) key value, True))
            else (h, False))
         else if c = 0x73 then
           (if strServer = key then (ResponseHeader_SetServerBytes h value, True)
            else if strSetCookie = key
            then (let h = (if isSet then ResponseHeader_DelAllCookies h else h)
                  in (ResponseHeader_SetCookieBytes h value, True))
            else (h, False))
         else if c = 0x74 then
           (if strTransferEncoding = key then (h, True)
            else if strTrailer = key then (fst (ResponseHeader_SetTrailerBytes h value), True)
            else (h, False))
         else if c = 0x64 then (if strDate = key then (h, True) else (h, False))
         else (h, False))"

definition ResponseHeader_addCanonical :: "ResponseHeader \<Rightarrow> bytes \<Rightarrow> bytes \<Rightarrow> ResponseHeader" where
  "ResponseHeader_addCanonical h key value =
     (case ResponseHeader_setSpecialHeader h key value False of
        (h, True) \<Rightarrow> h
      | (h, False) \<Rightarrow> h\<lparr>rsH := appendArg (rsH h) key value False\<rparr>)"

definition ResponseHeader_setCanonical :: "ResponseHeader \<Rightarrow> bytes \<Rightarrow> bytes \<Rightarrow> ResponseHeader" where
  "ResponseHeader_setCanonical h key value =
     (case ResponseHeader_setSpecialHeader h key value True of
        (h, True) \<Rightarrow> h
      | (h, False) \<Rightarrow> ResponseHeader_setNonSpecial h key value)"

definition ResponseHeader_AddBytesKV :: "ResponseHeader \<Rightarrow> bytes \<Rightarrow> bytes \<Rightarrow> ResponseHeader" where
  "ResponseHeader_AddBytesKV h key value =
     (case initHeaderK (rsBufK h) key (rsDisableNormalizing h) of
        (bufK, key) \<Rightarrow>
          (case initHeaderV (rsBufV h) value of
             (bufV, value) \<Rightarrow> ResponseHeader_addCanonical (h\<lparr>rsBufK := bufK, rsBufV := bufV\<rparr>) key value))"

definition ResponseHeader_SetBytesKV :: "ResponseHeader \<Rightarrow> bytes \<Rightarrow> bytes \<Rightarrow> ResponseHeader" where
  "ResponseHeader_SetBytesKV h key value =
     (case initHeaderK (rsBufK h) key (rsDisableNormalizing h) of
        (bufK, key) \<Rightarrow>
          (case initHeaderV (rsBufV h) value of
             (bufV, value) \<Rightarrow> ResponseHeader_setCanonical (h\<lparr>rsBufK := bufK, rsBufV := bufV\<rparr>) key value))"

definition ResponseHeader_AddCanonical :: "ResponseHeader \<Rightarrow> bytes \<Rightarrow> bytes \<Rightarrow> ResponseHeader" where
  "ResponseHeader_AddCanonical h key value =
     (case initHeaderV (rsBufV h) value of
        (bufV, value) \<Rightarrow> ResponseHeader_addCanonical (h\<lparr>rsBufV := bufV\<rparr>) key value)"

definition ResponseHeader_SetCanonical :: "ResponseHeader \<Rightarrow> bytes \<Rightarrow> bytes \<Rightarrow> ResponseHeader" where
  "ResponseHeader_SetCanonical h key value =
     (case initHeaderV (rsBufV h) value of
        (bufV, value) \<Rightarrow> ResponseHeader_setCanonical (h\<lparr>rsBufV := bufV\<rparr>) key value)"

definition ResponseHeader_addVaryBytes :: "ResponseHeader \<Rightarrow> bytes \<Rightarrow> ResponseHeader option" where
  "ResponseHeader_addVaryBytes h value =
     map_option
       (\<lambda>(h, v). if v = [] then ResponseHeader_SetBytesKV h strVary value
                 else if \<not> contains_bytes v value then ResponseHeader_SetBytesKV h strVary (v @ [0x2C] @ value)
                 else h)
       (ResponseHeader_peek h strVary)"

definition ResponseHeader_SetCookie :: "'t time_ops \<Rightarrow> ResponseHeader \<Rightarrow> 't Cookie \<Rightarrow> (ResponseHeader \<times> 't Cookie) option" where
  "ResponseHeader_SetCookie T h cookie =
     map_option (\<lambda>(cookie, b). (h\<lparr>rsCookies := setArg (rsCookies h) (ckKey cookie) b False\<rparr>, cookie))
       (Cookie_Cookie T cookie)"

definition ResponseHeader_DelCookie :: "ResponseHeader \<Rightarrow> bytes \<Rightarrow> ResponseHeader" where
  "ResponseHeader_DelCookie h key = h\<lparr>rsCookies := delAllArgs (rsCookies h) key\<rparr>"

text \<open>\<^verbatim>\<open>DelClientCookie\<close>; the expiry time in the past is \<^verbatim>\<open>CookieExpireDelete\<close>, a value of the time package.\<close>

definition ResponseHeader_DelClientCookie :: "'t time_ops \<Rightarrow> 't \<Rightarrow> ResponseHeader \<Rightarrow> bytes \<Rightarrow> ResponseHeader option" where
  "ResponseHeader_DelClientCookie T expireDelete h key =
     map_option fst
       (ResponseHeader_SetCookie T (ResponseHeader_DelCookie h key) (SetExpire (SetKey (emptyCookie T) key) expireDelete))"

section \<open>Printing\<close>

definition appendStatusLine :: "ResponseHeader \<Rightarrow> bytes \<Rightarrow> bytes" where
  "appendStatusLine h dst =
     (let statusCode = (if rsStatusCode h \<le> 0 then 200 else rsStatusCode h)
      in formatStatusLine dst (ResponseHeader_Protocol h) statusCode (rsStatusMessage h))"

fun append_lines :: "bytes \<Rightarrow> argsKV list \<Rightarrow> bytes" where
  "append_lines dst [] = dst"
| "append_lines dst (kv # h) = append_lines (appendHeaderLine dst (kvKey kv) (kvValue kv)) h"

fun append_set_cookies :: "bytes \<Rightarrow> argsKV list \<Rightarrow> bytes" where
  "append_set_cookies dst [] = dst"
| "append_set_cookies dst (kv # cs) = append_set_cookies (appendHeaderLine dst strSetCookie (kvValue kv)) cs"

text \<open>The body headers of \<^verbatim>\<open>AppendBytes\<close>: content type, content encoding, and the line that frames the body.
  The result also holds the trailers to announce.\<close>

definition append_body_headers ::
  "ResponseHeader \<Rightarrow> bytes \<Rightarrow> bool \<Rightarrow> (ResponseHeader \<times> bytes \<times> argsKV list) option" where
  "append_body_headers h dst compressed =
     (let cL = rsContentLength h;
          ct = ResponseHeader_ContentType h;
          dst = (if ct \<noteq> [] \<and> (rsContentType h \<noteq> [] \<or> cL \<noteq> 0) then appendHeaderLine dst strContentType ct else dst);
          dst = (if rsContentEncoding h \<noteq> [] then appendHeaderLine dst strContentEncoding (rsContentEncoding h) else dst)
      in if cL > 0
         then (if \<not> compressed
               then map_option
                      (\<lambda>b. (h\<lparr>rsContentLengthBytes := b\<rparr>, appendHeaderLine dst strContentLength b, [])) (AppendUint [] cL)
               else Some (h, dst, []))
         else if rsHeadMethod h then Some (h, dst, [])
         else if cL = 0 then Some (h, appendHeaderLine dst strContentLength [0x30], [])
         else if cL = -1 then Some (h, appendHeaderLine dst strTransferEncoding strChunked, live (rsTrailer h))
         else Some (ResponseHeader_SetConnectionClose h, dst, []))"

definition ResponseHeader_AppendBytes :: "bytes \<Rightarrow> ResponseHeader \<Rightarrow> bytes \<Rightarrow> bool \<Rightarrow> (ResponseHeader \<times> bytes) option" where
  "ResponseHeader_AppendBytes date h dst compressed =
     (let statusCode = rsStatusCode h;
          dst = appendStatusLine h [];
          h = ResponseHeader_DelNoSpecialCanonical h strTransferEncoding;
          dst = (if rsServer h \<noteq> [] then appendHeaderLine dst strServer (rsServer h) else dst);
          dst = (if \<not> rsNoDefaultDate h then appendHeaderLine dst strDate date else dst)
      in (case (if \<not> bodyNotAllowedForStatus statusCode then append_body_headers h dst compressed else Some (h, dst, [])) of
            None \<Rightarrow> None
          | Some (h, dst, trailer) \<Rightarrow>
              let dst = (if trailer = [] then append_lines dst (live (rsH h))
                         else appendHeaderLine (append_untrailed dst (live (rsH h)) trailer) strTrailer
                                (appendArgsKeyBytes [] trailer (bs '', '')));
                  dst = append_set_cookies dst (live (rsCookies h));
                  dst = (if rsConnectionClose h then appendHeaderLine dst strConnection strClose else dst)
              in Some (h, if \<not> compressed then dst @ [rChar, nChar] else dst)))"

definition ResponseHeader_Header :: "bytes \<Rightarrow> ResponseHeader \<Rightarrow> bool \<Rightarrow> (ResponseHeader \<times> bytes) option" where
  "ResponseHeader_Header date h compressed =
     map_option (\<lambda>(h, b). (h\<lparr>rsBufV := b\<rparr>, b)) (ResponseHeader_AppendBytes date h [] compressed)"

fun trailer_lines :: "ResponseHeader \<Rightarrow> bytes \<Rightarrow> argsKV list \<Rightarrow> (ResponseHeader \<times> bytes) option" where
  "trailer_lines h b [] = Some (h, b)"
| "trailer_lines h b (t # ts) =
     (case ResponseHeader_peek h (kvKey t) of
        None \<Rightarrow> None
      | Some (h, value) \<Rightarrow> trailer_lines h (appendHeaderLine b (kvKey t) value) ts)"

definition ResponseHeader_TrailerHeader :: "ResponseHeader \<Rightarrow> (ResponseHeader \<times> bytes) option" where
  "ResponseHeader_TrailerHeader h =
     map_option (\<lambda>(h, b). let b = b @ [rChar, nChar] in (h\<lparr>rsBufV := b\<rparr>, b)) (trailer_lines h [] (live (rsTrailer h)))"

section \<open>Parsing\<close>

definition ResponseHeader_parseFirstLine :: "ResponseHeader \<Rightarrow> bytes \<Rightarrow> ResponseHeader \<times> int \<times> header_error option" where
  "ResponseHeader_parseFirstLine h buf =
     (case nextLine buf of
        None \<Rightarrow> (h, 0, Some errNeedMore)
      | Some (b, bNext) \<Rightarrow>
          (case index_byte b spChar of
             None \<Rightarrow> (h, 0, Some ErrMalformedResponse)
           | Some n1 \<Rightarrow>
               if n1 = 0 then (h, 0, Some ErrMalformedResponse)
               else let h = h\<lparr>rsNoHTTP11 := take n1 b \<noteq> strHTTP11\<rparr>; b = drop (n1 + 1) b
               in (case parseUintBuf b of
                     (statusCode, n1, Some e) \<Rightarrow> (h\<lparr>rsStatusCode := statusCode\<rparr>, 0, Some ErrMalformedResponse)
                   | (statusCode, n1, None) \<Rightarrow>
                       let h = h\<lparr>rsStatusCode := statusCode\<rparr>
                       in if length b > n1 \<and> b ! n1 \<noteq> spChar then (h, 0, Some ErrMalformedResponse)
                          else (let h = (if length b > n1 + 1 then ResponseHeader_SetStatusMessage h (drop (n1 + 1) b) else h)
                                in (h, int (length buf - length bNext), None)))))"

text \<open>The \<^verbatim>\<open>switch\<close> of \<^verbatim>\<open>parseHeaders\<close> on one line.\<close>

definition ResponseHeader_line :: "ResponseHeader \<Rightarrow> bytes \<Rightarrow> bytes \<Rightarrow> ResponseHeader \<times> header_error option" where
  "ResponseHeader_line h key value =
     (let dis = rsDisableNormalizing h;
          other = (h\<lparr>rsH := appendArg (rsH h) key value False\<rparr>, None);
          c = key ! 0 OR 0x20
      in if c = 0x63 then
           (if headNameCompare key strContentType dis then (h\<lparr>rsContentType := value\<rparr>, None)
            else if headNameCompare key strContentEncoding dis then (h\<lparr>rsContentEncoding := value\<rparr>, None)
            else if headNameCompare key strContentLength dis
            then (if rsContentLength h \<noteq> -1
                  then (case parseContentLength value of
                          None \<Rightarrow> (h\<lparr>rsContentLength := -1\<rparr>, Some ContentLengthNotIntErr)
                        | Some n \<Rightarrow> (h\<lparr>rsContentLength := n, rsContentLengthBytes := value\<rparr>, None))
                  else (h, None))
            else if headNameCompare key strConnection dis
            then (if value = strClose then (h\<lparr>rsConnectionClose := True\<rparr>, None)
                  else (h\<lparr>rsConnectionClose := False, rsH := appendArg (rsH h) key value False\<rparr>, None))
            else other)
         else if c = 0x73 then
           (if headNameCompare key strServer dis then (h\<lparr>rsServer := value\<rparr>, None)
            else if headNameCompare key strSetCookie dis then (ResponseHeader_SetCookieBytes h value, None)
            else other)
         else if c = 0x74 then
           (if headNameCompare key strTransferEncoding dis
            then (if value \<noteq> [] \<and> value = strChunked then (h\<lparr>rsContentLength := -1\<rparr>, None)
                  else (h, Some (UnsupportedTEError value)))
            else if headNameCompare key strTrailer dis
            then (case ResponseHeader_SetTrailerBytes h value of
                    (h, Some e) \<Rightarrow> (h, Some BadTrailerInHeader)
                  | (h, None) \<Rightarrow> (h, None))
            else other)
         else other)"

function ResponseHeader_parseHeaders_loop ::
  "ResponseHeader \<Rightarrow> headerScanner \<Rightarrow> ResponseHeader \<times> headerScanner \<times> header_error option" where
  "ResponseHeader_parseHeaders_loop h s =
     (case scan_next s of
        (s', False) \<Rightarrow> (h, s', None)
      | (s', True) \<Rightarrow>
          (case check_line (hsKey s') (hsValue s') of
             Some e \<Rightarrow> (h, s', Some e)
           | None \<Rightarrow>
               (case ResponseHeader_line h (hsKey s') (hsValue s') of
                  (h', Some e) \<Rightarrow> (h', s', Some e)
                | (h', None) \<Rightarrow> ResponseHeader_parseHeaders_loop h' s')))"
  by pat_completeness auto
termination
  by (relation "measure (\<lambda>(h, s). length (hsB s))") (auto dest: scan_next_progress [OF sym])

declare ResponseHeader_parseHeaders_loop.simps [simp del]

definition ResponseHeader_finish :: "ResponseHeader \<Rightarrow> ResponseHeader" where
  "ResponseHeader_finish h =
     (let h = (if rsContentLength h < 0 then h\<lparr>rsContentLengthBytes := []\<rparr> else h)
      in if rsNoHTTP11 h \<and> \<not> rsConnectionClose h
         then h\<lparr>rsConnectionClose := \<not> hasHeaderValue (peek_bytes (rsH h) strConnection) strKeepAlive\<rparr> else h)"

text \<open>The length that \<^verbatim>\<open>parseHeaders\<close> of a response returns is \<^verbatim>\<open>len(buf) - len(s.b)\<close>.\<close>

definition ResponseHeader_parseHeaders ::
  "ResponseHeader \<Rightarrow> bytes \<Rightarrow> ResponseHeader \<times> bytes \<times> int \<times> header_error option" where
  "ResponseHeader_parseHeaders h buf =
     (let h = h\<lparr>rsContentLength := -2\<rparr>;
          h = (if rsHeadMethod h then h\<lparr>rsContentLength := 0\<rparr> else h)
      in (case ResponseHeader_parseHeaders_loop h (new_scanner buf (rsDisableNormalizing h)) of
            (h, s, Some e) \<Rightarrow> (h, scanned_buf s, 0, Some e)
          | (h, s, None) \<Rightarrow>
              (case hsErr s of
                 Some e \<Rightarrow> (h, scanned_buf s, 0, Some e)
               | None \<Rightarrow> (ResponseHeader_finish h, scanned_buf s, int (length buf - length (hsB s)), None))))"

definition ResponseHeader_parse ::
  "ResponseHeader \<Rightarrow> bytes \<Rightarrow> ResponseHeader \<times> bytes \<times> int \<times> header_error option" where
  "ResponseHeader_parse h buf =
     (case ResponseHeader_parseFirstLine h buf of
        (h, m, Some e) \<Rightarrow> (h, buf, 0, Some e)
      | (h, m, None) \<Rightarrow>
          (case ResponseHeader_parseHeaders h (drop (nat m) buf) of
             (h, rest, _, Some e) \<Rightarrow> (h, take (nat m) buf @ rest, 0, Some e)
           | (h, rest, n1, None) \<Rightarrow> (h, take (nat m) buf @ rest, m + n1, None)))"

text \<open>\<^verbatim>\<open>parseTrailer\<close>, which is called on buffered bytes only and so never on an empty slice, goes on after a bad name and reports the last one at the end.\<close>

function ResponseHeader_parseTrailer_loop ::
  "ResponseHeader \<times> header_error option \<Rightarrow> headerScanner \<Rightarrow> (ResponseHeader \<times> header_error option) \<times> headerScanner \<times> header_error option" where
  "ResponseHeader_parseTrailer_loop st s =
     (case scan_next s of
        (s', False) \<Rightarrow> (st, s', None)
      | (s', True) \<Rightarrow>
          if hsKey s' \<noteq> []
          then (if spChar \<in> set (hsKey s') \<or> tabChar \<in> set (hsKey s')
                then ResponseHeader_parseTrailer_loop (fst st, Some (InvalidTrailerKey (hsKey s'))) s'
                else if isBadTrailer (hsKey s') False
                then ResponseHeader_parseTrailer_loop (fst st, Some (ForbiddenTrailerKey (hsKey s'))) s'
                else ResponseHeader_parseTrailer_loop
                       ((fst st)\<lparr>rsH := appendArg (rsH (fst st)) (hsKey s') (hsValue s') False\<rparr>, snd st) s')
          else ResponseHeader_parseTrailer_loop st s')"
  by pat_completeness auto
termination
  by (relation "measure (\<lambda>(st, s). length (hsB s))") (auto dest: scan_next_progress [OF sym])

declare ResponseHeader_parseTrailer_loop.simps [simp del]

definition ResponseHeader_parseTrailer ::
  "ResponseHeader \<Rightarrow> bytes \<Rightarrow> ResponseHeader \<times> bytes \<times> int \<times> header_error option" where
  "ResponseHeader_parseTrailer h buf =
     (let skip = (if take 1 buf = [0x30] then 3 else 0)
      in if length buf < skip then (h, buf, 0, Some (IOErr EOF))
         else (case ResponseHeader_parseTrailer_loop (h, None) (new_scanner (drop skip buf) (rsDisableNormalizing h)) of
                 ((h, err), s, _) \<Rightarrow>
                   let buf' = take skip buf @ scanned_buf s
                   in (case hsErr s of
                         Some e \<Rightarrow> (h, buf', 0, Some e)
                       | None \<Rightarrow>
                           (case err of
                              Some e \<Rightarrow> (h, buf', 0, Some e)
                            | None \<Rightarrow> (h, buf', hsHLen s, None)))))"

section \<open>Reading from a connection\<close>

definition ResponseHeader_tryRead ::
  "ResponseHeader \<Rightarrow> breader \<Rightarrow> nat \<Rightarrow> (ResponseHeader \<times> breader \<times> header_error option) option" where
  "ResponseHeader_tryRead h r n =
     (case br_Peek r n of
        (r, b, err) \<Rightarrow>
          if n \<noteq> length b then Some (h, r, map_option header_eof err)
          else (case mustPeekBuffered r of
                  None \<Rightarrow> None
                | Some (r, b) \<Rightarrow>
                    (case ResponseHeader_parse h b of
                       (h, b', headersLen, Some e) \<Rightarrow> Some (h, r\<lparr>brBuf := b'\<rparr>, Some e)
                     | (h, b', headersLen, None) \<Rightarrow>
                         map_option (\<lambda>r. (h, r, None)) (mustDiscard (r\<lparr>brBuf := b'\<rparr>) headersLen))))"

partial_function (option) ResponseHeader_read_loop ::
  "ResponseHeader \<Rightarrow> breader \<Rightarrow> nat \<Rightarrow> (ResponseHeader \<times> breader \<times> header_error option) option" where
  "ResponseHeader_read_loop h r n =
     (case ResponseHeader_tryRead h r n of
        None \<Rightarrow> None
      | Some (h', r', None) \<Rightarrow> Some (h', r', None)
      | Some (h', r', Some e) \<Rightarrow>
          if e \<noteq> errNeedMore then Some (h', r', Some e)
          else ResponseHeader_read_loop h' r' (br_Buffered r' + 1))"

definition ResponseHeader_Read ::
  "ResponseHeader \<Rightarrow> breader \<Rightarrow> (ResponseHeader \<times> breader \<times> header_error option) option" where
  "ResponseHeader_Read h r = ResponseHeader_read_loop (ResponseHeader_resetSkipNormalize h) r 1"

definition response_trailer_io :: "io_error \<Rightarrow> header_error" where
  "response_trailer_io e =
     (if e = EOF then ErrUnexpectedHeaderEOF
      else if e = ErrBufferFull then HeaderBufferSmallErr else IOErr e)"

definition ResponseHeader_tryReadTrailer ::
  "ResponseHeader \<Rightarrow> breader \<Rightarrow> nat \<Rightarrow> (ResponseHeader \<times> breader \<times> header_error option) option" where
  "ResponseHeader_tryReadTrailer h r n =
     (case br_Peek r n of
        (r, b, err) \<Rightarrow>
          if length b \<noteq> n then Some (h, r, map_option response_trailer_io err)
          else (case mustPeekBuffered r of
                  None \<Rightarrow> None
                | Some (r, b) \<Rightarrow>
                    (case ResponseHeader_parseTrailer h b of
                       (h, b', headersLen, Some e) \<Rightarrow> Some (h, r\<lparr>brBuf := b'\<rparr>, Some e)
                     | (h, b', headersLen, None) \<Rightarrow>
                         map_option (\<lambda>r. (h, r, None)) (mustDiscard (r\<lparr>brBuf := b'\<rparr>) headersLen))))"

partial_function (option) ResponseHeader_trailer_read_loop ::
  "ResponseHeader \<Rightarrow> breader \<Rightarrow> nat \<Rightarrow> (ResponseHeader \<times> breader \<times> header_error option) option" where
  "ResponseHeader_trailer_read_loop h r n =
     (case ResponseHeader_tryReadTrailer h r n of
        None \<Rightarrow> None
      | Some (h', r', None) \<Rightarrow> Some (h', r', None)
      | Some (h', r', Some e) \<Rightarrow>
          if e \<noteq> errNeedMore then Some (h', r', Some e)
          else ResponseHeader_trailer_read_loop h' r' (br_Buffered r' + 1))"

definition ResponseHeader_ReadTrailer ::
  "ResponseHeader \<Rightarrow> breader \<Rightarrow> (ResponseHeader \<times> breader \<times> header_error option) option" where
  "ResponseHeader_ReadTrailer h r =
     (case br_Peek r 2 of
        (r, buf, err) \<Rightarrow>
          if buf = [rChar, nChar] then Some (h, fst (br_Discard r 2), map_option IOErr err)
          else if length buf < 2
          then Some (h, r, map_option (\<lambda>e. if e = EOF then ErrUnexpectedTrailerEOF else IOErr e) err)
          else ResponseHeader_trailer_read_loop h r 1)"

end
