(* ===== verification/ResponseRead.thy ===== *)
theory ResponseRead
  imports ResponseHeader RequestRoundtrip
begin

unbundle bit_operations_syntax

text \<open>
  Reading a response header: the loops of \<^verbatim>\<open>ResponseHeader\<close> as clients of the scanner and of the read loop, and
  what the reader does to a header that arrives in two segments or holds a folded value.
\<close>

section \<open>The response header as a client of the scanner\<close>

definition rs_step :: "ResponseHeader \<Rightarrow> bool \<Rightarrow> bytes \<Rightarrow> bytes \<Rightarrow> ResponseHeader \<times> header_error option" where
  "rs_step h d k v = (case check_line k v of Some e \<Rightarrow> (h, Some e) | None \<Rightarrow> ResponseHeader_line h k v)"

definition rs_trailer_step ::
  "ResponseHeader \<times> header_error option \<Rightarrow> bool \<Rightarrow> bytes \<Rightarrow> bytes \<Rightarrow> (ResponseHeader \<times> header_error option) \<times> header_error option" where
  "rs_trailer_step st d k v =
     (if k \<noteq> []
      then (if spChar \<in> set k \<or> tabChar \<in> set k then ((fst st, Some (InvalidTrailerKey k)), None)
            else if isBadTrailer k False then ((fst st, Some (ForbiddenTrailerKey k)), None)
            else (((fst st)\<lparr>rsH := appendArg (rsH (fst st)) k v False\<rparr>, snd st), None))
      else (st, None))"

lemma first_bytes_response:
  "headNameCompare k strContentEncoding d \<Longrightarrow> k ! 0 OR 0x20 = 0x63" "headNameCompare k strServer d \<Longrightarrow> k ! 0 OR 0x20 = 0x73"
  "headNameCompare k strSetCookie d \<Longrightarrow> k ! 0 OR 0x20 = 0x73"
  by (drule compare_first; simp add: hdr_names)+

text \<open>The lines without the switch on the first byte.\<close>

lemma ResponseHeader_line_flat:
  "ResponseHeader_line h k v =
     (let d = rsDisableNormalizing h
      in if headNameCompare k strContentType d then (h\<lparr>rsContentType := v\<rparr>, None)
         else if headNameCompare k strContentEncoding d then (h\<lparr>rsContentEncoding := v\<rparr>, None)
         else if headNameCompare k strContentLength d
         then (if rsContentLength h \<noteq> -1
               then (case parseContentLength v of
                       None \<Rightarrow> (h\<lparr>rsContentLength := -1\<rparr>, Some ContentLengthNotIntErr)
                     | Some n \<Rightarrow> (h\<lparr>rsContentLength := n, rsContentLengthBytes := v\<rparr>, None))
               else (h, None))
         else if headNameCompare k strConnection d
         then (if v = strClose then (h\<lparr>rsConnectionClose := True\<rparr>, None)
               else (h\<lparr>rsConnectionClose := False, rsH := appendArg (rsH h) k v False\<rparr>, None))
         else if headNameCompare k strServer d then (h\<lparr>rsServer := v\<rparr>, None)
         else if headNameCompare k strSetCookie d then (ResponseHeader_SetCookieBytes h v, None)
         else if headNameCompare k strTransferEncoding d
         then (if v \<noteq> [] \<and> v = strChunked then (h\<lparr>rsContentLength := -1\<rparr>, None) else (h, Some (UnsupportedTEError v)))
         else if headNameCompare k strTrailer d
         then (case ResponseHeader_SetTrailerBytes h v of
                 (h, Some e) \<Rightarrow> (h, Some BadTrailerInHeader)
               | (h, None) \<Rightarrow> (h, None))
         else (h\<lparr>rsH := appendArg (rsH h) k v False\<rparr>, None))"
proof -
  define d where "d = rsDisableNormalizing h"
  note fb = first_bytes(3-7) [of k d] first_bytes_response [of k d]
  consider "k ! 0 OR 0x20 = 0x63" | "k ! 0 OR 0x20 = 0x73" | "k ! 0 OR 0x20 = 0x74"
    | "k ! 0 OR 0x20 \<noteq> 0x63" "k ! 0 OR 0x20 \<noteq> 0x73" "k ! 0 OR 0x20 \<noteq> 0x74" by blast
  then show ?thesis
  proof cases
    case 1
    with fb have "\<not> headNameCompare k strServer d" "\<not> headNameCompare k strSetCookie d"
      "\<not> headNameCompare k strTransferEncoding d" "\<not> headNameCompare k strTrailer d" by auto
    with 1 show ?thesis unfolding ResponseHeader_line_def Let_def d_def by (simp cong: if_cong)
  next
    case 2
    with fb have "\<not> headNameCompare k strContentType d" "\<not> headNameCompare k strContentEncoding d"
      "\<not> headNameCompare k strContentLength d" "\<not> headNameCompare k strConnection d"
      "\<not> headNameCompare k strTransferEncoding d" "\<not> headNameCompare k strTrailer d" by auto
    with 2 show ?thesis unfolding ResponseHeader_line_def Let_def d_def by simp
  next
    case 3
    with fb have "\<not> headNameCompare k strContentType d" "\<not> headNameCompare k strContentEncoding d"
      "\<not> headNameCompare k strContentLength d" "\<not> headNameCompare k strConnection d"
      "\<not> headNameCompare k strServer d" "\<not> headNameCompare k strSetCookie d" by auto
    with 3 show ?thesis unfolding ResponseHeader_line_def Let_def d_def by simp
  next
    case 4
    with fb have "\<not> headNameCompare k strContentType d" "\<not> headNameCompare k strContentEncoding d"
      "\<not> headNameCompare k strContentLength d" "\<not> headNameCompare k strConnection d"
      "\<not> headNameCompare k strServer d" "\<not> headNameCompare k strSetCookie d"
      "\<not> headNameCompare k strTransferEncoding d" "\<not> headNameCompare k strTrailer d" by auto
    with 4 show ?thesis unfolding ResponseHeader_line_def Let_def d_def by simp
  qed
qed

lemma ResponseHeader_line_error: "ResponseHeader_line h k v = (h', Some e) \<Longrightarrow> e \<noteq> errNeedMore"
  unfolding ResponseHeader_line_flat Let_def by (auto split: if_splits option.splits prod.splits)

interpretation rs_headers: scan_client ResponseHeader_parseHeaders_loop rs_step "\<lambda>_. False"
proof unfold_locales
  fix h s
  show "ResponseHeader_parseHeaders_loop h s =
      (case scan_next s of
         (s', False) \<Rightarrow> (h, s', None)
       | (s', True) \<Rightarrow>
           (case rs_step h (hsDisableNormalizing s') (hsKey s') (hsValue s') of
              (h', Some e) \<Rightarrow> (h', s', Some e)
            | (h', None) \<Rightarrow> ResponseHeader_parseHeaders_loop h' s'))"
    by (subst ResponseHeader_parseHeaders_loop.simps) (auto simp: rs_step_def split: prod.splits bool.splits option.splits)
next
  fix k h d v h'
  assume "k \<noteq> []" "hd k = spChar \<or> hd k = tabChar" "rs_step h d k v = (h', None)"
  with check_line_blank [of k v] show False by (auto simp: rs_step_def split: option.splits)
next
  fix h d k v h' e
  assume "rs_step h d k v = (h', Some e)"
  then show "e \<noteq> errNeedMore"
    by (auto simp: rs_step_def split: option.splits dest: check_line_error ResponseHeader_line_error)
qed auto

interpretation rs_trailers: scan_client ResponseHeader_parseTrailer_loop rs_trailer_step "\<lambda>st. snd st \<noteq> None"
proof unfold_locales
  fix h s
  show "ResponseHeader_parseTrailer_loop h s =
      (case scan_next s of
         (s', False) \<Rightarrow> (h, s', None)
       | (s', True) \<Rightarrow>
           (case rs_trailer_step h (hsDisableNormalizing s') (hsKey s') (hsValue s') of
              (h', Some e) \<Rightarrow> (h', s', Some e)
            | (h', None) \<Rightarrow> ResponseHeader_parseTrailer_loop h' s'))"
    by (subst ResponseHeader_parseTrailer_loop.simps) (auto simp: rs_trailer_step_def split: prod.splits bool.splits)
next
  fix k h d v h'
  assume "k \<noteq> []" "hd k = spChar \<or> hd k = tabChar" "rs_trailer_step h d k v = (h', None)"
  then show "snd h' \<noteq> None" by (cases k) (auto simp: rs_trailer_step_def split: if_splits)
qed (auto simp: rs_trailer_step_def split: if_splits)

section \<open>The response header as a parser of the read loop\<close>

lemma hsB_le: "length (hsB s) \<le> mem_length s"
  by (simp add: mem_length_def)

lemma response_parseHeaders_facts:
  assumes "ResponseHeader_parseHeaders h buf = (h', buf', n, e)"
  shows "length buf' = length buf" "e = None \<Longrightarrow> 0 \<le> n \<and> nat n \<le> length buf"
proof -
  define h0 where "h0 = (if rsHeadMethod (h\<lparr>rsContentLength := -2\<rparr>) then h\<lparr>rsContentLength := -2, rsContentLength := 0\<rparr> else h\<lparr>rsContentLength := -2\<rparr>)"
  obtain h1 s1 e1 where l: "ResponseHeader_parseHeaders_loop h0 (new_scanner buf (rsDisableNormalizing h0)) = (h1, s1, e1)"
    by (cases "ResponseHeader_parseHeaders_loop h0 (new_scanner buf (rsDisableNormalizing h0))")
  note m = rs_headers.loop_mem [OF l] new_scanner_aligned [of buf "rsDisableNormalizing h0"]
  note d = assms [unfolded ResponseHeader_parseHeaders_def Let_def h0_def [symmetric] l]
  show "length buf' = length buf" using d m by (auto split: option.splits)
  show "e = None \<Longrightarrow> 0 \<le> n \<and> nat n \<le> length buf" using d m by (auto split: option.splits)
qed

lemma response_parse_facts:
  assumes "ResponseHeader_parse h buf = (h', buf', n, e)"
  shows "length buf' = length buf" "e = None \<Longrightarrow> 0 \<le> n \<and> nat n \<le> length buf"
proof -
  obtain h1 m e1 where f: "ResponseHeader_parseFirstLine h buf = (h1, m, e1)" by (cases "ResponseHeader_parseFirstLine h buf")
  have m: "e1 = None \<Longrightarrow> 0 \<le> m \<and> m \<le> int (length buf)"
    using f unfolding ResponseHeader_parseFirstLine_def
    by (auto simp: Let_def split: option.splits prod.splits if_splits)
  obtain h2 b2 n2 e2 where p: "ResponseHeader_parseHeaders h1 (drop (nat m) buf) = (h2, b2, n2, e2)"
    by (cases "ResponseHeader_parseHeaders h1 (drop (nat m) buf)")
  note pf = response_parseHeaders_facts [OF p]
  note d = assms [unfolded ResponseHeader_parse_def f prod.case p]
  show "length buf' = length buf" using d pf(1) m by (auto split: option.splits)
  show "e = None \<Longrightarrow> 0 \<le> n \<and> nat n \<le> length buf" using d pf(2) m by (auto split: option.splits)
qed

lemma rs_trailer_step_goes_on: "snd (rs_trailer_step st d k v) = None"
  by (simp add: rs_trailer_step_def)

lemma trailer_lines_go_on: "snd (apply_lines rs_trailer_step st d ps) = None"
  by (induction ps arbitrary: st) (auto split: prod.splits option.splits, metis rs_trailer_step_goes_on snd_conv option.simps(3))

lemma response_parseTrailer_facts:
  assumes "ResponseHeader_parseTrailer h buf = (h', buf', n, e)"
  shows "length buf' = length buf" "e = None \<Longrightarrow> 0 \<le> n \<and> nat n \<le> length buf"
proof -
  define skip :: nat where "skip = (if take 1 buf = [0x30] then 3 else 0)"
  obtain h1 e0 s1 e1 where l: "ResponseHeader_parseTrailer_loop (h, None) (new_scanner (drop skip buf) (rsDisableNormalizing h)) = ((h1, e0), s1, e1)"
    by (cases "ResponseHeader_parseTrailer_loop (h, None) (new_scanner (drop skip buf) (rsDisableNormalizing h))") auto
  note m = rs_trailers.loop_mem [OF l] new_scanner_aligned [of "drop skip buf" "rsDisableNormalizing h"]
  note d = assms [unfolded ResponseHeader_parseTrailer_def Let_def skip_def [symmetric] l prod.case]
  show "length buf' = length buf" using d m by (auto split: option.splits if_splits)
  assume "e = None"
  with d have c: "hsErr s1 = None" "e0 = None" "n = hsHLen s1" by (auto split: option.splits if_splits)
  have "e1 = None"
    using rs_trailers.loop_lines [of "(h, None)" "new_scanner (drop skip buf) (rsDisableNormalizing h)"] l
      trailer_lines_go_on [of "(h, None)" "rsDisableNormalizing h"]
    by (auto simp: new_scanner_def split: prod.splits option.splits) (metis option.distinct(1) snd_conv)
  with rs_trailers.loop_counted l m c counted_le [of s1] show "0 \<le> n \<and> nat n \<le> length buf" by force
qed

interpretation rs_reader: header_reader ResponseHeader_parse header_eof ResponseHeader_tryRead "\<lambda>_ _. True"
  ResponseHeader_read_loop "\<lambda>e. e"
proof unfold_locales
  fix h r n
  show "ResponseHeader_read_loop h r n =
      (case ResponseHeader_tryRead h r n of
         None \<Rightarrow> None
       | Some (h', r', None) \<Rightarrow> Some (h', r', None)
       | Some (h', r', Some e) \<Rightarrow>
           if e \<noteq> errNeedMore then Some (h', r', Some e)
           else ResponseHeader_read_loop h' r' (br_Buffered r' + 1))"
    by (subst ResponseHeader_read_loop.simps) (rule refl)
  fix x
  show "header_eof x \<noteq> errNeedMore" by (simp add: header_eof_def)
qed (auto simp: ResponseHeader_tryRead_def dest: response_parse_facts)

interpretation rs_trailer_reader: header_reader ResponseHeader_parseTrailer response_trailer_io ResponseHeader_tryReadTrailer
  "\<lambda>_ _. True" ResponseHeader_trailer_read_loop "\<lambda>e. e"
proof unfold_locales
  fix h r n
  show "ResponseHeader_trailer_read_loop h r n =
      (case ResponseHeader_tryReadTrailer h r n of
         None \<Rightarrow> None
       | Some (h', r', None) \<Rightarrow> Some (h', r', None)
       | Some (h', r', Some e) \<Rightarrow>
           if e \<noteq> errNeedMore then Some (h', r', Some e)
           else ResponseHeader_trailer_read_loop h' r' (br_Buffered r' + 1))"
    by (subst ResponseHeader_trailer_read_loop.simps) (rule refl)
  show "ResponseHeader_tryReadTrailer h r n =
      (case br_Peek r n of
         (r, b, err) \<Rightarrow>
           if n \<noteq> length b then Some (h, r, map_option response_trailer_io err)
           else (case mustPeekBuffered r of
                   None \<Rightarrow> None
                 | Some (r, b) \<Rightarrow>
                     (case ResponseHeader_parseTrailer h b of
                        (h, b', l, Some e) \<Rightarrow> Some (h, r\<lparr>brBuf := b'\<rparr>, Some e)
                      | (h, b', l, None) \<Rightarrow> map_option (\<lambda>r. (h, r, None)) (mustDiscard (r\<lparr>brBuf := b'\<rparr>) l))))"
    unfolding ResponseHeader_tryReadTrailer_def by (simp add: eq_commute)
  fix x
  show "response_trailer_io x \<noteq> errNeedMore" by (simp add: response_trailer_io_def)
qed (auto dest: response_parseTrailer_facts)

section \<open>Reading always returns\<close>

text \<open>C23: For every connection, whatever it delivers and however it fails, reading a response header and reading a
  response trailer return: the loops end, none of their sanity checks panics, and the internal request for more data
  is never the result.\<close>

theorem response_Read_returns:
  assumes "br_ok r"
  shows "(\<exists>h' r' e. ResponseHeader_Read h r = Some (h', r', e) \<and> e \<noteq> Some errNeedMore) \<and>
         (\<exists>h' r' e. ResponseHeader_ReadTrailer h r = Some (h', r', e) \<and> e \<noteq> Some errNeedMore)"
proof
  have i: "read_inv (\<lambda>_ _. True) (ResponseHeader_resetSkipNormalize h) r" using assms by (simp add: read_inv_def)
  from rs_reader.loop_returns [OF this, of 1]
  show "\<exists>h' r' e. ResponseHeader_Read h r = Some (h', r', e) \<and> e \<noteq> Some errNeedMore"
    by (simp add: ResponseHeader_Read_def)
  obtain r1 b e where p: "br_Peek r 2 = (r1, b, e)" by (cases "br_Peek r 2")
  have "read_inv (\<lambda>_ _. True) h r1" using Peek_facts(2) [OF p] assms by (simp add: read_inv_def)
  from rs_trailer_reader.loop_returns [OF this, of 1]
  show "\<exists>h' r' e. ResponseHeader_ReadTrailer h r = Some (h', r', e) \<and> e \<noteq> Some errNeedMore"
    unfolding ResponseHeader_ReadTrailer_def p by (cases e) auto
qed

theorem response_Read_returns_witness:
  "\<exists>h' r' e. ResponseHeader_Read emptyResponseHeader (new_reader 16 [bs ''HTTP/1.1 '']) = Some (h', r', e) \<and> e \<noteq> Some errNeedMore"
  using response_Read_returns [of "new_reader 16 [bs ''HTTP/1.1 '']" emptyResponseHeader] by (simp add: br_ok_def new_reader_def)

end
