(* ===== verification/Streaming.thy ===== *)
theory Streaming
  imports Body RequestRead ResponseRead
begin

text \<open>
  Bodies that are handed to the caller as streams: \<^verbatim>\<open>requestStream\<close> of \<^verbatim>\<open>streaming.go\<close>, \<^verbatim>\<open>TwoBytesReader\<close> and
  \<^verbatim>\<open>readBodyWithStreaming\<close> of \<^verbatim>\<open>http.go\<close>. The stream reads from the connection of the message on demand; the
  locale \<open>stream_header\<close> is the interface \<^verbatim>\<open>headerInterface\<close> through which it asks the header for the length of
  the body and for the trailer.
\<close>

section \<open>The stream\<close>

text \<open>An error of a message: of its header or trailer, of its body, of a multipart form, or of its writer.\<close>

datatype msg_error =
    MsgHeader header_error
  | MsgBody body_error
  | MsgForm nat
  | errRequestHostRequired
  | ErrStreamSendSizeNotMatch int int

abbreviation MsgEOF :: msg_error where "MsgEOF \<equiv> MsgBody (BodyIO EOF)"

text \<open>\<^verbatim>\<open>prefetchedBytes\<close> is a \<^verbatim>\<open>bytes.Reader\<close>: its bytes and the position in them. The header and the connection
  that the stream points to are arguments of the operations.\<close>

record requestStream =
  prefetchedBytes :: bytes
  prefetchedOff :: nat
  totalBytesRead :: int
  chunkLeft :: int

definition acquireRequestStream :: "bytes \<Rightarrow> requestStream" where
  "acquireRequestStream b = \<lparr>prefetchedBytes = b, prefetchedOff = 0, totalBytesRead = 0, chunkLeft = 0\<rparr>"

definition read_prefetched :: "requestStream \<Rightarrow> nat \<Rightarrow> requestStream \<times> bytes \<times> io_error option" where
  "read_prefetched rs n =
     (if prefetchedOff rs \<ge> length (prefetchedBytes rs) then (rs, [], Some EOF)
      else let b = take n (drop (prefetchedOff rs) (prefetchedBytes rs))
           in (rs\<lparr>prefetchedOff := prefetchedOff rs + length b\<rparr>, b, None))"

text \<open>The read of a chunk once its size is known.\<close>

definition read_chunk ::
  "'h \<Rightarrow> requestStream \<Rightarrow> breader \<Rightarrow> nat \<Rightarrow> 'h \<times> requestStream \<times> breader \<times> bytes \<times> msg_error option" where
  "read_chunk h rs r n =
     (case br_Read r (nat (if chunkLeft rs < int n then chunkLeft rs else int n)) of
        (r, b, e) \<Rightarrow>
          let rs = rs\<lparr>totalBytesRead := totalBytesRead rs + int (length b), chunkLeft := chunkLeft rs - int (length b)\<rparr>
          in if e = Some EOF then (h, rs, r, b, Some (MsgBody ErrUnexpectedReqBodyEOF))
             else if e = None \<and> chunkLeft rs = 0
             then (case readCrLf r of (r, e) \<Rightarrow> (h, rs, r, b, map_option MsgBody e))
             else (h, rs, r, b, map_option (\<lambda>e. MsgBody (BodyIO e)) e))"

definition requestStream_Read ::
  "('h \<Rightarrow> int) \<Rightarrow> ('h \<Rightarrow> breader \<Rightarrow> ('h \<times> breader \<times> header_error option) option) \<Rightarrow>
   'h \<Rightarrow> requestStream \<Rightarrow> breader \<Rightarrow> nat \<Rightarrow> ('h \<times> requestStream \<times> breader \<times> bytes \<times> msg_error option) option" where
  "requestStream_Read ContentLength ReadTrailer h rs r n =
     (if ContentLength h = -1
      then (if chunkLeft rs = 0
            then (case parseChunkSize r of
                    (r, c, Some e) \<Rightarrow> Some (h, rs, r, [], Some (MsgBody e))
                  | (r, c, None) \<Rightarrow>
                      if c = 0
                      then (case ReadTrailer h r of
                              None \<Rightarrow> None
                            | Some (h, r, Some e) \<Rightarrow> Some (h, rs, r, [], Some (MsgHeader e))
                            | Some (h, r, None) \<Rightarrow> Some (h, rs, r, [], Some MsgEOF))
                      else Some (read_chunk h (rs\<lparr>chunkLeft := c\<rparr>) r n))
            else Some (read_chunk h rs r n))
      else if totalBytesRead rs = ContentLength h then Some (h, rs, r, [], Some MsgEOF)
      else if int (length (prefetchedBytes rs)) > totalBytesRead rs
      then (let left = int (length (prefetchedBytes rs)) - totalBytesRead rs
            in (case read_prefetched rs (if int n > left then nat left else n) of
                  (rs, b, e) \<Rightarrow>
                    Some (h, rs\<lparr>totalBytesRead := totalBytesRead rs + int (length b)\<rparr>, r, b,
                          map_option (\<lambda>e. MsgBody (BodyIO e)) e)))
      else (let left = ContentLength h - totalBytesRead rs
            in if int n > left \<and> left < 0 then None
               else (case br_Read r (if int n > left then nat left else n) of
                       (r, b, e) \<Rightarrow>
                         Some (h, rs\<lparr>totalBytesRead := totalBytesRead rs + int (length b)\<rparr>, r, b,
                               map_option (\<lambda>e. MsgBody (BodyIO e)) e))))"

section \<open>Two slices as one stream\<close>

record TwoBytesReader =
  tbFirst :: bytes
  tbSecond :: bytes
  tbI :: nat
  tbCurrent :: nat

definition tb_second :: "TwoBytesReader \<Rightarrow> nat \<Rightarrow> TwoBytesReader \<times> bytes \<times> io_error option" where
  "tb_second t n =
     (if tbI t \<ge> length (tbSecond t) then (t, [], Some EOF)
      else let b = take n (drop (tbI t) (tbSecond t)) in (t\<lparr>tbI := tbI t + length b\<rparr>, b, None))"

definition TwoBytesReader_Read :: "TwoBytesReader \<Rightarrow> nat \<Rightarrow> TwoBytesReader \<times> bytes \<times> io_error option" where
  "TwoBytesReader_Read t n =
     (if tbCurrent t = 1 then tb_second t n
      else
        let b = take n (drop (tbI t) (tbFirst t)); t = t\<lparr>tbI := tbI t + length b\<rparr>
        in if tbI t = length (tbFirst t)
           then (let t = t\<lparr>tbCurrent := 1, tbI := 0\<rparr> in if b = [] then tb_second t n else (t, b, None))
           else (t, b, None))"

section \<open>The first part of a streamed body\<close>

abbreviation ErrNegativeCount :: io_error where "ErrNegativeCount \<equiv> OtherIO 1"

text \<open>\<open>None\<close> is a panic. The result holds the bytes read, whether they are the whole body inside the buffer of
  the connection, and the error, which also tells the caller which kind of stream to build.\<close>

definition readBodyWithStreaming ::
  "breader \<Rightarrow> int \<Rightarrow> int \<Rightarrow> (breader \<times> bytes \<times> bool \<times> body_error option) option" where
  "readBodyWithStreaming r contentLength maxBodySize =
     (if contentLength = -1 then Some (r, [], False, Some errChunkedStream)
      else
        let readN = (if maxBodySize > contentLength then contentLength else maxBodySize);
            readN = (if readN > 8 * 1024 then 8 * 1024 else readN);
            rSize = int (brSize r)
        in if readN + rSize \<ge> contentLength
           then (if contentLength \<le> rSize
                 then (if contentLength < 0 then Some (r, [], True, Some (BodyIO ErrNegativeCount))
                       else (case br_Peek r (nat contentLength) of
                               (r, b, Some e) \<Rightarrow> Some (r, b, True, Some (BodyIO e))
                             | (r, b, None) \<Rightarrow>
                                 (case br_Discard r (nat contentLength) of
                                    (r, e) \<Rightarrow> Some (r, b, True, map_option BodyIO e))))
                 else (case appendBodyFixedSize r [] (contentLength - rSize) of
                         None \<Rightarrow> None
                       | Some (r, b, Some e) \<Rightarrow> Some (r, b, False, Some e)
                       | Some (r, b, None) \<Rightarrow>
                           (case br_Peek r (brSize r) of (r, _, e) \<Rightarrow> Some (r, b, False, map_option BodyIO e))))
           else (case appendBodyFixedSize r [] readN of
                   None \<Rightarrow> None
                 | Some (r, b, Some e) \<Rightarrow> Some (r, b, False, Some e)
                 | Some (r, b, None) \<Rightarrow> Some (r, b, False, Some ErrBodyTooLarge)))"

text \<open>The stream that \<^verbatim>\<open>Request.ReadBodyStream\<close> and \<^verbatim>\<open>Response.ReadBodyStream\<close> build for a body that is not a
  multipart form.\<close>

datatype body_stream =
    EmptyStream
  | ConnStream
  | RequestStream requestStream
  | BytesStream bytes
  | TwoStream TwoBytesReader

text \<open>Where the last part of the body is still in the buffer of the connection, the code keeps a slice of that buffer; here
  its bytes are copied. The two agree as long as nobody fills the buffer again before the stream has been read, and
  \<^verbatim>\<open>serveConn\<close> reads the next request only behind the handler.\<close>

definition build_stream ::
  "body_error \<Rightarrow> breader \<Rightarrow> int \<Rightarrow> int \<Rightarrow> (breader \<times> body_stream option \<times> body_error option) option" where
  "build_stream unexpectedEOF r contentLength maxBodySize =
     (case readBodyWithStreaming r contentLength maxBodySize of
        None \<Rightarrow> None
      | Some (r, b, allInBuf, Some e) \<Rightarrow>
          if e = ErrBodyTooLarge \<or> e = errChunkedStream then Some (r, Some (RequestStream (acquireRequestStream b)), None)
          else Some (r, None, Some (if e = BodyIO EOF then unexpectedEOF else e))
      | Some (r, b, allInBuf, None) \<Rightarrow>
          if allInBuf then Some (r, Some (BytesStream b), None)
          else (case br_Peek r (brSize r) of
                  (r, b2, _) \<Rightarrow>
                    (case br_Discard r (brSize r) of
                       (r, _) \<Rightarrow> Some (r, Some (TwoStream \<lparr>tbFirst = b, tbSecond = b2, tbI = 0, tbCurrent = 0\<rparr>), None))))"

definition request_body_stream :: "breader \<Rightarrow> int \<Rightarrow> int \<Rightarrow> (breader \<times> body_stream option \<times> body_error option) option" where
  "request_body_stream r contentLength maxBodySize =
     (if contentLength = 0 then Some (r, Some EmptyStream, None)
      else build_stream ErrUnexpectedReqBodyEOF r contentLength maxBodySize)"

definition response_body_stream :: "breader \<Rightarrow> int \<Rightarrow> int \<Rightarrow> (breader \<times> body_stream option \<times> body_error option) option" where
  "response_body_stream r contentLength maxBodySize =
     (if contentLength = 0 then Some (r, Some EmptyStream, None)
      else if contentLength = -2 then Some (r, Some ConnStream, None)
      else build_stream ErrUnexpectedRespBodyEOF r contentLength maxBodySize)"

text \<open>\<^verbatim>\<open>Read\<close> of each kind of stream. \<^verbatim>\<open>BytesStream\<close> holds what its \<^verbatim>\<open>bytes.Reader\<close> has not delivered yet.\<close>

fun body_stream_Read ::
  "('h \<Rightarrow> int) \<Rightarrow> ('h \<Rightarrow> breader \<Rightarrow> ('h \<times> breader \<times> header_error option) option) \<Rightarrow>
   'h \<Rightarrow> body_stream \<Rightarrow> breader \<Rightarrow> nat \<Rightarrow> ('h \<times> body_stream \<times> breader \<times> bytes \<times> msg_error option) option" where
  "body_stream_Read CL RT h EmptyStream r n = Some (h, EmptyStream, r, [], Some MsgEOF)"
| "body_stream_Read CL RT h ConnStream r n =
     (case br_Read r n of (r, b, e) \<Rightarrow> Some (h, ConnStream, r, b, map_option (\<lambda>e. MsgBody (BodyIO e)) e))"
| "body_stream_Read CL RT h (RequestStream rs) r n =
     map_option (\<lambda>(h, rs, x). (h, RequestStream rs, x)) (requestStream_Read CL RT h rs r n)"
| "body_stream_Read CL RT h (BytesStream b) r n =
     (if b = [] then Some (h, BytesStream b, r, [], Some MsgEOF)
      else Some (h, BytesStream (drop n b), r, take n b, None))"
| "body_stream_Read CL RT h (TwoStream t) r n =
     (case TwoBytesReader_Read t n of
        (t, b, e) \<Rightarrow> Some (h, TwoStream t, r, b, map_option (\<lambda>e. MsgBody (BodyIO e)) e))"

text \<open>A consumer of a stream: it reads with slices of the given lengths until a read fails, and joins what it
  gets.\<close>

fun drain ::
  "('h \<Rightarrow> int) \<Rightarrow> ('h \<Rightarrow> breader \<Rightarrow> ('h \<times> breader \<times> header_error option) option) \<Rightarrow>
   'h \<Rightarrow> body_stream \<Rightarrow> breader \<Rightarrow> nat list \<Rightarrow> ('h \<times> body_stream \<times> breader \<times> bytes \<times> msg_error option) option" where
  "drain CL RT h s r [] = Some (h, s, r, [], None)"
| "drain CL RT h s r (n # ns) =
     (case body_stream_Read CL RT h s r n of
        None \<Rightarrow> None
      | Some (h, s, r, b, Some e) \<Rightarrow> Some (h, s, r, b, Some e)
      | Some (h, s, r, b, None) \<Rightarrow>
          map_option (\<lambda>(h, s, r, b', e). (h, s, r, b @ b', e)) (drain CL RT h s r ns))"

section \<open>What a stream still delivers\<close>

text \<open>\<open>delivers cl s r body rest\<close>: reading \<open>s\<close> to its end yields \<open>body\<close> and leaves \<open>rest\<close> on the connection.
  A fixed-length stream first empties the bytes that were read ahead; a chunked one may be inside a chunk, whose
  remaining bytes are \<open>d\<close>.\<close>

definition fixed_stream :: "int \<Rightarrow> requestStream \<Rightarrow> breader \<Rightarrow> bytes \<Rightarrow> bytes \<Rightarrow> bool" where
  "fixed_stream cl rs r body rest \<longleftrightarrow>
     0 \<le> totalBytesRead rs \<and> cl = totalBytesRead rs + int (length body) \<and>
     (if totalBytesRead rs < int (length (prefetchedBytes rs))
      then int (prefetchedOff rs) = totalBytesRead rs \<and> drop (prefetchedOff rs) (prefetchedBytes rs) @ pending r = body @ rest \<and>
           int (length (prefetchedBytes rs)) \<le> cl
      else pending r = body @ rest)"

definition chunked_stream :: "requestStream \<Rightarrow> breader \<Rightarrow> bytes \<Rightarrow> bytes \<Rightarrow> bool" where
  "chunked_stream rs r body rest \<longleftrightarrow>
     (\<exists>d cs ext. chunkLeft rs = int (length d) \<and> body = d @ chunk_data cs \<and>
        (\<forall>c \<in> set cs. chunk_ext (fst c) \<and> snd c \<noteq> [] \<and> length (snd c) < 2 ^ 60) \<and> chunk_ext ext \<and>
        pending r = (if d = [] then [] else d @ strCRLF) @ concat (map chunk_wire cs) @ last_chunk ext @ strCRLF @ rest)"

fun delivers :: "int \<Rightarrow> body_stream \<Rightarrow> breader \<Rightarrow> bytes \<Rightarrow> bytes \<Rightarrow> bool" where
  "delivers cl EmptyStream r body rest \<longleftrightarrow> body = [] \<and> pending r = rest"
| "delivers cl ConnStream r body rest \<longleftrightarrow> pending r = body \<and> rest = [] \<and> brEnd r = EOF"
| "delivers cl (RequestStream rs) r body rest \<longleftrightarrow>
     (if cl = -1 then chunked_stream rs r body rest else fixed_stream cl rs r body rest)"
| "delivers cl (BytesStream b) r body rest \<longleftrightarrow> body = b \<and> pending r = rest"
| "delivers cl (TwoStream t) r body rest \<longleftrightarrow>
     pending r = rest \<and>
     (if tbCurrent t = 1 then body = drop (tbI t) (tbSecond t)
      else tbI t \<le> length (tbFirst t) \<and> body = drop (tbI t) (tbFirst t) @ tbSecond t)"

section \<open>One read\<close>

lemma drop_step: "drop i xs = take n (drop i xs) @ drop (i + length (take n (drop i xs))) xs"
proof -
  have "drop (i + length (take n (drop i xs))) xs = drop (length (take n (drop i xs))) (drop i xs)"
    by (simp add: add.commute del: length_take)
  also have "\<dots> = drop n (drop i xs)" by (simp add: min_def del: drop_drop)
  finally show ?thesis by (simp only: append_take_drop_id)
qed

lemma second_step:
  assumes "tbCurrent t = 1" "0 < n"
  shows "tbI t < length (tbSecond t) \<Longrightarrow> \<exists>t' b body'. tb_second t n = (t', b, None) \<and> b \<noteq> [] \<and> drop (tbI t) (tbSecond t) = b @ body' \<and>
           tbCurrent t' = 1 \<and> body' = drop (tbI t') (tbSecond t')"
    and "\<not> tbI t < length (tbSecond t) \<Longrightarrow> tb_second t n = (t, [], Some EOF)"
  using assms drop_step [of "tbI t" "tbSecond t" n] by (auto simp: tb_second_def Let_def)

lemma two_step:
  assumes t: "delivers cl (TwoStream t) r body rest" "0 < n"
  shows "body \<noteq> [] \<Longrightarrow> \<exists>t' b body'. TwoBytesReader_Read t n = (t', b, None) \<and> b \<noteq> [] \<and> body = b @ body' \<and>
           delivers cl (TwoStream t') r body' rest"
    and "body = [] \<Longrightarrow> \<exists>t'. TwoBytesReader_Read t n = (t', [], Some EOF)"
proof -
  let ?b = "take n (drop (tbI t) (tbFirst t))"
  let ?t = "t\<lparr>tbCurrent := 1, tbI := 0\<rparr>"
  consider (2) "tbCurrent t = 1" | (1) "tbCurrent t \<noteq> 1" "tbI t < length (tbFirst t)" | (12) "tbCurrent t \<noteq> 1" "tbI t = length (tbFirst t)"
    using t by force
  then have "(body \<noteq> [] \<longrightarrow> (\<exists>t' b body'. TwoBytesReader_Read t n = (t', b, None) \<and> b \<noteq> [] \<and> body = b @ body' \<and>
           delivers cl (TwoStream t') r body' rest)) \<and> (body = [] \<longrightarrow> (\<exists>t'. TwoBytesReader_Read t n = (t', [], Some EOF)))"
  proof cases
    case 2
    with t second_step [OF 2 t(2)] show ?thesis by (cases "tbI t < length (tbSecond t)") (auto simp: TwoBytesReader_Read_def)
  next
    case 1
    have b: "?b \<noteq> []" using 1 t(2) by simp
    have "\<exists>t' body'. TwoBytesReader_Read t n = (t', ?b, None) \<and> body = ?b @ body' \<and> delivers cl (TwoStream t') r body' rest"
    proof (cases "tbI t + length ?b = length (tbFirst t)")
      case True
      then have "TwoBytesReader_Read t n = (?t, ?b, None)" using 1 b by (simp add: TwoBytesReader_Read_def Let_def)
      moreover have "body = ?b @ tbSecond t" using t 1 drop_step [of "tbI t" "tbFirst t" n] True by simp
      ultimately show ?thesis using t by auto
    next
      case False
      let ?u = "t\<lparr>tbI := tbI t + length ?b\<rparr>"
      have "TwoBytesReader_Read t n = (?u, ?b, None)" using 1 False by (auto simp: TwoBytesReader_Read_def Let_def min_def)
      moreover have "body = ?b @ drop (tbI ?u) (tbFirst t) @ tbSecond t" using t 1 drop_step [of "tbI t" "tbFirst t" n] by simp
      moreover have "tbI ?u \<le> length (tbFirst t)" using 1 by simp
      ultimately show ?thesis using t 1 by (intro exI [of _ ?u]) auto
    qed
    with b show ?thesis by blast
  next
    case 12
    then have "TwoBytesReader_Read t n = tb_second ?t n" "body = tbSecond t"
      using t by (simp_all add: TwoBytesReader_Read_def Let_def)
    with t second_step [of ?t n] show ?thesis by (cases "tbSecond t = []") auto
  qed
  then show "body \<noteq> [] \<Longrightarrow> \<exists>t' b body'. TwoBytesReader_Read t n = (t', b, None) \<and> b \<noteq> [] \<and> body = b @ body' \<and>
           delivers cl (TwoStream t') r body' rest"
    and "body = [] \<Longrightarrow> \<exists>t'. TwoBytesReader_Read t n = (t', [], Some EOF)" by blast+
qed

text \<open>A stream of known length, on a live connection.\<close>

lemma fixed_step:
  assumes s: "fixed_stream cl rs r body rest" and cl: "CL h = cl" "cl \<noteq> -1" and r: "br_live r" and n: "0 < n"
  shows "body \<noteq> [] \<Longrightarrow> \<exists>rs' r' b body'. requestStream_Read CL RT h rs r n = Some (h, rs', r', b, None) \<and> b \<noteq> [] \<and> body = b @ body' \<and>
           br_live r' \<and> brSize r' = brSize r \<and> fixed_stream cl rs' r' body' rest"
    and "body = [] \<Longrightarrow> requestStream_Read CL RT h rs r n = Some (h, rs, r, [], Some MsgEOF) \<and> pending r = rest"
proof -
  let ?pre = "prefetchedBytes rs" and ?t = "totalBytesRead rs" and ?o = "prefetchedOff rs"
  have t: "0 \<le> ?t" "cl = ?t + int (length body)" using s by (simp_all add: fixed_stream_def)
  show "requestStream_Read CL RT h rs r n = Some (h, rs, r, [], Some MsgEOF) \<and> pending r = rest" if "body = []"
    using s that cl t by (auto simp: requestStream_Read_def fixed_stream_def split: if_splits)
  assume body: "body \<noteq> []"
  then have nt: "?t \<noteq> CL h" using cl(1) t(2) by simp
  show "\<exists>rs' r' b body'. requestStream_Read CL RT h rs r n = Some (h, rs', r', b, None) \<and> b \<noteq> [] \<and> body = b @ body' \<and>
           br_live r' \<and> brSize r' = brSize r \<and> fixed_stream cl rs' r' body' rest"
  proof (cases "?t < int (length ?pre)")
    case True
    with s have o: "int ?o = ?t" "drop ?o ?pre @ pending r = body @ rest" "int (length ?pre) \<le> cl" by (simp_all add: fixed_stream_def)
    define k where "k = (if int n > int (length ?pre) - ?t then nat (int (length ?pre) - ?t) else n)"
    have k: "0 < k" "k \<le> length ?pre - ?o" using True n o(1) by (auto simp: k_def)
    let ?b = "take k (drop ?o ?pre)"
    let ?rs = "rs\<lparr>prefetchedOff := ?o + length ?b, totalBytesRead := ?t + int (length ?b)\<rparr>"
    have R: "requestStream_Read CL RT h rs r n = Some (h, ?rs, r, ?b, None)"
      using True cl nt o(1) by (simp add: requestStream_Read_def read_prefetched_def Let_def k_def)
    have lb: "length ?b = k" using k by simp
    have "int (length ?pre - ?o) \<le> int (length body)" using o t True by simp
    then have kb: "k \<le> length body" using k by simp
    have pre: "take k (body @ rest) = ?b" using o(2) [symmetric] k by (simp add: take_append)
    then have body': "body = ?b @ drop k body" using kb by (metis append_take_drop_id append_eq_conv_conj length_take min.absorb2 take_append diff_is_0_eq take0 append_Nil2)
    have dr: "drop (?o + k) ?pre @ pending r = drop k body @ rest"
    proof -
      have "drop k (drop ?o ?pre @ pending r) = drop k (body @ rest)" using o(2) by simp
      then show ?thesis using k kb by (simp add: add.commute)
    qed
    have "fixed_stream cl ?rs r (drop k body) rest"
      using True o t dr lb kb k by (auto simp: fixed_stream_def)
    then show ?thesis using R body' r lb k(1) by (intro exI [of _ ?rs] exI [of _ r] exI [of _ ?b] exI [of _ "drop k body"]) auto
  next
    case False
    with s have p: "pending r = body @ rest" by (simp add: fixed_stream_def)
    define k where "k = (if int n > cl - ?t then nat (cl - ?t) else n)"
    have k: "0 < k" "k \<le> length body" using n t(2) body by (auto simp: k_def)
    have "pending r \<noteq> []" using p body by simp
    from Read_live [OF r k(1) this] obtain r' b where R: "br_Read r k = (r', b, None)" "b \<noteq> []" "length b \<le> k" "pending r = b @ pending r'"
      "br_live r'" "brSize r' = brSize r" by blast
    let ?rs = "rs\<lparr>totalBytesRead := ?t + int (length b)\<rparr>"
    have "requestStream_Read CL RT h rs r n = Some (h, ?rs, r', b, None)"
      using False cl nt t R(1) by (simp add: requestStream_Read_def Let_def k_def split: if_splits)
    moreover have "b = take (length b) body \<and> pending r' = drop (length b) body @ rest"
      using p R(3,4) k(2) by (simp add: append_eq_append_conv_if)
    then obtain body' where b': "body = b @ body'" "pending r' = body' @ rest" by (metis append_take_drop_id)
    moreover have "fixed_stream cl ?rs r' body' rest" using False t b' by (auto simp: fixed_stream_def)
    ultimately show ?thesis using R(2,5,6) by blast
  qed
qed

text \<open>A stream in chunks, on a live connection.\<close>

lemma read_chunk_step:
  assumes r: "br_live r" and d: "chunkLeft rs = int (length d)" "d \<noteq> []" and p: "pending r = d @ strCRLF @ q" and n: "0 < n"
  shows "\<exists>rs' r' b d'. read_chunk h rs r n = (h, rs', r', b, None) \<and> b \<noteq> [] \<and> d = b @ d' \<and> chunkLeft rs' = int (length d') \<and>
           pending r' = (if d' = [] then [] else d' @ strCRLF) @ q \<and> br_live r' \<and> brSize r' = brSize r"
proof -
  define k where "k = nat (if chunkLeft rs < int n then chunkLeft rs else int n)"
  have k: "0 < k" "k \<le> length d" using n d by (auto simp: k_def)
  have "pending r \<noteq> []" using p d by simp
  from Read_live [OF r k(1) this] obtain r1 b where R: "br_Read r k = (r1, b, None)" "b \<noteq> []" "length b \<le> k" "pending r = b @ pending r1"
    "br_live r1" "brSize r1 = brSize r" by blast
  let ?d = "drop (length b) d"
  have "b = take (length b) d \<and> pending r1 = ?d @ strCRLF @ q" using p R(3,4) k(2) by (simp add: append_eq_append_conv_if)
  then have b: "d = b @ ?d" "pending r1 = ?d @ strCRLF @ q" by (metis append_take_drop_id)+
  let ?rs = "rs\<lparr>totalBytesRead := totalBytesRead rs + int (length b), chunkLeft := chunkLeft rs - int (length b)\<rparr>"
  have c: "chunkLeft ?rs = int (length ?d)" using d(1) R(3) k(2) by simp
  show ?thesis
  proof (cases "?d = []")
    case True
    with b(2) have "pending r1 = strCRLF @ q" by simp
    from expect_bytes_live [OF R(5) this] obtain r2 where r2: "readCrLf r1 = (r2, None)" "pending r2 = q" "br_live r2"
      by (auto simp: readCrLf_def)
    have "brSize r2 = brSize r1" using expect_bytes_size [of r1 strCRLF] r2(1) by (simp add: readCrLf_def)
    moreover have "read_chunk h rs r n = (h, ?rs, r2, b, None)"
      using R(1) r2(1) c True unfolding read_chunk_def k_def [symmetric] Let_def by simp
    ultimately show ?thesis using R(2,6) b c r2 True by (intro exI [of _ ?rs] exI [of _ r2] exI [of _ b] exI [of _ ?d]) simp
  next
    case False
    then have "chunkLeft ?rs \<noteq> 0" using c by simp
    then have "read_chunk h rs r n = (h, ?rs, r1, b, None)"
      using R(1) unfolding read_chunk_def k_def [symmetric] Let_def by simp
    then show ?thesis using R(2,5,6) b c False by (intro exI [of _ ?rs] exI [of _ r1] exI [of _ b] exI [of _ ?d]) simp
  qed
qed

section \<open>The interface of the header\<close>

text \<open>\<^verbatim>\<open>headerInterface\<close>: the length of the body, and a trailer reader that accepts an empty trailer and leaves
  the connection behind it.\<close>

locale stream_header =
  fixes ContentLength :: "'h \<Rightarrow> int"
    and ReadTrailer :: "'h \<Rightarrow> breader \<Rightarrow> ('h \<times> breader \<times> header_error option) option"
  assumes blank: "br_live r \<Longrightarrow> 2 \<le> brSize r \<Longrightarrow> pending r = strCRLF @ p \<Longrightarrow>
      \<exists>r'. ReadTrailer h r = Some (h, r', None) \<and> br_live r' \<and> pending r' = p"
begin

lemma chunked_step:
  assumes s: "chunked_stream rs r body rest" and cl: "ContentLength h = -1" and r: "br_live r" "2 \<le> brSize r" and n: "0 < n"
  shows "body \<noteq> [] \<Longrightarrow> \<exists>rs' r' b body'. requestStream_Read ContentLength ReadTrailer h rs r n = Some (h, rs', r', b, None) \<and> b \<noteq> [] \<and>
           body = b @ body' \<and> br_live r' \<and> brSize r' = brSize r \<and> chunked_stream rs' r' body' rest"
    and "body = [] \<Longrightarrow> \<exists>r'. requestStream_Read ContentLength ReadTrailer h rs r n = Some (h, rs, r', [], Some MsgEOF) \<and> br_live r' \<and>
           pending r' = rest"
proof -
  from s obtain d cs ext where D: "chunkLeft rs = int (length d)" "body = d @ chunk_data cs"
    "\<forall>c \<in> set cs. chunk_ext (fst c) \<and> snd c \<noteq> [] \<and> length (snd c) < 2 ^ 60" "chunk_ext ext"
    "pending r = (if d = [] then [] else d @ strCRLF) @ concat (map chunk_wire cs) @ last_chunk ext @ strCRLF @ rest"
    by (auto simp: chunked_stream_def)
  {
    assume b: "body = []"
    then have e: "d = []" "cs = []" using D by (cases cs; auto)+
    then have "pending r = hex_digits 0 @ ext @ strCRLF @ strCRLF @ rest" using D(5) by (simp add: last_chunk_def)
    from parseChunkSize_live [OF r(1) this _ D(4)] obtain r1 where r1: "parseChunkSize r = (r1, 0, None)" "pending r1 = strCRLF @ rest" "br_live r1"
      by auto
    have "2 \<le> brSize r1" using parseChunkSize_size [of r] r1(1) r(2) by simp
    from blank [OF r1(3) this r1(2)] obtain r2 where r2: "ReadTrailer h r1 = Some (h, r2, None)" "br_live r2" "pending r2 = rest" by blast
    with r1(1) cl D(1) e
    show "\<exists>r'. requestStream_Read ContentLength ReadTrailer h rs r n = Some (h, rs, r', [], Some MsgEOF) \<and> br_live r' \<and> pending r' = rest"
      by (simp add: requestStream_Read_def)
  }
  assume b: "body \<noteq> []"
  have chunk: "\<exists>rs' r' b body'. read_chunk h rs0 r0 n = (h, rs', r', b, None) \<and> b \<noteq> [] \<and>
           d0 @ chunk_data cs0 = b @ body' \<and> br_live r' \<and> brSize r' = brSize r0 \<and> chunked_stream rs' r' body' rest"
    if "br_live r0" "chunkLeft rs0 = int (length d0)" "d0 \<noteq> []" "pending r0 = d0 @ strCRLF @ concat (map chunk_wire cs0) @ last_chunk ext @ strCRLF @ rest"
      "set cs0 \<subseteq> set cs" for rs0 r0 d0 cs0
  proof -
    from read_chunk_step [OF that(1-4) n, of h] obtain rs' r' b d' where R: "read_chunk h rs0 r0 n = (h, rs', r', b, None)" "b \<noteq> []" "d0 = b @ d'"
      "chunkLeft rs' = int (length d')"
      "pending r' = (if d' = [] then [] else d' @ strCRLF) @ concat (map chunk_wire cs0) @ last_chunk ext @ strCRLF @ rest"
      "br_live r'" "brSize r' = brSize r0" by blast
    then have "chunked_stream rs' r' (d' @ chunk_data cs0) rest" using D(3,4) that(5) unfolding chunked_stream_def by blast
    with R show ?thesis by (intro exI [of _ rs'] exI [of _ r'] exI [of _ b] exI [of _ "d' @ chunk_data cs0"]) simp
  qed
  show "\<exists>rs' r' b body'. requestStream_Read ContentLength ReadTrailer h rs r n = Some (h, rs', r', b, None) \<and> b \<noteq> [] \<and>
           body = b @ body' \<and> br_live r' \<and> brSize r' = brSize r \<and> chunked_stream rs' r' body' rest"
  proof (cases "d = []")
    case False
    with D(1,2,5) cl chunk [OF r(1) D(1) False] show ?thesis by (simp add: requestStream_Read_def)
  next
    case True
    with b D(2) obtain c cs' where cs: "cs = c # cs'" by (cases cs) auto
    have c: "chunk_ext (fst c)" "snd c \<noteq> []" "length (snd c) < 2 ^ 60" using D(3) cs by auto
    have "pending r = hex_digits (length (snd c)) @ fst c @ strCRLF @ snd c @ strCRLF @ concat (map chunk_wire cs') @ last_chunk ext @ strCRLF @ rest"
      using D(5) True cs by (simp add: chunk_wire_def [of c])
    from parseChunkSize_live [OF r(1) this c(3,1)] obtain r1 where r1: "parseChunkSize r = (r1, int (length (snd c)), None)"
      "pending r1 = snd c @ strCRLF @ concat (map chunk_wire cs') @ last_chunk ext @ strCRLF @ rest" "br_live r1" by blast
    have "brSize r1 = brSize r" using parseChunkSize_size [of r] r1(1) by simp
    with chunk [OF r1(3) _ c(2) r1(2), of "rs\<lparr>chunkLeft := int (length (snd c))\<rparr>"] r1(1) cl D(1,2) True cs c(2) show ?thesis
      by (auto simp: requestStream_Read_def)
  qed
qed

lemma drain_chunked:
  assumes "chunked_stream rs r body rest" "ContentLength h = -1" "br_live r" "2 \<le> brSize r" "\<forall>n \<in> set ns. 0 < n" "length body < length ns"
  shows "\<exists>rs' r'. drain ContentLength ReadTrailer h (RequestStream rs) r ns = Some (h, RequestStream rs', r', body, Some MsgEOF) \<and>
           chunkLeft rs' = 0 \<and> br_live r' \<and> pending r' = rest"
  using assms
proof (induction ns arbitrary: rs r body)
  case (Cons n ns)
  have n: "0 < n" using Cons.prems(5) by simp
  show ?case
  proof (cases "body = []")
    case True
    then have "chunkLeft rs = 0" using Cons.prems(1) by (auto simp: chunked_stream_def)
    with chunked_step(2) [OF Cons.prems(1-4) n True] True show ?thesis by auto
  next
    case False
    from chunked_step(1) [OF Cons.prems(1-4) n False] obtain rs1 r1 b body1 where S:
      "requestStream_Read ContentLength ReadTrailer h rs r n = Some (h, rs1, r1, b, None)" "b \<noteq> []" "body = b @ body1" "br_live r1"
      "brSize r1 = brSize r" "chunked_stream rs1 r1 body1 rest" by blast
    have "length body1 < length ns" using Cons.prems(6) S(2,3) by (cases b) auto
    with Cons.IH [OF S(6) Cons.prems(2) S(4)] S(5) Cons.prems(4,5) obtain rs' r' where
      "drain ContentLength ReadTrailer h (RequestStream rs1) r1 ns = Some (h, RequestStream rs', r', body1, Some MsgEOF)"
      "chunkLeft rs' = 0" "br_live r'" "pending r' = rest" by auto
    then show ?thesis using S(1,3) by auto
  qed
qed simp

text \<open>Every kind of stream makes progress with every read until its body is delivered, and then reports the end.\<close>

lemma stream_step:
  assumes s: "delivers (ContentLength h) s r body rest" and r: "br_live r" "2 \<le> brSize r" and n: "0 < n"
  shows "body \<noteq> [] \<Longrightarrow> \<exists>s' r' b body'. body_stream_Read ContentLength ReadTrailer h s r n = Some (h, s', r', b, None) \<and> b \<noteq> [] \<and>
           body = b @ body' \<and> br_live r' \<and> brSize r' = brSize r \<and> delivers (ContentLength h) s' r' body' rest"
    and "body = [] \<Longrightarrow> \<exists>s' r'. body_stream_Read ContentLength ReadTrailer h s r n = Some (h, s', r', [], Some MsgEOF) \<and> br_live r' \<and>
           pending r' = rest"
proof -
  have "(body \<noteq> [] \<longrightarrow> (\<exists>s' r' b body'. body_stream_Read ContentLength ReadTrailer h s r n = Some (h, s', r', b, None) \<and> b \<noteq> [] \<and>
           body = b @ body' \<and> br_live r' \<and> brSize r' = brSize r \<and> delivers (ContentLength h) s' r' body' rest)) \<and>
        (body = [] \<longrightarrow> (\<exists>s' r'. body_stream_Read ContentLength ReadTrailer h s r n = Some (h, s', r', [], Some MsgEOF) \<and> br_live r' \<and>
           pending r' = rest))"
  proof (cases s)
    case EmptyStream
    with s r show ?thesis by simp
  next
    case ConnStream
    with s have p: "pending r = body" "rest = []" "brEnd r = EOF" by simp_all
    show ?thesis
    proof (cases "body = []")
      case True
      with p Read_end [OF r(1) n] r ConnStream show ?thesis by simp
    next
      case False
      with Read_live [OF r(1) n] p ConnStream show ?thesis by fastforce
    qed
  next
    case (RequestStream rs)
    show ?thesis
    proof (cases "ContentLength h = -1")
      case True
      then have "chunked_stream rs r body rest" using s RequestStream by simp
      from chunked_step [OF this True r n] True RequestStream show ?thesis by fastforce
    next
      case False
      then have "fixed_stream (ContentLength h) rs r body rest" using s RequestStream by simp
      from fixed_step [of _ rs r body rest ContentLength, OF this refl False r(1) n] False RequestStream r show ?thesis by fastforce
    qed
  next
    case (BytesStream b)
    with s r n show ?thesis by (auto intro!: exI [of _ "drop n b"])
  next
    case (TwoStream t)
    with two_step [of "ContentLength h" t r body rest n] s r n show ?thesis by fastforce
  qed
  then show "body \<noteq> [] \<Longrightarrow> \<exists>s' r' b body'. body_stream_Read ContentLength ReadTrailer h s r n = Some (h, s', r', b, None) \<and> b \<noteq> [] \<and>
           body = b @ body' \<and> br_live r' \<and> brSize r' = brSize r \<and> delivers (ContentLength h) s' r' body' rest"
    and "body = [] \<Longrightarrow> \<exists>s' r'. body_stream_Read ContentLength ReadTrailer h s r n = Some (h, s', r', [], Some MsgEOF) \<and> br_live r' \<and>
           pending r' = rest" by blast+
qed

lemma drain_delivers:
  assumes "delivers (ContentLength h) s r body rest" "br_live r" "2 \<le> brSize r" "\<forall>n \<in> set ns. 0 < n"
  shows "\<exists>s' r' data e. drain ContentLength ReadTrailer h s r ns = Some (h, s', r', data, e) \<and> br_live r' \<and>
           (e = None \<and> length ns \<le> length data \<and> prefix data body \<or> e = Some MsgEOF \<and> data = body \<and> pending r' = rest)"
  using assms
proof (induction ns arbitrary: s r body)
  case Nil
  then show ?case by simp
next
  case (Cons n ns)
  have n: "0 < n" using Cons.prems(4) by simp
  show ?case
  proof (cases "body = []")
    case True
    with stream_step(2) [OF Cons.prems(1-3) n] show ?thesis by force
  next
    case False
    from stream_step(1) [OF Cons.prems(1-3) n False] obtain s1 r1 b body1 where S:
      "body_stream_Read ContentLength ReadTrailer h s r n = Some (h, s1, r1, b, None)" "b \<noteq> []" "body = b @ body1" "br_live r1"
      "brSize r1 = brSize r" "delivers (ContentLength h) s1 r1 body1 rest" by blast
    from Cons.IH [OF S(6,4)] S(5) Cons.prems(3,4) obtain s' r' data e where D:
      "drain ContentLength ReadTrailer h s1 r1 ns = Some (h, s', r', data, e)" "br_live r'"
      "e = None \<and> length ns \<le> length data \<and> prefix data body1 \<or> e = Some MsgEOF \<and> data = body1 \<and> pending r' = rest"
      by auto
    have "drain ContentLength ReadTrailer h s r (n # ns) = Some (h, s', r', b @ data, e)" using S(1) D(1) by simp
    moreover have "Suc (length ns) \<le> length b + length data" if "length ns \<le> length data" using S(2) that by (cases b) auto
    ultimately show ?thesis using D(2,3) S(3) by auto
  qed
qed

end

section \<open>Both headers provide it\<close>

lemma Peek_blank:
  assumes "br_live r" "2 \<le> brSize r" "pending r = strCRLF @ p"
  shows "\<exists>r1. br_Peek r 2 = (r1, strCRLF, None) \<and> br_live (fst (br_Discard r1 2)) \<and> pending (fst (br_Discard r1 2)) = p"
proof -
  from Peek_live [OF assms(1,2)] assms(3) obtain r1 where r1: "br_Peek r 2 = (r1, take 2 (brBuf r1), None)" "br_live r1"
    "pending r1 = strCRLF @ p" "2 \<le> length (brBuf r1)" by auto
  obtain a b x where "brBuf r1 = a # b # x" using r1(4) by (cases "brBuf r1"; cases "tl (brBuf r1)") auto
  with r1 show ?thesis by (auto simp: Discard_buffered br_live_def br_ok_def no_empty_def pending_def)
qed

interpretation rq_stream: stream_header rqContentLength RequestHeader_ReadTrailer
proof
  fix r p and h :: RequestHeader
  assume "br_live r" "2 \<le> brSize r" "pending r = strCRLF @ p"
  from Peek_blank [OF this] show "\<exists>r'. RequestHeader_ReadTrailer h r = Some (h, r', None) \<and> br_live r' \<and> pending r' = p"
    by (auto simp: RequestHeader_ReadTrailer_def)
qed

interpretation rs_stream: stream_header rsContentLength ResponseHeader_ReadTrailer
proof
  fix r p and h :: ResponseHeader
  assume "br_live r" "2 \<le> brSize r" "pending r = strCRLF @ p"
  from Peek_blank [OF this] show "\<exists>r'. ResponseHeader_ReadTrailer h r = Some (h, r', None) \<and> br_live r' \<and> pending r' = p"
    by (auto simp: ResponseHeader_ReadTrailer_def)
qed

section \<open>The streams that are built\<close>

lemma append_size: "appendBodyFixedSize r dst n = Some (r', b, e) \<Longrightarrow> brSize r' = brSize r"
  by (auto simp: appendBodyFixedSize_def dest!: fixed_loop_facts split: if_splits)

lemma build_stream_fixed:
  assumes r: "br_live r" and n: "0 < n" "nat n \<le> length (pending r)" and m: "0 \<le> m"
  shows "\<exists>s r'. build_stream eof r n m = Some (r', Some s, None) \<and> br_live r' \<and> brSize r' = brSize r \<and>
           delivers n s r' (take (nat n) (pending r)) (drop (nat n) (pending r))"
proof -
  let ?p = "pending r" and ?S = "brSize r"
  define readN where "readN = (let k = (if m > n then n else m) in if k > 8 * 1024 then 8 * 1024 else k)"
  have rN: "0 \<le> readN" "readN \<le> n" "readN \<le> 8192" using n m by (auto simp: readN_def Let_def)
  consider (whole) "readN + int ?S \<ge> n" "n \<le> int ?S" | (two) "readN + int ?S \<ge> n" "\<not> n \<le> int ?S" | (part) "\<not> readN + int ?S \<ge> n" by blast
  then show ?thesis
  proof cases
    case whole
    then have "nat n \<le> ?S" by simp
    from Peek_live [OF r this n(2)] obtain r1 where r1: "br_Peek r (nat n) = (r1, take (nat n) (brBuf r1), None)" "br_live r1"
      "pending r1 = ?p" "nat n \<le> length (brBuf r1)" "brSize r1 = ?S" by auto
    note D = Discard_buffered [OF r1(4)]
    let ?r = "r1\<lparr>brLast := None, brBuf := drop (nat n) (brBuf r1)\<rparr>"
    have "readBodyWithStreaming r n m = Some (?r, take (nat n) (brBuf r1), True, None)"
      using whole n r1(1) D unfolding readBodyWithStreaming_def Let_def [of "brSize r"] readN_def Let_def by simp
    then have "build_stream eof r n m = Some (?r, Some (BytesStream (take (nat n) (brBuf r1))), None)"
      by (simp add: build_stream_def)
    moreover have "br_live ?r" using r1(2) by (auto simp: br_live_def br_ok_def no_empty_def)
    moreover have "pending ?r = drop (nat n) ?p" "take (nat n) (brBuf r1) = take (nat n) ?p"
      unfolding r1(3) [symmetric] using r1(4) by (simp_all add: pending_def [of r1] pending_def [of ?r])
    ultimately show ?thesis using r1(5) by auto
  next
    case two
    let ?k = "n - int ?S"
    have k: "0 < ?k" "nat ?k \<le> length ?p" "int (length ([]::bytes)) + ?k \<le> maxAlloc" "nat ?k + ?S = nat n"
      using two rN n by (simp_all add: maxAlloc_def)
    from append_exact [OF r k(1-3)] obtain r1 where r1: "appendBodyFixedSize r [] ?k = Some (r1, take (nat ?k) ?p, None)"
      "pending r1 = drop (nat ?k) ?p" "br_live r1" by auto
    have s1: "brSize r1 = ?S" using append_size [OF r1(1)] .
    have l1: "brSize r1 \<le> length (pending r1)" using r1(2) k(2,4) n(2) s1 by simp
    from Peek_live [OF r1(3) order_refl l1] obtain r2 where r2: "br_Peek r1 (brSize r1) = (r2, take (brSize r1) (brBuf r2), None)"
      "br_live r2" "pending r2 = pending r1" "brSize r2 = brSize r1" by auto
    have l2: "brSize r2 \<le> length (pending r2)" using l1 r2(3,4) by simp
    from Peek_live [OF r2(2) order_refl l2] obtain r3 where r3: "br_Peek r2 (brSize r2) = (r3, take (brSize r2) (brBuf r3), None)"
      "br_live r3" "pending r3 = pending r2" "brSize r2 \<le> length (brBuf r3)" "brSize r3 = brSize r2" by auto
    let ?r = "r3\<lparr>brLast := None, brBuf := drop ?S (brBuf r3)\<rparr>"
    have S0: "0 < ?S" using r by (simp add: br_live_def)
    have D: "br_Discard r3 (brSize r3) = (?r, None)"
      using Discard_buffered [of "brSize r3" r3] r3(4,5) r2(4) s1 S0 by simp
    have "readBodyWithStreaming r n m = Some (r2, take (nat ?k) ?p, False, None)"
      using two n r1(1) r2(1) unfolding readBodyWithStreaming_def Let_def [of "brSize r"] readN_def Let_def by simp
    then have "build_stream eof r n m = Some (?r, Some (TwoStream \<lparr>tbFirst = take (nat ?k) ?p, tbSecond = take ?S (brBuf r3), tbI = 0, tbCurrent = 0\<rparr>), None)"
      using r3(1,5) D r2(4) s1 by (simp add: build_stream_def)
    moreover have "br_live ?r" using r3(2) by (auto simp: br_live_def br_ok_def no_empty_def)
    moreover have "take ?S (brBuf r3) = take ?S (drop (nat ?k) ?p)" "pending ?r = drop ?S (drop (nat ?k) ?p)"
      unfolding r1(2) [symmetric] r2(3) [symmetric] r3(3) [symmetric] using r3(4) r2(4) s1
      by (simp_all add: pending_def [of r3] pending_def [of ?r])
    then have "take ?S (brBuf r3) = drop (nat ?k) (take (nat n) ?p)" "pending ?r = drop (nat n) ?p"
      using k(4) by (simp_all add: drop_take add.commute flip: k(4))
    moreover have "take (nat n) ?p = take (nat ?k) ?p @ drop (nat ?k) (take (nat n) ?p)"
      using append_take_drop_id [of "nat ?k" "take (nat n) ?p"] k(4) by (simp add: min_absorb1)
    ultimately show ?thesis using r3(5) r2(4) s1
      by (intro exI [of _ "TwoStream \<lparr>tbFirst = take (nat ?k) ?p, tbSecond = take ?S (brBuf r3), tbI = 0, tbCurrent = 0\<rparr>"] exI [of _ ?r]) simp
  next
    case part
    obtain r1 where r1: "appendBodyFixedSize r [] readN = Some (r1, take (nat readN) ?p, None)"
      "pending r1 = drop (nat readN) ?p" "br_live r1"
    proof (cases "readN = 0")
      case True
      then show ?thesis using that [of r] r by (simp add: appendBodyFixedSize_def)
    next
      case False
      with rN n(2) have "0 < readN" "nat readN \<le> length ?p" "int (length ([]::bytes)) + readN \<le> maxAlloc" by (simp_all add: maxAlloc_def)
      from append_exact [OF r this] show ?thesis using that by auto
    qed
    have s1: "brSize r1 = ?S" using append_size [OF r1(1)] .
    have "readBodyWithStreaming r n m = Some (r1, take (nat readN) ?p, False, Some ErrBodyTooLarge)"
      using part n r1(1) unfolding readBodyWithStreaming_def Let_def [of "brSize r"] readN_def Let_def by simp
    then have "build_stream eof r n m = Some (r1, Some (RequestStream (acquireRequestStream (take (nat readN) ?p))), None)"
      by (simp add: build_stream_def)
    moreover have "fixed_stream n (acquireRequestStream (take (nat readN) ?p)) r1 (take (nat n) ?p) (drop (nat n) ?p)"
      using rN n r1(2) by (auto simp: fixed_stream_def acquireRequestStream_def)
    ultimately show ?thesis using r1(3) s1 n(1) by auto
  qed
qed

lemma build_stream_chunked:
  assumes "br_live r" "pending r = concat (map chunk_wire cs) @ last_chunk ext @ strCRLF @ rest"
    and "\<forall>c \<in> set cs. chunk_ext (fst c) \<and> snd c \<noteq> [] \<and> length (snd c) < 2 ^ 60" "chunk_ext ext"
  shows "\<exists>s. build_stream eof r (-1) m = Some (r, Some s, None) \<and> delivers (-1) s r (chunk_data cs) rest"
proof -
  have "chunked_stream (acquireRequestStream []) r (chunk_data cs) rest"
    unfolding chunked_stream_def using assms by (intro exI [of _ "[]"] exI [of _ cs] exI [of _ ext]) (simp add: acquireRequestStream_def)
  then show ?thesis by (simp add: build_stream_def readBodyWithStreaming_def)
qed

section \<open>The properties\<close>

text \<open>C18: Streaming a request body of known length is the same as buffering it. Whichever of the three kinds of
  stream is built (a slice of the connection's buffer, two slices, or a stream over the connection with some bytes
  read ahead), and whatever sizes its consumer reads with, the consumer gets exactly the bytes that \<^verbatim>\<open>readBody\<close>
  returns, then \<^verbatim>\<open>io.EOF\<close>, and the connection is left at the first byte after the body.\<close>

theorem streamed_body_is_buffered_body:
  assumes h: "rqContentLength h = n" and n: "0 < n" "nat n \<le> length (pending r)" "n \<le> maxAlloc" and r: "br_live r" "2 \<le> brSize r"
    and m: "0 \<le> m" and ns: "\<forall>k \<in> set ns. 0 < k" "nat n < length ns"
  shows "\<exists>s r1 s' r2 r3 body. request_body_stream r n m = Some (r1, Some s, None) \<and>
           drain rqContentLength RequestHeader_ReadTrailer h s r1 ns = Some (h, s', r2, body, Some MsgEOF) \<and>
           readBody r n 0 [] = Some (r3, body, None) \<and> pending r2 = pending r3 \<and> br_live r2"
proof -
  let ?b = "take (nat n) (pending r)" and ?q = "drop (nat n) (pending r)"
  from build_stream_fixed [OF r(1) n(1,2) m] obtain s r1 where S: "request_body_stream r n m = Some (r1, Some s, None)" "br_live r1"
    "brSize r1 = brSize r" "delivers n s r1 ?b ?q"
    using n(1) unfolding request_body_stream_def by fastforce
  have "delivers (rqContentLength h) s r1 ?b ?q" "2 \<le> brSize r1" using S h r by simp_all
  from rq_stream.drain_delivers [OF this(1) S(2) this(2) ns(1)] obtain s' r2 data e where D:
    "drain rqContentLength RequestHeader_ReadTrailer h s r1 ns = Some (h, s', r2, data, e)" "br_live r2"
    "e = None \<and> length ns \<le> length data \<and> prefix data ?b \<or> e = Some MsgEOF \<and> data = ?b \<and> pending r2 = ?q" by blast
  have "\<not> (length ns \<le> length data \<and> prefix data ?b)" using ns(2) n(2) by (auto dest: prefix_length_le)
  with D have D': "drain rqContentLength RequestHeader_ReadTrailer h s r1 ns = Some (h, s', r2, ?b, Some MsgEOF)" "pending r2 = ?q" by auto
  from append_exact [OF r(1) n(1,2), of "[]"] n(1,3) obtain r3 where "readBody r n 0 [] = Some (r3, ?b, None)" "pending r3 = ?q"
    by (auto simp: readBody_def)
  with S(1) D' D(2) show ?thesis by auto
qed

theorem streamed_body_is_buffered_body_witness:
  "\<exists>s r1 s' r2 r3 body. request_body_stream (new_reader 4 [bs ''ab'', bs ''cdef'', bs ''gX'']) 7 1 = Some (r1, Some s, None) \<and>
     drain rqContentLength RequestHeader_ReadTrailer (emptyRequestHeader\<lparr>rqContentLength := 7\<rparr>) s r1 [3, 1, 2, 9, 1, 1, 1, 1] =
       Some (emptyRequestHeader\<lparr>rqContentLength := 7\<rparr>, s', r2, body, Some MsgEOF) \<and>
     readBody (new_reader 4 [bs ''ab'', bs ''cdef'', bs ''gX'']) 7 0 [] = Some (r3, body, None) \<and> pending r2 = pending r3 \<and> br_live r2"
  by (rule streamed_body_is_buffered_body)
    (simp_all add: new_reader_def br_live_def br_ok_def no_empty_def pending_def maxAlloc_def)

text \<open>C19: A chunked body, streamed to the client or to the handler, is the concatenation of its chunks whatever sizes
  the consumer reads with and however the connection cuts the text; extensions of the chunks are skipped, and
  \<^verbatim>\<open>io.EOF\<close> comes after the empty trailer has been read, with the connection at the next message.\<close>

theorem streamed_chunks:
  assumes h: "rqContentLength h = -1" "rsContentLength g = -1" and r: "br_live r" "2 \<le> brSize r"
    and p: "pending r = concat (map chunk_wire cs) @ last_chunk ext @ strCRLF @ rest"
    and cs: "\<forall>c \<in> set cs. chunk_ext (fst c) \<and> snd c \<noteq> [] \<and> length (snd c) < 2 ^ 60" "chunk_ext ext"
    and ns: "\<forall>k \<in> set ns. 0 < k" "length (chunk_data cs) < length ns"
  shows "(\<exists>s s' r'. request_body_stream r (-1) m = Some (r, Some s, None) \<and>
            drain rqContentLength RequestHeader_ReadTrailer h s r ns = Some (h, s', r', chunk_data cs, Some MsgEOF) \<and> pending r' = rest) \<and>
         (\<exists>s s' r'. response_body_stream r (-1) m = Some (r, Some s, None) \<and>
            drain rsContentLength ResponseHeader_ReadTrailer g s r ns = Some (g, s', r', chunk_data cs, Some MsgEOF) \<and> pending r' = rest)"
proof -
  have long: "\<not> (length ns \<le> length data \<and> prefix data (chunk_data cs))" for data using ns(2) by (auto dest: prefix_length_le)
  from build_stream_chunked [OF r(1) p cs] obtain s where s: "build_stream ErrUnexpectedReqBodyEOF r (-1) m = Some (r, Some s, None)"
    "delivers (-1) s r (chunk_data cs) rest" by blast
  from build_stream_chunked [OF r(1) p cs] obtain t where t: "build_stream ErrUnexpectedRespBodyEOF r (-1) m = Some (r, Some t, None)"
    "delivers (-1) t r (chunk_data cs) rest" by blast
  from rq_stream.drain_delivers [of h, unfolded h, OF s(2) r ns(1)] long
  have "\<exists>s' r'. drain rqContentLength RequestHeader_ReadTrailer h s r ns = Some (h, s', r', chunk_data cs, Some MsgEOF) \<and> pending r' = rest" by blast
  moreover from rs_stream.drain_delivers [of g, unfolded h, OF t(2) r ns(1)] long
  have "\<exists>s' r'. drain rsContentLength ResponseHeader_ReadTrailer g t r ns = Some (g, s', r', chunk_data cs, Some MsgEOF) \<and> pending r' = rest" by blast
  ultimately show ?thesis using s(1) t(1) by (auto simp: request_body_stream_def response_body_stream_def)
qed

lemma sample_chunks:
  "chunk_wire (bs '';x=1'', bs ''hello'') = bs ''5;x=1'' @ strCRLF @ bs ''hello'' @ strCRLF" "last_chunk [] = bs ''0'' @ strCRLF"
  "chunk_ext (bs '';x=1'')" "chunk_ext []"
  by (simp_all add: chunk_wire_def last_chunk_def hex_digits.simps lowerhex_def chunk_ext_def hex2intTable_def)

theorem streamed_chunks_witness:
  "\<exists>s s' r'. response_body_stream (new_reader 16 [bs ''5;x'', bs ''=1'' @ strCRLF @ bs ''he'', bs ''llo'' @ strCRLF @ bs ''0'' @ strCRLF @ strCRLF @ bs ''HT'']) (-1) 0 =
       Some (new_reader 16 [bs ''5;x'', bs ''=1'' @ strCRLF @ bs ''he'', bs ''llo'' @ strCRLF @ bs ''0'' @ strCRLF @ strCRLF @ bs ''HT''], Some s, None) \<and>
     drain rsContentLength ResponseHeader_ReadTrailer (emptyResponseHeader\<lparr>rsContentLength := -1\<rparr>) s
       (new_reader 16 [bs ''5;x'', bs ''=1'' @ strCRLF @ bs ''he'', bs ''llo'' @ strCRLF @ bs ''0'' @ strCRLF @ strCRLF @ bs ''HT'']) [1, 1, 9, 9, 9, 9] =
       Some (emptyResponseHeader\<lparr>rsContentLength := -1\<rparr>, s', r', bs ''hello'', Some MsgEOF) \<and> pending r' = bs ''HT''"
proof -
  let ?r = "new_reader 16 [bs ''5;x'', bs ''=1'' @ strCRLF @ bs ''he'', bs ''llo'' @ strCRLF @ bs ''0'' @ strCRLF @ strCRLF @ bs ''HT'']"
  have "pending ?r = concat (map chunk_wire [(bs '';x=1'', bs ''hello'')]) @ last_chunk [] @ strCRLF @ bs ''HT''"
    by (simp add: new_reader_def pending_def sample_chunks [simplified])
  moreover have "br_live ?r" "2 \<le> brSize ?r" by (simp_all add: new_reader_def br_live_def br_ok_def no_empty_def)
  ultimately show ?thesis
    using streamed_chunks [of "emptyRequestHeader\<lparr>rqContentLength := -1\<rparr>" "emptyResponseHeader\<lparr>rsContentLength := -1\<rparr>" ?r
        "[(bs '';x=1'', bs ''hello'')]" "[]" "bs ''HT''" "[1, 1, 9, 9, 9, 9]" 0] sample_chunks(3,4)
    by simp
qed

text \<open>A connection that ends inside a body of known length.\<close>

lemma drain_truncated:
  assumes "CL h \<noteq> -1" "0 \<le> totalBytesRead rs" "prefetchedOff rs = nat (totalBytesRead rs) \<or> int (length (prefetchedBytes rs)) \<le> totalBytesRead rs"
    and "rest = drop (nat (totalBytesRead rs)) (prefetchedBytes rs) @ pending r" "totalBytesRead rs + int (length rest) < CL h"
    and "br_live r" "brEnd r = EOF" "\<forall>k \<in> set ns. 0 < k" "length rest < length ns"
  shows "\<exists>s' r'. drain CL RT h (RequestStream rs) r ns = Some (h, s', r', rest, Some MsgEOF)"
  using assms
proof (induction ns arbitrary: rs r rest)
  case (Cons n ns)
  let ?t = "totalBytesRead rs"
  have t: "?t \<noteq> CL h" using Cons.prems(5) by simp
  show ?case
  proof (cases "int (length (prefetchedBytes rs)) > ?t")
    case True
    define k where "k = (if int n > int (length (prefetchedBytes rs)) - ?t then nat (int (length (prefetchedBytes rs)) - ?t) else n)"
    let ?b = "take k (drop (nat ?t) (prefetchedBytes rs))"
    let ?rs = "rs\<lparr>prefetchedOff := prefetchedOff rs + k, totalBytesRead := ?t + int k\<rparr>"
    have k: "0 < k" "?b \<noteq> []" using True Cons.prems(2,8) by (auto simp: k_def)
    have off: "prefetchedOff rs = nat ?t" "nat ?t < length (prefetchedBytes rs)" using Cons.prems(2,3) True by auto
    have l: "length ?b = k" using off(2) Cons.prems(2) by (auto simp: k_def)
    have E: "requestStream_Read CL RT h rs r n = Some (h, ?rs, r, ?b, None)"
      using Cons.prems(1) t True off k l by (simp add: requestStream_Read_def read_prefetched_def Let_def k_def)
    have n: "nat (?t + int k) = k + nat ?t" using Cons.prems(2) by simp
    have rest: "rest = ?b @ drop (nat (totalBytesRead ?rs)) (prefetchedBytes ?rs) @ pending r"
      using Cons.prems(4) append_take_drop_id [of k "drop (nat ?t) (prefetchedBytes rs)"] by (simp add: n)
    let ?rest = "drop (nat (totalBytesRead ?rs)) (prefetchedBytes ?rs) @ pending r"
    have "length rest = k + length ?rest" using rest l by (metis length_append)
    then have "totalBytesRead ?rs + int (length ?rest) < CL h" "length ?rest < length ns"
      using Cons.prems(5,9) k(1) by (simp_all del: length_append)
    from Cons.IH [OF Cons.prems(1) _ _ refl this(1) Cons.prems(6,7) _ this(2)] Cons.prems(2,8) off(1) n obtain s' r' where
      "drain CL RT h (RequestStream ?rs) r ns = Some (h, s', r', ?rest, Some MsgEOF)" by auto
    then show ?thesis using E rest by simp
  next
    case False
    then have rest: "rest = pending r" using Cons.prems(4) by simp
    define k where "k = (if int n > CL h - ?t then nat (CL h - ?t) else n)"
    have k: "0 < k" using Cons.prems(5,8) by (auto simp: k_def)
    have E: "requestStream_Read CL RT h rs r n =
        (case br_Read r k of (r, b, e) \<Rightarrow>
           Some (h, rs\<lparr>totalBytesRead := ?t + int (length b)\<rparr>, r, b, map_option (\<lambda>e. MsgBody (BodyIO e)) e))"
      using Cons.prems(1,5) t False by (auto simp: requestStream_Read_def Let_def k_def)
    show ?thesis
    proof (cases "pending r = []")
      case True
      from Read_end [OF Cons.prems(6) k True] E True rest Cons.prems(7) show ?thesis by simp
    next
      case p: False
      from Read_live [OF Cons.prems(6) k p] obtain r1 b where R: "br_Read r k = (r1, b, None)" "b \<noteq> []" "pending r = b @ pending r1"
        "br_live r1" "brEnd r1 = brEnd r" by blast
      let ?rs = "rs\<lparr>totalBytesRead := ?t + int (length b)\<rparr>"
      have "length (pending r1) < length ns" using R(2,3) Cons.prems(9) rest by (cases b) auto
      with Cons.IH [of ?rs "pending r1" r1] Cons.prems R rest False obtain s' r' where
        "drain CL RT h (RequestStream ?rs) r1 ns = Some (h, s', r', pending r1, Some MsgEOF)" by auto
      then show ?thesis using E R(1,3) rest by simp
    qed
  qed
qed simp

text \<open>C35: A body that is truncated after the part that is read ahead is not noticed by the consumer of a stream. A
  request announces \<open>n\<close> bytes, more than what is read ahead under the limit \<open>m\<close> (at most 8192 bytes) and the buffer of the
  connection can hold, and the connection is closed before all of them arrive. If it is closed while reading ahead, no
  stream is built and \<^verbatim>\<open>ErrUnexpectedReqBodyEOF\<close> is reported. Otherwise the stream delivers what has arrived and then
  reports a clean \<^verbatim>\<open>io.EOF\<close>, just as at the end of a complete body, while \<^verbatim>\<open>readBody\<close> on the same connection
  returns an error.\<close>

theorem truncated_stream_looks_complete:
  assumes h: "rqContentLength h = n" and r: "br_live r" "brEnd r = EOF" and k: "k = min m (8 * 1024)" "0 \<le> m"
    and n: "k + int (brSize r) < n" "int (length (pending r)) < n"
    and ns: "\<forall>j \<in> set ns. 0 < j" "length (pending r) < length ns"
  shows "if int (length (pending r)) < k then \<exists>r'. request_body_stream r n m = Some (r', None, Some ErrUnexpectedReqBodyEOF)
         else \<exists>s r1 s' r'. request_body_stream r n m = Some (r1, Some s, None) \<and>
                drain rqContentLength RequestHeader_ReadTrailer h s r1 ns = Some (h, s', r', pending r, Some MsgEOF) \<and>
                (n \<le> maxAlloc \<and> (m = 0 \<or> n \<le> m) \<longrightarrow> (\<exists>r''. readBody r n m [] = Some (r'', pending r, Some (BodyIO EOF))))"
proof -
  have K: "(let readN = (if m > n then n else m) in if readN > 8 * 1024 then 8 * 1024 else readN) = k"
    using k n by (auto simp: Let_def min_def)
  have n0: "n \<noteq> 0" "n \<noteq> -1" "\<not> k + int (brSize r) \<ge> n" "0 \<le> k" "k \<le> maxAlloc" using n k by (auto simp: maxAlloc_def)
  have B: "readBodyWithStreaming r n m = (case appendBodyFixedSize r [] k of None \<Rightarrow> None
      | Some (r, b, Some e) \<Rightarrow> Some (r, b, False, Some e) | Some (r, b, None) \<Rightarrow> Some (r, b, False, Some ErrBodyTooLarge))"
    using K n0 unfolding readBodyWithStreaming_def Let_def by simp
  show ?thesis
  proof (cases "int (length (pending r)) < k")
    case True
    then have "length (pending r) < nat k" by linarith
    from fixed_loop_short [OF r(1) this, of "[]"] r(2) obtain r' where
      "fixed_loop r [] (nat k) = (r', pending r, Some (BodyIO EOF))" by auto
    then show ?thesis using True B n0 by (simp add: request_body_stream_def build_stream_def appendBodyFixedSize_def)
  next
    case False
    then have kp: "nat k \<le> length (pending r)" by linarith
    let ?b = "take (nat k) (pending r)"
    obtain r1 where r1: "appendBodyFixedSize r [] k = Some (r1, ?b, None)" "pending r1 = drop (nat k) (pending r)" "br_live r1" "brEnd r1 = brEnd r"
      using append_exact [OF r(1), of k "[]"] n0 kp r(1) by (cases "k = 0") (auto simp: appendBodyFixedSize_def)
    let ?s = "RequestStream (acquireRequestStream ?b)"
    have s: "request_body_stream r n m = Some (r1, Some ?s, None)"
      using B r1(1) n0 by (simp add: request_body_stream_def build_stream_def)
    have "\<exists>s' r'. drain rqContentLength RequestHeader_ReadTrailer h ?s r1 ns = Some (h, s', r', pending r, Some MsgEOF)"
      by (rule drain_truncated) (use h n r1 r(2) ns n0 in \<open>simp_all add: acquireRequestStream_def\<close>)
    moreover have "\<exists>r''. readBody r n m [] = Some (r'', pending r, Some (BodyIO EOF))" if "n \<le> maxAlloc" "m = 0 \<or> n \<le> m"
    proof -
      have "length (pending r) < nat n" using n(2) by simp
      from fixed_loop_short [OF r(1) this, of "[]"] n r(2) that n0 show ?thesis by (auto simp: readBody_def appendBodyFixedSize_def)
    qed
    ultimately show ?thesis using s False by auto
  qed
qed

theorem truncated_stream_looks_complete_witness:
  "\<exists>s r1 s' r'. request_body_stream (new_reader 4 [bs ''abc'']) 10 2 = Some (r1, Some s, None) \<and>
     drain rqContentLength RequestHeader_ReadTrailer (emptyRequestHeader\<lparr>rqContentLength := 10\<rparr>) s r1 [5, 5, 5, 5] =
       Some (emptyRequestHeader\<lparr>rqContentLength := 10\<rparr>, s', r', bs ''abc'', Some MsgEOF)"
proof -
  let ?r = "new_reader 4 [bs ''abc'']" and ?h = "emptyRequestHeader\<lparr>rqContentLength := 10\<rparr>"
  have "br_live ?r" "brEnd ?r = EOF" "brSize ?r = 4" "pending ?r = bs ''abc''"
    by (simp_all add: new_reader_def br_live_def br_ok_def no_empty_def pending_def)
  then show ?thesis using truncated_stream_looks_complete [of ?h 10 ?r 2 2 "[5, 5, 5, 5]"] by (auto simp del: drain.simps)
qed

text \<open>C36: The end of a chunked stream is not sticky. Once a consumer has read the stream to its end, a further read,
  such as the one with which \<^verbatim>\<open>closeBodyStream\<close> discards what is left unread, takes the next message on the
  connection for a chunk: it fails, and the first byte of that message is lost.\<close>

theorem read_after_end_eats_next_message:
  assumes h: "rqContentLength h = -1" and r: "br_live r" "2 \<le> brSize r"
    and p: "pending r = concat (map chunk_wire cs) @ last_chunk ext @ strCRLF @ c # rest" and c: "hex2intTable c = 16"
    and cs: "\<forall>c \<in> set cs. chunk_ext (fst c) \<and> snd c \<noteq> [] \<and> length (snd c) < 2 ^ 60" "chunk_ext ext"
    and ns: "\<forall>k \<in> set ns. 0 < k" "length (chunk_data cs) < length ns"
  shows "\<exists>s s' r' s'' r''. request_body_stream r (-1) m = Some (r, Some s, None) \<and>
           drain rqContentLength RequestHeader_ReadTrailer h s r ns = Some (h, s', r', chunk_data cs, Some MsgEOF) \<and> pending r' = c # rest \<and>
           body_stream_Read rqContentLength RequestHeader_ReadTrailer h s' r' k = Some (h, s'', r'', [], Some (MsgBody (BodyHex errEmptyHexNum))) \<and>
           pending r'' = rest"
proof -
  let ?rs = "acquireRequestStream []"
  have b: "request_body_stream r (-1) m = Some (r, Some (RequestStream ?rs), None)"
    by (simp add: request_body_stream_def build_stream_def readBodyWithStreaming_def)
  have "chunked_stream ?rs r (chunk_data cs) (c # rest)"
    unfolding chunked_stream_def using p cs by (intro exI [of _ "[]"] exI [of _ cs] exI [of _ ext]) (simp add: acquireRequestStream_def)
  from rq_stream.drain_chunked [OF this h r ns] obtain rs' r' where D:
    "drain rqContentLength RequestHeader_ReadTrailer h (RequestStream ?rs) r ns = Some (h, RequestStream rs', r', chunk_data cs, Some MsgEOF)"
    "chunkLeft rs' = 0" "br_live r'" "pending r' = c # rest" by blast
  from ReadByte_Cons [OF D(3,4)] obtain r'' where R: "br_ReadByte r' = (r'', c, None)" "pending r'' = rest" by blast
  have "parseChunkSize r' = (r'', -1, Some (BodyHex errEmptyHexNum))"
    using R(1) c by (simp add: parseChunkSize_def readHexInt_def readHexInt_loop.simps [of r'] Let_def)
  then have "body_stream_Read rqContentLength RequestHeader_ReadTrailer h (RequestStream rs') r' k =
      Some (h, RequestStream rs', r'', [], Some (MsgBody (BodyHex errEmptyHexNum)))"
    using h D(2) by (simp add: requestStream_Read_def)
  with b D R(2) show ?thesis by blast
qed

theorem read_after_end_eats_next_message_witness:
  "\<exists>s s' r' s'' r''. request_body_stream (new_reader 16 [bs ''5;x=1'' @ strCRLF @ bs ''hello'' @ strCRLF @ bs ''0'' @ strCRLF @ strCRLF @ bs ''GET /'']) (-1) 0 =
       Some (new_reader 16 [bs ''5;x=1'' @ strCRLF @ bs ''hello'' @ strCRLF @ bs ''0'' @ strCRLF @ strCRLF @ bs ''GET /''], Some s, None) \<and>
     drain rqContentLength RequestHeader_ReadTrailer (emptyRequestHeader\<lparr>rqContentLength := -1\<rparr>) s
       (new_reader 16 [bs ''5;x=1'' @ strCRLF @ bs ''hello'' @ strCRLF @ bs ''0'' @ strCRLF @ strCRLF @ bs ''GET /'']) [8, 8, 8, 8, 8, 8] =
       Some (emptyRequestHeader\<lparr>rqContentLength := -1\<rparr>, s', r', bs ''hello'', Some MsgEOF) \<and> pending r' = bs ''GET /'' \<and>
     body_stream_Read rqContentLength RequestHeader_ReadTrailer (emptyRequestHeader\<lparr>rqContentLength := -1\<rparr>) s' r' 512 =
       Some (emptyRequestHeader\<lparr>rqContentLength := -1\<rparr>, s'', r'', [], Some (MsgBody (BodyHex errEmptyHexNum))) \<and>
     pending r'' = bs ''ET /''"
proof -
  let ?r = "new_reader 16 [bs ''5;x=1'' @ strCRLF @ bs ''hello'' @ strCRLF @ bs ''0'' @ strCRLF @ strCRLF @ bs ''GET /'']"
  have p: "pending ?r = concat (map chunk_wire [(bs '';x=1'', bs ''hello'')]) @ last_chunk [] @ strCRLF @ 0x47 # bs ''ET /''"
    by (simp add: new_reader_def pending_def sample_chunks [simplified])
  have r: "br_live ?r" "2 \<le> brSize ?r" by (simp_all add: new_reader_def br_live_def br_ok_def no_empty_def)
  have "hex2intTable 0x47 = 16" by (simp add: hex2intTable_def)
  from read_after_end_eats_next_message [of "emptyRequestHeader\<lparr>rqContentLength := -1\<rparr>", OF _ r p this _ sample_chunks(4), of "[8, 8, 8, 8, 8, 8]" 0 512]
    sample_chunks(3)
  show ?thesis by (simp del: drain.simps)
qed

end
