(* ===== verification/ResponseSegments.thy ===== *)
theory ResponseSegments
  imports ResponseRead
begin

text \<open>
  A response header on the wire: the status line and the lines as the reader sees them, a header that arrives in one
  segment, one that arrives in two, and one with a folded value.
\<close>

section \<open>The status line\<close>

definition status_line :: "bytes \<Rightarrow> nat \<Rightarrow> bytes \<Rightarrow> bytes" where
  "status_line p n m = p @ [spChar] @ dec_digits n @ [spChar] @ m"

definition status_ok :: "bytes \<Rightarrow> nat \<Rightarrow> bytes \<Rightarrow> bool" where
  "status_ok p n m \<longleftrightarrow> p \<noteq> [] \<and> spChar \<notin> set p \<and> nChar \<notin> set p \<and> n < 2 ^ 63 \<and> nChar \<notin> set m"

definition with_status :: "ResponseHeader \<Rightarrow> bytes \<Rightarrow> nat \<Rightarrow> bytes \<Rightarrow> ResponseHeader" where
  "with_status h p n m =
     h\<lparr>rsNoHTTP11 := p \<noteq> strHTTP11, rsStatusCode := int n, rsStatusMessage := if m = [] then rsStatusMessage h else m\<rparr>"

lemma digit_byte_not: "\<not> is_digit_byte spChar" "\<not> is_digit_byte nChar"
  by (simp_all add: is_digit_byte_def)

lemma parseUintBuf_loop_stop:
  "parseUintBuf_loop b i v = (x, i + length b, None) \<Longrightarrow> 0 < i + length b \<Longrightarrow>
     parseUintBuf_loop (b @ spChar # w) i v = (x, i + length b, None)"
proof (induction b arbitrary: i v)
  case Nil
  then show ?case by simp
next
  case (Cons c b)
  let ?n = "wrap64 (10 * v + uint (c - 0x30))"
  have k: "\<not> c - 0x30 > 9" "\<not> ?n < v" using Cons.prems(1) by (auto simp: Let_def split: if_splits)
  then have "parseUintBuf_loop b (Suc i) ?n = (x, Suc i + length b, None)"
    using Cons.prems(1) by (simp add: Let_def)
  from Cons.IH [OF this] k show ?case by (simp add: Let_def)
qed

lemma parseUintBuf_dec:
  assumes "n < 2 ^ 63"
  shows "parseUintBuf (dec_digits n @ spChar # w) = (int n, length (dec_digits n), None)"
proof -
  have "parseUintBuf_loop (dec_digits n) 0 (int 0) = (int (dec_value 0 (dec_digits n)), 0 + length (dec_digits n), None)"
    by (rule parseUintBuf_loop_digits [OF dec_digits_digits]) (use assms dec_value_digits in simp)
  from parseUintBuf_loop_stop [OF this, of w] show ?thesis
    by (simp add: parseUintBuf_def dec_value_digits del: dec_digits.simps)
qed

lemma status_line_nl: "status_ok p n m \<Longrightarrow> nChar \<notin> set (status_line p n m)"
  using dec_digits_digits [of n] digit_byte_not(2) by (auto simp: status_line_def status_ok_def simp del: dec_digits.simps)

lemma parse_status:
  assumes "status_ok p n m"
  shows "ResponseHeader_parseFirstLine h (status_line p n m @ rChar # nChar # r) =
           (with_status h p n m, int (length (status_line p n m) + 2), None)"
proof -
  have i: "index_byte (status_line p n m) spChar = Some (length p)" "length p \<noteq> 0"
    using assms index_byte_first [of spChar p "dec_digits n @ spChar # m"] by (simp_all add: status_line_def status_ok_def)
  have d: "take (length p) (status_line p n m) = p" "drop (length p + 1) (status_line p n m) = dec_digits n @ spChar # m"
    by (simp_all add: status_line_def)
  have len: "length (status_line p n m @ rChar # nChar # r) - length r = length (status_line p n m) + 2" by simp
  have u: "parseUintBuf (dec_digits n @ spChar # m) = (int n, length (dec_digits n), None)"
    using assms by (intro parseUintBuf_dec) (simp add: status_ok_def)
  have b: "\<not> (length (dec_digits n @ spChar # m) > length (dec_digits n) \<and> (dec_digits n @ spChar # m) ! length (dec_digits n) \<noteq> spChar)"
    "length (dec_digits n @ spChar # m) > length (dec_digits n) + 1 \<longleftrightarrow> m \<noteq> []"
    "drop (length (dec_digits n) + 1) (dec_digits n @ spChar # m) = m"
    by (simp_all del: dec_digits.simps)
  show ?thesis
    unfolding ResponseHeader_parseFirstLine_def nextLine_line [OF status_line_nl [OF assms]] option.case prod.case i(1) Let_def d u b(2,3)
      if_not_P [OF b(1)] if_not_P [OF i(2)] len
    by (simp add: with_status_def ResponseHeader_SetStatusMessage_def)
qed

section \<open>Plain fields\<close>

definition rs_special_names :: "bytes list" where
  "rs_special_names =
     [strContentType, strContentEncoding, strContentLength, strConnection, strServer, strSetCookie, strTransferEncoding, strTrailer]"

lemma rs_special_distinct: "distinct rs_special_names" "[] \<notin> set rs_special_names" "strDate \<notin> set rs_special_names"
  by (simp_all add: rs_special_names_def hdr_names)

text \<open>A field that survives: valid bytes, no surrounding blanks, a canonical name without a meaning of its own.\<close>

definition plain_field :: "bytes \<times> bytes \<Rightarrow> bool" where
  "plain_field p \<longleftrightarrow>
     fst p \<noteq> [] \<and> list_all validHeaderFieldByte (fst p) \<and> normalizeHeaderKeyV2 (fst p) = fst p \<and>
     fst p \<notin> set rs_special_names \<and> value_ok (snd p)"

lemma rs_step_plain:
  assumes "k \<noteq> []" "list_all validHeaderFieldByte k" "k \<notin> set rs_special_names" "list_all validHeaderValueByte v" "\<not> rsDisableNormalizing h"
  shows "rs_step h d k v = (h\<lparr>rsH := appendArg (rsH h) k v False\<rparr>, None)"
  using assms
  by (simp add: rs_step_def check_line_None ResponseHeader_line_flat headNameCompare_def rs_special_names_def Let_def)

lemma plain_field_step:
  "plain_field (k, v) \<Longrightarrow> \<not> rsDisableNormalizing h \<Longrightarrow> rs_step h d k v = (h\<lparr>rsH := appendArg (rsH h) k v False\<rparr>, None)"
  by (intro rs_step_plain) (simp_all add: plain_field_def value_ok_def)

lemma apply_plain_fields:
  "list_all plain_field ps \<Longrightarrow> \<not> rsDisableNormalizing h \<Longrightarrow>
     \<exists>s. apply_lines rs_step h d ps = (h\<lparr>rsH := s\<rparr>, None) \<and> kv_pairs (live s) = kv_pairs (live (rsH h)) @ ps"
proof (induction ps arbitrary: h)
  case Nil
  then show ?case by (auto intro!: exI [of _ "rsH h"])
next
  case (Cons p ps)
  obtain k v where p: "p = (k, v)" by (cases p)
  let ?h = "h\<lparr>rsH := appendArg (rsH h) k v False\<rparr>"
  have "rs_step h d k v = (?h, None)" using Cons.prems p by (intro plain_field_step) auto
  with Cons.IH [of ?h] Cons.prems p show ?case by (auto simp: mkKV_def)
qed

lemma plain_lines: "list_all plain_field ps \<Longrightarrow> list_all line_ok ps"
  by (auto simp: list_all_iff plain_field_def value_ok_def line_ok_def intro!: field_line_key [unfolded list_all_iff])

lemma plain_normal: "list_all plain_field ps \<Longrightarrow> map (\<lambda>(k, v). (norm_key False k, v)) ps = ps"
  by (intro map_idI) (auto simp: list_all_iff plain_field_def norm_key_def)

section \<open>Parsing a block\<close>

definition rs_start :: "ResponseHeader \<Rightarrow> ResponseHeader" where
  "rs_start h = h\<lparr>rsContentLength := if rsHeadMethod h then 0 else -2\<rparr>"

lemma rs_start_if:
  "(if rsHeadMethod (h\<lparr>rsContentLength := -2\<rparr>) then h\<lparr>rsContentLength := -2, rsContentLength := 0\<rparr> else h\<lparr>rsContentLength := -2\<rparr>) = rs_start h"
  by (simp add: rs_start_def)

text \<open>What \<^verbatim>\<open>parseHeaders\<close> makes of the lines that the scanner delivers.\<close>

lemma response_parseHeaders_scan:
  assumes "scan_all (new_scanner buf d) = (ps, e)" "rsDisableNormalizing h = d" "apply_lines rs_step (rs_start h) d ps = (h1, None)"
  shows "ResponseHeader_parseHeaders h buf =
           (case hsErr e of
              Some x \<Rightarrow> (h1, scanned_buf e, 0, Some x)
            | None \<Rightarrow> (ResponseHeader_finish h1, scanned_buf e, int (length buf - length (hsB e)), None))"
proof -
  have "hsDisableNormalizing (new_scanner buf d) = d" by (simp add: new_scanner_def)
  with rs_headers.loop_lines [of "rs_start h" "new_scanner buf d"] assms
  have "ResponseHeader_parseHeaders_loop (rs_start h) (new_scanner buf d) = (h1, e, None)" by simp
  moreover have "rsDisableNormalizing (rs_start h) = d" using assms(2) by (simp add: rs_start_def)
  ultimately show ?thesis
    unfolding ResponseHeader_parseHeaders_def Let_def rs_start_if by simp
qed

lemma response_parseHeaders_print:
  assumes ps: "list_all line_ok ps" and d: "rsDisableNormalizing h = d"
    and st: "apply_lines rs_step (rs_start h) d (map (\<lambda>(k, v). (norm_key d k, v)) ps) = (h1, None)"
  defines "L \<equiv> length (print_lines ps) + 2"
  shows "\<exists>b. ResponseHeader_parseHeaders h (print_lines ps @ [rChar, nChar] @ body) = (ResponseHeader_finish h1, b, int L, None) \<and>
             drop L b = body"
proof -
  let ?buf = "print_lines ps @ [rChar, nChar] @ body"
  let ?s = "new_scanner ?buf d"
  have s: "at_line ?s" "hsB ?s = print_lines ps @ rChar # nChar # body" "hsDisableNormalizing ?s = d" "hsTail ?s = []"
    by (simp_all add: new_scanner_def at_line_def)
  from scan_all_print [OF ps s(1,2)] s obtain e where e: "scan_all ?s = (map (\<lambda>(k, v). (norm_key d k, v)) ps, e)"
    "hsErr e = None" "hsB e = body" "hsTail e = []" by auto
  have "length (hsDone e) = L"
    using loop_mem_scan_all [of ?s] e new_scanner_aligned(2) [of ?buf d] by (simp add: mem_length_def L_def)
  then have "drop L (scanned_buf e) = body" using e by (simp add: scanned_buf_def)
  with response_parseHeaders_scan [OF e(1) d st] e show ?thesis by (simp add: L_def)
qed

text \<open>A block whose last line is complete but whose empty line is missing: every line is delivered before the
  scanner asks for more.\<close>

lemma scan_all_cut:
  assumes "list_all line_ok ps" "\<forall>p \<in> set ps. norm_key (hsDisableNormalizing s) (fst p) = fst p" "at_line s" "hsB s = print_lines ps"
  shows "\<exists>e. scan_all s = (ps, e) \<and> hsErr e = Some errNeedMore \<and> hsB e = [] \<and> hsDone e = hsDone s @ print_lines ps \<and> hsTail e = hsTail s"
  using assms
proof (induction ps arbitrary: s)
  case Nil
  then show ?case by (subst scan_all.simps) (simp add: scan_next_def at_line_def)
next
  case (Cons p ps)
  obtain k v where p: "p = (k, v)" by (cases p)
  have kv: "line_key k" "line_value v" "list_all line_ok ps" using Cons.prems p by (auto simp: line_ok_def [of "(k, v)"])
  have nb: "no_blank (print_lines ps)"
    using kv(3) by (cases ps; cases "fst (hd ps)") (auto simp: no_blank_def line_ok_def line_key_def)
  have n: "norm_key (hsDisableNormalizing s) k = k" using Cons.prems(2) p by simp
  from scan_next_line [OF kv(1,2) nb Cons.prems(3)] Cons.prems(4) p n
  obtain s' where s': "scan_next s = (s', True)" "at_line s'" "hsB s' = print_lines ps" "hsKey s' = k" "hsValue s' = v"
    "hsTail s' = hsTail s" "hsDisableNormalizing s' = hsDisableNormalizing s" "hsDone s' = hsDone s @ k @ bs '': '' @ v @ [rChar, nChar]"
    by auto
  from Cons.IH [OF kv(3) _ s'(2,3)] Cons.prems(2) s' obtain e where e: "scan_all s' = (ps, e)" "hsErr e = Some errNeedMore" "hsB e = []"
    "hsDone e = hsDone s' @ print_lines ps" "hsTail e = hsTail s'" by auto
  show ?case using s' e p by (subst scan_all.simps) simp
qed

lemma response_parseHeaders_cut:
  assumes ps: "list_all line_ok ps" and n: "\<forall>p \<in> set ps. norm_key d (fst p) = fst p" and d: "rsDisableNormalizing h = d"
    and st: "apply_lines rs_step (rs_start h) d ps = (h1, None)"
  shows "ResponseHeader_parseHeaders h (print_lines ps) = (h1, print_lines ps, 0, Some errNeedMore)"
proof -
  from scan_all_cut [OF ps, of "new_scanner (print_lines ps) d"] n obtain e where
    e: "scan_all (new_scanner (print_lines ps) d) = (ps, e)" "hsErr e = Some errNeedMore" "hsB e = []" "hsDone e = print_lines ps" "hsTail e = []"
    by (auto simp: new_scanner_def at_line_def)
  with response_parseHeaders_scan [OF e(1) d st] show ?thesis by (simp add: scanned_buf_def)
qed

text \<open>The status line in front of the block.\<close>

lemma response_parse_status:
  assumes "status_ok p n m" "ResponseHeader_parseHeaders (with_status h p n m) blk = (h', b, k, e)"
  shows "ResponseHeader_parse h (status_line p n m @ [rChar, nChar] @ blk) =
           (h', status_line p n m @ [rChar, nChar] @ b, case e of None \<Rightarrow> int (length (status_line p n m) + 2) + k | Some _ \<Rightarrow> 0, e)"
  using parse_status [OF assms(1), of h blk] assms(2) unfolding ResponseHeader_parse_def
  by (cases e) (simp_all add: nat_add_distrib)

section \<open>Reading segments\<close>

text \<open>The next attempt after the buffered bytes asks for one byte more, and so reads the next segment.\<close>

lemma fill_segment:
  assumes "brSrc r = seg # rest" "seg \<noteq> []" "length (brBuf r) + length seg \<le> brSize r"
  shows "fill r = r\<lparr>brBuf := brBuf r @ seg, brSrc := rest\<rparr>"
  unfolding fill_Suc fill_loop.simps using assms by (simp add: read_into_def Let_def)

lemma Peek_segment:
  assumes "brErr r = None" "brSrc r = seg # rest" "seg \<noteq> []" "length (brBuf r) + length seg \<le> brSize r"
  shows "br_Peek r (Suc (length (brBuf r))) =
           (r\<lparr>brLast := None, brBuf := brBuf r @ seg, brSrc := rest\<rparr>, take (Suc (length (brBuf r))) (brBuf r @ seg), None)"
proof -
  let ?r = "r\<lparr>brLast := None\<rparr>" and ?n = "Suc (length (brBuf r))"
  have l: "0 < length seg" "length (brBuf r) < brSize r" using assms(3,4) by (cases seg; simp)+
  have f: "fill ?r = r\<lparr>brLast := None, brBuf := brBuf r @ seg, brSrc := rest\<rparr>" (is "_ = ?f")
    using fill_segment [of ?r seg rest] assms by simp
  have stop: "peek_fill ?f ?n = ?f"
    using l by (subst peek_fill.simps) simp
  have "peek_fill ?r ?n = ?f"
    using assms(1) l(2) by (subst peek_fill.simps) (simp add: f stop)
  then show ?thesis
    using l by (simp add: br_Peek_def Let_def)
qed

lemma read_segment:
  assumes r: "br_ok r" "brErr r = None" "brSrc r = seg # rest" "seg \<noteq> []" "length (brBuf r) + length seg \<le> brSize r"
    and p: "ResponseHeader_parse h (brBuf r @ seg) = (h', b', n, e)"
  shows "e = Some errNeedMore \<Longrightarrow>
           ResponseHeader_read_loop h r (Suc (length (brBuf r))) =
             ResponseHeader_read_loop h' (r\<lparr>brSrc := rest, brLast := None, brBuf := b'\<rparr>) (Suc (length b'))"
    and "e = None \<Longrightarrow>
           \<exists>r'. ResponseHeader_read_loop h r (Suc (length (brBuf r))) = Some (h', r', None) \<and> brBuf r' = drop (nat n) b' \<and> brSrc r' = rest \<and>
             br_ok r' \<and> brErr r' = None \<and> brSize r' = brSize r \<and> brEnd r' = brEnd r"
proof -
  note t = rs_reader.try_buffered [OF Peek_segment [OF r(2-5)] r(1) zero_less_Suc]
  show "ResponseHeader_read_loop h r (Suc (length (brBuf r))) =
             ResponseHeader_read_loop h' (r\<lparr>brSrc := rest, brLast := None, brBuf := b'\<rparr>) (Suc (length b'))"
    if "e = Some errNeedMore"
    using p that by (subst ResponseHeader_read_loop.simps) (simp add: t br_Buffered_def)
  show "\<exists>r'. ResponseHeader_read_loop h r (Suc (length (brBuf r))) = Some (h', r', None) \<and> brBuf r' = drop (nat n) b' \<and> brSrc r' = rest \<and>
             br_ok r' \<and> brErr r' = None \<and> brSize r' = brSize r \<and> brEnd r' = brEnd r"
    if "e = None"
  proof -
    let ?r = "r\<lparr>brSrc := rest, brLast := None, brBuf := b'\<rparr>"
    have "0 \<le> n" "nat n \<le> length (brBuf ?r)" using response_parse_facts [OF p] that by simp_all
    from mustDiscard_ok [OF this] obtain r2 where d: "mustDiscard ?r n = Some r2" "brBuf r2 = drop (nat n) b'" "brSrc r2 = rest"
      "brSize r2 = brSize r" "brEnd r2 = brEnd r" "brErr r2 = brErr r" by auto
    moreover have "br_ok r2" using d r(5) response_parse_facts [OF p] by (simp add: br_ok_def)
    ultimately show ?thesis
      using p that r(2) by (subst ResponseHeader_read_loop.simps) (simp add: t)
  qed
qed

section \<open>One segment, two segments\<close>

lemma finish_fields: "rsH (ResponseHeader_finish h) = rsH h" "rsNoDefaultDate (ResponseHeader_finish h) = rsNoDefaultDate h"
  "rsContentLength (ResponseHeader_finish h) = rsContentLength h"
  by (simp_all add: ResponseHeader_finish_def Let_def)

text \<open>The whole header in the buffer: its fields are added to those the header holds, and the parser stops at the body.\<close>

lemma parse_whole:
  assumes st: "status_ok p n m" and ps: "list_all plain_field ps" and g: "\<not> rsDisableNormalizing g"
    and w: "w = status_line p n m @ [rChar, nChar] @ print_lines ps @ [rChar, nChar] @ body"
  shows "\<exists>g' b L. ResponseHeader_parse g w = (g', b, int L, None) \<and> drop L b = body \<and>
           kv_pairs (live (rsH g')) = kv_pairs (live (rsH g)) @ ps \<and>
           rsNoDefaultDate g' = rsNoDefaultDate g \<and> rsContentLength g' = (if rsHeadMethod g then 0 else -2)"
proof -
  let ?g = "with_status g p n m"
  have g': "\<not> rsDisableNormalizing (rs_start ?g)" "rsH (rs_start ?g) = rsH g" "rsDisableNormalizing ?g = False"
    using g by (simp_all add: rs_start_def with_status_def)
  from apply_plain_fields [OF ps g'(1), of False] obtain s where
    s: "apply_lines rs_step (rs_start ?g) False ps = (rs_start ?g\<lparr>rsH := s\<rparr>, None)" "kv_pairs (live s) = kv_pairs (live (rsH g)) @ ps"
    using g'(2) by auto
  let ?L = "length (print_lines ps) + 2"
  from response_parseHeaders_print [OF plain_lines [OF ps] g'(3), unfolded plain_normal [OF ps], OF s(1), of body] obtain b where
    b: "ResponseHeader_parseHeaders ?g (print_lines ps @ [rChar, nChar] @ body) = (ResponseHeader_finish (rs_start ?g\<lparr>rsH := s\<rparr>), b, int ?L, None)"
      "drop ?L b = body" by blast
  have f: "rsNoDefaultDate (rs_start ?g) = rsNoDefaultDate g" "rsContentLength (rs_start ?g) = (if rsHeadMethod g then 0 else -2)"
    by (simp_all add: rs_start_def with_status_def)
  from response_parse_status [OF st b(1)] b(2) s(2) f show ?thesis
    unfolding w
    by (intro exI [of _ "ResponseHeader_finish (rs_start ?g\<lparr>rsH := s\<rparr>)"] exI [of _ "status_line p n m @ [rChar, nChar] @ b"]
        exI [of _ "length (status_line p n m) + 2 + ?L"]) (simp add: finish_fields eval_nat_numeral)
qed

text \<open>The header up to the end of a line: its fields are stored before the parser asks for more.\<close>

lemma parse_cut:
  assumes st: "status_ok p n m" and ps: "list_all plain_field ps" and g: "\<not> rsDisableNormalizing g"
    and w: "w = status_line p n m @ [rChar, nChar] @ print_lines ps"
  shows "\<exists>g'. ResponseHeader_parse g w = (g', w, 0, Some errNeedMore) \<and> \<not> rsDisableNormalizing g' \<and>
           kv_pairs (live (rsH g')) = kv_pairs (live (rsH g)) @ ps"
proof -
  let ?g = "with_status g p n m"
  have g': "\<not> rsDisableNormalizing (rs_start ?g)" "rsH (rs_start ?g) = rsH g" "rsDisableNormalizing ?g = False"
    using g by (simp_all add: rs_start_def with_status_def)
  from apply_plain_fields [OF ps g'(1), of False] obtain s where
    s: "apply_lines rs_step (rs_start ?g) False ps = (rs_start ?g\<lparr>rsH := s\<rparr>, None)" "kv_pairs (live s) = kv_pairs (live (rsH g)) @ ps"
    using g'(2) by auto
  have nk: "\<forall>q \<in> set ps. norm_key False (fst q) = fst q" using ps by (auto simp: list_all_iff plain_field_def norm_key_def)
  from response_parse_status [OF st response_parseHeaders_cut [OF plain_lines [OF ps] nk g'(3) s(1)]] s(2) g'(1) show ?thesis
    unfolding w by simp
qed

text \<open>C26: A response header that arrives in one piece is read as it was sent; the same bytes in two pieces are not.
  When the connection delivers the status line and the lines \<open>ps\<close> first, and the lines \<open>qs\<close>, the empty line and the
  body in a second segment, the parser runs twice and only \<^verbatim>\<open>Read\<close> resets the header, so the fields \<open>ps\<close> are stored
  twice. The body is left in place in both cases.\<close>

theorem response_segments_duplicate:
  fixes body :: bytes
  assumes st: "status_ok p n m" and ps: "list_all plain_field ps" and qs: "list_all plain_field qs" and h: "\<not> rsDisableNormalizing h"
  defines "seg1 \<equiv> status_line p n m @ [rChar, nChar] @ print_lines ps"
    and "seg2 \<equiv> print_lines qs @ [rChar, nChar] @ body"
  assumes N: "length (seg1 @ seg2) \<le> N"
  shows "(\<exists>h' r'. ResponseHeader_Read h (new_reader N [seg1 @ seg2]) = Some (h', r', None) \<and>
            kv_pairs (live (rsH h')) = ps @ qs \<and> pending r' = body) \<and>
         (\<exists>h' r'. ResponseHeader_Read h (new_reader N [seg1, seg2]) = Some (h', r', None) \<and>
            kv_pairs (live (rsH h')) = ps @ ps @ qs \<and> pending r' = body)"
proof
  define h0 where "h0 = ResponseHeader_resetSkipNormalize h"
  have h0: "\<not> rsDisableNormalizing h0" "live (rsH h0) = []" using h by (simp_all add: h0_def ResponseHeader_resetSkipNormalize_def)
  have pq: "list_all plain_field (ps @ qs)" using ps qs by simp
  have w: "seg1 @ seg2 = status_line p n m @ [rChar, nChar] @ print_lines (ps @ qs) @ [rChar, nChar] @ body"
    by (simp add: seg1_def seg2_def)
  have ne: "seg1 \<noteq> []" "seg2 \<noteq> []" "seg1 @ seg2 \<noteq> []" by (simp_all add: seg1_def seg2_def)
  let ?r = "new_reader N [seg1 @ seg2]"
  have r: "br_ok ?r" "brErr ?r = None" "brSrc ?r = [seg1 @ seg2]" "length (brBuf ?r) + length (seg1 @ seg2) \<le> brSize ?r" "brBuf ?r = []"
    using N by (simp_all add: new_reader_def br_ok_def)
  from parse_whole [OF st pq h0(1) w] h0(2) r(5) obtain g b L where
    g: "ResponseHeader_parse h0 (brBuf ?r @ seg1 @ seg2) = (g, b, int L, None)" "drop L b = body" "kv_pairs (live (rsH g)) = ps @ qs" by auto
  from read_segment(2) [OF r(1-3) ne(3) r(4) g(1) refl] g r(5)
  show "\<exists>h' r'. ResponseHeader_Read h (new_reader N [seg1 @ seg2]) = Some (h', r', None) \<and>
            kv_pairs (live (rsH h')) = ps @ qs \<and> pending r' = body"
    by (auto simp: ResponseHeader_Read_def h0_def [symmetric] pending_def)
  let ?r = "new_reader N [seg1, seg2]"
  have r: "br_ok ?r" "brErr ?r = None" "brSrc ?r = [seg1, seg2]" "length (brBuf ?r) + length seg1 \<le> brSize ?r" "brBuf ?r = []"
    using N by (simp_all add: new_reader_def br_ok_def)
  from parse_cut [OF st ps h0(1) seg1_def [THEN meta_eq_to_obj_eq]] h0(2) r(5) obtain g1 where
    g1: "ResponseHeader_parse h0 (brBuf ?r @ seg1) = (g1, seg1, 0, Some errNeedMore)" "\<not> rsDisableNormalizing g1" "kv_pairs (live (rsH g1)) = ps" by auto
  let ?r2 = "?r\<lparr>brSrc := [seg2], brLast := None, brBuf := seg1\<rparr>"
  have r2: "br_ok ?r2" "brErr ?r2 = None" "brSrc ?r2 = [seg2]" "length (brBuf ?r2) + length seg2 \<le> brSize ?r2" "brBuf ?r2 = seg1"
    using N by (simp_all add: new_reader_def br_ok_def)
  from parse_whole [OF st pq g1(2) w] g1(3) r2(5) obtain g b L where
    g: "ResponseHeader_parse g1 (brBuf ?r2 @ seg2) = (g, b, int L, None)" "drop L b = body" "kv_pairs (live (rsH g)) = ps @ ps @ qs" by auto
  from read_segment(1) [OF r(1-3) ne(1) r(4) g1(1) refl] read_segment(2) [OF r2(1-3) ne(2) r2(4) g(1) refl] g r(5) r2(5)
  show "\<exists>h' r'. ResponseHeader_Read h (new_reader N [seg1, seg2]) = Some (h', r', None) \<and>
            kv_pairs (live (rsH h')) = ps @ ps @ qs \<and> pending r' = body"
    by (auto simp: ResponseHeader_Read_def h0_def [symmetric] pending_def)
qed

lemma sample_fields: "list_all plain_field [(bs ''Etag'', bs ''1'')]" "list_all plain_field [(bs ''Via'', bs ''x'')]"
  by (simp_all add: plain_field_def value_ok_def line_value_def validHeaderFieldByte_def validHeaderFieldByteTable_def
      validHeaderValueByte_def validHeaderValueByteTable_def normalizeHeaderKeyV2_def toUpperTable_def toLowerTable_def rs_special_names_def hdr_names)

lemma sample_status: "status_ok (bs ''HTTP/1.1'') 200 (bs ''OK'')"
  "status_line (bs ''HTTP/1.1'') 200 (bs ''OK'') = bs ''HTTP/1.1 200 OK''"
  by (simp_all add: status_ok_def status_line_def dec_digits.simps [of 200] dec_digits.simps [of 20] dec_digits.simps [of 2])

theorem response_segments_duplicate_witness:
  "\<exists>h' r'. ResponseHeader_Read emptyResponseHeader
       (new_reader 64 [bs ''HTTP/1.1 200 OK'' @ [rChar, nChar] @ bs ''Etag: 1'' @ [rChar, nChar],
                       bs ''Via: x'' @ [rChar, nChar, rChar, nChar] @ bs ''body'']) = Some (h', r', None) \<and>
     kv_pairs (live (rsH h')) = [(bs ''Etag'', bs ''1''), (bs ''Etag'', bs ''1''), (bs ''Via'', bs ''x'')] \<and> pending r' = bs ''body''"
  using response_segments_duplicate [OF sample_status(1) sample_fields, of emptyResponseHeader "bs ''body''" 64]
  by (simp add: sample_status(2) [simplified] emptyResponseHeader_def)

section \<open>A folded value\<close>

lemma scan_all_fold:
  fixes body :: bytes
  assumes k: "line_key k" "norm_key d k = k" and v: "fold_parts v1 v2" and b: "2 \<le> length body"
  defines "blk \<equiv> k @ bs '': '' @ v1 @ [rChar, nChar, spChar] @ v2 @ [rChar, nChar, rChar, nChar]"
  shows "\<exists>e. scan_all (new_scanner (blk @ body) d) = ([(k, v1 @ spChar # v2)], e) \<and> hsErr e = None \<and> hsB e = body \<and>
           length (hsDone e) + 2 = length blk \<and> hsTail e = drop (length body - 2) body"
proof -
  let ?s = "new_scanner (blk @ body) d"
  have s: "at_line ?s" "hsB ?s = k @ bs '': '' @ v1 @ [rChar, nChar, spChar] @ v2 @ rChar # nChar # rChar # nChar # body"
    by (simp_all add: new_scanner_def at_line_def blk_def)
  have nb: "no_blank (rChar # nChar # body)" by (simp add: no_blank_def)
  from scan_next_fold [OF k(1) v nb s] k(2) obtain t where t: "scan_next ?s = (t, True)" "at_line t" "hsB t = rChar # nChar # body" "hsKey t = k"
    "hsValue t = v1 @ spChar # v2" "hsTail t = drop (length (rChar # nChar # body)) (rChar # nChar # rChar # nChar # body)"
    "hsDone t = k @ bs '': '' @ v1 @ [spChar] @ v2 @ [rChar, nChar]"
    by (auto simp: new_scanner_def)
  have tail: "drop (length (rChar # nChar # body)) (rChar # nChar # rChar # nChar # body) = drop (length body - 2) body"
    using b by (cases body; cases "tl body") auto
  have "scan_all t = ([], t\<lparr>hsDone := hsDone t @ [rChar, nChar], hsB := body, hsHLen := hsHLen t + 2\<rparr>)"
    by (subst scan_all.simps) (simp add: scan_next_end [OF t(3)])
  with t tail show ?thesis by (subst scan_all.simps) (auto simp: at_line_def blk_def)
qed

text \<open>C27: A response header with a value folded over two lines shifts the body. The value is joined correctly, but the
  joined block is two bytes shorter than what was sent while \<^verbatim>\<open>parseHeaders\<close> counts the bytes as sent; so two bytes
  too many are discarded, and what follows the header in the buffer is the body without its first two bytes, with its
  last two bytes repeated.\<close>

theorem response_fold_shifts_body:
  fixes body :: bytes
  assumes st: "status_ok p n m" and k: "plain_field (k, [])" and v: "fold_parts v1 v2" "list_all validHeaderValueByte (v1 @ v2)"
    and h: "\<not> rsDisableNormalizing h" and body: "2 \<le> length body"
  defines "w \<equiv> status_line p n m @ [rChar, nChar] @ k @ bs '': '' @ v1 @ [rChar, nChar, spChar] @ v2 @ [rChar, nChar, rChar, nChar] @ body"
  assumes N: "length w \<le> N"
  shows "\<exists>h' r'. ResponseHeader_Read h (new_reader N [w]) = Some (h', r', None) \<and>
           kv_pairs (live (rsH h')) = [(k, v1 @ [spChar] @ v2)] \<and> pending r' = drop 2 body @ drop (length body - 2) body"
proof -
  define h0 where "h0 = ResponseHeader_resetSkipNormalize h"
  let ?g = "with_status h0 p n m"
  have g: "\<not> rsDisableNormalizing (rs_start ?g)" "live (rsH (rs_start ?g)) = []" "rsDisableNormalizing ?g = False"
    using h by (simp_all add: h0_def ResponseHeader_resetSkipNormalize_def rs_start_def with_status_def)
  have kk: "line_key k" "norm_key False k = k" using k by (simp_all add: plain_field_def field_line_key norm_key_def)
  have "validHeaderValueByte spChar" by (simp add: validHeaderValueByte_def validHeaderValueByteTable_def)
  with k v(2) g(1) have "rs_step (rs_start ?g) False k (v1 @ spChar # v2) = (rs_start ?g\<lparr>rsH := appendArg (rsH (rs_start ?g)) k (v1 @ spChar # v2) False\<rparr>, None)"
    by (intro rs_step_plain) (simp_all add: plain_field_def)
  then have st1: "apply_lines rs_step (rs_start ?g) False [(k, v1 @ spChar # v2)] =
      (rs_start ?g\<lparr>rsH := appendArg (rsH (rs_start ?g)) k (v1 @ spChar # v2) False\<rparr>, None)" (is "_ = (?h1, None)") by simp
  define blk where "blk = k @ bs '': '' @ v1 @ [rChar, nChar, spChar] @ v2 @ [rChar, nChar, rChar, nChar]"
  from scan_all_fold [OF kk v(1) body] obtain e where e: "scan_all (new_scanner (blk @ body) False) = ([(k, v1 @ spChar # v2)], e)"
    "hsErr e = None" "hsB e = body" "length (hsDone e) + 2 = length blk" "hsTail e = drop (length body - 2) body"
    by (auto simp: blk_def)
  have ph: "ResponseHeader_parseHeaders ?g (blk @ body) = (ResponseHeader_finish ?h1, scanned_buf e, int (length blk), None)"
    using response_parseHeaders_scan [OF e(1) g(3) st1] e by simp
  let ?L = "length (status_line p n m) + 2 + length blk" and ?r = "new_reader N [w]"
  have w: "w = status_line p n m @ [rChar, nChar] @ blk @ body" by (simp add: w_def blk_def)
  have r: "br_ok ?r" "brErr ?r = None" "brSrc ?r = [w]" "w \<noteq> []" "length (brBuf ?r) + length w \<le> brSize ?r" "brBuf ?r = []"
    using N by (simp_all add: new_reader_def br_ok_def w)
  have pw: "ResponseHeader_parse h0 (brBuf ?r @ w) = (ResponseHeader_finish ?h1, status_line p n m @ [rChar, nChar] @ scanned_buf e, int ?L, None)"
    using response_parse_status [OF st ph] r(6) by (simp add: w)
  have "drop ?L (status_line p n m @ [rChar, nChar] @ scanned_buf e) = drop (length blk) (scanned_buf e)" by simp
  also have "\<dots> = drop 2 body @ drop (length body - 2) body"
    using body by (simp add: e(3,5) scanned_buf_def flip: e(4))
  finally have d: "drop ?L (status_line p n m @ [rChar, nChar] @ scanned_buf e) = drop 2 body @ drop (length body - 2) body" .
  from read_segment(2) [OF r(1-5) pw refl, unfolded nat_int d r(6)] obtain r' where
    "ResponseHeader_read_loop h0 ?r (Suc 0) = Some (ResponseHeader_finish ?h1, r', None)"
    "brBuf r' = drop 2 body @ drop (length body - 2) body" "brSrc r' = []" by auto
  with g(2) show ?thesis
    by (auto simp: ResponseHeader_Read_def h0_def [symmetric] pending_def finish_fields mkKV_def)
qed

theorem response_fold_shifts_body_witness:
  "\<exists>h' r'. ResponseHeader_Read emptyResponseHeader
       (new_reader 64 [bs ''HTTP/1.1 200 OK'' @ [rChar, nChar] @ bs ''Via: a'' @ [rChar, nChar] @ bs '' b'' @ [rChar, nChar, rChar, nChar] @ bs ''body'']) =
       Some (h', r', None) \<and>
     kv_pairs (live (rsH h')) = [(bs ''Via'', bs ''a b'')] \<and> pending r' = bs ''dydy''"
proof -
  have "plain_field (bs ''Via'', [])" using sample_fields(2) by (simp add: plain_field_def value_ok_def line_value_def)
  moreover have "fold_parts (bs ''a'') (bs ''b'')" by (simp add: fold_parts_def)
  moreover have "list_all validHeaderValueByte (bs ''a'' @ bs ''b'')" by (simp add: validHeaderValueByte_def validHeaderValueByteTable_def)
  ultimately show ?thesis
    using response_fold_shifts_body [OF sample_status(1), of "bs ''Via''" "bs ''a''" "bs ''b''" emptyResponseHeader "bs ''body''" 64]
    by (simp add: sample_status(2) [simplified] emptyResponseHeader_def)
qed

end
