(* ===== verification/ResponsePrint.thy ===== *)
theory ResponsePrint
  imports ResponseSegments
begin

text \<open>
  What \<^verbatim>\<open>ResponseHeader.AppendBytes\<close> prints: its lines, how they frame the body for every header that the
  operations can build, and that a printed header is read back.
\<close>

section \<open>The printed lines\<close>

definition sends_body :: "ResponseHeader \<Rightarrow> bool" where
  "sends_body h \<longleftrightarrow> \<not> bodyNotAllowedForStatus (rsStatusCode h)"

definition body_lines :: "ResponseHeader \<Rightarrow> (bytes \<times> bytes) list" where
  "body_lines h =
     (if \<not> sends_body h then []
      else (let ct = ResponseHeader_ContentType h; cL = rsContentLength h
            in (if ct \<noteq> [] \<and> (rsContentType h \<noteq> [] \<or> cL \<noteq> 0) then [(strContentType, ct)] else []) @
               opt_line strContentEncoding (rsContentEncoding h) @
               (if cL > 0 then [(strContentLength, dec_digits (nat cL))]
                else if rsHeadMethod h then []
                else if cL = 0 then [(strContentLength, [0x30])]
                else if cL = -1 then [(strTransferEncoding, strChunked)] else [])))"

definition announced :: "ResponseHeader \<Rightarrow> argsKV list" where
  "announced h = (if sends_body h \<and> rsContentLength h = -1 \<and> \<not> rsHeadMethod h then live (rsTrailer h) else [])"

definition closes :: "ResponseHeader \<Rightarrow> bool" where
  "closes h \<longleftrightarrow> rsConnectionClose h \<or> sends_body h \<and> rsContentLength h < -1 \<and> \<not> rsHeadMethod h"

definition field_lines :: "ResponseHeader \<Rightarrow> (bytes \<times> bytes) list" where
  "field_lines h =
     filter (\<lambda>p. fst p \<noteq> strTransferEncoding \<and> fst p \<notin> kvKey ` set (announced h)) (kv_pairs (live (rsH h))) @
     (if announced h = [] then [] else [(strTrailer, appendArgsKeyBytes [] (announced h) (bs '', ''))])"

definition response_lines :: "bytes \<Rightarrow> ResponseHeader \<Rightarrow> (bytes \<times> bytes) list" where
  "response_lines date h =
     opt_line strServer (rsServer h) @ (if rsNoDefaultDate h then [] else [(strDate, date)]) @ body_lines h @ field_lines h @
     map (\<lambda>kv. (strSetCookie, kvValue kv)) (live (rsCookies h)) @ (if closes h then [(strConnection, strClose)] else [])"

lemma append_lines_eq: "append_lines dst l = dst @ print_lines (kv_pairs l)"
  by (induction l arbitrary: dst) (simp_all add: appendHeaderLine_eq)

lemma append_untrailed_filter:
  "append_untrailed dst l t = dst @ print_lines (filter (\<lambda>p. fst p \<notin> kvKey ` set t) (kv_pairs l))"
proof -
  have x: "list_ex (\<lambda>y. k = kvKey y) t \<longleftrightarrow> k \<in> kvKey ` set t" for k by (auto simp: list_ex_iff)
  show ?thesis by (induction l arbitrary: dst) (simp_all add: appendHeaderLine_eq x)
qed

lemma append_set_cookies_eq: "append_set_cookies dst l = dst @ print_lines (map (\<lambda>kv. (strSetCookie, kvValue kv)) l)"
  by (induction l arbitrary: dst) (simp_all add: appendHeaderLine_eq)

lemma kv_pairs_filter: "kv_pairs (filter (\<lambda>kv. P (kvKey kv)) l) = filter (\<lambda>p. P (fst p)) (kv_pairs l)"
  by (induction l) auto

lemma append_body_headers_eq:
  assumes "is_int64 (rsContentLength h)" "sends_body h"
  shows "\<exists>cb. append_body_headers h dst False =
           Some (h\<lparr>rsContentLengthBytes := cb, rsConnectionClose := closes h\<rparr>, dst @ print_lines (body_lines h), announced h)"
proof -
  have a: "rsContentLength h > 0 \<Longrightarrow> AppendUint [] (rsContentLength h) = Some (dec_digits (nat (rsContentLength h)))"
    using assms(1) by (subst AppendUint_eq) (simp_all add: is_int64_def)
  have c: "h\<lparr>rsContentLengthBytes := b, rsConnectionClose := rsConnectionClose h\<rparr> = h\<lparr>rsContentLengthBytes := b\<rparr>" for b by simp
  have e: "h\<lparr>rsContentLengthBytes := rsContentLengthBytes h, rsConnectionClose := x\<rparr> = h\<lparr>rsConnectionClose := x\<rparr>" for x by simp
  consider "rsContentLength h > 0" | "rsContentLength h \<le> 0" "rsHeadMethod h" | "rsContentLength h = 0" "\<not> rsHeadMethod h"
    | "rsContentLength h = -1" "\<not> rsHeadMethod h" | "rsContentLength h < -1" "\<not> rsHeadMethod h" by linarith
  then show ?thesis
  proof cases
    case 1
    then have "closes h = rsConnectionClose h" "announced h = []" by (simp_all add: closes_def announced_def)
    with 1 a c assms(2) show ?thesis
      by (intro exI [of _ "dec_digits (nat (rsContentLength h))"])
        (simp add: append_body_headers_def body_lines_def Let_def appendHeaderLine_eq opt_line_def)
  qed (intro exI [of _ "rsContentLengthBytes h"],
       use assms(2) in \<open>simp add: append_body_headers_def body_lines_def closes_def announced_def Let_def appendHeaderLine_eq opt_line_def
          ResponseHeader_SetConnectionClose_def\<close>)+
qed

lemma AppendBytes_lines:
  assumes "is_int64 (rsContentLength h)"
  shows "\<exists>h'. ResponseHeader_AppendBytes date h dst False =
           Some (h', appendStatusLine h [] @ print_lines (response_lines date h) @ [rChar, nChar]) \<and>
           rsH h' = delAllArgs (rsH h) strTransferEncoding"
proof -
  define h1 where "h1 = ResponseHeader_DelNoSpecialCanonical h strTransferEncoding"
  have h1: "rsServer h1 = rsServer h" "rsNoDefaultDate h1 = rsNoDefaultDate h" "rsCookies h1 = rsCookies h" "rsConnectionClose h1 = rsConnectionClose h"
    "sends_body h1 = sends_body h" "body_lines h1 = body_lines h" "announced h1 = announced h" "closes h1 = closes h" "rsContentLength h1 = rsContentLength h"
    "live (rsH h1) = filter (\<lambda>kv. kvKey kv \<noteq> strTransferEncoding) (live (rsH h))" "rsH h1 = delAllArgs (rsH h) strTransferEncoding"
    by (simp_all add: h1_def ResponseHeader_DelNoSpecialCanonical_def sends_body_def body_lines_def announced_def closes_def ResponseHeader_ContentType_def
        Let_def)
  define d1 where "d1 = appendStatusLine h [] @ print_lines (opt_line strServer (rsServer h) @ (if rsNoDefaultDate h then [] else [(strDate, date)]))"
  have d1: "(if \<not> rsNoDefaultDate h1
      then appendHeaderLine (if rsServer h1 \<noteq> [] then appendHeaderLine (appendStatusLine h []) strServer (rsServer h1) else appendStatusLine h []) strDate date
      else if rsServer h1 \<noteq> [] then appendHeaderLine (appendStatusLine h []) strServer (rsServer h1) else appendStatusLine h []) = d1"
    by (simp add: d1_def h1 opt_line_def appendHeaderLine_eq)
  have st: "\<not> bodyNotAllowedForStatus (rsStatusCode h) \<longleftrightarrow> sends_body h1" unfolding h1(5) by (simp add: sends_body_def)
  have i: "is_int64 (rsContentLength h1)" using assms h1 by simp
  obtain h2 where b: "(if sends_body h1 then append_body_headers h1 d1 False else Some (h1, d1, [])) =
      Some (h2, d1 @ print_lines (body_lines h1), announced h1)"
    and h2: "rsH h2 = rsH h1" "rsCookies h2 = rsCookies h1" "rsConnectionClose h2 = closes h1"
  proof (cases "sends_body h1")
    case True
    from append_body_headers_eq [OF i True, of d1] True show ?thesis by (auto intro: that)
  next
    case False
    then show ?thesis by (intro that [of h1]) (simp_all add: body_lines_def announced_def closes_def)
  qed
  have f: "(if announced h = [] then append_lines x (live (rsH h1))
       else appendHeaderLine (append_untrailed x (live (rsH h1)) (announced h)) strTrailer (appendArgsKeyBytes [] (announced h) (bs '', ''))) =
      x @ print_lines (field_lines h)" for x
    by (simp add: append_lines_eq append_untrailed_filter appendHeaderLine_eq field_lines_def h1(10)
        kv_pairs_filter [of "\<lambda>k. k \<noteq> strTransferEncoding"] conj_commute)
  show ?thesis
    unfolding ResponseHeader_AppendBytes_def Let_def h1_def [symmetric] d1 st b option.case prod.case h1(7) h2(1) f
    by (simp add: h2 append_set_cookies_eq h1 appendHeaderLine_eq d1_def response_lines_def)
qed

section \<open>Reachable headers\<close>

text \<open>Neither Content-Length nor Transfer-Encoding is stored among the other fields.\<close>

definition framing_free :: "kvslice \<Rightarrow> bool" where
  "framing_free s \<longleftrightarrow> (\<forall>kv \<in> set (live s). kvKey kv \<noteq> strContentLength \<and> kvKey kv \<noteq> strTransferEncoding)"

lemma framing_free_simps [simp]:
  "framing_free emptyArgs" "framing_free (resetArgs s)"
  by (simp_all add: framing_free_def)

lemma framing_free_append:
  "framing_free s \<Longrightarrow> k \<noteq> strContentLength \<Longrightarrow> k \<noteq> strTransferEncoding \<Longrightarrow> framing_free (appendArg s k v nv)"
  by (auto simp: framing_free_def)

lemma framing_free_del: "framing_free s \<Longrightarrow> framing_free (delAllArgs s k)"
  by (auto simp: framing_free_def)

lemma set_kv_keys: "kvKey ` set (set_kv l k v nv) \<subseteq> insert k (kvKey ` set l)"
  by (induction l) (auto split: if_splits)

lemma framing_free_set:
  assumes "framing_free s" "k \<noteq> strContentLength" "k \<noteq> strTransferEncoding"
  shows "framing_free (setArg s k v nv)"
  using assms set_kv_keys [of "live s" k v nv] by (fastforce simp: framing_free_def)

lemma map2_copyKV_keys: "length ds = length ss \<Longrightarrow> map kvKey (map2 copyKV ds ss) = map kvKey ss"
  by (induction ds ss rule: list_induct2) (simp_all add: copyKV_def)

lemma copyArgs_keys: "map kvKey (live (copyArgs d s)) = map kvKey (live s)"
  unfolding copyArgs_def Let_def by (simp add: map2_copyKV_keys del: map_map map_eq_conv)

lemma framing_free_copy: "framing_free s \<Longrightarrow> framing_free (copyArgs d s)"
  using arg_cong [OF copyArgs_keys, of set d s] unfolding framing_free_def by (auto simp: image_iff) (metis imageI image_iff)+

lemmas framing_free_intros = framing_free_append framing_free_del framing_free_set framing_free_copy

context header_reader
begin

text \<open>What every parse keeps, the loop keeps.\<close>

lemma try_keeps:
  assumes "\<And>h b h' b' l e. P h \<Longrightarrow> parse h b = (h', b', l, e) \<Longrightarrow> P h'" "tryRead h r n = Some (h', r', e)" "P h"
  shows "P h'"
  using assms(2,3) unfolding try_eq
  by (auto split: prod.splits if_splits option.splits dest: assms(1))

lemma loop_keeps:
  assumes P: "\<And>h b h' b' l e. P h \<Longrightarrow> parse h b = (h', b', l, e) \<Longrightarrow> P h'"
  shows "read_inv pinv h r \<Longrightarrow> 0 < n \<Longrightarrow> P h \<Longrightarrow> loop h r n = Some (h', r', e) \<Longrightarrow> P h'"
proof (induction "Suc (brSize r) - n" arbitrary: h r n rule: less_induct)
  case less
  obtain h1 r1 e1 where t: "tryRead h r n = Some (h1, r1, e1)" using try_total [OF less.prems(1,2)] by auto
  have P1: "P h1" by (rule try_keeps [of P, OF P t less.prems(3)])
  show ?case
  proof (cases "e1 = Some errNeedMore")
    case True
    note m = try_more [OF less.prems(1,2) t [unfolded True]]
    have "loop h1 r1 (br_Buffered r1 + 1) = Some (h', r', e)" using less.prems(4) t True by (subst (asm) loop_eq) simp
    moreover have "Suc (brSize r1) - (br_Buffered r1 + 1) < Suc (brSize r) - n" using m by linarith
    ultimately show ?thesis using less.hyps [of r1 "br_Buffered r1 + 1" h1] m P1 by simp
  next
    case False
    with t less.prems(4) P1 show ?thesis by (subst (asm) loop_eq) (auto split: option.splits if_splits)
  qed
qed

end

text \<open>The operations on a response header, as steps between headers. \<^verbatim>\<open>headMethod\<close> and the option to leave out the
  date are set by the server directly.\<close>

inductive rs_op :: "'t time_ops \<Rightarrow> ResponseHeader \<Rightarrow> ResponseHeader \<Rightarrow> bool" for T where
  Reset: "rs_op T h (ResponseHeader_Reset h)"
| Options: "rs_op T h (h\<lparr>rsHeadMethod := b, rsNoDefaultDate := c, rsSecureErrorLogMessage := d\<rparr>)"
| DisableNormalizing: "rs_op T h (ResponseHeader_DisableNormalizing h)"
| EnableNormalizing: "rs_op T h (ResponseHeader_EnableNormalizing h)"
| SetNoDefaultContentType: "rs_op T h (ResponseHeader_SetNoDefaultContentType h b)"
| SetBytesKV: "rs_op T h (ResponseHeader_SetBytesKV h k v)"
| AddBytesKV: "rs_op T h (ResponseHeader_AddBytesKV h k v)"
| SetCanonical: "rs_op T h (ResponseHeader_SetCanonical h k v)"
| AddCanonical: "rs_op T h (ResponseHeader_AddCanonical h k v)"
| DelBytes: "rs_op T h (ResponseHeader_DelBytes h k)"
| Del: "rs_op T h (ResponseHeader_del h k)"
| SetContentRange: "ResponseHeader_SetContentRange h a z l = Some h' \<Longrightarrow> rs_op T h h'"
| SetLastModified: "ResponseHeader_SetLastModified T h t = Some h' \<Longrightarrow> rs_op T h h'"
| SetStatusCode: "rs_op T h (ResponseHeader_SetStatusCode h n)"
| SetStatusMessage: "rs_op T h (ResponseHeader_SetStatusMessage h v)"
| SetProtocol: "rs_op T h (ResponseHeader_SetProtocol h v)"
| SetConnectionClose: "rs_op T h (ResponseHeader_SetConnectionClose h)"
| ResetConnectionClose: "rs_op T h (ResponseHeader_ResetConnectionClose h)"
| SetContentLength: "is_int64 n \<Longrightarrow> rs_op T h (ResponseHeader_SetContentLength h n)"
| SetContentType: "rs_op T h (ResponseHeader_SetContentTypeBytes h v)"
| SetContentEncoding: "rs_op T h (ResponseHeader_SetContentEncodingBytes h v)"
| SetServer: "rs_op T h (ResponseHeader_SetServerBytes h v)"
| AddTrailer: "rs_op T h (fst (ResponseHeader_AddTrailerBytes h v))"
| SetTrailer: "rs_op T h (fst (ResponseHeader_SetTrailerBytes h v))"
| SetCookieBytes: "rs_op T h (ResponseHeader_SetCookieBytes h v)"
| SetCookie: "ResponseHeader_SetCookie T h c = Some (h', c') \<Longrightarrow> rs_op T h h'"
| DelCookie: "rs_op T h (ResponseHeader_DelCookie h k)"
| DelClientCookie: "ResponseHeader_DelClientCookie T t h k = Some h' \<Longrightarrow> rs_op T h h'"
| DelAllCookies: "rs_op T h (ResponseHeader_DelAllCookies h)"
| AddVary: "ResponseHeader_addVaryBytes h v = Some h' \<Longrightarrow> rs_op T h h'"
| Peek: "ResponseHeader_PeekBytes h k = Some (h', v) \<Longrightarrow> rs_op T h h'"
| PeekAll: "ResponseHeader_PeekAllBytes h k = Some h' \<Longrightarrow> rs_op T h h'"
| PeekKeys: "rs_op T h (ResponseHeader_PeekKeys h)"
| PeekTrailerKeys: "rs_op T h (ResponseHeader_PeekTrailerKeys h)"
| Read: "br_ok r \<Longrightarrow> ResponseHeader_Read h r = Some (h', r', e) \<Longrightarrow> rs_op T h h'"
| ReadTrailer: "br_ok r \<Longrightarrow> ResponseHeader_ReadTrailer h r = Some (h', r', e) \<Longrightarrow> rs_op T h h'"
| Header: "ResponseHeader_Header date h c = Some (h', b) \<Longrightarrow> rs_op T h h'"
| TrailerHeader: "ResponseHeader_TrailerHeader h = Some (h', b) \<Longrightarrow> rs_op T h h'"

inductive rs_reach :: "'t time_ops \<Rightarrow> ResponseHeader \<Rightarrow> bool" for T where
  New: "rs_reach T emptyResponseHeader"
| Op: "rs_reach T h \<Longrightarrow> rs_op T h h' \<Longrightarrow> rs_reach T h'"
| CopyTo: "rs_reach T h \<Longrightarrow> rs_reach T dst \<Longrightarrow> rs_reach T (ResponseHeader_CopyTo h dst)"

inductive_cases rs_opE: "rs_op T h h'"

section \<open>The invariant\<close>

definition rs_wf :: "ResponseHeader \<Rightarrow> bool" where
  "rs_wf h \<longleftrightarrow> framing_free (rsH h) \<and> is_int64 (rsContentLength h)"

lemma is_int64_small: "is_int64 0" "is_int64 (-1)" "is_int64 (-2)"
  by (simp_all add: is_int64_def)

lemma parseUintBuf_loop_int64: "is_int64 v \<Longrightarrow> parseUintBuf_loop b i v = (w, n, e) \<Longrightarrow> is_int64 w"
  by (induction b i v rule: parseUintBuf_loop.induct) (auto simp: Let_def wrap64_range is_int64_small split: if_splits)

lemma parseContentLength_int64: "parseContentLength v = Some n \<Longrightarrow> is_int64 n"
  by (auto simp: parseContentLength_def parseUintBuf_def split: prod.splits option.splits if_splits
      dest: parseUintBuf_loop_int64 [OF is_int64_small(1)])

lemma names_framing: "strConnection \<noteq> strContentLength" "strConnection \<noteq> strTransferEncoding" "strContentRange \<noteq> strContentLength"
  "strContentRange \<noteq> strTransferEncoding" "strLastModified \<noteq> strContentLength" "strLastModified \<noteq> strTransferEncoding"
  by (simp_all add: hdr_names)

lemma rs_trailer_loop_keeps:
  "ResponseHeader_trailer_loop h err t = (h', e) \<Longrightarrow> rsH h' = rsH h \<and> rsContentLength h' = rsContentLength h \<and> rsDisableNormalizing h' = rsDisableNormalizing h"
proof (induction h err t rule: ResponseHeader_trailer_loop.induct)
  case (1 h err t)
  show ?case
    using "1.prems" "1.IH" [OF _ refl refl] by (subst (asm) ResponseHeader_trailer_loop.simps) (auto simp: Let_def split: if_splits prod.splits)
qed

lemma trailer_keeps_wf: "rs_wf h \<Longrightarrow> rs_wf (fst (ResponseHeader_AddTrailerBytes h v))" "rs_wf h \<Longrightarrow> rs_wf (fst (ResponseHeader_SetTrailerBytes h v))"
  using rs_trailer_loop_keeps [of h None v] rs_trailer_loop_keeps [of "h\<lparr>rsTrailer := resetArgs (rsTrailer h)\<rparr>" None v]
  by (auto simp: rs_wf_def ResponseHeader_AddTrailerBytes_def ResponseHeader_SetTrailerBytes_def prod_eq_iff)

lemma line_keeps_wf:
  assumes h: "rs_wf h" and l: "ResponseHeader_line h k v = (h', e)"
  shows "rs_wf h'"
proof -
  have k: "k = strContentLength \<Longrightarrow> headNameCompare k strContentLength d" "k = strTransferEncoding \<Longrightarrow> headNameCompare k strTransferEncoding d" for d
    by (simp_all add: headNameCompare_def caseInsensitiveCompare_def list_all2_refl)
  have a: "framing_free (appendArg (rsH h) k v False)" if "\<not> headNameCompare k strContentLength d" "\<not> headNameCompare k strTransferEncoding d" for d
    using h that k [of d] by (intro framing_free_append) (auto simp: rs_wf_def)
  have c: "\<not> headNameCompare k strTransferEncoding d" if "headNameCompare k strConnection d" for d
    using that first_bytes(5,6) [of k d] by fastforce
  show ?thesis
    using l h a c trailer_keeps_wf(2) [OF h, of v] unfolding ResponseHeader_line_flat Let_def
    by (auto simp: rs_wf_def ResponseHeader_SetCookieBytes_def Let_def is_int64_small split: if_splits option.splits prod.splits
        dest: parseContentLength_int64)
qed

lemma rs_step_keeps_wf: "rs_wf h \<Longrightarrow> rs_step h d k v = (h', e) \<Longrightarrow> rs_wf h'"
  by (auto simp: rs_step_def split: option.splits dest: line_keeps_wf)

lemma parseHeaders_keeps_wf:
  assumes h: "rs_wf h" and p: "ResponseHeader_parseHeaders h b = (h', b', l, e)"
  shows "rs_wf h'"
proof -
  have s: "rs_wf (rs_start h)" using h by (simp add: rs_wf_def rs_start_def is_int64_small)
  let ?s = "new_scanner b (rsDisableNormalizing (rs_start h))"
  obtain h2 s2 e2 where q: "ResponseHeader_parseHeaders_loop (rs_start h) ?s = (h2, s2, e2)"
    by (cases "ResponseHeader_parseHeaders_loop (rs_start h) ?s")
  have "rs_wf h2" by (rule rs_headers.loop_invariant [of rs_wf, OF _ q s]) (rule rs_step_keeps_wf)
  then have "rs_wf (ResponseHeader_finish h2)" "rs_wf h2" by (auto simp: ResponseHeader_finish_def rs_wf_def Let_def)
  with p show ?thesis
    unfolding ResponseHeader_parseHeaders_def Let_def rs_start_if q by (auto split: option.splits)
qed

lemma parse_keeps_wf:
  assumes h: "rs_wf h" and p: "ResponseHeader_parse h b = (h', b', l, e)"
  shows "rs_wf h'"
proof -
  obtain h1 m e1 where f: "ResponseHeader_parseFirstLine h b = (h1, m, e1)" by (cases "ResponseHeader_parseFirstLine h b")
  have h1: "rs_wf h1"
    using f h unfolding ResponseHeader_parseFirstLine_def
    by (auto simp: Let_def rs_wf_def ResponseHeader_SetStatusMessage_def split: option.splits prod.splits if_splits)
  with p parseHeaders_keeps_wf [OF h1, of "drop (nat m) b"] show ?thesis
    unfolding ResponseHeader_parse_def f by (auto split: option.splits prod.splits)
qed

lemma bad_trailers: "isBadTrailer strContentLength False" "isBadTrailer strTransferEncoding False"
  by (simp_all add: isBadTrailer_def headNameCompare_def hdr_names Let_def)

lemma parseTrailer_keeps_wf:
  assumes h: "rs_wf h" and p: "ResponseHeader_parseTrailer h b = (h', b', l, e)"
  shows "rs_wf h'"
proof -
  define skip :: nat where "skip = (if take 1 b = [0x30] then 3 else 0)"
  obtain h1 e0 s1 e1 where q: "ResponseHeader_parseTrailer_loop (h, None) (new_scanner (drop skip b) (rsDisableNormalizing h)) = ((h1, e0), s1, e1)"
    by (cases "ResponseHeader_parseTrailer_loop (h, None) (new_scanner (drop skip b) (rsDisableNormalizing h))") auto
  have "rs_wf (fst (h1, e0))"
    by (rule rs_trailers.loop_invariant [of "\<lambda>st. rs_wf (fst st)", OF _ q])
      (use h bad_trailers in \<open>auto simp: rs_trailer_step_def rs_wf_def split: if_splits intro!: framing_free_append\<close>)
  with h p show ?thesis
    unfolding ResponseHeader_parseTrailer_def Let_def skip_def [symmetric] q by (auto split: option.splits if_splits)
qed

lemma Read_keeps_wf:
  assumes r: "br_ok r" and h: "rs_wf h"
  shows "ResponseHeader_Read h r = Some (h', r', e) \<Longrightarrow> rs_wf h'" "ResponseHeader_ReadTrailer h r = Some (h', r', e) \<Longrightarrow> rs_wf h'"
proof -
  show "rs_wf h'" if "ResponseHeader_Read h r = Some (h', r', e)"
    by (rule rs_reader.loop_keeps [of rs_wf, OF parse_keeps_wf _ zero_less_one _ that [unfolded ResponseHeader_Read_def]])
      (use r in \<open>auto simp: read_inv_def rs_wf_def ResponseHeader_resetSkipNormalize_def is_int64_small\<close>)
  obtain r1 b e1 where p: "br_Peek r 2 = (r1, b, e1)" by (cases "br_Peek r 2")
  have i: "read_inv (\<lambda>_ _. True) h r1" using Peek_facts(2) [OF p] r by (simp add: read_inv_def)
  show "rs_wf h'" if "ResponseHeader_ReadTrailer h r = Some (h', r', e)"
  proof -
    have "h' = h \<or> ResponseHeader_trailer_read_loop h r1 1 = Some (h', r', e)"
      using that unfolding ResponseHeader_ReadTrailer_def p prod.case by (auto split: if_splits)
    then show ?thesis
    proof
      assume l: "ResponseHeader_trailer_read_loop h r1 1 = Some (h', r', e)"
      show ?thesis by (rule rs_trailer_reader.loop_keeps [of rs_wf, OF _ i zero_less_one h l]) (rule parseTrailer_keeps_wf)
    qed (use h in simp)
  qed
qed

section \<open>Every operation keeps the invariant\<close>

text \<open>The special headers of a setter without the switch on the first byte.\<close>

lemma first_of_names:
  "strContentType ! 0 OR 0x20 = 0x63" "strContentLength ! 0 OR 0x20 = 0x63" "strContentEncoding ! 0 OR 0x20 = 0x63" "strConnection ! 0 OR 0x20 = 0x63"
  "strServer ! 0 OR 0x20 = 0x73" "strSetCookie ! 0 OR 0x20 = 0x73" "strTransferEncoding ! 0 OR 0x20 = 0x74" "strTrailer ! 0 OR 0x20 = 0x74"
  "strDate ! 0 OR 0x20 = 0x64"
  by (simp_all add: hdr_names)

lemma setSpecialHeader_flat:
  "ResponseHeader_setSpecialHeader h k v b =
     (if k = strContentType then (ResponseHeader_SetContentTypeBytes h v, True)
      else if k = strContentLength
      then (case parseContentLength v of
              Some n \<Rightarrow> (h\<lparr>rsContentLength := n, rsContentLengthBytes := v\<rparr>, True) | None \<Rightarrow> (h, True))
      else if k = strContentEncoding then (ResponseHeader_SetContentEncodingBytes h v, True)
      else if k = strConnection
      then (if strClose = v then (ResponseHeader_SetConnectionClose h, True)
            else (ResponseHeader_setNonSpecial (ResponseHeader_ResetConnectionClose h) k v, True))
      else if k = strServer then (ResponseHeader_SetServerBytes h v, True)
      else if k = strSetCookie then (ResponseHeader_SetCookieBytes (if b then ResponseHeader_DelAllCookies h else h) v, True)
      else if k = strTransferEncoding then (h, True)
      else if k = strTrailer then (fst (ResponseHeader_SetTrailerBytes h v), True)
      else if k = strDate then (h, True)
      else (h, False))"
proof -
  have ne: "k \<in> {strContentType, strContentLength, strContentEncoding, strConnection, strServer, strSetCookie, strTransferEncoding, strTrailer, strDate} \<Longrightarrow>
      length k \<noteq> 0" by (auto simp: hdr_names)
  have sym: "strContentType = k \<longleftrightarrow> k = strContentType" "strContentLength = k \<longleftrightarrow> k = strContentLength" "strContentEncoding = k \<longleftrightarrow> k = strContentEncoding"
    "strConnection = k \<longleftrightarrow> k = strConnection" "strServer = k \<longleftrightarrow> k = strServer" "strSetCookie = k \<longleftrightarrow> k = strSetCookie"
    "strTransferEncoding = k \<longleftrightarrow> k = strTransferEncoding" "strTrailer = k \<longleftrightarrow> k = strTrailer" "strDate = k \<longleftrightarrow> k = strDate" by auto
  let ?S = "{strContentType, strContentLength, strContentEncoding, strConnection, strServer, strSetCookie, strTransferEncoding, strTrailer, strDate}"
  note u = ResponseHeader_setSpecialHeader_def Let_def sym
  show ?thesis
  proof (cases "k \<in> ?S")
    case True
    note n = if_not_P [OF ne [OF True]]
    from True consider "k = strContentType" | "k = strContentLength" | "k = strContentEncoding" | "k = strConnection" | "k = strServer"
      | "k = strSetCookie" | "k = strTransferEncoding" | "k = strTrailer" | "k = strDate" by blast
    then show ?thesis
      by cases (simp_all only: u n, simp_all add: first_of_names hdr_names cong: if_cong)
  next
    case False
    then have "k \<noteq> strContentType" "k \<noteq> strContentLength" "k \<noteq> strContentEncoding" "k \<noteq> strConnection" "k \<noteq> strServer"
      "k \<noteq> strSetCookie" "k \<noteq> strTransferEncoding" "k \<noteq> strTrailer" "k \<noteq> strDate" by auto
    then show ?thesis unfolding u by simp
  qed
qed

lemma setSpecial_keeps_wf:
  assumes "rs_wf h" "ResponseHeader_setSpecialHeader h k v b = (h', r)"
  shows "rs_wf h'" "\<not> r \<Longrightarrow> k \<noteq> strContentLength \<and> k \<noteq> strTransferEncoding"
proof -
  have c: "framing_free (setArg s strConnection v False)" if "framing_free s" for s
    using that names_framing by (intro framing_free_set) auto
  have d: "framing_free (delAllArgs (rsH h) strConnection)" "framing_free (rsH h)" "is_int64 (rsContentLength h)"
    using assms(1) framing_free_del by (auto simp: rs_wf_def)
  have w: "rs_wf (ResponseHeader_SetContentTypeBytes h v)" "rs_wf (ResponseHeader_SetContentEncodingBytes h v)" "rs_wf (ResponseHeader_SetConnectionClose h)"
    "rs_wf (ResponseHeader_SetServerBytes h v)" "rs_wf (ResponseHeader_SetCookieBytes (if b then ResponseHeader_DelAllCookies h else h) v)"
    "rs_wf (fst (ResponseHeader_SetTrailerBytes h v))" "rs_wf (ResponseHeader_setNonSpecial (ResponseHeader_ResetConnectionClose h) strConnection v)"
    "parseContentLength v = Some n \<Longrightarrow> rs_wf (h\<lparr>rsContentLength := n, rsContentLengthBytes := v\<rparr>)" for n
    using d c trailer_keeps_wf(2) [OF assms(1), of v]
    by (simp_all add: rs_wf_def ResponseHeader_SetContentTypeBytes_def ResponseHeader_SetContentEncodingBytes_def ResponseHeader_SetConnectionClose_def
        ResponseHeader_SetServerBytes_def ResponseHeader_SetCookieBytes_def ResponseHeader_DelAllCookies_def Let_def
        ResponseHeader_setNonSpecial_def ResponseHeader_ResetConnectionClose_def parseContentLength_int64)
  show "rs_wf h'"
    using assms(2) assms(1) w unfolding setSpecialHeader_flat by (auto split: if_split_asm option.splits)
  show "k \<noteq> strContentLength \<and> k \<noteq> strTransferEncoding" if "\<not> r"
    using assms(2) that unfolding setSpecialHeader_flat by (auto split: if_split_asm option.splits)
qed

lemma canonical_keeps_wf:
  assumes "rs_wf h"
  shows "rs_wf (ResponseHeader_setCanonical h k v)" "rs_wf (ResponseHeader_addCanonical h k v)"
proof -
  obtain h1 r where s: "ResponseHeader_setSpecialHeader h k v True = (h1, r)" by (cases "ResponseHeader_setSpecialHeader h k v True")
  from setSpecial_keeps_wf [OF assms s] show "rs_wf (ResponseHeader_setCanonical h k v)"
    by (cases r) (auto simp: ResponseHeader_setCanonical_def s ResponseHeader_setNonSpecial_def rs_wf_def intro!: framing_free_set)
  obtain h1 r where s: "ResponseHeader_setSpecialHeader h k v False = (h1, r)" by (cases "ResponseHeader_setSpecialHeader h k v False")
  from setSpecial_keeps_wf [OF assms s] show "rs_wf (ResponseHeader_addCanonical h k v)"
    by (cases r) (auto simp: ResponseHeader_addCanonical_def s rs_wf_def intro!: framing_free_append)
qed

lemma rs_wf_scratch [simp]: "rs_wf (h\<lparr>rsBufK := x\<rparr>) = rs_wf h" "rs_wf (h\<lparr>rsBufV := x\<rparr>) = rs_wf h" "rs_wf (h\<lparr>rsMulHeader := y\<rparr>) = rs_wf h"
  "rs_wf (h\<lparr>rsContentLengthBytes := x\<rparr>) = rs_wf h" "rs_wf (h\<lparr>rsCookies := z\<rparr>) = rs_wf h" "rs_wf (h\<lparr>rsTrailer := z\<rparr>) = rs_wf h"
  by (simp_all add: rs_wf_def)

lemma set_keeps_wf:
  assumes "rs_wf h"
  shows "rs_wf (ResponseHeader_SetBytesKV h k v)" "rs_wf (ResponseHeader_AddBytesKV h k v)" "rs_wf (ResponseHeader_SetCanonical h k v)"
    "rs_wf (ResponseHeader_AddCanonical h k v)"
  using assms by (auto simp: ResponseHeader_SetBytesKV_def ResponseHeader_AddBytesKV_def ResponseHeader_SetCanonical_def ResponseHeader_AddCanonical_def
      split: prod.splits intro!: canonical_keeps_wf)

lemma peekSpecial_keeps: "ResponseHeader_peekSpecial h k = Some (h', x) \<Longrightarrow> h' = h \<or> (\<exists>b. h' = h\<lparr>rsContentLengthBytes := b\<rparr>)"
  by (auto simp: ResponseHeader_peekSpecial_def Let_def split: if_splits)

lemma peek_keeps_wf: "rs_wf h \<Longrightarrow> ResponseHeader_peek h k = Some (h', x) \<Longrightarrow> rs_wf h'"
  by (auto simp: ResponseHeader_peek_def dest!: peekSpecial_keeps)

lemma trailer_lines_keep_wf: "rs_wf h \<Longrightarrow> trailer_lines h b ts = Some (h', b') \<Longrightarrow> rs_wf h'"
  by (induction h b ts rule: trailer_lines.induct) (auto split: option.splits dest: peek_keeps_wf)

lemma append_body_headers_keeps: "append_body_headers h dst c = Some (h', dst', t) \<Longrightarrow> rsH h' = rsH h \<and> rsContentLength h' = rsContentLength h"
  by (auto simp: append_body_headers_def Let_def ResponseHeader_SetConnectionClose_def split: if_splits)

lemma AppendBytes_keeps_wf:
  assumes "rs_wf h" "ResponseHeader_AppendBytes date h dst c = Some (h', b)"
  shows "rs_wf h'"
proof -
  let ?h = "ResponseHeader_DelNoSpecialCanonical h strTransferEncoding"
  have w: "rs_wf ?h" using assms(1) framing_free_del by (auto simp: rs_wf_def ResponseHeader_DelNoSpecialCanonical_def)
  have "h' = ?h \<or> (\<exists>d d' t. append_body_headers ?h d c = Some (h', d', t))"
    using assms(2) unfolding ResponseHeader_AppendBytes_def Let_def by (auto split: if_splits option.splits prod.splits)
  with w append_body_headers_keeps show ?thesis by (auto simp: rs_wf_def)
qed

lemmas response_op_defs = ResponseHeader_Reset_def ResponseHeader_resetSkipNormalize_def ResponseHeader_DisableNormalizing_def
  ResponseHeader_EnableNormalizing_def ResponseHeader_SetNoDefaultContentType_def ResponseHeader_SetStatusCode_def ResponseHeader_SetStatusMessage_def
  ResponseHeader_SetProtocol_def ResponseHeader_SetConnectionClose_def ResponseHeader_SetContentLength_def ResponseHeader_SetContentTypeBytes_def
  ResponseHeader_SetContentEncodingBytes_def ResponseHeader_SetServerBytes_def ResponseHeader_PeekKeys_def ResponseHeader_PeekTrailerKeys_def

lemma simple_ops_keep_wf:
  assumes "rs_wf h"
  shows "rs_wf (ResponseHeader_Reset h)" "rs_wf (h\<lparr>rsHeadMethod := b, rsNoDefaultDate := c, rsSecureErrorLogMessage := d\<rparr>)"
    "rs_wf (ResponseHeader_DisableNormalizing h)" "rs_wf (ResponseHeader_EnableNormalizing h)" "rs_wf (ResponseHeader_SetNoDefaultContentType h b)"
    "rs_wf (ResponseHeader_SetStatusCode h n)" "rs_wf (ResponseHeader_SetStatusMessage h v)" "rs_wf (ResponseHeader_SetProtocol h v)"
    "rs_wf (ResponseHeader_SetConnectionClose h)" "is_int64 n \<Longrightarrow> rs_wf (ResponseHeader_SetContentLength h n)"
    "rs_wf (ResponseHeader_SetContentTypeBytes h v)" "rs_wf (ResponseHeader_SetContentEncodingBytes h v)" "rs_wf (ResponseHeader_SetServerBytes h v)"
    "rs_wf (ResponseHeader_PeekKeys h)" "rs_wf (ResponseHeader_PeekTrailerKeys h)"
  using assms by (simp_all add: rs_wf_def response_op_defs is_int64_small)

lemma field_ops_keep_wf:
  assumes "rs_wf h"
  shows "rs_wf (ResponseHeader_del h k)" "rs_wf (ResponseHeader_DelBytes h k)" "rs_wf (ResponseHeader_ResetConnectionClose h)"
    "ResponseHeader_SetContentRange h a z l = Some h' \<Longrightarrow> rs_wf h'" "ResponseHeader_SetLastModified T h t = Some h' \<Longrightarrow> rs_wf h'"
    "ResponseHeader_addVaryBytes h v = Some h' \<Longrightarrow> rs_wf h'"
proof -
  have s: "framing_free (setArg (rsH h) strContentRange v False)" "framing_free (setArg (rsH h) strLastModified v False)" for v
    using assms names_framing by (auto simp: rs_wf_def intro!: framing_free_set)
  have d: "rs_wf (ResponseHeader_del h k)" if "rs_wf h" for h k
    using that by (auto simp: rs_wf_def ResponseHeader_del_def Let_def is_int64_small intro!: framing_free_del)
  then show "rs_wf (ResponseHeader_del h k)" using assms .
  show "rs_wf (ResponseHeader_DelBytes h k)"
    using assms by (auto simp: ResponseHeader_DelBytes_def split: prod.splits intro!: d)
  show "rs_wf (ResponseHeader_ResetConnectionClose h)"
    using assms by (auto simp: rs_wf_def ResponseHeader_ResetConnectionClose_def intro!: framing_free_del)
  show "rs_wf h'" if "ResponseHeader_SetContentRange h a z l = Some h'"
    using that s assms by (auto simp: rs_wf_def ResponseHeader_SetContentRange_def ResponseHeader_setNonSpecial_def split: option.splits)
  show "rs_wf h'" if "ResponseHeader_SetLastModified T h t = Some h'"
    using that s assms by (auto simp: rs_wf_def ResponseHeader_SetLastModified_def ResponseHeader_setNonSpecial_def)
  show "rs_wf h'" if "ResponseHeader_addVaryBytes h v = Some h'"
    using that by (auto simp: ResponseHeader_addVaryBytes_def split: if_splits intro!: set_keeps_wf(1) dest: peek_keeps_wf [OF assms])
qed

lemma cookie_ops_keep_wf:
  assumes "rs_wf h"
  shows "rs_wf (ResponseHeader_SetCookieBytes h v)" "ResponseHeader_SetCookie T h c = Some (h', c') \<Longrightarrow> rs_wf h'"
    "rs_wf (ResponseHeader_DelCookie h k)" "ResponseHeader_DelClientCookie T t h k = Some h' \<Longrightarrow> rs_wf h'" "rs_wf (ResponseHeader_DelAllCookies h)"
  using assms
  by (auto simp: ResponseHeader_SetCookieBytes_def ResponseHeader_SetCookie_def ResponseHeader_DelCookie_def ResponseHeader_DelClientCookie_def
      ResponseHeader_DelAllCookies_def Let_def)

lemma peekAll_keeps_wf:
  assumes "rs_wf h" "ResponseHeader_peekAll h k = Some h'"
  shows "rs_wf h'"
proof -
  let ?f = "\<lambda>(h, r). case r of
          Some r \<Rightarrow>
            if r \<noteq> [] then h\<lparr>rsMulHeader := rsMulHeader h @ [r]\<rparr>
            else h\<lparr>rsMulHeader := peekAllArgBytesToDst (rsMulHeader h) (live (rsH h)) k\<rparr>
        | None \<Rightarrow> h\<lparr>rsMulHeader := peekAllArgBytesToDst (rsMulHeader h) (live (rsH h)) k\<rparr>"
  have f: "\<exists>m. ?f (g, x) = g\<lparr>rsMulHeader := m\<rparr>" for g x by (cases x) auto
  from assms(2) obtain g x where g: "ResponseHeader_peekSpecial (h\<lparr>rsMulHeader := []\<rparr>) k = Some (g, x)" and "h' = ?f (g, x)"
    unfolding ResponseHeader_peekAll_def map_option_eq_Some by auto
  with f [of g x] have h': "\<exists>m. h' = g\<lparr>rsMulHeader := m\<rparr>" by (simp only:)
  from peekSpecial_keeps [OF g] h' assms(1) show ?thesis by auto
qed

lemma peek_ops_keep_wf:
  assumes "rs_wf h"
  shows "ResponseHeader_PeekBytes h k = Some (h', v) \<Longrightarrow> rs_wf h'" "ResponseHeader_PeekAllBytes h k = Some h' \<Longrightarrow> rs_wf h'"
    "ResponseHeader_Header date h c = Some (h', b) \<Longrightarrow> rs_wf h'" "ResponseHeader_TrailerHeader h = Some (h', b) \<Longrightarrow> rs_wf h'"
proof -
  obtain bk k' where i: "initHeaderK (rsBufK h) k (rsDisableNormalizing h) = (bk, k')" by (cases "initHeaderK (rsBufK h) k (rsDisableNormalizing h)")
  have w: "rs_wf (h\<lparr>rsBufK := bk\<rparr>)" using assms by simp
  show "rs_wf h'" if "ResponseHeader_PeekBytes h k = Some (h', v)"
    using that peek_keeps_wf [OF w] unfolding ResponseHeader_PeekBytes_def i by simp
  show "rs_wf h'" if "ResponseHeader_PeekAllBytes h k = Some h'"
    using that peekAll_keeps_wf [OF w] unfolding ResponseHeader_PeekAllBytes_def i by simp
  show "rs_wf h'" if "ResponseHeader_Header date h c = Some (h', b)"
    using that AppendBytes_keeps_wf [OF assms] unfolding ResponseHeader_Header_def by (clarsimp simp: map_option_eq_Some)
  show "rs_wf h'" if "ResponseHeader_TrailerHeader h = Some (h', b)"
    using that trailer_lines_keep_wf [OF assms] unfolding ResponseHeader_TrailerHeader_def Let_def by (clarsimp simp: map_option_eq_Some)
qed

lemma rs_op_keeps_wf: "rs_op T h h' \<Longrightarrow> rs_wf h \<Longrightarrow> rs_wf h'"
  by (induction rule: rs_op.induct)
    ((rule simple_ops_keep_wf set_keeps_wf field_ops_keep_wf(1-3) trailer_keeps_wf cookie_ops_keep_wf(1,3,5); assumption)
     | erule (1) field_ops_keep_wf(4-6) cookie_ops_keep_wf(2,4) peek_ops_keep_wf
     | erule (2) Read_keeps_wf)+

lemma rs_reach_wf: "rs_reach T h \<Longrightarrow> rs_wf h"
proof (induction rule: rs_reach.induct)
  case New
  then show ?case by (simp add: rs_wf_def emptyResponseHeader_def is_int64_small)
next
  case (Op h h')
  then show ?case by (blast intro: rs_op_keeps_wf)
next
  case (CopyTo h dst)
  then show ?case
    by (auto simp: rs_wf_def ResponseHeader_CopyTo_def Let_def intro!: framing_free_copy)
qed

section \<open>Framing and the date\<close>

lemma line_values_append: "line_values k (ps @ qs) = line_values k ps @ line_values k qs"
  by (simp add: line_values_def)

lemma line_values_none: "\<forall>p \<in> set ps. fst p \<noteq> k \<Longrightarrow> line_values k ps = []"
  by (auto simp: line_values_def filter_empty_conv)

lemma line_values_opt: "k \<noteq> k' \<Longrightarrow> line_values k (opt_line k' v) = []"
  by (simp add: opt_line_def)

lemma framing_names:
  "strContentLength \<noteq> strServer" "strContentLength \<noteq> strDate" "strContentLength \<noteq> strContentType" "strContentLength \<noteq> strContentEncoding"
  "strContentLength \<noteq> strTransferEncoding" "strContentLength \<noteq> strTrailer" "strContentLength \<noteq> strSetCookie" "strContentLength \<noteq> strConnection"
  "strTransferEncoding \<noteq> strServer" "strTransferEncoding \<noteq> strDate" "strTransferEncoding \<noteq> strContentType" "strTransferEncoding \<noteq> strContentEncoding"
  "strTransferEncoding \<noteq> strContentLength" "strTransferEncoding \<noteq> strTrailer" "strTransferEncoding \<noteq> strSetCookie" "strTransferEncoding \<noteq> strConnection"
  by (simp_all add: hdr_names)

lemmas framing_names' = framing_names framing_names [symmetric]

lemma field_lines_framing:
  assumes "framing_free (rsH h)" "k = strContentLength \<or> k = strTransferEncoding"
  shows "line_values k (field_lines h) = []"
proof -
  have "fst p \<noteq> k" if "p \<in> set (kv_pairs (live (rsH h)))" for p
    using that assms by (auto simp: kv_pairs_def framing_free_def)
  with assms(2) framing_names' show ?thesis
    by (intro line_values_none) (auto simp: field_lines_def)
qed

lemma response_lines_framing:
  assumes "framing_free (rsH h)" "k = strContentLength \<or> k = strTransferEncoding"
  shows "line_values k (response_lines date h) = line_values k (body_lines h)"
proof -
  have "line_values k (map (\<lambda>kv. (strSetCookie, kvValue kv)) l) = []" for l
    using assms(2) framing_names' by (intro line_values_none) auto
  moreover have "line_values k (opt_line strServer (rsServer h)) = []"
    using assms(2) framing_names by (intro line_values_opt) auto
  ultimately show ?thesis
    using field_lines_framing [OF assms] assms(2) framing_names'
    by (elim disjE) (simp_all add: response_lines_def line_values_append)
qed

lemma body_lines_framing:
  "line_values strContentLength (body_lines h) =
     (if sends_body h \<and> (0 < rsContentLength h \<or> rsContentLength h = 0 \<and> \<not> rsHeadMethod h) then [dec_digits (nat (rsContentLength h))] else [])"
  "line_values strTransferEncoding (body_lines h) =
     (if sends_body h \<and> rsContentLength h = -1 \<and> \<not> rsHeadMethod h then [strChunked] else [])"
  using framing_names'
  by (simp_all add: body_lines_def Let_def line_values_append line_values_opt dec_digits.simps [of 0])

section \<open>Lines of a printed block\<close>

text \<open>The lines behind the first one whose name, up to case, is the given one; a line ends at a line feed and its name at
  the first colon.\<close>

definition named_lines :: "bytes \<Rightarrow> bytes \<Rightarrow> bytes list" where
  "named_lines name b =
     filter (\<lambda>l. map toLowerTable (takeWhile (\<lambda>c. c \<noteq> 0x3A) l) = map toLowerTable name) (tl (split_on nChar b))"

definition clean_line :: "bytes \<times> bytes \<Rightarrow> bool" where
  "clean_line p \<longleftrightarrow> nChar \<notin> set (fst p) \<and> nChar \<notin> set (snd p) \<and> 0x3A \<notin> set (fst p) \<and> normalizeHeaderKeyV2 (fst p) = fst p"

lemma split_lines: "\<forall>t \<in> set ts. nChar \<notin> set t \<Longrightarrow> split_on nChar (concat (map (\<lambda>t. t @ [nChar]) ts)) = ts @ [[]]"
  by (induction ts) (simp_all add: split_on_append split_on_notin)

lemma split_print_lines:
  "\<forall>p \<in> set ps. clean_line p \<Longrightarrow> split_on nChar (print_lines ps @ [rChar, nChar]) = map line_text ps @ [[rChar], []]"
proof (induction ps)
  case (Cons p ps)
  have "split_on nChar (line_text p) = [line_text p]"
    using Cons.prems by (intro split_on_notin) (auto simp: clean_line_def line_text_def)
  then show ?case using Cons by (simp add: print_lines_Cons split_on_append)
qed simp

lemma named_lines_print:
  assumes "\<forall>p \<in> set ps. clean_line p" "nChar \<notin> set s" "normalizeHeaderKeyV2 name = name" "name \<noteq> []" "hd name \<noteq> rChar"
  shows "named_lines name (s @ nChar # print_lines ps @ [rChar, nChar]) = map (\<lambda>v. line_text (name, v)) (line_values name ps)"
proof -
  have n: "map toLowerTable [rChar] \<noteq> map toLowerTable name"
    using assms(4,5) by (cases name) (auto simp: toLowerTable_def unat_arith_simps split: if_splits)
  have k: "takeWhile (\<lambda>c. c \<noteq> 0x3A) (line_text p) = fst p" if "p \<in> set ps" for p
    using assms(1) that by (auto simp: clean_line_def line_text_def takeWhile_append2)
  have e: "map toLowerTable (fst p) = map toLowerTable name \<longleftrightarrow> fst p = name" if "p \<in> set ps" for p
    using assms(1,3) that normalizeHeaderKey_eq_iff [of "fst p" name] by (auto simp: clean_line_def)
  have "filter (\<lambda>l. map toLowerTable (takeWhile (\<lambda>c. c \<noteq> 0x3A) l) = map toLowerTable name) (map line_text ps) =
        map line_text (filter (\<lambda>p. fst p = name) ps)"
    unfolding filter_map using k e by (intro arg_cong [of _ _ "map line_text"] filter_cong) auto
  also have "\<dots> = map (\<lambda>v. line_text (name, v)) (line_values name ps)"
    by (induction ps) (auto simp: line_values_def)
  finally show ?thesis
    using n assms(4) split_print_lines [OF assms(1)] by (simp add: named_lines_def split_on_append split_on_notin [OF assms(2)])
qed

lemma StatusMessage_one_line: "nChar \<notin> set (StatusMessage c)"
proof -
  have "\<forall>p \<in> set statusMessages. nChar \<notin> set (bs (snd p))" by (simp add: statusMessages_def)
  then show ?thesis by (auto simp: StatusMessage_def dest!: map_of_SomeD split: option.splits)
qed

lemma dec_digits_one_line: "nChar \<notin> set (dec_digits n)"
  using dec_digits_digits [of n] by (auto simp: is_digit_byte_def)

lemma appendArgsKey_one_line:
  "nChar \<notin> set dst \<Longrightarrow> nChar \<notin> set sep \<Longrightarrow> \<forall>kv \<in> set l. nChar \<notin> set (kvKey kv) \<Longrightarrow> nChar \<notin> set (appendArgsKeyBytes dst l sep)"
  by (induction l arbitrary: dst) (auto simp: Let_def)

text \<open>A header whose texts hold no line feed, and whose stored names are canonical and hold no colon. The setters clean
  values, but not names, and not the texts of the status line and of the special fields.\<close>

definition one_line_texts :: "bytes \<Rightarrow> ResponseHeader \<Rightarrow> bool" where
  "one_line_texts date h \<longleftrightarrow>
     (\<forall>t \<in> {date, ResponseHeader_Protocol h, rsStatusMessage h, rsServer h, ResponseHeader_ContentType h, rsContentEncoding h}. nChar \<notin> set t) \<and>
     (\<forall>kv \<in> set (live (rsH h)). clean_line (kvKey kv, kvValue kv)) \<and>
     (\<forall>kv \<in> set (live (rsCookies h)). nChar \<notin> set (kvValue kv)) \<and>
     (\<forall>kv \<in> set (live (rsTrailer h)). nChar \<notin> set (kvKey kv))"

lemma fixed_names_clean:
  "clean_line (strServer, v) \<longleftrightarrow> nChar \<notin> set v" "clean_line (strDate, v) \<longleftrightarrow> nChar \<notin> set v"
  "clean_line (strContentType, v) \<longleftrightarrow> nChar \<notin> set v" "clean_line (strContentEncoding, v) \<longleftrightarrow> nChar \<notin> set v"
  "clean_line (strContentLength, v) \<longleftrightarrow> nChar \<notin> set v" "clean_line (strTransferEncoding, v) \<longleftrightarrow> nChar \<notin> set v"
  "clean_line (strTrailer, v) \<longleftrightarrow> nChar \<notin> set v" "clean_line (strSetCookie, v) \<longleftrightarrow> nChar \<notin> set v"
  "clean_line (strConnection, v) \<longleftrightarrow> nChar \<notin> set v"
  by (simp_all add: clean_line_def hdr_names normalizeHeaderKeyV2_def toUpperTable_def toLowerTable_def)

lemma response_lines_clean:
  assumes "one_line_texts date h"
  shows "\<forall>p \<in> set (response_lines date h). clean_line p"
proof -
  have v: "nChar \<notin> set strClose" "nChar \<notin> set strChunked" by (simp_all add: hdr_names)
  have a: "\<forall>kv \<in> set (announced h). nChar \<notin> set (kvKey kv)" using assms by (auto simp: announced_def one_line_texts_def)
  have "\<forall>p \<in> set (body_lines h). clean_line p"
    using assms v by (auto simp: body_lines_def Let_def opt_line_def fixed_names_clean one_line_texts_def dec_digits_one_line)
  moreover have "\<forall>p \<in> set (field_lines h). clean_line p"
    using assms appendArgsKey_one_line [of "[]" "bs '', ''", OF _ _ a]
    by (auto simp: field_lines_def kv_pairs_def fixed_names_clean one_line_texts_def)
  ultimately show ?thesis using assms v
    by (auto simp: response_lines_def opt_line_def fixed_names_clean one_line_texts_def)
qed

text \<open>C10: The headers that the public operations can build (reading, copying, setting, adding and deleting fields, cookies
  and trailers, printing, in any order) frame the body they announce in one way, provided that their texts hold no line feed
  and the stored names are canonical and hold no colon. Then, among the lines of the printed block, whatever the case of
  their names: there is one Content-Length line, with the length, if the status allows a body and the length is known, and none
  otherwise; there is one Transfer-Encoding line, with \<^verbatim>\<open>chunked\<close>, if the body is chunked, and none otherwise; so there
  are never both, and neither for a status without body; and a body of unknown length that is not chunked closes the
  connection.\<close>

theorem response_framing:
  assumes "rs_reach T h" "one_line_texts date h"
  shows "\<exists>h' b. ResponseHeader_AppendBytes date h dst False = Some (h', b) \<and>
           named_lines strContentLength b =
             (if sends_body h \<and> (0 < rsContentLength h \<or> rsContentLength h = 0 \<and> \<not> rsHeadMethod h)
              then [bs ''Content-Length: '' @ dec_digits (nat (rsContentLength h)) @ [rChar]] else []) \<and>
           named_lines strTransferEncoding b =
             (if sends_body h \<and> rsContentLength h = -1 \<and> \<not> rsHeadMethod h
              then [bs ''Transfer-Encoding: chunked'' @ [rChar]] else []) \<and>
           (sends_body h \<and> rsContentLength h < -1 \<and> \<not> rsHeadMethod h \<longrightarrow>
              bs ''Connection: close'' @ [rChar] \<in> set (named_lines strConnection b))"
proof -
  have w: "framing_free (rsH h)" "is_int64 (rsContentLength h)" using rs_reach_wf [OF assms(1)] by (simp_all add: rs_wf_def)
  let ?ps = "response_lines date h"
  obtain s where s: "appendStatusLine h [] = s @ [nChar]" "nChar \<notin> set s"
    using assms(2) StatusMessage_one_line dec_digits_one_line
    by (auto simp: appendStatusLine_def formatStatusLine_def AppendInt_def Let_def one_line_texts_def
        intro: that [of "butlast (appendStatusLine h [])"])
  obtain h' where h': "ResponseHeader_AppendBytes date h dst False = Some (h', s @ nChar # print_lines ?ps @ [rChar, nChar])"
    using AppendBytes_lines [OF w(2)] s(1) by fastforce
  note n = named_lines_print [OF response_lines_clean [OF assms(2)] s(2)]
  have "line_text (strConnection, strClose) \<in> set (named_lines strConnection (s @ nChar # print_lines ?ps @ [rChar, nChar]))"
    if "sends_body h \<and> rsContentLength h < -1 \<and> \<not> rsHeadMethod h"
    using that n [of strConnection]
    by (auto simp: line_values_def hdr_names response_lines_def closes_def normalizeHeaderKeyV2_def toUpperTable_def toLowerTable_def)
  then show ?thesis
    using h' n [of strContentLength] n [of strTransferEncoding] response_lines_framing [OF w(1)] body_lines_framing [of h]
    by (intro exI [of _ h'] exI [of _ "s @ nChar # print_lines ?ps @ [rChar, nChar]"])
      (simp add: line_text_def hdr_names normalizeHeaderKeyV2_def toUpperTable_def toLowerTable_def)
qed

theorem response_framing_witness:
  "\<exists>h' b. ResponseHeader_AppendBytes (bs ''now'') (ResponseHeader_SetContentLength emptyResponseHeader 42) [] False = Some (h', b) \<and>
     named_lines strContentLength b = [bs ''Content-Length: 42'' @ [rChar]] \<and> named_lines strTransferEncoding b = []"
proof -
  let ?h = "ResponseHeader_SetContentLength emptyResponseHeader 42"
  have "rs_reach sample_time ?h"
    by (rule rs_reach.Op [OF rs_reach.New rs_op.SetContentLength]) (simp add: is_int64_def)
  moreover have "one_line_texts (bs ''now'') ?h"
    by (simp add: one_line_texts_def ResponseHeader_SetContentLength_def emptyResponseHeader_def ResponseHeader_Protocol_def
        ResponseHeader_ContentType_def hdr_names)
  moreover have "sends_body ?h" "rsContentLength ?h = 42"
    by (simp_all add: sends_body_def bodyNotAllowedForStatus_def ResponseHeader_SetContentLength_def emptyResponseHeader_def)
  moreover have "dec_digits 42 = bs ''42''" by (simp add: dec_digits.simps [of 42] dec_digits.simps [of 4])
  ultimately show ?thesis
    using response_framing [of sample_time ?h "bs ''now''" "[]"] by auto
qed

text \<open>The proviso on names is needed: the setters store a name as it is, so a name with a line break in it adds a line
  of its own to the block, here a second Content-Length.\<close>

lemma name_injects_line:
  defines "h \<equiv> ResponseHeader_SetCanonical (ResponseHeader_SetContentLength emptyResponseHeader 42)
                  (bs ''X: y'' @ [rChar, nChar] @ bs ''Content-Length'') (bs ''7'')"
  shows "rs_reach sample_time h \<and> (\<exists>h' b. ResponseHeader_AppendBytes (bs ''now'') h [] False = Some (h', b) \<and>
     named_lines strContentLength b = [bs ''Content-Length: 42'' @ [rChar], bs ''Content-Length: 7'' @ [rChar]])"
proof
  let ?h = "ResponseHeader_SetContentLength emptyResponseHeader 42"
  have "rs_reach sample_time ?h"
    by (rule rs_reach.Op [OF rs_reach.New rs_op.SetContentLength]) (simp add: is_int64_def)
  then show "rs_reach sample_time h" unfolding h_def by (rule rs_reach.Op) (rule rs_op.SetCanonical)
  let ?k = "bs ''X: y'' @ [rChar, nChar] @ bs ''Content-Length''"
  have v: "snd (initHeaderV b (bs ''7'')) = bs ''7''" for b by (simp add: initHeaderV_eq newline_to_space_def)
  have "h = ?h\<lparr>rsBufV := rsBufV h, rsH := setArg emptyArgs ?k (bs ''7'') False\<rparr>"
    using v [of "rsBufV ?h"]
    by (cases "initHeaderV (rsBufV ?h) (bs ''7'')")
      (simp add: h_def ResponseHeader_SetCanonical_def ResponseHeader_setCanonical_def ResponseHeader_setSpecialHeader_def Let_def
        ResponseHeader_setNonSpecial_def ResponseHeader_SetContentLength_def emptyResponseHeader_def)
  then obtain x where h: "h = emptyResponseHeader\<lparr>rsContentLength := 42, rsBufV := x, rsH := setArg emptyArgs ?k (bs ''7'') False\<rparr>"
    by (simp add: ResponseHeader_SetContentLength_def)
  have "dec_digits 42 = bs ''42''" "dec_digits 200 = bs ''200''"
    by (simp_all add: dec_digits.simps [of 42] dec_digits.simps [of 4] dec_digits.simps [of 200] dec_digits.simps [of 20] dec_digits.simps [of 2])
  note d = this
  have l: "response_lines (bs ''now'') h =
      [(strDate, bs ''now''), (strContentType, defaultContentType), (strContentLength, bs ''42''), (?k, bs ''7'')]"
    using d by (simp add: h response_lines_def body_lines_def field_lines_def announced_def closes_def sends_body_def opt_line_def
        bodyNotAllowedForStatus_def ResponseHeader_ContentType_def kv_pairs_def emptyResponseHeader_def mkKV_def hdr_names)
  have s: "appendStatusLine h [] = bs ''HTTP/1.1 200 OK'' @ [rChar, nChar]"
    using d by (simp add: h appendStatusLine_def formatStatusLine_def AppendInt_def ResponseHeader_Protocol_def StatusMessage_def
        statusMessages_def emptyResponseHeader_def hdr_names)
  have "is_int64 (rsContentLength h)" by (simp add: h is_int64_def)
  from AppendBytes_lines [OF this, of "bs ''now''" "[]"] obtain h' where b: "ResponseHeader_AppendBytes (bs ''now'') h [] False =
      Some (h', appendStatusLine h [] @ print_lines (response_lines (bs ''now'') h) @ [rChar, nChar])" by blast
  let ?ls = "[bs ''HTTP/1.1 200 OK'' @ [rChar], line_text (strDate, bs ''now''), line_text (strContentType, defaultContentType),
      bs ''Content-Length: 42'' @ [rChar], bs ''X: y'' @ [rChar], bs ''Content-Length: 7'' @ [rChar], [rChar]]"
  have f: "\<forall>t \<in> set ?ls. nChar \<notin> set t" by (simp add: line_text_def hdr_names)
  have "appendStatusLine h [] @ print_lines (response_lines (bs ''now'') h) @ [rChar, nChar] = concat (map (\<lambda>t. t @ [nChar]) ?ls)"
    unfolding l s by (simp add: line_text_def hdr_names)
  then have "split_on nChar (appendStatusLine h [] @ print_lines (response_lines (bs ''now'') h) @ [rChar, nChar]) = ?ls @ [[]]"
    using split_lines [OF f] by (simp only:)
  then have "named_lines strContentLength (appendStatusLine h [] @ print_lines (response_lines (bs ''now'') h) @ [rChar, nChar]) =
      [bs ''Content-Length: 42'' @ [rChar], bs ''Content-Length: 7'' @ [rChar]]"
    by (simp add: named_lines_def line_text_def hdr_names toLowerTable_def)
  then show "\<exists>h' b. ResponseHeader_AppendBytes (bs ''now'') h [] False = Some (h', b) \<and>
     named_lines strContentLength b = [bs ''Content-Length: 42'' @ [rChar], bs ''Content-Length: 7'' @ [rChar]]"
    using b by blast
qed

lemma date_names: "strDate \<noteq> strServer" "strDate \<noteq> strContentType" "strDate \<noteq> strContentEncoding" "strDate \<noteq> strContentLength"
  "strDate \<noteq> strTransferEncoding" "strDate \<noteq> strSetCookie" "strDate \<noteq> strConnection" "strConnection \<noteq> strDate"
  by (simp_all add: hdr_names)

lemma line_values_body: "line_values strDate (body_lines h) = []"
  using date_names by (intro line_values_none) (auto simp: body_lines_def Let_def opt_line_def split: if_splits)

lemma line_values_cookies: "line_values strDate (map (\<lambda>kv. (strSetCookie, kvValue kv)) l) = []"
  using date_names by (intro line_values_none) auto

lemma line_values_filter: "strDate \<noteq> k \<Longrightarrow> line_values strDate (filter (\<lambda>p. fst p \<noteq> k) ps) = line_values strDate ps"
  unfolding line_values_def filter_filter by (rule arg_cong [where f = "map snd"], rule filter_cong) auto

text \<open>A response header that was read from a server and is printed again, as a proxy does, carries two Date lines: the
  reader stores a Date line among the plain fields, and the printer adds its own date and prints every stored
  field.\<close>

theorem response_date_twice:
  assumes "status_ok p n m" "list_all plain_field ps" "\<not> rsDisableNormalizing h" "\<not> rsNoDefaultDate h"
    and "length (status_line p n m @ [rChar, nChar] @ print_lines ps @ [rChar, nChar] @ body) \<le> N"
  shows "\<exists>h1 r h2 qs. ResponseHeader_Read h (new_reader N [status_line p n m @ [rChar, nChar] @ print_lines ps @ [rChar, nChar] @ body]) = Some (h1, r, None) \<and>
           ResponseHeader_AppendBytes date h1 [] False = Some (h2, appendStatusLine h1 [] @ print_lines qs @ [rChar, nChar]) \<and>
           line_values strDate qs = date # line_values strDate ps"
proof -
  let ?w = "status_line p n m @ [rChar, nChar] @ print_lines ps @ [rChar, nChar] @ body"
  let ?r = "new_reader N [?w]" and ?h0 = "ResponseHeader_resetSkipNormalize h"
  have h0: "\<not> rsDisableNormalizing ?h0" "live (rsH ?h0) = []" "\<not> rsNoDefaultDate ?h0"
    using assms(3,4) by (simp_all add: ResponseHeader_resetSkipNormalize_def)
  have r: "br_ok ?r" "brErr ?r = None" "brSrc ?r = [?w]" "?w \<noteq> []" "length (brBuf ?r) + length ?w \<le> brSize ?r" "brBuf ?r = []"
    using assms(5) by (simp_all add: new_reader_def br_ok_def)
  from parse_whole [OF assms(1,2) h0(1) refl, of body] h0 r(6) obtain g b L where
    g: "ResponseHeader_parse ?h0 (brBuf ?r @ ?w) = (g, b, int L, None)" "kv_pairs (live (rsH g)) = ps" "\<not> rsNoDefaultDate g"
      "rsContentLength g = 0 \<or> rsContentLength g = -2" by auto
  from read_segment(2) [OF r(1-5) g(1) refl] r(6) obtain r' where rd: "ResponseHeader_Read h ?r = Some (g, r', None)"
    by (auto simp: ResponseHeader_Read_def)
  have "is_int64 (rsContentLength g)" using g(4) is_int64_small by auto
  from AppendBytes_lines [OF this] obtain g' where
    ab: "ResponseHeader_AppendBytes date g [] False = Some (g', appendStatusLine g [] @ print_lines (response_lines date g) @ [rChar, nChar])" by blast
  have an: "announced g = []" using g(4) by (auto simp: announced_def)
  have "line_values strDate (response_lines date g) = date # line_values strDate ps"
    using g(2,3) date_names
    by (simp add: response_lines_def line_values_append line_values_opt line_values_body line_values_cookies field_lines_def an line_values_filter)
  with rd ab show ?thesis by blast
qed

theorem response_date_twice_witness:
  "\<exists>h1 r h2 qs. ResponseHeader_Read emptyResponseHeader
       (new_reader 64 [bs ''HTTP/1.1 200 OK'' @ [rChar, nChar] @ bs ''Date: then'' @ [rChar, nChar, rChar, nChar]]) = Some (h1, r, None) \<and>
     ResponseHeader_AppendBytes (bs ''now'') h1 [] False = Some (h2, appendStatusLine h1 [] @ print_lines qs @ [rChar, nChar]) \<and>
     line_values strDate qs = [bs ''now'', bs ''then'']"
proof -
  have "list_all plain_field [(strDate, bs ''then'')]"
    by (simp add: plain_field_def value_ok_def line_value_def validHeaderFieldByte_def validHeaderFieldByteTable_def
      validHeaderValueByte_def validHeaderValueByteTable_def normalizeHeaderKeyV2_def toUpperTable_def toLowerTable_def rs_special_names_def hdr_names)
  from response_date_twice [OF sample_status(1) this, of emptyResponseHeader "[]" 64 "bs ''now''"] show ?thesis
    by (simp add: sample_status(2) [simplified] emptyResponseHeader_def strDate_def)
qed

end
