(* ===== verification/ResponseRoundtrip.thy ===== *)
theory ResponseRoundtrip
  imports ResponsePrint
begin

text \<open>
  A response header that is printed, delivered in one segment and read again.
\<close>

section \<open>What the printer needs\<close>

definition printed_code :: "ResponseHeader \<Rightarrow> nat" where
  "printed_code h = nat (if rsStatusCode h \<le> 0 then 200 else rsStatusCode h)"

definition printed_message :: "ResponseHeader \<Rightarrow> bytes" where
  "printed_message h = (if rsStatusMessage h = [] then StatusMessage (int (printed_code h)) else rsStatusMessage h)"

lemma appendStatusLine_eq:
  "appendStatusLine h [] = status_line (ResponseHeader_Protocol h) (printed_code h) (printed_message h) @ [rChar, nChar]"
  by (simp add: appendStatusLine_def formatStatusLine_def AppendInt_def status_line_def printed_code_def printed_message_def Let_def
      del: dec_digits.simps)

definition printed_ct :: "ResponseHeader \<Rightarrow> bytes" where
  "printed_ct h =
     (if sends_body h \<and> (rsContentType h \<noteq> [] \<or> rsContentLength h \<noteq> 0) then ResponseHeader_ContentType h else [])"

definition printed_ce :: "ResponseHeader \<Rightarrow> bytes" where
  "printed_ce h = (if sends_body h then rsContentEncoding h else [])"

definition length_line :: "ResponseHeader \<Rightarrow> (bytes \<times> bytes) list" where
  "length_line h =
     (if \<not> sends_body h then []
      else if rsContentLength h \<ge> 0 then [(strContentLength, dec_digits (nat (rsContentLength h)))]
      else if rsContentLength h = -1 then [(strTransferEncoding, strChunked)] else [])"

definition rs_printable :: "bytes \<Rightarrow> ResponseHeader \<Rightarrow> bool" where
  "rs_printable date h \<longleftrightarrow>
     status_ok (ResponseHeader_Protocol h) (printed_code h) (printed_message h) \<and>
     is_int64 (rsContentLength h) \<and> -2 \<le> rsContentLength h \<and> \<not> rsHeadMethod h \<and> live (rsTrailer h) = [] \<and>
     value_ok date \<and> value_ok (rsServer h) \<and> value_ok (ResponseHeader_ContentType h) \<and> value_ok (rsContentEncoding h) \<and>
     list_all plain_field (kv_pairs (live (rsH h))) \<and> list_all (\<lambda>kv. value_ok (kvValue kv)) (live (rsCookies h)) \<and>
     (ResponseHeader_Protocol h \<noteq> strHTTP11 \<longrightarrow> closes h)"

definition date_line :: "bytes \<Rightarrow> ResponseHeader \<Rightarrow> (bytes \<times> bytes) list" where
  "date_line date h = (if rsNoDefaultDate h then [] else [(strDate, date)])"

definition cookie_lines :: "ResponseHeader \<Rightarrow> (bytes \<times> bytes) list" where
  "cookie_lines h = map (\<lambda>kv. (strSetCookie, kvValue kv)) (live (rsCookies h))"

lemma response_lines_eq:
  assumes "rs_printable date h"
  shows "response_lines date h =
     opt_line strServer (rsServer h) @ date_line date h @ opt_line strContentType (printed_ct h) @ opt_line strContentEncoding (printed_ce h) @
     length_line h @ kv_pairs (live (rsH h)) @ cookie_lines h @ (if closes h then [(strConnection, strClose)] else [])"
proof -
  have p: "\<not> rsHeadMethod h" "live (rsTrailer h) = []" "list_all plain_field (kv_pairs (live (rsH h)))" using assms by (simp_all add: rs_printable_def)
  have "body_lines h = opt_line strContentType (printed_ct h) @ opt_line strContentEncoding (printed_ce h) @ length_line h"
    using p(1) by (auto simp: body_lines_def opt_line_def printed_ct_def printed_ce_def length_line_def Let_def dec_digits.simps [of 0])
  moreover have "filter (\<lambda>p. fst p \<noteq> strTransferEncoding) (kv_pairs (live (rsH h))) = kv_pairs (live (rsH h))"
    using p(3) by (intro filter_True) (auto simp: list_all_iff plain_field_def rs_special_names_def)
  ultimately show ?thesis
    using p(2) by (simp add: response_lines_def date_line_def cookie_lines_def field_lines_def announced_def)
qed

lemma rs_names_valid:
  "list_all validHeaderFieldByte strServer" "list_all validHeaderFieldByte strDate" "list_all validHeaderFieldByte strContentEncoding"
  "list_all validHeaderFieldByte strSetCookie"
  by (simp_all add: hdr_names validHeaderFieldByte_def validHeaderFieldByteTable_def)

lemma rs_names_normal:
  "normalizeHeaderKeyV2 strServer = strServer" "normalizeHeaderKeyV2 strDate = strDate" "normalizeHeaderKeyV2 strContentEncoding = strContentEncoding"
  "normalizeHeaderKeyV2 strSetCookie = strSetCookie"
  by (simp_all add: hdr_names normalizeHeaderKeyV2_def toUpperTable_def toLowerTable_def)

lemma rs_names_not_Nil: "strServer \<noteq> []" "strDate \<noteq> []" "strContentEncoding \<noteq> []" "strSetCookie \<noteq> []"
  by (simp_all add: hdr_names)

lemma value_ok_digits: "value_ok (dec_digits n)"
proof -
  have v: "validHeaderValueByte c \<and> c \<noteq> nChar \<and> c \<noteq> spChar \<and> c \<noteq> tabChar" if "is_digit_byte c" for c
  proof -
    have "33 \<le> c" "c \<le> 126" using that by (auto simp: is_digit_byte_def intro: order_trans [of _ 48] order_trans [of _ 57])
    with that show ?thesis by (auto simp: is_digit_byte_def validHeaderValueByte_def validHeaderValueByteTable_def)
  qed
  have "\<forall>c \<in> set (dec_digits n). validHeaderValueByte c \<and> c \<noteq> nChar \<and> c \<noteq> spChar \<and> c \<noteq> tabChar"
    using dec_digits_digits [of n] v by blast
  with dec_digits_not_Nil [of n] show ?thesis
    by (auto simp: value_ok_def line_value_def list_all_iff simp del: dec_digits.simps)
qed

lemma rs_printable_lines:
  assumes "rs_printable date h"
  shows "list_all line_ok (response_lines date h)" "map (\<lambda>(k, v). (norm_key False k, v)) (response_lines date h) = response_lines date h"
proof -
  note p = assms [unfolded rs_printable_def]
  have ct: "value_ok (printed_ct h)" "value_ok (printed_ce h)" using p literals_ok(3) by (simp_all add: printed_ct_def printed_ce_def)
  have l: "list_all line_ok (length_line h)"
    using names_valid literals_ok value_ok_digits
    by (auto simp: length_line_def line_ok_def value_ok_def field_line_key) (simp_all add: hdr_names line_value_def)
  have c: "list_all line_ok (cookie_lines h)"
    using p rs_names_valid rs_names_not_Nil by (auto simp: cookie_lines_def list_all_iff line_ok_def value_ok_def intro!: field_line_key [unfolded list_all_iff])
  have d: "list_all line_ok (date_line date h)" using p rs_names_valid rs_names_not_Nil by (simp add: date_line_def line_ok_def value_ok_def field_line_key)
  have x: "line_ok (strConnection, strClose)" using literals_ok names_valid by (simp add: line_ok_def value_ok_def field_line_key)
  show "list_all line_ok (response_lines date h)"
    unfolding response_lines_eq [OF assms] using p ct l c d x names_valid rs_names_valid rs_names_not_Nil
    by (simp add: opt_line_ok plain_lines)
  have "map (\<lambda>(k, v). (norm_key False k, v)) (kv_pairs (live (rsH h))) = kv_pairs (live (rsH h))" using p by (intro plain_normal) simp
  then show "map (\<lambda>(k, v). (norm_key False k, v)) (response_lines date h) = response_lines date h"
    unfolding response_lines_eq [OF assms]
    by (simp add: opt_line_def date_line_def length_line_def cookie_lines_def norm_key_def names_normal rs_names_normal)
qed

section \<open>What is read back\<close>

lemma rs_names_neq:
  "strContentEncoding \<noteq> strContentType" "strContentLength \<noteq> strContentType" "strContentLength \<noteq> strContentEncoding" "strConnection \<noteq> strContentType"
  "strConnection \<noteq> strContentEncoding" "strConnection \<noteq> strContentLength" "strServer \<noteq> strContentType" "strServer \<noteq> strContentEncoding"
  "strServer \<noteq> strContentLength" "strServer \<noteq> strConnection" "strSetCookie \<noteq> strContentType" "strSetCookie \<noteq> strContentEncoding"
  "strSetCookie \<noteq> strContentLength" "strSetCookie \<noteq> strConnection" "strSetCookie \<noteq> strServer" "strTransferEncoding \<noteq> strContentType"
  "strTransferEncoding \<noteq> strContentEncoding" "strTransferEncoding \<noteq> strContentLength" "strTransferEncoding \<noteq> strConnection"
  "strTransferEncoding \<noteq> strServer" "strTransferEncoding \<noteq> strSetCookie"
  by (simp_all add: hdr_names)

lemma rs_step_special:
  assumes "\<not> rsDisableNormalizing h" "list_all validHeaderValueByte v"
  shows "rs_step h d strContentType v = (h\<lparr>rsContentType := v\<rparr>, None)"
    and "rs_step h d strContentEncoding v = (h\<lparr>rsContentEncoding := v\<rparr>, None)"
    and "rs_step h d strServer v = (h\<lparr>rsServer := v\<rparr>, None)"
    and "rs_step h d strSetCookie v = (ResponseHeader_SetCookieBytes h v, None)"
    and "rsContentLength h \<noteq> -1 \<Longrightarrow> parseContentLength v = Some n \<Longrightarrow>
           rs_step h d strContentLength v = (h\<lparr>rsContentLength := n, rsContentLengthBytes := v\<rparr>, None)"
    and "v = strClose \<Longrightarrow> rs_step h d strConnection v = (h\<lparr>rsConnectionClose := True\<rparr>, None)"
    and "v = strChunked \<Longrightarrow> rs_step h d strTransferEncoding v = (h\<lparr>rsContentLength := -1\<rparr>, None)"
  using assms
  by (simp_all add: rs_names_neq rs_step_def check_line_None names_valid rs_names_valid rs_names_not_Nil ResponseHeader_line_flat headNameCompare_def Let_def)
    (simp_all add: hdr_names)

lemma rs_apply_opt_line:
  assumes "rs_step h d k v = (h', None)" "v = [] \<Longrightarrow> h' = h"
  shows "apply_lines rs_step h d (opt_line k v) = (h', None)"
  using assms by (simp add: opt_line_def)

lemma apply_cookie_lines:
  "\<not> rsDisableNormalizing h \<Longrightarrow> list_all (list_all validHeaderValueByte) vs \<Longrightarrow>
     \<exists>cs. apply_lines rs_step h d (map (\<lambda>v. (strSetCookie, v)) vs) = (h\<lparr>rsCookies := cs\<rparr>, None) \<and>
          map kvValue (live cs) = map kvValue (live (rsCookies h)) @ vs"
proof (induction vs arbitrary: h)
  case Nil
  then show ?case by (auto intro!: exI [of _ "rsCookies h"])
next
  case (Cons v vs)
  define h1 where "h1 = ResponseHeader_SetCookieBytes h v"
  obtain cs1 where h1: "h1 = h\<lparr>rsCookies := cs1\<rparr>" "map kvValue (live cs1) = map kvValue (live (rsCookies h)) @ [v]"
    unfolding h1_def ResponseHeader_SetCookieBytes_def Let_def by auto
  have "rs_step h d strSetCookie v = (h1, None)" using Cons.prems by (simp add: rs_step_special(4) h1_def)
  with Cons.IH [of h1] Cons.prems h1 show ?case by auto
qed

lemma parseContentLength_digits: "n < 2 ^ 63 \<Longrightarrow> parseContentLength (dec_digits n) = Some (int n)"
proof -
  assume n: "n < 2 ^ 63"
  have "parseUintBuf_loop (dec_digits n) 0 (int 0) = (int (dec_value 0 (dec_digits n)), 0 + length (dec_digits n), None)"
    by (rule parseUintBuf_loop_digits [OF dec_digits_digits]) (use n dec_value_digits in simp)
  then show ?thesis by (simp add: parseContentLength_def parseUintBuf_def dec_value_digits del: dec_digits.simps)
qed

lemma apply_length_line:
  assumes h: "rs_printable date h" and t: "\<not> rsDisableNormalizing t" "rsContentLength t = -2"
  shows "\<exists>cb. apply_lines rs_step t d (length_line h) =
           (t\<lparr>rsContentLength := if sends_body h then rsContentLength h else -2, rsContentLengthBytes := cb\<rparr>, None)"
proof -
  have e: "t\<lparr>rsContentLength := -2, rsContentLengthBytes := rsContentLengthBytes t\<rparr> = t" using t(2) by simp
  consider "\<not> sends_body h \<or> rsContentLength h = -2" | "sends_body h" "rsContentLength h = -1" | "sends_body h" "0 \<le> rsContentLength h"
    using h by (force simp: rs_printable_def)
  then show ?thesis
  proof cases
    case 1
    then have "length_line h = []" "(if sends_body h then rsContentLength h else -2) = -2" by (auto simp: length_line_def)
    with e show ?thesis by (intro exI [of _ "rsContentLengthBytes t"]) simp
  next
    case 2
    with t names_valid show ?thesis
      by (intro exI [of _ "rsContentLengthBytes t"]) (simp add: length_line_def rs_step_special(7))
  next
    case 3
    let ?v = "dec_digits (nat (rsContentLength h))"
    have "nat (rsContentLength h) < 2 ^ 63" using h 3(2) by (simp add: rs_printable_def is_int64_def nat_less_iff)
    from parseContentLength_digits [OF this] 3(2) have "parseContentLength ?v = Some (rsContentLength h)" by simp
    with rs_step_special(5) [OF t(1), of ?v _ d] value_ok_digits [of "nat (rsContentLength h)"] t(2) 3 show ?thesis
      by (intro exI [of _ ?v]) (simp add: length_line_def value_ok_def del: dec_digits.simps)
  qed
qed

lemma apply_response_lines:
  assumes h: "rs_printable date h" and t: "\<not> rsDisableNormalizing t" "rsServer t = []" "rsContentType t = []" "rsContentEncoding t = []"
    "rsContentLength t = -2" "\<not> rsConnectionClose t" "live (rsH t) = []" "live (rsCookies t) = []"
  shows "\<exists>s cs cb. apply_lines rs_step t False (response_lines date h) =
     (t\<lparr>rsServer := rsServer h, rsContentType := printed_ct h, rsContentEncoding := printed_ce h,
        rsContentLength := if sends_body h then rsContentLength h else -2, rsContentLengthBytes := cb, rsH := s, rsCookies := cs,
        rsConnectionClose := closes h\<rparr>, None) \<and>
     kv_pairs (live s) = date_line date h @ kv_pairs (live (rsH h)) \<and> map kvValue (live cs) = map kvValue (live (rsCookies h))"
proof -
  note p = h [unfolded rs_printable_def]
  have v: "list_all validHeaderValueByte (rsServer h)" "list_all validHeaderValueByte (printed_ct h)" "list_all validHeaderValueByte (printed_ce h)"
    "list_all validHeaderValueByte strClose" "list_all (list_all validHeaderValueByte) (map kvValue (live (rsCookies h)))"
    using p literals_ok by (auto simp: value_ok_def printed_ct_def printed_ce_def list_all_iff)
  define t1 where "t1 = t\<lparr>rsServer := rsServer h\<rparr>"
  have s1: "apply_lines rs_step t False (opt_line strServer (rsServer h)) = (t1, None)"
    by (rule rs_apply_opt_line) (simp_all add: rs_step_special(3) t v t1_def)
  have dp: "list_all plain_field (date_line date h)"
    using p rs_names_valid rs_names_normal rs_names_not_Nil rs_special_distinct(3) by (simp add: date_line_def plain_field_def)
  have "\<not> rsDisableNormalizing t1" "live (rsH t1) = []" using t by (simp_all add: t1_def)
  from apply_plain_fields [OF dp this(1), of False] this(2) obtain u where
    s2: "apply_lines rs_step t1 False (date_line date h) = (t1\<lparr>rsH := u\<rparr>, None)" and u: "kv_pairs (live u) = date_line date h" by auto
  define t2 where "t2 = t1\<lparr>rsH := u\<rparr>"
  define t3 where "t3 = t2\<lparr>rsContentType := printed_ct h\<rparr>"
  have s3: "apply_lines rs_step t2 False (opt_line strContentType (printed_ct h)) = (t3, None)"
    by (rule rs_apply_opt_line) (simp_all add: rs_step_special(1) t v t1_def t2_def t3_def)
  define t4 where "t4 = t3\<lparr>rsContentEncoding := printed_ce h\<rparr>"
  have s4: "apply_lines rs_step t3 False (opt_line strContentEncoding (printed_ce h)) = (t4, None)"
    by (rule rs_apply_opt_line) (simp_all add: rs_step_special(2) t v t1_def t2_def t3_def t4_def)
  have t4: "\<not> rsDisableNormalizing t4" "rsContentLength t4 = -2" using t by (simp_all add: t1_def t2_def t3_def t4_def)
  from apply_length_line [OF h t4, of False] obtain cb where s5: "apply_lines rs_step t4 False (length_line h) =
      (t4\<lparr>rsContentLength := if sends_body h then rsContentLength h else -2, rsContentLengthBytes := cb\<rparr>, None)" by blast
  define t5 where "t5 = t4\<lparr>rsContentLength := if sends_body h then rsContentLength h else -2, rsContentLengthBytes := cb\<rparr>"
  have t5: "\<not> rsDisableNormalizing t5" "rsH t5 = u" using t by (simp_all add: t1_def t2_def t3_def t4_def t5_def)
  have pf: "list_all plain_field (kv_pairs (live (rsH h)))" using p by simp
  from apply_plain_fields [OF pf t5(1), of False] t5(2) u obtain s where
    s6: "apply_lines rs_step t5 False (kv_pairs (live (rsH h))) = (t5\<lparr>rsH := s\<rparr>, None)" and s: "kv_pairs (live s) = date_line date h @ kv_pairs (live (rsH h))" by auto
  define t6 where "t6 = t5\<lparr>rsH := s\<rparr>"
  have t6: "\<not> rsDisableNormalizing t6" "live (rsCookies t6) = []" "\<not> rsConnectionClose t6" using t by (simp_all add: t1_def t2_def t3_def t4_def t5_def t6_def)
  have cl: "cookie_lines h = map (\<lambda>v. (strSetCookie, v)) (map kvValue (live (rsCookies h)))" by (simp add: cookie_lines_def)
  from apply_cookie_lines [OF t6(1) v(5), of False] t6(2) obtain cs where
    s7: "apply_lines rs_step t6 False (cookie_lines h) = (t6\<lparr>rsCookies := cs\<rparr>, None)" and cs: "map kvValue (live cs) = map kvValue (live (rsCookies h))"
    unfolding cl by auto
  have s8: "apply_lines rs_step (t6\<lparr>rsCookies := cs\<rparr>) False (if closes h then [(strConnection, strClose)] else []) =
      (t6\<lparr>rsCookies := cs, rsConnectionClose := closes h\<rparr>, None)"
    using t6 by (simp add: rs_step_special(6) v)
  have "apply_lines rs_step t False (response_lines date h) = (t6\<lparr>rsCookies := cs, rsConnectionClose := closes h\<rparr>, None)"
    unfolding response_lines_eq [OF h] apply_then [OF s1] apply_then [OF s2, folded t2_def] apply_then [OF s3] apply_then [OF s4]
      apply_then [OF s5, folded t5_def] apply_then [OF s6, folded t6_def] apply_then [OF s7] using s8 by simp
  with s cs show ?thesis unfolding t6_def t5_def t4_def t3_def t2_def t1_def by auto
qed

lemma response_header_read:
  assumes h: "rs_printable date h" and g: "\<not> rsDisableNormalizing g" "\<not> rsHeadMethod g"
    and ab: "ResponseHeader_AppendBytes date h [] False = Some (h1, text)" and R: "br_live r" "brBuf r = []" "brSrc r = (text @ body) # rest" and N: "length (text @ body) \<le> brSize r"
  shows "\<exists>h' r'. ResponseHeader_Read g r = Some (h', r', None) \<and> pending r' = body @ concat rest \<and>
           br_live r' \<and> brSize r' = brSize r \<and> brEnd r' = brEnd r \<and> live (rsTrailer h') = [] \<and> \<not> rsHeadMethod h' \<and>
           rsStatusCode h' = int (printed_code h) \<and> rsStatusMessage h' = printed_message h \<and> rsServer h' = rsServer h \<and>
           rsContentType h' = printed_ct h \<and> rsContentEncoding h' = printed_ce h \<and>
           rsContentLength h' = (if sends_body h then rsContentLength h else -2) \<and> rsConnectionClose h' = closes h \<and>
           kv_pairs (live (rsH h')) = date_line date h @ kv_pairs (live (rsH h)) \<and>
           map kvValue (live (rsCookies h')) = map kvValue (live (rsCookies h))"
proof -
  let ?p = "ResponseHeader_Protocol h" and ?n = "printed_code h" and ?m = "printed_message h"
  have st: "status_ok ?p ?n ?m" and i: "is_int64 (rsContentLength h)" using h by (simp_all add: rs_printable_def)
  define w where "w = text @ body"
  have w: "w = status_line ?p ?n ?m @ [rChar, nChar] @ print_lines (response_lines date h) @ [rChar, nChar] @ body"
    using AppendBytes_lines [OF i, of date "[]"] ab by (auto simp: w_def appendStatusLine_eq)
  define g0 where "g0 = with_status (ResponseHeader_resetSkipNormalize g) ?p ?n ?m"
  have g0: "rsDisableNormalizing g0 = False" "rsStatusCode g0 = int ?n" "rsStatusMessage g0 = ?m" "rsNoHTTP11 g0 \<longleftrightarrow> ?p \<noteq> strHTTP11"
    using g by (simp_all add: g0_def with_status_def ResponseHeader_resetSkipNormalize_def)
  have tr: "live (rsTrailer (rs_start g0)) = []" "\<not> rsHeadMethod (rs_start g0)" using g(2) by (simp_all add: rs_start_def g0_def with_status_def ResponseHeader_resetSkipNormalize_def)
  have t: "\<not> rsDisableNormalizing (rs_start g0)" "rsServer (rs_start g0) = []" "rsContentType (rs_start g0) = []" "rsContentEncoding (rs_start g0) = []"
    "rsContentLength (rs_start g0) = -2" "\<not> rsConnectionClose (rs_start g0)" "live (rsH (rs_start g0)) = []" "live (rsCookies (rs_start g0)) = []"
    using g by (simp_all add: rs_start_def g0_def with_status_def ResponseHeader_resetSkipNormalize_def)
  from apply_response_lines [OF h t] obtain s cs cb where st1: "apply_lines rs_step (rs_start g0) False (response_lines date h) =
     (rs_start g0\<lparr>rsServer := rsServer h, rsContentType := printed_ct h, rsContentEncoding := printed_ce h,
        rsContentLength := if sends_body h then rsContentLength h else -2, rsContentLengthBytes := cb, rsH := s, rsCookies := cs,
        rsConnectionClose := closes h\<rparr>, None)" (is "_ = (?h1, None)")
    and f: "kv_pairs (live s) = date_line date h @ kv_pairs (live (rsH h))" "map kvValue (live cs) = map kvValue (live (rsCookies h))" by blast
  have nf: "\<not> (rsNoHTTP11 ?h1 \<and> \<not> rsConnectionClose ?h1)" using h g0(4) by (auto simp: rs_printable_def rs_start_def)
  have fin: "\<exists>cb'. ResponseHeader_finish ?h1 = ?h1\<lparr>rsContentLengthBytes := cb'\<rparr>"
    using nf unfolding ResponseHeader_finish_def Let_def
    by (cases "rsContentLength ?h1 < 0") (auto simp del: de_Morgan_conj intro: exI [of _ cb])
  let ?L = "length (print_lines (response_lines date h)) + 2"
  from response_parseHeaders_print [OF rs_printable_lines(1) [OF h] g0(1), unfolded rs_printable_lines(2) [OF h], OF st1, of body] obtain b where
    b: "ResponseHeader_parseHeaders g0 (print_lines (response_lines date h) @ [rChar, nChar] @ body) = (ResponseHeader_finish ?h1, b, int ?L, None)"
      "drop ?L b = body" by blast
  let ?r = r and ?K = "length (status_line ?p ?n ?m) + 2 + ?L"
  have r: "br_ok ?r" "brErr ?r = None" "brSrc ?r = w # rest" "w \<noteq> []" "length (brBuf ?r) + length w \<le> brSize ?r" "brBuf ?r = []"
    using N R by (simp_all add: br_live_def w_def [symmetric]) (simp add: w)
  have pw: "ResponseHeader_parse (ResponseHeader_resetSkipNormalize g) (brBuf ?r @ w) =
      (ResponseHeader_finish ?h1, status_line ?p ?n ?m @ [rChar, nChar] @ b, int ?K, None)"
    using response_parse_status [OF st b(1) [unfolded g0_def]] r(6) by (simp add: w g0_def)
  have d: "drop ?K (status_line ?p ?n ?m @ [rChar, nChar] @ b) = body" using b(2) by (simp add: eval_nat_numeral)
  from read_segment(2) [OF r(1-5) pw refl, unfolded nat_int d r(6)] obtain r' where
    "ResponseHeader_Read g ?r = Some (ResponseHeader_finish ?h1, r', None)" "pending r' = body @ concat rest"
    "br_live r'" "brSize r' = brSize r" "brEnd r' = brEnd r"
    using R by (auto simp: ResponseHeader_Read_def pending_def br_live_def no_empty_def)
  moreover from fin obtain cb' where "ResponseHeader_finish ?h1 = ?h1\<lparr>rsContentLengthBytes := cb'\<rparr>" by blast
  ultimately show ?thesis
    using f g0 tr by (intro exI [of _ "ResponseHeader_finish ?h1"] exI [of _ r']) (simp add: w_def rs_start_def)
qed

text \<open>C9: A response header that is printed and arrives in one segment is read back: status code and message, server, content
  type and encoding, the length or chunking of the body, all other fields in order (behind the date that the printer
  adds), the text of every cookie, and whether the connection closes. The reader stops exactly at the body, and the
  result does not depend on what the header that is read into held before.\<close>

theorem response_header_roundtrip:
  assumes h: "rs_printable date h" and g: "\<not> rsDisableNormalizing g" "\<not> rsHeadMethod g"
    and ab: "ResponseHeader_AppendBytes date h [] False = Some (h1, text)" and N: "length (text @ body) \<le> N"
  shows "\<exists>h' r'. ResponseHeader_Read g (new_reader N [text @ body]) = Some (h', r', None) \<and> pending r' = body \<and>
           rsStatusCode h' = int (printed_code h) \<and> rsStatusMessage h' = printed_message h \<and> rsServer h' = rsServer h \<and>
           rsContentType h' = printed_ct h \<and> rsContentEncoding h' = printed_ce h \<and>
           rsContentLength h' = (if sends_body h then rsContentLength h else -2) \<and> rsConnectionClose h' = closes h \<and>
           kv_pairs (live (rsH h')) = date_line date h @ kv_pairs (live (rsH h)) \<and>
           map kvValue (live (rsCookies h')) = map kvValue (live (rsCookies h))"
proof -
  let ?r = "new_reader N [text @ body]"
  have "text @ body \<noteq> []" using AppendBytes_lines [of h date "[]"] h ab by (auto simp: rs_printable_def)
  then have "br_live ?r" "brBuf ?r = []" "brSrc ?r = [text @ body]" "length (text @ body) \<le> brSize ?r"
    using N by (cases "text @ body"; auto simp: new_reader_def br_live_def br_ok_def no_empty_def)+
  from response_header_read [OF h g ab this] show ?thesis by auto
qed

definition sample_response :: ResponseHeader where
  "sample_response = emptyResponseHeader\<lparr>rsServer := bs ''s'', rsStatusMessage := bs ''OK'', rsContentLength := 2, rsNoDefaultContentType := True,
     rsCookies := appendArg emptyArgs (bs ''a'') (bs ''a=1'') False\<rparr>"

lemma sample_response_printable: "rs_printable (bs ''now'') sample_response"
  by (simp add: rs_printable_def sample_response_def emptyResponseHeader_def status_ok_def printed_code_def printed_message_def ResponseHeader_Protocol_def
      ResponseHeader_ContentType_def is_int64_def value_ok_def line_value_def validHeaderValueByte_def validHeaderValueByteTable_def mkKV_def hdr_names)

lemma sample_response_text:
  "\<exists>h1. ResponseHeader_AppendBytes (bs ''now'') sample_response [] False =
     Some (h1, bs ''HTTP/1.1 200 OK'' @ [rChar, nChar] @ bs ''Server: s'' @ [rChar, nChar] @ bs ''Date: now'' @ [rChar, nChar] @
        bs ''Content-Length: 2'' @ [rChar, nChar] @ bs ''Set-Cookie: a=1'' @ [rChar, nChar, rChar, nChar])"
proof -
  have "is_int64 (rsContentLength sample_response)" by (simp add: sample_response_def is_int64_def)
  moreover have "response_lines (bs ''now'') sample_response =
      [(strServer, bs ''s''), (strDate, bs ''now''), (strContentLength, bs ''2''), (strSetCookie, bs ''a=1'')]"
    unfolding response_lines_eq [OF sample_response_printable]
    by (simp add: sample_response_def emptyResponseHeader_def opt_line_def date_line_def printed_ct_def printed_ce_def length_line_def cookie_lines_def
        sends_body_def bodyNotAllowedForStatus_def ResponseHeader_ContentType_def closes_def mkKV_def dec_digits.simps [of 2])
  moreover have "appendStatusLine sample_response [] = bs ''HTTP/1.1 200 OK'' @ [rChar, nChar]"
    by (simp add: appendStatusLine_eq sample_response_def emptyResponseHeader_def printed_code_def printed_message_def ResponseHeader_Protocol_def
        status_line_def dec_digits.simps [of 200] dec_digits.simps [of 20] dec_digits.simps [of 2] strHTTP11_def)
  ultimately show ?thesis
    using AppendBytes_lines [of sample_response "bs ''now''" "[]"] by (auto simp: hdr_names)
qed

theorem response_header_roundtrip_witness:
  "\<exists>h' r'. ResponseHeader_Read emptyResponseHeader
       (new_reader 128 [bs ''HTTP/1.1 200 OK'' @ [rChar, nChar] @ bs ''Server: s'' @ [rChar, nChar] @ bs ''Date: now'' @ [rChar, nChar] @
          bs ''Content-Length: 2'' @ [rChar, nChar] @ bs ''Set-Cookie: a=1'' @ [rChar, nChar, rChar, nChar] @ bs ''xy'']) = Some (h', r', None) \<and>
     pending r' = bs ''xy'' \<and> rsStatusCode h' = 200 \<and> rsContentLength h' = 2 \<and> map kvValue (live (rsCookies h')) = [bs ''a=1'']"
proof -
  obtain h1 where h1: "ResponseHeader_AppendBytes (bs ''now'') sample_response [] False =
     Some (h1, bs ''HTTP/1.1 200 OK'' @ [rChar, nChar] @ bs ''Server: s'' @ [rChar, nChar] @ bs ''Date: now'' @ [rChar, nChar] @
        bs ''Content-Length: 2'' @ [rChar, nChar] @ bs ''Set-Cookie: a=1'' @ [rChar, nChar, rChar, nChar])" using sample_response_text by blast
  have e: "\<not> rsDisableNormalizing emptyResponseHeader" "\<not> rsHeadMethod emptyResponseHeader" by (simp_all add: emptyResponseHeader_def)
  have s: "printed_code sample_response = 200" "sends_body sample_response" "rsContentLength sample_response = 2"
    "map kvValue (live (rsCookies sample_response)) = [bs ''a=1'']"
    by (simp_all add: sample_response_def emptyResponseHeader_def printed_code_def sends_body_def bodyNotAllowedForStatus_def mkKV_def)
  from response_header_roundtrip [OF sample_response_printable e h1, of "bs ''xy''" 128] s show ?thesis by auto
qed

end
