(* ===== verification/Message.thy ===== *)
theory Message
  imports Streaming
begin

text \<open>
  What requests and responses of \<^verbatim>\<open>http.go\<close> share: body streams of either side, copying a stream
  (\<^verbatim>\<open>copyZeroAlloc\<close>), writing a stream of known length (\<^verbatim>\<open>writeBodyFixedSize\<close>), and the standard library's
  base64 encoding for the \<^verbatim>\<open>Authorization\<close> header.
\<close>

section \<open>Body streams\<close>

text \<open>A stream that the user supplied: the results of its reads, the number of bytes left if it is an
  \<^verbatim>\<open>io.LimitedReader\<close>, and the error that closing it returns.\<close>

record user_stream =
  usSource :: rsource
  usLimit :: "int option"
  usClose :: "io_error option"

datatype msg_stream = FromConn body_stream | FromUser user_stream

abbreviation io_msg :: "io_error \<Rightarrow> msg_error" where
  "io_msg e \<equiv> MsgBody (BodyIO e)"

definition user_Read :: "user_stream \<Rightarrow> nat \<Rightarrow> user_stream \<times> bytes \<times> msg_error option" where
  "user_Read u n = (case src_Read (usSource u) n of (src, b, e) \<Rightarrow> (u\<lparr>usSource := src\<rparr>, b, map_option io_msg e))"

definition limitedReaderSize :: "msg_stream \<Rightarrow> int" where
  "limitedReaderSize s = (case s of FromUser u \<Rightarrow> (case usLimit u of Some n \<Rightarrow> n | None \<Rightarrow> -1) | FromConn _ \<Rightarrow> -1)"

section \<open>Copying\<close>

text \<open>Copy into a byte buffer, with slices of length \<open>k\<close>, until a read fails; \<^verbatim>\<open>io.EOF\<close> is not an error. A read
  may return bytes together with an error.\<close>

partial_function (option) copy_bytes ::
  "('s \<Rightarrow> nat \<Rightarrow> ('s \<times> bytes \<times> msg_error option) option) \<Rightarrow> nat \<Rightarrow> 's \<Rightarrow> bytes \<Rightarrow> ('s \<times> bytes \<times> msg_error option) option" where
  "copy_bytes rd k s acc =
     (case rd s k of
        None \<Rightarrow> None
      | Some (s, b, Some e) \<Rightarrow> Some (s, acc @ b, if e = MsgEOF then None else Some e)
      | Some (s, b, None) \<Rightarrow> copy_bytes rd k s (acc @ b))"

text \<open>Copy into a writer; the number of bytes written is part of the result.\<close>

partial_function (option) copy_writer ::
  "('s \<Rightarrow> nat \<Rightarrow> ('s \<times> bytes \<times> msg_error option) option) \<Rightarrow> nat \<Rightarrow> bwriter \<Rightarrow> 's \<Rightarrow> int \<Rightarrow>
   (bwriter \<times> 's \<times> int \<times> msg_error option) option" where
  "copy_writer rd k w s n =
     (case rd s k of
        None \<Rightarrow> None
      | Some (s, b, e) \<Rightarrow>
          (case (if b = [] then (w, None) else bw_Write w b) of
             (w, Some x) \<Rightarrow> Some (w, s, n, Some (io_msg x))
           | (w, None) \<Rightarrow>
               (let n = n + int (length b)
                in (case e of
                      Some e \<Rightarrow> Some (w, s, n, if e = MsgEOF then None else Some e)
                    | None \<Rightarrow> copy_writer rd k w s n))))"

definition writeBodyFixedSize ::
  "('s \<Rightarrow> nat \<Rightarrow> ('s \<times> bytes \<times> msg_error option) option) \<Rightarrow> nat \<Rightarrow> bwriter \<Rightarrow> 's \<Rightarrow> int \<Rightarrow> (bwriter \<times> 's \<times> msg_error option) option" where
  "writeBodyFixedSize rd k w s len =
     map_option (\<lambda>(w, s, n, e). (w, s, if n \<noteq> len \<and> e = None then Some (ErrStreamSendSizeNotMatch n len) else e))
       (copy_writer rd k w s 0)"

section \<open>Base64\<close>

definition b64_char :: "nat \<Rightarrow> byte" where
  "b64_char i =
     (if i < 26 then word_of_nat (0x41 + i)
      else if i < 52 then word_of_nat (0x61 + (i - 26))
      else if i < 62 then word_of_nat (0x30 + (i - 52))
      else if i = 62 then 0x2B else 0x2F)"

fun b64_encode :: "bytes \<Rightarrow> bytes" where
  "b64_encode (a # b # c # r) =
     (let v = unat a * 65536 + unat b * 256 + unat c
      in b64_char (v div 262144) # b64_char (v div 4096 mod 64) # b64_char (v div 64 mod 64) # b64_char (v mod 64) # b64_encode r)"
| "b64_encode [a, b] =
     (let v = unat a * 65536 + unat b * 256
      in [b64_char (v div 262144), b64_char (v div 4096 mod 64), b64_char (v div 64 mod 64), 0x3D])"
| "b64_encode [a] =
     (let v = unat a * 65536 in [b64_char (v div 262144), b64_char (v div 4096 mod 64), 0x3D, 0x3D])"
| "b64_encode [] = []"

section \<open>Limited readers\<close>

text \<open>\<^verbatim>\<open>io.LimitReader\<close>: the state of the underlying stream and the number of bytes that may still be read.\<close>

definition limited_Read ::
  "('s \<Rightarrow> nat \<Rightarrow> ('s \<times> bytes \<times> msg_error option) option) \<Rightarrow> 's \<times> int \<Rightarrow> nat \<Rightarrow> (('s \<times> int) \<times> bytes \<times> msg_error option) option" where
  "limited_Read rd x n =
     (case x of (s, left) \<Rightarrow>
        if left \<le> 0 then Some ((s, left), [], Some MsgEOF)
        else map_option (\<lambda>(s, b, e). ((s, left - int (length b)), b, e)) (rd s (if int n > left then nat left else n)))"

section \<open>The environment of a message\<close>

text \<open>What the methods of a message take from outside: the multipart reader and writer of the standard library, the
  sizes of the slices that copying and chunking read into (from a pool of a third party), the capacity of the pooled
  byte buffer a body is kept in, the text of an error, and the package variables that limit the size of pooled
  buffers.\<close>

record 'f msg_env =
  envReadForm :: "breader \<Rightarrow> bytes \<Rightarrow> int \<Rightarrow> breader \<times> 'f option \<times> nat option"
  envMarshalForm :: "'f \<Rightarrow> bytes \<Rightarrow> nat + bytes"
  envCopySize :: nat
  envChunkSize :: nat
  envBodyCap :: nat
  envErrorText :: "msg_error \<Rightarrow> bytes"
  requestBodyPoolSizeLimit :: int

end
