(* ===== verification/RequestMessage.thy ===== *)
theory RequestMessage
  imports Message RequestRoundtrip ResponseRoundtrip "HOL-Library.Monad_Syntax"
begin

text \<open>
  \<^verbatim>\<open>Request\<close> of \<^verbatim>\<open>http.go\<close>: its fields, the URI it caches, its body in all forms (raw bytes, buffer, stream,
  form, post arguments), copying and resetting, and reading and writing whole requests. A method that panics, or
  that copies a stream that never ends, is \<open>None\<close>; \<^verbatim>\<open>writeBodyStream\<close> reports such a panic as an error of its own.
\<close>

section \<open>The request\<close>

definition str100Continue :: bytes where "str100Continue = bs ''100-continue''"
definition strPostArgsContentType :: bytes where "strPostArgsContentType = bs ''application/x-www-form-urlencoded''"
definition strBasicSpace :: bytes where "strBasicSpace = bs ''Basic ''"

text \<open>A retry function is known by its identity only.\<close>

record cliInfo =
  ciReadTimeout :: int
  ciWriteTimeout :: int
  ciMaxAttempts :: int
  ciRetryIf :: "nat option"

definition emptyCliInfo :: cliInfo where
  "emptyCliInfo = \<lparr>ciReadTimeout = 0, ciWriteTimeout = 0, ciMaxAttempts = 0, ciRetryIf = None\<rparr>"

text \<open>\<open>qBody\<close> and \<open>qBodyRaw\<close> are \<open>None\<close> for a nil pointer or slice. \<open>qReader\<close> is the buffered reader of the
  connection: the object that \<^verbatim>\<open>requestStream.reader\<close> points to and that the server goes on reading from.\<close>

record 'f Request =
  qHeader :: RequestHeader
  qUri :: URI
  qBodyStream :: "msg_stream option"
  qBodyRaw :: "bytes option"
  qBody :: "bytes option"
  qMultipartForm :: "'f option"
  qPostArgs :: kvslice
  qMultipartFormBoundary :: bytes
  qTimeout :: int
  qMaxBodySize :: int
  qCliInfo :: "cliInfo option"
  qSecureErrorLogMessage :: bool
  qParsedURI :: bool
  qParsedPostArgs :: bool
  qKeepBodyBuffer :: bool
  qIsTLS :: bool
  qUseHostHeader :: bool
  qDisableRedirectPathNormalizing :: bool
  qDiscardUnReadBodyStream :: bool
  qStreamBody :: bool
  qReader :: breader

definition emptyRequest :: "breader \<Rightarrow> 'f Request" where
  "emptyRequest r =
     \<lparr>qHeader = emptyRequestHeader, qUri = emptyURI, qBodyStream = None, qBodyRaw = None, qBody = None, qMultipartForm = None,
      qPostArgs = emptyArgs, qMultipartFormBoundary = [], qTimeout = 0, qMaxBodySize = 0, qCliInfo = None,
      qSecureErrorLogMessage = False, qParsedURI = False, qParsedPostArgs = False, qKeepBodyBuffer = False, qIsTLS = False,
      qUseHostHeader = False, qDisableRedirectPathNormalizing = False, qDiscardUnReadBodyStream = False,
      qStreamBody = False, qReader = r\<rparr>"

section \<open>Settings of the client\<close>

definition Request_RetryIf :: "'f Request \<Rightarrow> nat option" where
  "Request_RetryIf q = (case qCliInfo q of None \<Rightarrow> None | Some c \<Rightarrow> ciRetryIf c)"

definition Request_SetRetryIf :: "'f Request \<Rightarrow> nat option \<Rightarrow> 'f Request" where
  "Request_SetRetryIf q f =
     (let c = (case qCliInfo q of None \<Rightarrow> emptyCliInfo\<lparr>ciRetryIf := f\<rparr> | Some c \<Rightarrow> c)
      in q\<lparr>qCliInfo := Some (c\<lparr>ciRetryIf := f\<rparr>)\<rparr>)"

definition Request_MaxAttempts :: "'f Request \<Rightarrow> int" where
  "Request_MaxAttempts q = (case qCliInfo q of None \<Rightarrow> 0 | Some c \<Rightarrow> ciMaxAttempts c)"

definition Request_SetMaxAttempts :: "'f Request \<Rightarrow> int \<Rightarrow> 'f Request" where
  "Request_SetMaxAttempts q n =
     q\<lparr>qCliInfo := Some ((case qCliInfo q of None \<Rightarrow> emptyCliInfo | Some c \<Rightarrow> c)\<lparr>ciMaxAttempts := n\<rparr>)\<rparr>"

definition Request_WriteTimeout :: "'f Request \<Rightarrow> int" where
  "Request_WriteTimeout q = (case qCliInfo q of None \<Rightarrow> 0 | Some c \<Rightarrow> ciWriteTimeout c)"

definition Request_ReadTimeout :: "'f Request \<Rightarrow> int" where
  "Request_ReadTimeout q = (case qCliInfo q of None \<Rightarrow> 0 | Some c \<Rightarrow> ciReadTimeout c)"

definition Request_SetWriteTimeout :: "'f Request \<Rightarrow> int \<Rightarrow> 'f Request" where
  "Request_SetWriteTimeout q n =
     q\<lparr>qCliInfo := Some ((case qCliInfo q of None \<Rightarrow> emptyCliInfo | Some c \<Rightarrow> c)\<lparr>ciWriteTimeout := n\<rparr>)\<rparr>"

definition Request_SetReadTimeout :: "'f Request \<Rightarrow> int \<Rightarrow> 'f Request" where
  "Request_SetReadTimeout q n =
     q\<lparr>qCliInfo := Some ((case qCliInfo q of None \<Rightarrow> emptyCliInfo | Some c \<Rightarrow> c)\<lparr>ciReadTimeout := n\<rparr>)\<rparr>"

definition Request_SetTimeout :: "'f Request \<Rightarrow> int \<Rightarrow> 'f Request" where
  "Request_SetTimeout q t = q\<lparr>qTimeout := t\<rparr>"

section \<open>The URI\<close>

definition Request_parseURI :: "'f Request \<Rightarrow> 'f Request \<times> uri_error option" where
  "Request_parseURI q =
     (if qParsedURI q then (q, None)
      else (case URI_parse (qUri q) (RequestHeader_Host (qHeader q)) (RequestHeader_RequestURI (qHeader q)) (qIsTLS q) of
              (u, e) \<Rightarrow> (q\<lparr>qParsedURI := True, qUri := u\<rparr>, e)))"

text \<open>\<^verbatim>\<open>URI\<close> returns a pointer to the URI of the request: the request with its URI parsed.\<close>

definition Request_URI :: "'f Request \<Rightarrow> 'f Request" where
  "Request_URI q = fst (Request_parseURI q)"

definition Request_SetHost :: "'f Request \<Rightarrow> bytes \<Rightarrow> 'f Request" where
  "Request_SetHost q host = (let q = Request_URI q in q\<lparr>qUri := URI_SetHost (qUri q) host\<rparr>)"

definition Request_Host :: "'f Request \<Rightarrow> 'f Request \<times> bytes" where
  "Request_Host q = (let q = Request_URI q in (q, uHost (qUri q)))"

definition Request_SetRequestURI :: "'f Request \<Rightarrow> bytes \<Rightarrow> 'f Request" where
  "Request_SetRequestURI q requestURI =
     q\<lparr>qHeader := RequestHeader_SetRequestURIBytes (qHeader q) requestURI, qParsedURI := False\<rparr>"

definition Request_RequestURI :: "'f Request \<Rightarrow> 'f Request \<times> bytes" where
  "Request_RequestURI q =
     (let q = (if qParsedURI q
               then (case URI_RequestURI (qUri q) of (u, s) \<Rightarrow> Request_SetRequestURI (q\<lparr>qUri := u\<rparr>) s)
               else q)
      in (q, RequestHeader_RequestURI (qHeader q)))"

definition Request_SetURI :: "'f Request \<Rightarrow> URI option \<Rightarrow> 'f Request" where
  "Request_SetURI q newURI =
     (case newURI of
        Some u \<Rightarrow> q\<lparr>qUri := URI_CopyTo u (qUri q), qParsedURI := True\<rparr>
      | None \<Rightarrow> q\<lparr>qUri := URI_Reset (qUri q), qParsedURI := False\<rparr>)"

section \<open>The body\<close>

definition Request_bodyBytes :: "'f Request \<Rightarrow> bytes" where
  "Request_bodyBytes q =
     (case qBodyRaw q of Some b \<Rightarrow> b | None \<Rightarrow> (case qBody q of Some b \<Rightarrow> b | None \<Rightarrow> []))"

text \<open>\<^verbatim>\<open>bodyBuffer\<close> makes sure that there is a buffer and forgets the raw body.\<close>

definition Request_bodyBuffer :: "'f Request \<Rightarrow> 'f Request" where
  "Request_bodyBuffer q = q\<lparr>qBody := Some (case qBody q of Some b \<Rightarrow> b | None \<Rightarrow> []), qBodyRaw := None\<rparr>"

text \<open>\<^verbatim>\<open>Read\<close> of the body stream.\<close>

definition Request_stream_Read :: "'f Request \<Rightarrow> nat \<Rightarrow> ('f Request \<times> bytes \<times> msg_error option) option" where
  "Request_stream_Read q n =
     (case qBodyStream q of
        None \<Rightarrow> None
      | Some (FromUser u) \<Rightarrow> (case user_Read u n of (u, b, e) \<Rightarrow> Some (q\<lparr>qBodyStream := Some (FromUser u)\<rparr>, b, e))
      | Some (FromConn s) \<Rightarrow>
          map_option (\<lambda>(h, s, r, b, e). (q\<lparr>qHeader := h, qBodyStream := Some (FromConn s), qReader := r\<rparr>, b, e))
            (body_stream_Read rqContentLength RequestHeader_ReadTrailer (qHeader q) s (qReader q) n))"

definition Request_closeBodyStream :: "'f msg_env \<Rightarrow> 'f Request \<Rightarrow> ('f Request \<times> msg_error option) option" where
  "Request_closeBodyStream E q =
     (case qBodyStream q of
        None \<Rightarrow> Some (q, None)
      | Some (FromUser u) \<Rightarrow> Some (q\<lparr>qBodyStream := None\<rparr>, map_option io_msg (usClose u))
      | Some (FromConn (RequestStream rs)) \<Rightarrow>
          if qDiscardUnReadBodyStream q
          then map_option (\<lambda>(q, _, e). (q\<lparr>qBodyStream := None\<rparr>, e)) (copy_bytes Request_stream_Read (envCopySize E) q [])
          else Some (q\<lparr>qBodyStream := None\<rparr>, None)
      | Some (FromConn _) \<Rightarrow> Some (q\<lparr>qBodyStream := None\<rparr>, None))"

definition Request_RemoveMultipartFormFiles :: "'f Request \<Rightarrow> 'f Request" where
  "Request_RemoveMultipartFormFiles q = q\<lparr>qMultipartForm := None, qMultipartFormBoundary := []\<rparr>"

definition Request_ResetBody :: "'f msg_env \<Rightarrow> 'f Request \<Rightarrow> 'f Request option" where
  "Request_ResetBody E q =
     (let q = q\<lparr>qBodyRaw := None, qPostArgs := resetArgs (qPostArgs q)\<rparr>;
          q = Request_RemoveMultipartFormFiles q
      in map_option (\<lambda>(q, _). case qBody q of
            None \<Rightarrow> q
          | Some _ \<Rightarrow> q\<lparr>qBody := (if qKeepBodyBuffer q then Some [] else None)\<rparr>)
           (Request_closeBodyStream E q))"

definition Request_SetBodyStream :: "'f msg_env \<Rightarrow> 'f Request \<Rightarrow> user_stream \<Rightarrow> int \<Rightarrow> 'f Request option" where
  "Request_SetBodyStream E q u bodySize =
     do { q \<leftarrow> Request_ResetBody E q;
          h \<leftarrow> RequestHeader_SetContentLength (qHeader q) bodySize;
          Some (q\<lparr>qBodyStream := Some (FromUser u), qHeader := h\<rparr>) }"

text \<open>\<^verbatim>\<open>SetBody\<close> and \<^verbatim>\<open>AppendBody\<close> drop a form and a stream first.\<close>

definition Request_drop_other :: "'f msg_env \<Rightarrow> 'f Request \<Rightarrow> 'f Request option" where
  "Request_drop_other E q =
     (let q = (if qMultipartForm q \<noteq> None then Request_RemoveMultipartFormFiles q else q)
      in map_option (\<lambda>(q, _). q\<lparr>qBodyRaw := None\<rparr>) (Request_closeBodyStream E q))"

definition Request_AppendBody :: "'f msg_env \<Rightarrow> 'f Request \<Rightarrow> bytes \<Rightarrow> 'f Request option" where
  "Request_AppendBody E q p =
     do { q \<leftarrow> Request_drop_other E q;
          let q = Request_bodyBuffer q;
          Some (q\<lparr>qBody := Some (the (qBody q) @ p)\<rparr>) }"

definition Request_SetBody :: "'f msg_env \<Rightarrow> 'f Request \<Rightarrow> bytes \<Rightarrow> 'f Request option" where
  "Request_SetBody E q body =
     do { q \<leftarrow> Request_drop_other E q;
          Some ((Request_bodyBuffer q)\<lparr>qBody := Some body\<rparr>) }"

definition Request_SetBodyRaw :: "'f msg_env \<Rightarrow> 'f Request \<Rightarrow> bytes \<Rightarrow> 'f Request option" where
  "Request_SetBodyRaw E q body = do { q \<leftarrow> Request_ResetBody E q; Some (q\<lparr>qBodyRaw := Some body\<rparr>) }"

definition Request_ReleaseBody :: "'f msg_env \<Rightarrow> 'f Request \<Rightarrow> int \<Rightarrow> 'f Request option" where
  "Request_ReleaseBody E q sz =
     (let q = q\<lparr>qBodyRaw := None\<rparr>
      in if qBody q = None then Some q
         else if int (envBodyCap E) > sz
         then map_option (\<lambda>(q, _). q\<lparr>qBody := None\<rparr>) (Request_closeBodyStream E q)
         else Some q)"

definition Request_SwapBody :: "'f msg_env \<Rightarrow> 'f Request \<Rightarrow> bytes \<Rightarrow> ('f Request \<times> bytes) option" where
  "Request_SwapBody E q body =
     (let q = Request_bodyBuffer q
      in do { (q, old) \<leftarrow>
                (if qBodyStream q = None then Some (q, the (qBody q))
                 else do { (q, b, e) \<leftarrow> copy_bytes Request_stream_Read (envCopySize E) q [];
                           (q, _) \<leftarrow> Request_closeBodyStream E q;
                           Some (q, case e of None \<Rightarrow> b | Some e \<Rightarrow> envErrorText E e) });
              Some (q\<lparr>qBodyRaw := None, qBody := Some body\<rparr>, old) })"

definition Request_onlyMultipartForm :: "'f Request \<Rightarrow> bool" where
  "Request_onlyMultipartForm q \<longleftrightarrow> qMultipartForm q \<noteq> None \<and> (qBody q = None \<or> qBody q = Some [])"

text \<open>The body of a request whose post arguments are settled: \<^verbatim>\<open>BodyWithError\<close> after \<^verbatim>\<open>parsePostArgs\<close> has set its flag.\<close>

definition Request_body_settled :: "'f msg_env \<Rightarrow> 'f Request \<Rightarrow> ('f Request \<times> bytes \<times> msg_error option) option" where
  "Request_body_settled E q =
     (if qBodyStream q \<noteq> None
      then do { let q = (Request_bodyBuffer q)\<lparr>qBody := Some []\<rparr>;
                (q, b, e) \<leftarrow>
                  (if qMaxBodySize q > 0
                   then map_option (\<lambda>((q, _), b, e). (q, b, e))
                          (copy_bytes (limited_Read Request_stream_Read) (envCopySize E) (q, qMaxBodySize q) [])
                   else copy_bytes Request_stream_Read (envCopySize E) q []);
                (q, er) \<leftarrow> Request_closeBodyStream E (q\<lparr>qBody := Some b\<rparr>);
                Some (q, Request_bodyBytes q, case e of None \<Rightarrow> er | Some e \<Rightarrow> Some e) }
      else if Request_bodyBytes q \<noteq> [] then Some (q, Request_bodyBytes q, None)
      else if Request_onlyMultipartForm q
      then (case envMarshalForm E (the (qMultipartForm q)) (qMultipartFormBoundary q) of
              Inl e \<Rightarrow> Some (q, [], Some (MsgForm e))
            | Inr b \<Rightarrow> Some (q, b, None))
      else Some (q, QueryString (qPostArgs q), None))"

text \<open>\<^verbatim>\<open>Body\<close> returns the text of an error, behind what the buffer holds.\<close>

definition body_or_error :: "'f msg_env \<Rightarrow> 'f Request \<times> bytes \<times> msg_error option \<Rightarrow> 'f Request \<times> bytes" where
  "body_or_error E x =
     (case x of
        (q, b, None) \<Rightarrow> (q, b)
      | (q, b, Some e) \<Rightarrow>
          let q = Request_bodyBuffer q; b = the (qBody q) @ envErrorText E e in (q\<lparr>qBody := Some b\<rparr>, b))"

definition Request_parsePostArgs :: "'f msg_env \<Rightarrow> 'f Request \<Rightarrow> 'f Request option" where
  "Request_parsePostArgs E q =
     (if qParsedPostArgs q then Some q
      else let q = q\<lparr>qParsedPostArgs := True\<rparr>
           in if \<not> has_prefix (RequestHeader_ContentType (qHeader q)) strPostArgsContentType then Some q
              else map_option (\<lambda>x. case body_or_error E x of (q, b) \<Rightarrow> q\<lparr>qPostArgs := ParseBytes (qPostArgs q) b\<rparr>)
                     (Request_body_settled E q))"

definition Request_BodyWithError :: "'f msg_env \<Rightarrow> 'f Request \<Rightarrow> ('f Request \<times> bytes \<times> msg_error option) option" where
  "Request_BodyWithError E q =
     (if qBodyStream q = None \<and> Request_bodyBytes q = [] \<and> \<not> Request_onlyMultipartForm q
      then map_option (\<lambda>q. (q, QueryString (qPostArgs q), None)) (Request_parsePostArgs E q)
      else Request_body_settled E q)"

definition Request_Body :: "'f msg_env \<Rightarrow> 'f Request \<Rightarrow> ('f Request \<times> bytes) option" where
  "Request_Body E q = map_option (body_or_error E) (Request_BodyWithError E q)"

section \<open>Resetting and copying\<close>

definition Request_resetSkipHeader :: "'f msg_env \<Rightarrow> 'f Request \<Rightarrow> 'f Request option" where
  "Request_resetSkipHeader E q =
     map_option (\<lambda>q. q\<lparr>qUri := URI_Reset (qUri q), qTimeout := 0, qMaxBodySize := 0, qCliInfo := None,
        qSecureErrorLogMessage := False, qParsedURI := False, qParsedPostArgs := False, qIsTLS := False,
        qUseHostHeader := False, qDiscardUnReadBodyStream := False, qDisableRedirectPathNormalizing := False,
        qStreamBody := False\<rparr>)
       (Request_ResetBody E q)"

definition Request_release_large :: "'f msg_env \<Rightarrow> 'f Request \<Rightarrow> 'f Request option" where
  "Request_release_large E q =
     (if requestBodyPoolSizeLimit E \<ge> 0 \<and> qBody q \<noteq> None then Request_ReleaseBody E q (requestBodyPoolSizeLimit E) else Some q)"

definition Request_Reset :: "'f msg_env \<Rightarrow> 'f Request \<Rightarrow> 'f Request option" where
  "Request_Reset E q =
     do { q \<leftarrow> Request_release_large E q;
          q \<leftarrow> Request_resetSkipHeader E q;
          Some (q\<lparr>qHeader := RequestHeader_Reset (qHeader q)\<rparr>) }"

definition Request_resetForKeepAlive :: "'f msg_env \<Rightarrow> 'f Request \<Rightarrow> 'f Request option" where
  "Request_resetForKeepAlive E q =
     do { q \<leftarrow> Request_release_large E q;
          q \<leftarrow> Request_ResetBody E q;
          Some (q\<lparr>qUri := URI_Reset (qUri q), qMaxBodySize := 0, qParsedURI := False, qParsedPostArgs := False,
                  qHeader := RequestHeader_resetSkipNormalize (qHeader q)\<rparr>) }"

definition Request_copyToSkipBody :: "'f msg_env \<Rightarrow> 'f Request \<Rightarrow> 'f Request \<Rightarrow> 'f Request option" where
  "Request_copyToSkipBody E q dst =
     do { dst \<leftarrow> Request_Reset E dst;
          cli \<leftarrow> (case qCliInfo dst of
                    None \<Rightarrow> Some None
                  | Some _ \<Rightarrow> (case qCliInfo q of None \<Rightarrow> None | Some c \<Rightarrow> Some (Some c)));
          Some (dst\<lparr>qHeader := RequestHeader_CopyTo (qHeader q) (qHeader dst), qUri := URI_CopyTo (qUri q) (qUri dst),
                    qPostArgs := copyArgs (qPostArgs dst) (qPostArgs q), qTimeout := qTimeout q,
                    qMaxBodySize := qMaxBodySize q, qCliInfo := cli,
                    qSecureErrorLogMessage := qSecureErrorLogMessage q, qParsedURI := qParsedURI q,
                    qParsedPostArgs := qParsedPostArgs q, qKeepBodyBuffer := qKeepBodyBuffer q, qIsTLS := qIsTLS q,
                    qUseHostHeader := qUseHostHeader q,
                    qDisableRedirectPathNormalizing := qDisableRedirectPathNormalizing q,
                    qDiscardUnReadBodyStream := qDiscardUnReadBodyStream q, qStreamBody := qStreamBody q\<rparr>) }"

definition Request_CopyTo :: "'f msg_env \<Rightarrow> 'f Request \<Rightarrow> 'f Request \<Rightarrow> 'f Request option" where
  "Request_CopyTo E q dst =
     do { dst \<leftarrow> Request_copyToSkipBody E q dst;
          let dst = (case qBodyRaw q of Some b \<Rightarrow> dst\<lparr>qBodyRaw := (if b = [] then qBodyRaw dst else Some b)\<rparr> | None \<Rightarrow> dst);
          Some (case qBody q of
                  Some b \<Rightarrow> (Request_bodyBuffer dst)\<lparr>qBody := Some b\<rparr>
                | None \<Rightarrow> dst\<lparr>qBody := None\<rparr>) }"

section \<open>Reading\<close>

definition Request_MayContinue :: "'f Request \<Rightarrow> bool" where
  "Request_MayContinue q \<longleftrightarrow> RequestHeader_peek (qHeader q) strExpect = str100Continue"

definition Request_readBody :: "'f msg_env \<Rightarrow> 'f Request \<Rightarrow> int \<Rightarrow> int \<Rightarrow> ('f Request \<times> msg_error option) option" where
  "Request_readBody E q contentLength maxBodySize =
     (if contentLength = 0 then Some (q, None)
      else
        let q = Request_bodyBuffer q;
            eof = (\<lambda>e. map_option (\<lambda>e. MsgBody (if e = BodyIO EOF then ErrUnexpectedReqBodyEOF else e)) e)
        in if contentLength > 0
           then do { (r, b, e) \<leftarrow> readBody (qReader q) contentLength maxBodySize [];
                     Some (q\<lparr>qReader := r, qBody := Some b\<rparr>, eof e) }
           else if contentLength = -1
           then do { (r, b, e) \<leftarrow> readBodyChunked (qReader q) maxBodySize [];
                     h \<leftarrow> (if e = None \<and> b = [] then RequestHeader_SetContentLength (qHeader q) 0 else Some (qHeader q));
                     Some (q\<lparr>qReader := r, qBody := Some b, qHeader := h\<rparr>, eof e) }
           else do { (r, b, e) \<leftarrow> readBodyIdentity (qReader q) maxBodySize (envBodyCap E);
                     h \<leftarrow> RequestHeader_SetContentLength (qHeader q) (int (length b));
                     Some (q\<lparr>qReader := r, qBody := Some b, qHeader := h\<rparr>, eof e) })"

text \<open>The boundary of a multipart form that is to be parsed while it is read.\<close>

definition pre_parse_boundary :: "'f Request \<Rightarrow> bytes" where
  "pre_parse_boundary q = (case RequestHeader_MultipartFormBoundary (qHeader q) of Some b \<Rightarrow> b | None \<Rightarrow> [])"

definition Request_ReadBody :: "'f msg_env \<Rightarrow> 'f Request \<Rightarrow> int \<Rightarrow> bool \<Rightarrow> ('f Request \<times> msg_error option) option" where
  "Request_ReadBody E q maxBodySize preParseMultipartForm =
     (let contentLength = rqContentLength (qHeader q)
      in if contentLength = 0 then Some (q, None)
         else if contentLength > 0 \<and> maxBodySize > 0 \<and> contentLength > maxBodySize
         then Some (q, Some (MsgBody ErrBodyTooLarge))
         else
           let pre = (contentLength > 0 \<and> preParseMultipartForm);
               q = (if pre then q\<lparr>qMultipartFormBoundary := pre_parse_boundary q\<rparr> else q)
           in if pre \<and> qMultipartFormBoundary q \<noteq> [] \<and> RequestHeader_peek (qHeader q) strContentEncoding = []
              then (case envReadForm E (qReader q) (qMultipartFormBoundary q) contentLength of
                      (r, f, e) \<Rightarrow> Some (q\<lparr>qReader := r, qMultipartForm := f\<rparr>, map_option MsgForm e))
              else do { (q, e) \<leftarrow> Request_readBody E q contentLength maxBodySize;
                        if e \<noteq> None \<or> contentLength \<noteq> -1 then Some (q, e)
                        else do { (h, r, e) \<leftarrow> RequestHeader_ReadTrailer (qHeader q) (qReader q);
                                  Some (q\<lparr>qHeader := h, qReader := r\<rparr>, map_option MsgHeader e) } })"

definition Request_ReadBodyStream :: "'f msg_env \<Rightarrow> 'f Request \<Rightarrow> int \<Rightarrow> bool \<Rightarrow> ('f Request \<times> msg_error option) option" where
  "Request_ReadBodyStream E q maxBodySize preParseMultipartForm =
     (let contentLength = rqContentLength (qHeader q)
      in if contentLength = 0 then Some (q\<lparr>qBodyStream := Some (FromConn EmptyStream)\<rparr>, None)
         else
           let pre = (contentLength > 0 \<and> preParseMultipartForm);
               q = (if pre then q\<lparr>qMultipartFormBoundary := pre_parse_boundary q\<rparr> else q)
           in if pre \<and> qMultipartFormBoundary q \<noteq> [] \<and> RequestHeader_peek (qHeader q) strContentEncoding = []
              then (case envReadForm E (qReader q) (qMultipartFormBoundary q) contentLength of
                      (r, f, e) \<Rightarrow> Some (q\<lparr>qReader := r, qMultipartForm := f\<rparr>, map_option MsgForm e))
              else do { let q = (Request_bodyBuffer q)\<lparr>qBody := Some []\<rparr>;
                        (r, s, e) \<leftarrow> build_stream ErrUnexpectedReqBodyEOF (qReader q) contentLength maxBodySize;
                        Some (q\<lparr>qReader := r, qBodyStream := (case s of Some s \<Rightarrow> Some (FromConn s) | None \<Rightarrow> qBodyStream q)\<rparr>,
                              map_option MsgBody e) })"

definition Request_ReadLimit :: "'f msg_env \<Rightarrow> 'f Request \<Rightarrow> int \<Rightarrow> ('f Request \<times> msg_error option) option" where
  "Request_ReadLimit E q maxBodySize =
     do { let q = q\<lparr>qParsedURI := False, qParsedPostArgs := False\<rparr>;
          (h, r, e) \<leftarrow> RequestHeader_Read (qHeader q) (qReader q);
          let q = q\<lparr>qHeader := h, qReader := r\<rparr>;
          if e \<noteq> None then Some (q, map_option MsgHeader e)
          else do { q \<leftarrow> Request_ResetBody E q;
                    if Request_MayContinue q then Some (q, None)
                    else if qStreamBody q then Request_ReadBodyStream E q maxBodySize True
                    else Request_ReadBody E q maxBodySize True } }"

section \<open>Writing\<close>

definition basic_auth :: "URI \<Rightarrow> bytes" where
  "basic_auth u = strBasicSpace @ b64_encode (uUsername u @ [0x3A] @ uPassword u)"

text \<open>The part of \<^verbatim>\<open>Write\<close> that brings the URI into the header.\<close>

definition Request_apply_uri :: "'f Request \<Rightarrow> 'f Request \<times> msg_error option" where
  "Request_apply_uri q =
     (if RequestHeader_Host (qHeader q) = [] \<or> qParsedURI q
      then
        let q = Request_URI q; host = uHost (qUri q); headHost = RequestHeader_Host (qHeader q)
        in if host = [] \<and> headHost = [] then (q, Some errRequestHostRequired)
           else
             let h = qHeader q;
                 h = (if \<not> qUseHostHeader q \<or> headHost = [] then RequestHeader_SetHostBytes h host else h);
                 (u, s) = URI_RequestURI (qUri q);
                 h = RequestHeader_SetRequestURIBytes h s;
                 h = (if uUsername u \<noteq> [] then RequestHeader_SetBytesKV h strAuthorization (basic_auth u) else h)
             in (q\<lparr>qUri := u, qHeader := h\<rparr>, None)
      else (q, None))"

definition Request_writeBodyStream :: "'f msg_env \<Rightarrow> bwriter \<Rightarrow> 'f Request \<Rightarrow> (bwriter \<times> 'f Request \<times> msg_error option) option" where
  "Request_writeBodyStream E w q =
     do { let contentLength = rqContentLength (qHeader q);
          let lrSize = limitedReaderSize (the (qBodyStream q));
          (q, contentLength) \<leftarrow>
            (if contentLength < 0 \<and> lrSize \<ge> 0
             then map_option (\<lambda>h. (q\<lparr>qHeader := h\<rparr>, lrSize)) (RequestHeader_SetContentLength (qHeader q) lrSize)
             else Some (q, contentLength));
          (w, q, e) \<leftarrow>
            (if contentLength \<ge> 0
             then (case RequestHeader_Header (qHeader q) of
                     (h, text) \<Rightarrow>
                       (case bw_Write w text of
                          (w, Some x) \<Rightarrow> Some (w, q\<lparr>qHeader := h\<rparr>, Some (io_msg x))
                        | (w, None) \<Rightarrow>
                            if contentLength > 0
                            then writeBodyFixedSize Request_stream_Read (envCopySize E) w (q\<lparr>qHeader := h\<rparr>) contentLength
                            else Some (w, q\<lparr>qHeader := h\<rparr>, None)))
             else do { h \<leftarrow> RequestHeader_SetContentLength (qHeader q) (-1);
                       let (h, text) = RequestHeader_Header h;
                       (case bw_Write w text of
                          (w, Some x) \<Rightarrow> Some (w, q\<lparr>qHeader := h\<rparr>, Some (io_msg x))
                        | (w, None) \<Rightarrow>
                            do { (w, q, e) \<leftarrow>
                                   writeBodyChunked Request_stream_Read MsgEOF io_msg (envChunkSize E) w (q\<lparr>qHeader := h\<rparr>);
                                 if e \<noteq> None then Some (w, q, e)
                                 else (case RequestHeader_TrailerHeader (qHeader q) of
                                         (h, t) \<Rightarrow> (case bw_Write w t of
                                                      (w, x) \<Rightarrow> Some (w, q\<lparr>qHeader := h\<rparr>, map_option io_msg x))) }) });
          (q, errc) \<leftarrow> Request_closeBodyStream E q;
          Some (w, q, case e of Some e \<Rightarrow> Some e | None \<Rightarrow> errc) }"

definition Request_Write :: "'f msg_env \<Rightarrow> bwriter \<Rightarrow> 'f Request \<Rightarrow> (bwriter \<times> 'f Request \<times> msg_error option) option" where
  "Request_Write E w q =
     (case Request_apply_uri q of
        (q, Some e) \<Rightarrow> Some (w, q, Some e)
      | (q, None) \<Rightarrow>
          if qBodyStream q \<noteq> None then Request_writeBodyStream E w q
          else
            (case (if Request_onlyMultipartForm q
                   then (case envMarshalForm E (the (qMultipartForm q)) (qMultipartFormBoundary q) of
                           Inl e \<Rightarrow> Inl e
                         | Inr b \<Rightarrow> Inr (q\<lparr>qHeader := RequestHeader_SetMultipartFormBoundary (qHeader q) (qMultipartFormBoundary q)\<rparr>, b))
                   else Inr (q, Request_bodyBytes q)) of
               Inl e \<Rightarrow> Some (w, q, Some (MsgForm e))
             | Inr (q, body) \<Rightarrow>
                 let args = QueryString (qPostArgs q);
                     (q, body) = (if body = []
                                  then (if args \<noteq> [] then q\<lparr>qHeader := RequestHeader_SetContentTypeBytes (qHeader q) strPostArgsContentType\<rparr> else q, args)
                                  else (q, body));
                     hasBody = (body \<noteq> [] \<or> \<not> RequestHeader_ignoreBody (qHeader q))
                 in do { h \<leftarrow> (if hasBody then RequestHeader_SetContentLength (qHeader q) (int (length body)) else Some (qHeader q));
                         let (h, text) = RequestHeader_Header h;
                         let q = q\<lparr>qHeader := h\<rparr>;
                         (case bw_Write w text of
                            (w, Some x) \<Rightarrow> Some (w, q, Some (io_msg x))
                          | (w, None) \<Rightarrow>
                              if hasBody \<and> body \<noteq> []
                              then (case bw_Write w body of (w, x) \<Rightarrow> Some (w, q, map_option io_msg x))
                              else Some (w, q, None)) }))"

section \<open>Whole requests: what is written is read back\<close>

lemma request_length_set:
  assumes "0 \<le> n" "n < 2 ^ 63"
  shows "RequestHeader_SetContentLength h n =
           Some (h\<lparr>rqContentLength := n, rqContentLengthBytes := dec_digits (nat n), rqH := delAllArgs (rqH h) strTransferEncoding\<rparr>)"
  using assms AppendUint_eq [of n "[]"] by (simp add: RequestHeader_SetContentLength_def)

text \<open>The body that \<^verbatim>\<open>Write\<close> sends (without a stream or a form) and the header in front of it.\<close>

definition sent_body :: "'f Request \<Rightarrow> bytes" where
  "sent_body q = (if Request_bodyBytes q = [] then QueryString (qPostArgs q) else Request_bodyBytes q)"

definition sent_header :: "'f Request \<Rightarrow> RequestHeader" where
  "sent_header q =
     (let h = (if Request_bodyBytes q = [] \<and> sent_body q \<noteq> [] then RequestHeader_SetContentTypeBytes (qHeader q) strPostArgsContentType else qHeader q);
          n = length (sent_body q)
      in if sent_body q \<noteq> [] \<or> \<not> RequestHeader_ignoreBody h
         then h\<lparr>rqContentLength := int n, rqContentLengthBytes := dec_digits n, rqH := delAllArgs (rqH h) strTransferEncoding\<rparr>
         else h)"

definition sent_text :: "'f Request \<Rightarrow> bytes" where
  "sent_text q = RequestHeader_AppendBytes (sent_header q) []"

text \<open>Requests with a host in the header and a body in memory, whose header is printable, that do not ask for
  permission to continue and are not forms; a request that is sent without a body says nothing about a length.\<close>

definition sendable :: "'f Request \<Rightarrow> bool" where
  "sendable q \<longleftrightarrow>
     qBodyStream q = None \<and> qMultipartForm q = None \<and> \<not> qParsedURI q \<and> rqHost (qHeader q) \<noteq> [] \<and>
     printable (qHeader q) \<and> int (length (sent_body q)) \<le> maxAlloc \<and>
     peek_bytes (rqH (qHeader q)) strExpect \<noteq> str100Continue \<and>
     multipart_boundary (printed_type (sent_header q)) = None \<and>
     (sent_body q = [] \<and> RequestHeader_ignoreBody (qHeader q) \<longrightarrow> rqContentLengthBytes (qHeader q) = [])"

definition receiver :: "'f Request \<Rightarrow> bool" where
  "receiver q \<longleftrightarrow>
     qBodyStream q = None \<and> \<not> qStreamBody q \<and> \<not> rqDisableSpecialHeader (qHeader q) \<and> \<not> rqDisableNormalizing (qHeader q) \<and>
     br_live (qReader q)"

definition same_request :: "'f Request \<Rightarrow> 'f Request \<Rightarrow> bool" where
  "same_request q q' \<longleftrightarrow>
     (let h = sent_header q; h' = qHeader q'
      in rqMethod h' = RequestHeader_Method h \<and> rqRequestURI h' = RequestHeader_RequestURI h \<and> rqProto h' = RequestHeader_Protocol h \<and>
         rqHost h' = rqHost h \<and> rqUserAgent h' = rqUserAgent h \<and> rqContentType h' = printed_type h \<and>
         rqConnectionClose h' = rqConnectionClose h \<and>
         kv_pairs (live (rqH (collectCookies h'))) = kv_pairs (live (rqH h)) \<and>
         kv_pairs (live (rqCookies (collectCookies h'))) = kv_pairs (live (rqCookies h)) \<and>
         Request_bodyBytes q' = sent_body q)"

lemma Write_after_uri:
  assumes u: "Request_apply_uri q0 = (q, None)" and q: "qBodyStream q = None" "qMultipartForm q = None" "int (length (sent_body q)) \<le> maxAlloc"
    and w: "bw_live w"
  shows "\<exists>w' q'. Request_Write E w q0 = Some (w', q', None) \<and> bw_all w' = bw_all w @ sent_text q @ sent_body q \<and> bw_live w'"
proof -
  let ?h = "if Request_bodyBytes q = [] \<and> sent_body q \<noteq> [] then RequestHeader_SetContentTypeBytes (qHeader q) strPostArgsContentType else qHeader q"
  let ?body = "sent_body q"
  have n: "int (length ?body) < 2 ^ 63" using q by (simp add: maxAlloc_def)
  have s: "(if ?body \<noteq> [] \<or> \<not> RequestHeader_ignoreBody ?h then RequestHeader_SetContentLength ?h (int (length ?body)) else Some ?h) = Some (sent_header q)"
    using request_length_set [OF _ n, of ?h] by (simp add: sent_header_def Let_def)
  from Write_live [OF w, of "sent_text q"] obtain w1 where w1: "bw_Write w (sent_text q) = (w1, None)" "bw_all w1 = bw_all w @ sent_text q" "bw_live w1" by blast
  from Write_live [OF w1(3), of ?body] obtain w2 where w2: "bw_Write w1 ?body = (w2, None)" "bw_all w2 = bw_all w1 @ ?body" "bw_live w2" by blast
  obtain h where h: "RequestHeader_Header (sent_header q) = (h, sent_text q)"
    by (simp add: RequestHeader_Header_def sent_text_def Let_def)
  let ?q = "(if Request_bodyBytes q = [] \<and> ?body \<noteq> [] then q\<lparr>qHeader := ?h\<rparr> else q)"
  have qh: "qHeader ?q = ?h" by simp
  have "Request_Write E w q0 =
      do { h \<leftarrow> (if ?body \<noteq> [] \<or> \<not> RequestHeader_ignoreBody ?h then RequestHeader_SetContentLength ?h (int (length ?body)) else Some ?h);
           let (h, text) = RequestHeader_Header h;
           let q = ?q\<lparr>qHeader := h\<rparr>;
           (case bw_Write w text of
              (w, Some x) \<Rightarrow> Some (w, q, Some (io_msg x))
            | (w, None) \<Rightarrow>
                if (?body \<noteq> [] \<or> \<not> RequestHeader_ignoreBody ?h) \<and> ?body \<noteq> []
                then (case bw_Write w ?body of (w, x) \<Rightarrow> Some (w, q, map_option io_msg x))
                else Some (w, q, None)) }"
    using q unfolding Request_Write_def u by (simp add: Request_onlyMultipartForm_def sent_body_def Let_def)
  then have "\<exists>q'. Request_Write E w q0 = Some (if ?body \<noteq> [] then w2 else w1, q', None)"
    unfolding s by (simp add: h w1(1) w2(1))
  then show ?thesis using w1 w2 by (cases "?body = []") auto
qed

lemma Write_sendable:
  assumes q: "sendable q" and w: "bw_live w"
  shows "\<exists>w' q'. Request_Write E w q = Some (w', q', None) \<and> bw_all w' = bw_all w @ sent_text q @ sent_body q \<and> bw_live w'"
proof (rule Write_after_uri [OF _ _ _ _ w])
  show "Request_apply_uri q = (q, None)"
    using q by (simp add: Request_apply_uri_def sendable_def printable_def RequestHeader_Host_def)
qed (use q in \<open>simp_all add: sendable_def\<close>)

lemma ResetBody_plain:
  assumes "qBodyStream q = None"
  shows "\<exists>q'. Request_ResetBody E q = Some q' \<and> Request_bodyBytes q' = [] \<and> qHeader q' = qHeader q \<and> qReader q' = qReader q \<and>
           qBodyStream q' = None \<and> qStreamBody q' = qStreamBody q"
  using assms
  by (auto simp: Request_ResetBody_def Request_RemoveMultipartFormFiles_def Request_closeBodyStream_def Request_bodyBytes_def Let_def
      split: option.splits)

lemma peekArgBytes_pairs: "peekArgBytes kvs k = map_of (kv_pairs kvs) k"
  by (induction kvs) auto

text \<open>An \<^verbatim>\<open>Expect\<close> or \<^verbatim>\<open>Content-Encoding\<close> line is found among the headers as it was, since the cookies that stand
  behind them have another name.\<close>

lemma peek_sent:
  assumes "kv_pairs (live (rqH h')) = kv_pairs (live (rqH h)) @ cookie_line h" "k \<noteq> strCookie"
  shows "peek_bytes (rqH h') k = peek_bytes (rqH h) k"
  using assms by (auto simp: peek_bytes_def peekArgBytes_pairs cookie_line_def map_add_def split: option.splits)

lemma request_line_kept:
  "RequestHeader_Method (h\<lparr>rqContentType := t\<rparr>) = RequestHeader_Method h"
  "RequestHeader_RequestURI (h\<lparr>rqContentType := t\<rparr>) = RequestHeader_RequestURI h"
  "RequestHeader_Protocol (h\<lparr>rqContentType := t\<rparr>) = RequestHeader_Protocol h"
  "RequestHeader_Method (h\<lparr>rqContentLength := n, rqContentLengthBytes := b, rqH := kvs\<rparr>) = RequestHeader_Method h"
  "RequestHeader_RequestURI (h\<lparr>rqContentLength := n, rqContentLengthBytes := b, rqH := kvs\<rparr>) = RequestHeader_RequestURI h"
  "RequestHeader_Protocol (h\<lparr>rqContentLength := n, rqContentLengthBytes := b, rqH := kvs\<rparr>) = RequestHeader_Protocol h"
  by (simp_all add: RequestHeader_Method_def RequestHeader_RequestURI_def RequestHeader_Protocol_def)

lemma printable_type: "printable h \<Longrightarrow> value_ok t \<Longrightarrow> printable (RequestHeader_SetContentTypeBytes h t)"
  by (simp add: printable_def RequestHeader_SetContentTypeBytes_def request_line_kept)

lemma printable_length:
  assumes "printable h" "n < 2 ^ 63"
  shows "printable (h\<lparr>rqContentLength := int n, rqContentLengthBytes := dec_digits n, rqH := delAllArgs (rqH h) strTransferEncoding\<rparr>)"
proof -
  have "list_all field_ok (kv_pairs (live (delAllArgs (rqH h) k)))" for k
    using assms(1) unfolding live_delAllArgs kv_pairs_filter [of "\<lambda>x. x \<noteq> k"] printable_def list_all_iff by simp
  then show ?thesis
    using assms(1) value_ok_digits parseContentLength_digits [OF assms(2)]
    by (simp add: printable_def request_line_kept del: live_delAllArgs dec_digits.simps)
qed

lemma printable_sent:
  assumes "printable (qHeader q)" "int (length (sent_body q)) \<le> maxAlloc"
  shows "printable (sent_header q)"
proof -
  have n: "length (sent_body q) < 2 ^ 63" using assms by (simp add: maxAlloc_def)
  have v: "value_ok strPostArgsContentType"
    by (simp add: value_ok_def line_value_def strPostArgsContentType_def validHeaderValueByte_def validHeaderValueByteTable_def)
  show ?thesis
    unfolding sent_header_def Let_def
    using printable_length [OF _ n] printable_type [OF assms(1) v] assms(1) by simp
qed

lemma sent_expect: "peek_bytes (rqH (sent_header q)) strExpect = peek_bytes (rqH (qHeader q)) strExpect"
  by (simp add: sent_header_def RequestHeader_SetContentTypeBytes_def peek_bytes_def live_delAllArgs peekArgBytes_filter hdr_names Let_def)

lemma sent_length:
  assumes "sendable q"
  shows "printed_length (sent_header q) = int (length (sent_body q))"
proof -
  have n: "length (sent_body q) < 2 ^ 63" using assms by (simp add: sendable_def maxAlloc_def)
  have "rqContentLengthBytes (sent_header q) = dec_digits (length (sent_body q)) \<or>
      rqContentLengthBytes (sent_header q) = [] \<and> sent_body q = []"
    using assms by (auto simp: sendable_def sent_header_def Let_def)
  then show ?thesis using parseContentLength_digits [OF n]
    by (elim disjE) (simp_all add: printed_length_def dec_digits_not_Nil del: dec_digits.simps)
qed

lemma Read_sent_body:
  assumes q: "qBodyStream q = None" "Request_bodyBytes q = []" "br_live (qReader q)" "pending (qReader q) = b @ p"
    and n: "rqContentLength (qHeader q) = int (length b)" "int (length b) \<le> maxAlloc" "m \<le> 0 \<or> int (length b) \<le> m"
    and f: "pre_parse_boundary q = []"
  shows "\<exists>q'. Request_ReadBody E q m True = Some (q', None) \<and> Request_bodyBytes q' = b \<and> qHeader q' = qHeader q \<and>
           qBodyStream q' = None \<and> qStreamBody q' = qStreamBody q \<and> br_live (qReader q') \<and> pending (qReader q') = p \<and>
           brSize (qReader q') = brSize (qReader q) \<and> brEnd (qReader q') = brEnd (qReader q)"
proof (cases "b = []")
  case True
  then show ?thesis using q n by (simp add: Request_ReadBody_def)
next
  case False
  then have l: "0 < int (length b)" by simp
  from append_exact [OF q(3) l, of "[]"] q(4) n(2) obtain r where
    r: "appendBodyFixedSize (qReader q) [] (int (length b)) = Some (r, b, None)" "pending r = p" "br_live r" "brEnd r = brEnd (qReader q)" by auto
  have s: "brSize r = brSize (qReader q)" using append_size [OF r(1)] by simp
  have "readBody (qReader q) (int (length b)) m [] = Some (r, b, None)"
    using r n(3) by (auto simp: Body.readBody_def)
  then show ?thesis
    using q n f False r s
    by (auto simp: Request_ReadBody_def Request_readBody_def Request_bodyBuffer_def Request_bodyBytes_def Let_def split: option.splits)
qed

lemma Read_sent:
  assumes q: "sendable q" "m \<le> 0 \<or> int (length (sent_body q)) \<le> m" and g: "receiver g"
    and r: "pending (qReader g) = sent_text q @ sent_body q @ p" "length (sent_text q) \<le> brSize (qReader g)"
  shows "\<exists>g'. Request_ReadLimit E g m = Some (g', None) \<and> same_request q g' \<and> receiver g' \<and> pending (qReader g') = p \<and>
           brSize (qReader g') = brSize (qReader g)"
proof -
  let ?h = "sent_header q"
  have h: "printable ?h" using q by (simp add: sendable_def printable_sent)
  from request_header_read [OF h, of "qHeader g" "qReader g" "sent_body q @ p"] g r obtain h' r' where
    R: "RequestHeader_Read (qHeader g) (qReader g) = Some (h', r', None)" "pending r' = sent_body q @ p" "br_live r'"
      "brSize r' = brSize (qReader g)" "rqContentLength h' = printed_length ?h"
      "kv_pairs (live (rqH h')) = kv_pairs (live (rqH ?h)) @ cookie_line ?h" "\<not> rqDisableSpecialHeader h'" "\<not> rqDisableNormalizing h'"
    and F: "rqMethod h' = RequestHeader_Method ?h" "rqRequestURI h' = RequestHeader_RequestURI ?h" "rqProto h' = RequestHeader_Protocol ?h"
      "rqHost h' = rqHost ?h" "rqUserAgent h' = rqUserAgent ?h" "rqContentType h' = printed_type ?h"
      "rqConnectionClose h' = rqConnectionClose ?h" "kv_pairs (live (rqH (collectCookies h'))) = kv_pairs (live (rqH ?h))"
      "kv_pairs (live (rqCookies (collectCookies h'))) = kv_pairs (live (rqCookies ?h))"
    unfolding receiver_def sent_text_def by blast
  let ?g = "g\<lparr>qParsedURI := False, qParsedPostArgs := False, qHeader := h', qReader := r'\<rparr>"
  from ResetBody_plain [of ?g E] g obtain g1 where
    G: "Request_ResetBody E ?g = Some g1" "Request_bodyBytes g1 = []" "qHeader g1 = h'" "qReader g1 = r'"
      "qBodyStream g1 = None" "qStreamBody g1 = qStreamBody g" by (auto simp: receiver_def)
  have "RequestHeader_peek h' strExpect = peek_bytes (rqH h') strExpect"
    by (simp add: RequestHeader_peek_def RequestHeader_peekSpecial_def hdr_names Let_def)
  moreover have "strExpect \<noteq> strCookie" by (simp add: hdr_names)
  ultimately have e: "\<not> Request_MayContinue g1"
    using q(1) peek_sent [OF R(6)] by (simp add: sent_expect Request_MayContinue_def G(3) sendable_def)
  have f: "pre_parse_boundary g1 = []"
    using q(1) F(6) R(7)
    by (simp add: pre_parse_boundary_def RequestHeader_MultipartFormBoundary_def RequestHeader_ContentType_def G(3) sendable_def)
  from Read_sent_body [OF G(5,2), of "sent_body q" p m E] obtain g' where
    B: "Request_ReadBody E g1 m True = Some (g', None)" "Request_bodyBytes g' = sent_body q" "qHeader g' = h'" "qBodyStream g' = None"
      "qStreamBody g' = qStreamBody g" "br_live (qReader g')" "pending (qReader g') = p" "brSize (qReader g') = brSize r'"
    using G R sent_length [OF q(1)] q f by (auto simp: sendable_def)
  have "Request_ReadLimit E g m = Some (g', None)"
    using R(1) G(1) e B(1) g by (simp add: Request_ReadLimit_def G(6) receiver_def Let_def)
  then show ?thesis
    using F B R(4,7,8) g by (simp add: same_request_def receiver_def Let_def)
qed

section \<open>Requests on one connection\<close>

text \<open>A client that writes requests one after the other, and a server that reads them into one request object.\<close>

fun write_requests :: "'f msg_env \<Rightarrow> bwriter \<Rightarrow> 'f Request list \<Rightarrow> (bwriter \<times> msg_error option) option" where
  "write_requests E w [] = Some (w, None)"
| "write_requests E w (q # qs) =
     (case Request_Write E w q of
        None \<Rightarrow> None
      | Some (w, q, Some e) \<Rightarrow> Some (w, Some e)
      | Some (w, q, None) \<Rightarrow> write_requests E w qs)"

fun read_requests :: "'f msg_env \<Rightarrow> int \<Rightarrow> nat \<Rightarrow> 'f Request \<Rightarrow> ('f Request list \<times> 'f Request \<times> msg_error option) option" where
  "read_requests E m 0 g = Some ([], g, None)"
| "read_requests E m (Suc n) g =
     (case Request_ReadLimit E g m of
        None \<Rightarrow> None
      | Some (g, Some e) \<Rightarrow> Some ([], g, Some e)
      | Some (g, None) \<Rightarrow> map_option (\<lambda>(gs, x). (g # gs, x)) (read_requests E m n g))"

definition wire :: "'f Request list \<Rightarrow> bytes" where
  "wire qs = concat (map (\<lambda>q. sent_text q @ sent_body q) qs)"

lemma write_requests_wire:
  "list_all sendable qs \<Longrightarrow> bw_live w \<Longrightarrow> \<exists>w'. write_requests E w qs = Some (w', None) \<and> bw_all w' = bw_all w @ wire qs"
proof (induction qs arbitrary: w)
  case (Cons q qs)
  then obtain w1 q1 where w1: "Request_Write E w q = Some (w1, q1, None)" "bw_all w1 = bw_all w @ sent_text q @ sent_body q" "bw_live w1"
    using Write_sendable [of q w E] by auto
  with Cons.IH [OF _ w1(3)] Cons.prems show ?case by (auto simp: wire_def)
qed (simp add: wire_def)

lemma read_requests_wire:
  assumes "list_all sendable qs" "list_all (\<lambda>q. (m \<le> 0 \<or> int (length (sent_body q)) \<le> m) \<and> length (sent_text q) \<le> brSize (qReader g)) qs"
    and "receiver g" "pending (qReader g) = wire qs @ p"
  shows "\<exists>gs g'. read_requests E m (length qs) g = Some (gs, g', None) \<and> list_all2 same_request qs gs \<and> pending (qReader g') = p"
  using assms
proof (induction qs arbitrary: g)
  case (Cons q qs)
  then obtain g1 where g1: "Request_ReadLimit E g m = Some (g1, None)" "same_request q g1" "receiver g1"
    "pending (qReader g1) = wire qs @ p" "brSize (qReader g1) = brSize (qReader g)"
    using Read_sent [of q m g "wire qs @ p" E] by (auto simp: wire_def)
  from Cons.IH [OF _ _ g1(3,4)] Cons.prems(1,2) obtain gs g' where
    "read_requests E m (length qs) g1 = Some (gs, g', None)" "list_all2 same_request qs gs" "pending (qReader g') = p"
    by (auto simp: g1(5))
  then show ?case using g1 by auto
qed (simp add: wire_def)

text \<open>C12: Requests that are written one after the other to a connection are read back one after the other by a server
  that keeps one request object, in any segmentation of the connection: each request line, header, cookie and body
  comes back as it was sent, no request takes bytes of the next one, and what follows the last request is left on the
  connection. Post arguments arrive as the body that encodes them.\<close>

theorem requests_on_one_connection:
  assumes "list_all sendable qs" "list_all (\<lambda>q. m \<le> 0 \<or> int (length (sent_body q)) \<le> m) qs" "bw_live w"
  shows "\<exists>w' text. write_requests E w qs = Some (w', None) \<and> bw_all w' = bw_all w @ text \<and>
           (\<forall>g p. receiver g \<and> pending (qReader g) = text @ p \<and> list_all (\<lambda>q. length (sent_text q) \<le> brSize (qReader g)) qs \<longrightarrow>
              (\<exists>gs g'. read_requests E m (length qs) g = Some (gs, g', None) \<and> list_all2 same_request qs gs \<and>
                 pending (qReader g') = p))"
proof -
  obtain w' where w': "write_requests E w qs = Some (w', None)" "bw_all w' = bw_all w @ wire qs"
    using write_requests_wire [OF assms(1,3)] by blast
  have "\<exists>gs g'. read_requests E m (length qs) g = Some (gs, g', None) \<and> list_all2 same_request qs gs \<and> pending (qReader g') = p"
    if "receiver g" "pending (qReader g) = wire qs @ p" "list_all (\<lambda>q. length (sent_text q) \<le> brSize (qReader g)) qs" for g p
    by (rule read_requests_wire [OF assms(1) _ that(1,2)]) (use assms(2) that(3) in \<open>auto simp: list_all_iff\<close>)
  with w' show ?thesis by blast
qed

definition sample_get :: "nat Request" where
  "sample_get = (emptyRequest (new_reader 0 []))\<lparr>qHeader := sample_request\<rparr>"

definition sample_post :: "nat Request" where
  "sample_post = (emptyRequest (new_reader 0 []))
     \<lparr>qHeader := emptyRequestHeader\<lparr>rqHost := bs ''h'', rqMethod := bs ''POST'', rqContentType := bs ''t''\<rparr>, qBody := Some (bs ''xyz'')\<rparr>"

lemma sample_post_text:
  "sent_text sample_post =
     bs ''POST / HTTP/1.1'' @ [rChar, nChar] @ bs ''Host: h'' @ [rChar, nChar] @ bs ''Content-Type: t'' @ [rChar, nChar] @
     bs ''Content-Length: 3'' @ [rChar, nChar, rChar, nChar]"
  by (simp add: sent_text_def sent_header_def sent_body_def Request_bodyBytes_def sample_post_def emptyRequest_def AppendBytes_eq
      emptyRequestHeader_def request_lines_def first_line_def opt_line_def printed_type_def RequestHeader_Method_def
      RequestHeader_RequestURI_def RequestHeader_Protocol_def RequestHeader_ignoreBody_def RequestHeader_IsMethod_def
      cookie_line_def hdr_names Let_def numeral_3_eq_3 [symmetric] dec_digits.simps)

lemma sample_bodies: "sent_body sample_get = []" "sent_body sample_post = bs ''xyz''"
  by (simp_all add: sent_body_def Request_bodyBytes_def sample_get_def sample_post_def emptyRequest_def QueryString_eq)

lemma sample_get_header: "sent_header sample_get = sample_request"
  by (simp add: sent_header_def sample_bodies)
    (simp add: sample_get_def sample_request_def emptyRequestHeader_def RequestHeader_ignoreBody_def RequestHeader_IsMethod_def RequestHeader_Method_def)

lemma samples_sendable: "sendable sample_get" "sendable sample_post"
proof -
  show "sendable sample_get"
    using sample_request_printable unfolding sendable_def sample_get_header sample_bodies
    by (simp add: sample_get_def emptyRequest_def sample_request_def emptyRequestHeader_def printed_type_def peek_bytes_def str100Continue_def
        multipart_boundary_def maxAlloc_def RequestHeader_ignoreBody_def RequestHeader_IsMethod_def RequestHeader_Method_def)
  have "printable (qHeader sample_post)"
    by (simp add: sample_post_def printable_def emptyRequestHeader_def first_ok_def version_ok_def value_ok_def line_value_def
        RequestHeader_Method_def RequestHeader_RequestURI_def RequestHeader_Protocol_def
        validHeaderValueByte_def validHeaderValueByteTable_def hdr_names)
  moreover have "rqContentType (sent_header sample_post) = bs ''t''"
    unfolding sent_header_def sample_bodies by (simp add: Request_bodyBytes_def sample_post_def emptyRequest_def emptyRequestHeader_def Let_def)
  then have "printed_type (sent_header sample_post) = bs ''t''" by (simp add: printed_type_def)
  moreover have "qBodyStream sample_post = None" "qMultipartForm sample_post = None" "\<not> qParsedURI sample_post" "rqHost (qHeader sample_post) \<noteq> []"
    "peek_bytes (rqH (qHeader sample_post)) strExpect = []"
    by (simp_all add: sample_post_def emptyRequest_def emptyRequestHeader_def peek_bytes_def)
  ultimately show "sendable sample_post"
    unfolding sendable_def sample_bodies by (simp add: str100Continue_def multipart_boundary_def maxAlloc_def strMultipartFormData_def)
qed

theorem requests_on_one_connection_witness:
  "\<forall>E :: nat msg_env. \<exists>gs g'. read_requests E 10 2 (emptyRequest (new_reader 64
       [bs ''GET / HTT'', bs ''P/1.1'' @ [rChar, nChar] @ bs ''Host: h'' @ [rChar, nChar] @ bs ''Cookie: a=1'' @ [rChar, nChar, rChar, nChar] @ bs ''POST'',
        bs '' / HTTP/1.1'' @ [rChar, nChar] @ bs ''Host: h'' @ [rChar, nChar] @ bs ''Content-Type: t'' @ [rChar, nChar] @
          bs ''Content-Length: 3'' @ [rChar, nChar, rChar, nChar] @ bs ''x'', bs ''yzREST''])) = Some (gs, g', None) \<and>
     map Request_bodyBytes gs = [[], bs ''xyz''] \<and> pending (qReader g') = bs ''REST''"
proof
  fix E :: "nat msg_env"
  let ?r = "new_reader 64
       [bs ''GET / HTT'', bs ''P/1.1'' @ [rChar, nChar] @ bs ''Host: h'' @ [rChar, nChar] @ bs ''Cookie: a=1'' @ [rChar, nChar, rChar, nChar] @ bs ''POST'',
        bs '' / HTTP/1.1'' @ [rChar, nChar] @ bs ''Host: h'' @ [rChar, nChar] @ bs ''Content-Type: t'' @ [rChar, nChar] @
          bs ''Content-Length: 3'' @ [rChar, nChar, rChar, nChar] @ bs ''x'', bs ''yzREST'']"
  let ?w = "\<lparr>bwBuf = [], bwSize = 16, bwOut = [], bwRoom = None, bwErr = None\<rparr>" and ?qs = "[sample_get, sample_post]"
  have l: "list_all sendable ?qs" "list_all (\<lambda>q. 10 \<le> (0::int) \<or> int (length (sent_body q)) \<le> 10) ?qs" "bw_live ?w"
    by (simp_all add: samples_sendable sample_bodies bw_live_def)
  have t: "sent_text sample_get = RequestHeader_AppendBytes sample_request []" by (simp add: sent_text_def sample_get_header)
  have g: "receiver (emptyRequest ?r)" "pending (qReader (emptyRequest ?r)) = wire ?qs @ bs ''REST''"
    "list_all (\<lambda>q. length (sent_text q) \<le> brSize (qReader (emptyRequest ?r))) ?qs"
    by (simp_all add: receiver_def emptyRequest_def emptyRequestHeader_def new_reader_def br_live_def br_ok_def no_empty_def pending_def wire_def
        t sample_request_text sample_post_text sample_bodies)
  obtain w' out where w': "write_requests E ?w ?qs = Some (w', None)" "bw_all w' = bw_all ?w @ out"
    and read: "\<And>g p. receiver g \<Longrightarrow> pending (qReader g) = out @ p \<Longrightarrow> list_all (\<lambda>q. length (sent_text q) \<le> brSize (qReader g)) ?qs \<Longrightarrow>
      \<exists>gs g'. read_requests E 10 (length ?qs) g = Some (gs, g', None) \<and> list_all2 same_request ?qs gs \<and> pending (qReader g') = p"
    using requests_on_one_connection [OF l, of E] by blast
  have "out = wire ?qs" using write_requests_wire [OF l(1,3), of E] w' by (simp only: option.inject prod.inject) auto
  then have "pending (qReader (emptyRequest ?r)) = out @ bs ''REST''" using g(2) by (simp only:)
  from read [OF g(1) this g(3)] obtain gs g' where
    R: "read_requests E 10 (length ?qs) (emptyRequest ?r) = Some (gs, g', None)" "list_all2 same_request ?qs gs" "pending (qReader g') = bs ''REST''"
    by blast
  have b: "map Request_bodyBytes gs = [[], bs ''xyz'']"
    using R(2) by (auto simp: list_all2_Cons1 same_request_def sample_bodies Let_def)
  have n: "length ?qs = 2" by simp
  show "\<exists>gs g'. read_requests E 10 2 (emptyRequest ?r) = Some (gs, g', None) \<and>
     map Request_bodyBytes gs = [[], bs ''xyz''] \<and> pending (qReader g') = bs ''REST''"
    by (intro exI conjI, rule R(1) [unfolded n], rule b, rule R(3))
qed

section \<open>The host that gets lost\<close>

lemma hostless_target:
  assumes "u' = slash # r" "r = [] \<or> hd r \<noteq> slash"
  shows "uHost (fst (URI_parse u [] u' tls)) = []"
proof -
  have "splitHostURI [] u' = (strHTTP, [], u')"
  proof (cases "index_bytes u' strSlashSlash")
    case (Some n)
    have "n \<noteq> 0"
    proof
      assume "n = 0"
      with index_bytes_SomeD [OF Some] assms show False by (cases r) auto
    qed
    then have "index_byte (take n u') slash \<noteq> None" using assms(1) by (cases n) auto
    with Some show ?thesis by (simp add: splitHostURI_def Let_def)
  qed (simp add: splitHostURI_def)
  then show ?thesis
    by (auto simp: URI_parse_def parse_userinfo_def parseHost_def unescape_def parse_target_def URI_Reset_def URI_SetScheme_def
        lowercaseBytes_def Let_def split: option.splits)
qed

lemma printed_target:
  assumes "normal_path (uPath u)" "\<not> uDisablePathNormalizing u"
  shows "\<exists>r. snd (URI_RequestURI u) = slash # r \<and> (r = [] \<or> hd r \<noteq> slash)"
proof -
  obtain p where p: "uPath u = slash # p" using normal_path_hd [OF assms(1)] by (cases "uPath u") auto
  have s: "p = [] \<or> hd p \<noteq> slash"
    using normal_path_contains(2) [OF assms(1)] unfolding p contains_bytes_iff by (cases p) (auto simp: sublist_def)
  have q: "quote_path_byte slash = [slash]" by (simp add: quote_path_byte_def quotedPathShouldEscapeTable_def)
  have n: "quote_path_byte c \<noteq> [] \<and> hd (quote_path_byte c) \<noteq> slash" if "c \<noteq> slash" for c
    using that by (simp add: quote_path_byte_def)
  define t where "t = concat (map quote_path_byte p)"
  have t: "t = [] \<or> hd t \<noteq> slash"
    using s n by (cases p) (auto simp: t_def)
  have "appendQuotedPath [] (URI_Path u) = slash # t"
    by (simp add: URI_Path_def p appendQuotedPath_slash q t_def)
  moreover have "\<exists>x. AppendBytes (uQueryArgs u) (slash # t @ [0x3F]) = slash # t @ 0x3F # x" if "live (uQueryArgs u) \<noteq> []"
    using that by (simp add: AppendBytes_def AppendBytes_loop_eq)
  ultimately show ?thesis
    using assms(2) t by (cases t) (auto simp: URI_RequestURI_def Let_def)
qed

text \<open>C37: \<^verbatim>\<open>Request.RequestURI\<close>, a getter, makes a request unsendable. A request whose host comes from its URI can be
  written; once \<^verbatim>\<open>RequestURI\<close> has been called on it, the URI is parsed again from the path alone, the host is gone,
  and \<^verbatim>\<open>Write\<close> fails and sends nothing.\<close>

theorem request_uri_getter_loses_host:
  assumes "qParsedURI q" "uHost (qUri q) \<noteq> []" "normal_path (uPath (qUri q))" "\<not> uDisablePathNormalizing (qUri q)"
    and "rqHost (qHeader q) = []" "\<not> rqDisableSpecialHeader (qHeader q)"
  shows "snd (Request_apply_uri q) = None \<and>
         (\<exists>q'. Request_Write E w (fst (Request_RequestURI q)) = Some (w, q', Some errRequestHostRequired))"
proof -
  obtain u s where us: "URI_RequestURI (qUri q) = (u, s)" by fastforce
  then obtain r where s: "s = slash # r" "r = [] \<or> hd r \<noteq> slash" using printed_target [OF assms(3,4)] by auto
  let ?q = "fst (Request_RequestURI q)"
  have Q: "\<not> qParsedURI ?q" "RequestHeader_Host (qHeader ?q) = []" "RequestHeader_RequestURI (qHeader ?q) = s"
    using assms(1,5,6) us s
    by (simp_all add: Request_RequestURI_def Request_SetRequestURI_def RequestHeader_SetRequestURIBytes_def RequestHeader_Host_def
        RequestHeader_RequestURI_def)
  have "uHost (qUri (Request_URI ?q)) = []"
    using hostless_target [OF s] Q by (simp add: Request_URI_def Request_parseURI_def case_prod_beta)
  moreover have "qHeader (Request_URI ?q) = qHeader ?q"
    by (simp add: Request_URI_def Request_parseURI_def case_prod_beta)
  ultimately have "\<exists>q'. Request_Write E w ?q = Some (w, q', Some errRequestHostRequired)"
    using Q by (simp add: Request_Write_def Request_apply_uri_def Let_def)
  moreover have "snd (Request_apply_uri q) = None"
    using assms(1,2) by (simp add: Request_apply_uri_def Request_URI_def Request_parseURI_def Let_def case_prod_beta)
  ultimately show ?thesis by blast
qed

theorem request_uri_getter_loses_host_witness:
  "\<forall>E w. let q = Request_URI (Request_SetRequestURI (emptyRequest (new_reader 16 []) :: nat Request) (bs ''http://h/a''))
    in snd (Request_apply_uri q) = None \<and>
       (\<exists>q'. Request_Write E w (fst (Request_RequestURI q)) = Some (w, q', Some errRequestHostRequired))"
proof -
  let ?q = "Request_URI (Request_SetRequestURI (emptyRequest (new_reader 16 []) :: nat Request) (bs ''http://h/a''))"
  have "qParsedURI ?q" "uHost (qUri ?q) = bs ''h''" "uPath (qUri ?q) = bs ''/a''" "\<not> uDisablePathNormalizing (qUri ?q)"
    "rqHost (qHeader ?q) = []" "\<not> rqDisableSpecialHeader (qHeader ?q)"
    by code_simp+
  moreover have "normal_path (bs ''/a'')"
    unfolding normal_path_def by (intro exI [of _ "[]"] exI [of _ "bs ''a''"]) (simp add: path_of_simps)
  ultimately show ?thesis
    using request_uri_getter_loses_host [of ?q] by (simp add: Let_def)
qed

text \<open>\<^verbatim>\<open>Write\<close> replaces the \<^verbatim>\<open>Host\<close> header of a request whose parsed URI has no host by the empty host: what goes
  out is the header of the request with its host emptied and with the target of the URI, and then the body, and no error is
  reported, although a request without any host is refused.\<close>

theorem write_drops_host_header:
  assumes "qParsedURI q" "uHost (qUri q) = []" "uUsername (qUri q) = []" "rqHost (qHeader q) \<noteq> []" "\<not> qUseHostHeader q"
    and "\<not> rqDisableSpecialHeader (qHeader q)" "qBodyStream q = None" "qMultipartForm q = None"
    and "int (length (sent_body q)) \<le> maxAlloc" "bw_live w"
  shows "\<exists>w' q'. Request_Write E w q = Some (w', q', None) \<and>
           bw_all w' = bw_all w @
             RequestHeader_AppendBytes ((sent_header q)\<lparr>rqHost := [], rqRequestURI := snd (URI_RequestURI (qUri q))\<rparr>) [] @ sent_body q"
proof -
  obtain u s where us: "URI_RequestURI (qUri q) = (u, s)" by fastforce
  have u: "uUsername u = []" using us assms(3) by (auto simp: URI_RequestURI_def Let_def)
  define q1 where "q1 = q\<lparr>qUri := u, qHeader := (qHeader q)\<lparr>rqHost := [], rqRequestURI := s\<rparr>\<rparr>"
  have a: "Request_apply_uri q = (q1, None)"
    using assms us u
    by (simp add: Request_apply_uri_def Request_URI_def Request_parseURI_def RequestHeader_Host_def q1_def
        RequestHeader_SetHostBytes_def RequestHeader_SetRequestURIBytes_def Let_def)
  have b: "sent_body q1 = sent_body q" by (simp add: sent_body_def q1_def Request_bodyBytes_def split: option.splits)
  have h: "sent_header q1 = (sent_header q)\<lparr>rqHost := [], rqRequestURI := s\<rparr>"
    by (simp add: sent_header_def b)
      (simp add: q1_def RequestHeader_SetContentTypeBytes_def RequestHeader_ignoreBody_def RequestHeader_IsMethod_def RequestHeader_Method_def
        Request_bodyBytes_def Let_def split: option.splits)
  from Write_after_uri [OF a, of w E] assms b obtain w' q' where
    "Request_Write E w q = Some (w', q', None)" "bw_all w' = bw_all w @ sent_text q1 @ sent_body q"
    by (auto simp: q1_def)
  then show ?thesis using h us unfolding sent_text_def by auto
qed

theorem write_drops_host_header_witness:
  "\<forall>E. \<exists>w' q'.
     Request_Write E \<lparr>bwBuf = [], bwSize = 16, bwOut = [], bwRoom = None, bwErr = None\<rparr>
       ((emptyRequest (new_reader 16 []) :: nat Request)
          \<lparr>qParsedURI := True, qHeader := emptyRequestHeader\<lparr>rqHost := bs ''h''\<rparr>\<rparr>) = Some (w', q', None) \<and>
     bw_all w' = RequestHeader_AppendBytes (emptyRequestHeader\<lparr>rqRequestURI := snd (URI_RequestURI emptyURI)\<rparr>) []"
proof
  fix E :: "nat msg_env"
  let ?w = "\<lparr>bwBuf = [], bwSize = 16, bwOut = [], bwRoom = None, bwErr = None\<rparr>"
  let ?q = "(emptyRequest (new_reader 16 []) :: nat Request)\<lparr>qParsedURI := True, qHeader := emptyRequestHeader\<lparr>rqHost := bs ''h''\<rparr>\<rparr>"
  have b: "sent_body ?q = []" by (simp add: sent_body_def Request_bodyBytes_def emptyRequest_def QueryString_eq)
  have "sent_header ?q = qHeader ?q"
    unfolding sent_header_def b Let_def
    by (simp add: emptyRequestHeader_def RequestHeader_ignoreBody_def RequestHeader_IsMethod_def RequestHeader_Method_def)
  then have h: "(sent_header ?q)\<lparr>rqHost := [], rqRequestURI := snd (URI_RequestURI (qUri ?q))\<rparr> =
      emptyRequestHeader\<lparr>rqRequestURI := snd (URI_RequestURI emptyURI)\<rparr>"
    by (simp add: emptyRequest_def emptyRequestHeader_def)
  have "bw_live ?w" "bw_all ?w = []" by (simp_all add: bw_live_def bw_all_def)
  moreover have "uHost (qUri ?q) = []" "uUsername (qUri ?q) = []" "rqHost (qHeader ?q) \<noteq> []" "\<not> qUseHostHeader ?q"
    "\<not> rqDisableSpecialHeader (qHeader ?q)" "qBodyStream ?q = None" "qMultipartForm ?q = None" "qParsedURI ?q"
    by (simp_all add: emptyRequest_def emptyURI_def emptyRequestHeader_def)
  ultimately show "\<exists>w' q'. Request_Write E ?w ?q = Some (w', q', None) \<and>
      bw_all w' = RequestHeader_AppendBytes (emptyRequestHeader\<lparr>rqRequestURI := snd (URI_RequestURI emptyURI)\<rparr>) []"
    using write_drops_host_header [of ?q ?w E] b h by (simp add: maxAlloc_def)
qed

lemma Reset_plain:
  assumes "qBodyStream q = None"
  shows "\<exists>q'. Request_Reset E q = Some q' \<and> qCliInfo q' = None"
proof -
  have "\<exists>q1. Request_release_large E q = Some q1 \<and> qBodyStream q1 = None"
    using assms by (simp add: Request_release_large_def Request_ReleaseBody_def Request_closeBodyStream_def Let_def)
  then obtain q1 where q1: "Request_release_large E q = Some q1" "qBodyStream q1 = None" by blast
  with ResetBody_plain [of q1 E] show ?thesis by (auto simp: Request_Reset_def Request_resetSkipHeader_def)
qed

lemma CopyTo_settings:
  assumes "Request_CopyTo E q dst = Some d"
  shows "qCliInfo d = None"
proof -
  obtain c where c: "Request_copyToSkipBody E q dst = Some c" "qCliInfo d = qCliInfo c"
    using assms by (auto simp: Request_CopyTo_def Request_bodyBuffer_def Let_def split: Option.bind_splits option.splits if_splits)
  have "qCliInfo r = None" if "Request_Reset E dst = Some r" for r
    using that by (auto simp: Request_Reset_def Request_resetSkipHeader_def split: Option.bind_splits)
  then show ?thesis using c by (auto simp: Request_copyToSkipBody_def split: Option.bind_splits option.splits)
qed

text \<open>C39: \<^verbatim>\<open>CopyTo\<close> does not copy a request. Whatever the source and the destination are, the copy has none of the
  settings of the client: the number of attempts, the timeouts and \<^verbatim>\<open>RetryIf\<close> are those of a new request. And a body set
  with \<^verbatim>\<open>SetBodyRaw\<close> is lost when the request keeps a body buffer: the request itself has the raw body, its copy has the
  empty body of the buffer.\<close>

theorem copy_loses_settings_and_raw_body:
  "(\<forall>d. Request_CopyTo E q dst = Some d \<longrightarrow>
      Request_MaxAttempts d = 0 \<and> Request_ReadTimeout d = 0 \<and> Request_WriteTimeout d = 0 \<and> Request_RetryIf d = None) \<and>
   (qBodyStream q = None \<and> qKeepBodyBuffer q \<and> qBody q \<noteq> None \<and> b \<noteq> [] \<and> qBodyStream dst = None \<longrightarrow>
      (\<exists>q' d. Request_SetBodyRaw E q b = Some q' \<and> Request_bodyBytes q' = b \<and>
         Request_CopyTo E q' dst = Some d \<and> Request_bodyBytes d = []))"
proof (intro conjI impI allI)
  fix d assume "Request_CopyTo E q dst = Some d"
  from CopyTo_settings [OF this] show "Request_MaxAttempts d = 0" "Request_ReadTimeout d = 0" "Request_WriteTimeout d = 0" "Request_RetryIf d = None"
    by (simp_all add: Request_MaxAttempts_def Request_ReadTimeout_def Request_WriteTimeout_def Request_RetryIf_def)
next
  assume a: "qBodyStream q = None \<and> qKeepBodyBuffer q \<and> qBody q \<noteq> None \<and> b \<noteq> [] \<and> qBodyStream dst = None"
  obtain q' where q': "Request_SetBodyRaw E q b = Some q'" "qBodyRaw q' = Some b" "qBody q' = Some []"
    using a
    by (auto simp: Request_SetBodyRaw_def Request_ResetBody_def Request_RemoveMultipartFormFiles_def Request_closeBodyStream_def Let_def)
  obtain d where "Request_copyToSkipBody E q' dst = Some d"
    using Reset_plain [of dst E] a by (auto simp: Request_copyToSkipBody_def)
  then show "\<exists>q' d. Request_SetBodyRaw E q b = Some q' \<and> Request_bodyBytes q' = b \<and>
      Request_CopyTo E q' dst = Some d \<and> Request_bodyBytes d = []"
    using q' by (auto simp: Request_CopyTo_def Request_bodyBytes_def Request_bodyBuffer_def Let_def)
qed

theorem copy_loses_settings_and_raw_body_witness:
  "\<forall>E. \<exists>q' d. Request_SetBodyRaw E
       ((emptyRequest (new_reader 16 []) :: nat Request)\<lparr>qKeepBodyBuffer := True, qBody := Some [], qCliInfo := Some (emptyCliInfo\<lparr>ciMaxAttempts := 5\<rparr>)\<rparr>)
       (bs ''x'') = Some q' \<and> Request_bodyBytes q' = bs ''x'' \<and>
     Request_CopyTo E q' (emptyRequest (new_reader 16 [])) = Some d \<and> Request_bodyBytes d = [] \<and> Request_MaxAttempts d = 0"
proof
  fix E :: "nat msg_env"
  let ?q = "(emptyRequest (new_reader 16 []) :: nat Request)\<lparr>qKeepBodyBuffer := True, qBody := Some [], qCliInfo := Some (emptyCliInfo\<lparr>ciMaxAttempts := 5\<rparr>)\<rparr>"
  let ?d = "emptyRequest (new_reader 16 []) :: nat Request"
  have "qBodyStream ?q = None \<and> qKeepBodyBuffer ?q \<and> qBody ?q \<noteq> None \<and> bs ''x'' \<noteq> [] \<and> qBodyStream ?d = None"
    by (simp add: emptyRequest_def)
  with copy_loses_settings_and_raw_body [of E ?q ?d "bs ''x''"] obtain q' d where
    "Request_SetBodyRaw E ?q (bs ''x'') = Some q'" "Request_bodyBytes q' = bs ''x''" "Request_CopyTo E q' ?d = Some d" "Request_bodyBytes d = []"
    by blast
  moreover from this have "Request_MaxAttempts d = 0" using copy_loses_settings_and_raw_body [of E q' ?d "[]"] by blast
  ultimately show "\<exists>q' d. Request_SetBodyRaw E ?q (bs ''x'') = Some q' \<and> Request_bodyBytes q' = bs ''x'' \<and>
     Request_CopyTo E q' ?d = Some d \<and> Request_bodyBytes d = [] \<and> Request_MaxAttempts d = 0" by blast
qed

end
