(* ===== verification/ResponseMessage.thy ===== *)
theory ResponseMessage
  imports Message ResponseRoundtrip "HOL-Library.Monad_Syntax"
begin

text \<open>
  \<^verbatim>\<open>Response\<close> of \<^verbatim>\<open>http.go\<close> and \<^verbatim>\<open>supplement_compress.go\<close>: its body in all forms (raw bytes, buffer, stream,
  chunked writer), compression of the body, copying and resetting, and reading and writing whole responses. A
  method that panics, or that copies a stream that never ends, is \<open>None\<close>.
\<close>

section \<open>The response\<close>

text \<open>What the methods take from outside: the date line, sizes of slices and buffers (pools of a third party), the
  text of an error, and the limit for pooled buffers; the compressors of a third party, which turn a whole body into
  bytes or fail, and turn a stream into the slices they write; and the slices that a writer function of the user
  sends through its buffer, with the error that the function and closing its writer return.\<close>

record resp_env =
  envDate :: bytes
  envCopyLen :: nat
  envChunkLen :: nat
  envBufferCap :: nat
  envErrText :: "msg_error \<Rightarrow> bytes"
  responseBodyPoolSizeLimit :: int
  envMimeOk :: "bytes \<Rightarrow> bool"
  envPool :: "bytes \<Rightarrow> int \<Rightarrow> nat"
  envCompress :: "nat \<Rightarrow> bytes \<Rightarrow> msg_error + bytes"
  envCompressStream :: "nat \<Rightarrow> bytes \<Rightarrow> bytes list \<times> msg_error option"
  envChunkedW :: "nat \<Rightarrow> nat option \<Rightarrow> bytes list \<times> msg_error option \<times> msg_error option"

text \<open>Compressors and writer functions are known by a number. \<open>pReader\<close> is the buffered reader of the connection
  that a body stream points to.\<close>

record Response =
  pHeader :: ResponseHeader
  pBodyStream :: "msg_stream option"
  pBodyRaw :: "bytes option"
  pBody :: "bytes option"
  pChunkedW :: "nat option"
  pRaddr :: "nat option"
  pLaddr :: "nat option"
  pCompressPool :: "nat option"
  pImmediateHeaderFlush :: bool
  pStreamBody :: bool
  pSkipBody :: bool
  pKeepBodyBuffer :: bool
  pSecureErrorLogMessage :: bool
  pReader :: breader

definition emptyResponse :: "breader \<Rightarrow> Response" where
  "emptyResponse r =
     \<lparr>pHeader = emptyResponseHeader, pBodyStream = None, pBodyRaw = None, pBody = None, pChunkedW = None, pRaddr = None,
      pLaddr = None, pCompressPool = None, pImmediateHeaderFlush = False, pStreamBody = False, pSkipBody = False,
      pKeepBodyBuffer = False, pSecureErrorLogMessage = False, pReader = r\<rparr>"

section \<open>The body\<close>

definition Response_bodyBytes :: "Response \<Rightarrow> bytes" where
  "Response_bodyBytes p = (case pBodyRaw p of Some b \<Rightarrow> b | None \<Rightarrow> (case pBody p of Some b \<Rightarrow> b | None \<Rightarrow> []))"

definition Response_bodyBuffer :: "Response \<Rightarrow> Response" where
  "Response_bodyBuffer p = p\<lparr>pBody := Some (case pBody p of Some b \<Rightarrow> b | None \<Rightarrow> []), pBodyRaw := None\<rparr>"

definition Response_stream_Read :: "Response \<Rightarrow> nat \<Rightarrow> (Response \<times> bytes \<times> msg_error option) option" where
  "Response_stream_Read p n =
     (case pBodyStream p of
        None \<Rightarrow> None
      | Some (FromUser u) \<Rightarrow> (case user_Read u n of (u, b, e) \<Rightarrow> Some (p\<lparr>pBodyStream := Some (FromUser u)\<rparr>, b, e))
      | Some (FromConn s) \<Rightarrow>
          map_option (\<lambda>(h, s, r, b, e). (p\<lparr>pHeader := h, pBodyStream := Some (FromConn s), pReader := r\<rparr>, b, e))
            (body_stream_Read rsContentLength ResponseHeader_ReadTrailer (pHeader p) s (pReader p) n))"

definition Response_closeBodyStream :: "Response \<Rightarrow> Response \<times> msg_error option" where
  "Response_closeBodyStream p =
     (case pBodyStream p of
        None \<Rightarrow> (p, None)
      | Some (FromUser u) \<Rightarrow> (p\<lparr>pBodyStream := None\<rparr>, map_option io_msg (usClose u))
      | Some (FromConn _) \<Rightarrow> (p\<lparr>pBodyStream := None\<rparr>, None))"

definition Response_ResetBody :: "Response \<Rightarrow> Response" where
  "Response_ResetBody p =
     (let p = fst (Response_closeBodyStream (p\<lparr>pChunkedW := None, pBodyRaw := None\<rparr>))
      in (case pBody p of
            None \<Rightarrow> p
          | Some _ \<Rightarrow> p\<lparr>pBody := (if pKeepBodyBuffer p then Some [] else None)\<rparr>))"

definition Response_SetBodyStream :: "Response \<Rightarrow> user_stream \<Rightarrow> int \<Rightarrow> Response" where
  "Response_SetBodyStream p u bodySize =
     (let p = (Response_ResetBody p)\<lparr>pBodyStream := Some (FromUser u)\<rparr>
      in p\<lparr>pHeader := ResponseHeader_SetContentLength (pHeader p) bodySize\<rparr>)"

definition Response_SetBodyStreamChunkedWriter :: "Response \<Rightarrow> nat \<Rightarrow> Response" where
  "Response_SetBodyStreamChunkedWriter p sw =
     (let p = Response_ResetBody p
      in p\<lparr>pHeader := ResponseHeader_SetContentLength (pHeader p) (-1), pChunkedW := Some sw\<rparr>)"

definition Response_drop_other :: "Response \<Rightarrow> Response" where
  "Response_drop_other p = (fst (Response_closeBodyStream p))\<lparr>pChunkedW := None, pBodyRaw := None\<rparr>"

definition Response_AppendBody :: "Response \<Rightarrow> bytes \<Rightarrow> Response" where
  "Response_AppendBody p b =
     (let p = Response_bodyBuffer (Response_drop_other p) in p\<lparr>pBody := Some (the (pBody p) @ b)\<rparr>)"

definition Response_SetBody :: "Response \<Rightarrow> bytes \<Rightarrow> Response" where
  "Response_SetBody p body = (Response_bodyBuffer (Response_drop_other p))\<lparr>pBody := Some body\<rparr>"

definition Response_SetBodyRaw :: "Response \<Rightarrow> bytes \<Rightarrow> Response" where
  "Response_SetBodyRaw p body = (Response_ResetBody p)\<lparr>pBodyRaw := Some body\<rparr>"

definition Response_ReleaseBody :: "resp_env \<Rightarrow> Response \<Rightarrow> int \<Rightarrow> Response" where
  "Response_ReleaseBody E p sz =
     (let p = p\<lparr>pBodyRaw := None\<rparr>
      in if pBody p = None then p
         else if int (envBufferCap E) > sz then (fst (Response_closeBodyStream p))\<lparr>pBody := None\<rparr>
         else p)"

definition Response_SwapBody :: "resp_env \<Rightarrow> Response \<Rightarrow> bytes \<Rightarrow> (Response \<times> bytes) option" where
  "Response_SwapBody E p body =
     (let p = Response_bodyBuffer p
      in do { (p, old) \<leftarrow>
                (if pBodyStream p = None then Some (p, the (pBody p))
                 else do { (p, b, e) \<leftarrow> copy_bytes Response_stream_Read (envCopyLen E) p [];
                           Some (fst (Response_closeBodyStream p), case e of None \<Rightarrow> b | Some e \<Rightarrow> envErrText E e) });
              Some (p\<lparr>pBodyRaw := None, pBody := Some body\<rparr>, old) })"

definition Response_BodyWithError :: "resp_env \<Rightarrow> Response \<Rightarrow> (Response \<times> bytes \<times> msg_error option) option" where
  "Response_BodyWithError E p =
     (if pBodyStream p \<noteq> None
      then do { let p = (Response_bodyBuffer p)\<lparr>pBody := Some []\<rparr>;
                (p, b, e) \<leftarrow> copy_bytes Response_stream_Read (envCopyLen E) p [];
                let (p, er) = Response_closeBodyStream (p\<lparr>pBody := Some b\<rparr>);
                let e = (case e of None \<Rightarrow> er | Some e \<Rightarrow> Some e);
                Some (p, if e = None then Response_bodyBytes p else [], e) }
      else Some (p, Response_bodyBytes p, None))"

definition Response_Body :: "resp_env \<Rightarrow> Response \<Rightarrow> (Response \<times> bytes) option" where
  "Response_Body E p =
     map_option (\<lambda>(p, b, e). case e of
         None \<Rightarrow> (p, b)
       | Some e \<Rightarrow> let p = Response_bodyBuffer p; b = the (pBody p) @ envErrText E e in (p\<lparr>pBody := Some b\<rparr>, b))
       (Response_BodyWithError E p)"

section \<open>Compression\<close>

definition strGzip :: bytes where "strGzip = bs ''gzip''"
definition strBr :: bytes where "strBr = bs ''br''"
definition strZstd :: bytes where "strZstd = bs ''zstd''"
definition strDeflate :: bytes where "strDeflate = bs ''deflate''"
definition minCompressLen :: nat where "minCompressLen = 200"

definition compress_body :: "resp_env \<Rightarrow> bytes \<Rightarrow> Response \<Rightarrow> int \<Rightarrow> Response option" where
  "compress_body E encoding p level =
     (if rsContentEncoding (pHeader p) \<noteq> [] then Some p
      else if \<not> envMimeOk E (ResponseHeader_ContentType (pHeader p)) then Some p
      else if pBodyStream p = None \<and> length (Response_bodyBytes p) < minCompressLen then Some p
      else map_option (\<lambda>h. p\<lparr>pCompressPool := Some (envPool E encoding level), pHeader := h\<rparr>)
             (ResponseHeader_addVaryBytes (ResponseHeader_SetContentEncodingBytes (pHeader p) encoding) (bs ''Accept-Encoding'')))"

definition Response_gzipBody :: "resp_env \<Rightarrow> Response \<Rightarrow> int \<Rightarrow> Response option" where
  "Response_gzipBody E p level = compress_body E strGzip p level"

definition Response_brotliBody :: "resp_env \<Rightarrow> Response \<Rightarrow> int \<Rightarrow> Response option" where
  "Response_brotliBody E p level = compress_body E strBr p level"

definition Response_deflateBody :: "resp_env \<Rightarrow> Response \<Rightarrow> int \<Rightarrow> Response option" where
  "Response_deflateBody E p level = compress_body E strDeflate p level"

definition Response_zstdBody :: "resp_env \<Rightarrow> Response \<Rightarrow> int \<Rightarrow> Response option" where
  "Response_zstdBody E p level = compress_body E strZstd p level"

section \<open>Resetting and copying\<close>

definition Response_resetSkipHeader :: "Response \<Rightarrow> Response" where
  "Response_resetSkipHeader p =
     (Response_ResetBody p)\<lparr>pRaddr := None, pLaddr := None, pCompressPool := None, pImmediateHeaderFlush := False,
        pStreamBody := False, pSkipBody := False, pSecureErrorLogMessage := False\<rparr>"

definition Response_release_large :: "resp_env \<Rightarrow> Response \<Rightarrow> Response" where
  "Response_release_large E p =
     (if responseBodyPoolSizeLimit E \<ge> 0 \<and> pBody p \<noteq> None then Response_ReleaseBody E p (responseBodyPoolSizeLimit E) else p)"

definition Response_Reset :: "resp_env \<Rightarrow> Response \<Rightarrow> Response" where
  "Response_Reset E p =
     (let p = Response_resetSkipHeader (Response_release_large E p) in p\<lparr>pHeader := ResponseHeader_Reset (pHeader p)\<rparr>)"

definition Response_resetForKeepAlive :: "resp_env \<Rightarrow> Response \<Rightarrow> Response" where
  "Response_resetForKeepAlive E p =
     (let p = Response_ResetBody (Response_release_large E p)
      in p\<lparr>pRaddr := None, pLaddr := None, pCompressPool := None, pImmediateHeaderFlush := False, pSkipBody := False,
           pHeader := ResponseHeader_resetSkipNormalize ((pHeader p)\<lparr>rsHeadMethod := False\<rparr>)\<rparr>)"

definition Response_copyToSkipBody :: "resp_env \<Rightarrow> Response \<Rightarrow> Response \<Rightarrow> Response" where
  "Response_copyToSkipBody E p dst =
     (let dst = Response_Reset E dst
      in dst\<lparr>pHeader := ResponseHeader_CopyTo (pHeader p) (pHeader dst), pRaddr := pRaddr p, pLaddr := pLaddr p,
             pCompressPool := pCompressPool p, pImmediateHeaderFlush := pImmediateHeaderFlush p,
             pStreamBody := pStreamBody p, pSkipBody := pSkipBody p, pKeepBodyBuffer := pKeepBodyBuffer p,
             pSecureErrorLogMessage := pSecureErrorLogMessage p\<rparr>)"

definition Response_CopyTo :: "resp_env \<Rightarrow> Response \<Rightarrow> Response \<Rightarrow> Response" where
  "Response_CopyTo E p dst =
     (let dst = Response_copyToSkipBody E p dst;
          dst = (case pBodyRaw p of Some b \<Rightarrow> dst\<lparr>pBodyRaw := (if b = [] then pBodyRaw dst else Some b)\<rparr> | None \<Rightarrow> dst)
      in (case pBody p of
            Some b \<Rightarrow> (Response_bodyBuffer dst)\<lparr>pBody := Some b\<rparr>
          | None \<Rightarrow> dst\<lparr>pBody := None\<rparr>))"

section \<open>Reading\<close>

definition Response_mustSkipBody :: "Response \<Rightarrow> bool" where
  "Response_mustSkipBody p \<longleftrightarrow> pSkipBody p \<or> ResponseHeader_mustSkipContentLength (pHeader p)"

definition Response_ReadBody :: "resp_env \<Rightarrow> Response \<Rightarrow> int \<Rightarrow> (Response \<times> msg_error option) option" where
  "Response_ReadBody E p maxBodySize =
     (let contentLength = rsContentLength (pHeader p)
      in if contentLength = 0 then Some (p, None)
         else do { let p = (Response_bodyBuffer p)\<lparr>pBody := Some []\<rparr>;
                   (p, e) \<leftarrow>
                     (if contentLength \<ge> 0
                      then map_option (\<lambda>(r, b, e). (p\<lparr>pReader := r, pBody := Some b\<rparr>, e))
                             (readBody (pReader p) contentLength maxBodySize [])
                      else if contentLength = -1
                      then map_option (\<lambda>(r, b, e). (p\<lparr>pReader := r, pBody := Some b\<rparr>, e))
                             (readBodyChunked (pReader p) maxBodySize [])
                      else map_option (\<lambda>(r, b, e).
                               (p\<lparr>pReader := r, pBody := Some b,
                                  pHeader := ResponseHeader_SetContentLength (pHeader p) (int (length b))\<rparr>, e))
                             (readBodyIdentity (pReader p) maxBodySize (envBufferCap E)));
                   (case e of
                      Some e \<Rightarrow> Some (p, Some (MsgBody (if e = BodyIO EOF then ErrUnexpectedRespBodyEOF else e)))
                    | None \<Rightarrow>
                        if rsContentLength (pHeader p) = -1
                        then map_option (\<lambda>(h, r, e). (p\<lparr>pHeader := h, pReader := r\<rparr>, map_option MsgHeader e))
                               (ResponseHeader_ReadTrailer (pHeader p) (pReader p))
                        else Some (p, None)) })"

definition Response_ReadBodyStream :: "Response \<Rightarrow> int \<Rightarrow> (Response \<times> msg_error option) option" where
  "Response_ReadBodyStream p maxBodySize =
     do { let n = rsContentLength (pHeader p);
          (r, s, e) \<leftarrow> response_body_stream (pReader p) n maxBodySize;
          let p = (if n = 0 \<or> n = -2 then p else (Response_bodyBuffer p)\<lparr>pBody := Some []\<rparr>);
          Some (p\<lparr>pReader := r, pBodyStream := (case s of Some s \<Rightarrow> Some (FromConn s) | None \<Rightarrow> pBodyStream p)\<rparr>,
                map_option MsgBody e) }"

text \<open>The part that \<^verbatim>\<open>ReadLimit\<close> and \<^verbatim>\<open>ReadLimitIfClose\<close> share: the header, and the next one after an interim
  response. \<^verbatim>\<open>ReadLimitIfClose\<close> also tells the client that the connection cannot be used again.\<close>

definition Response_read_header :: "Response \<Rightarrow> (Response \<times> msg_error option) option" where
  "Response_read_header p =
     do { (h, r, e) \<leftarrow> ResponseHeader_Read (pHeader p) (pReader p);
          let p = p\<lparr>pHeader := h, pReader := r\<rparr>;
          if e \<noteq> None then Some (p, map_option MsgHeader e)
          else do { let p = Response_ResetBody p;
                    if rsStatusCode (pHeader p) = 100
                    then map_option (\<lambda>(h, r, e). (p\<lparr>pHeader := h, pReader := r\<rparr>, map_option MsgHeader e))
                           (ResponseHeader_Read (pHeader p) (pReader p))
                    else Some (p, None) } }"

definition Response_ReadLimitIfClose :: "resp_env \<Rightarrow> Response \<Rightarrow> int \<Rightarrow> (Response \<times> bool \<times> msg_error option) option" where
  "Response_ReadLimitIfClose E p maxBodySize =
     do { (p, e) \<leftarrow> Response_read_header p;
          if e \<noteq> None then Some (p, False, e)
          else if Response_mustSkipBody p \<or> rsHeadMethod (pHeader p) then Some (p, False, None)
          else do { let closeConn = (rsContentLength (pHeader p) = -2);
                    (p, e) \<leftarrow> (if pStreamBody p then Response_ReadBodyStream p maxBodySize else Response_ReadBody E p maxBodySize);
                    Some (p, closeConn, e) } }"

definition Response_ReadLimit :: "resp_env \<Rightarrow> Response \<Rightarrow> int \<Rightarrow> (Response \<times> msg_error option) option" where
  "Response_ReadLimit E p maxBodySize =
     do { (p, e) \<leftarrow> Response_read_header p;
          if e \<noteq> None then Some (p, e)
          else if Response_mustSkipBody p \<or> rsHeadMethod (pHeader p) then Some (p, None)
          else if pStreamBody p then Response_ReadBodyStream p maxBodySize
          else Response_ReadBody E p maxBodySize }"

section \<open>Writing\<close>

definition Response_WriteHeader :: "resp_env \<Rightarrow> bwriter \<Rightarrow> Response \<Rightarrow> (bwriter \<times> Response \<times> msg_error option) option" where
  "Response_WriteHeader E w p =
     map_option (\<lambda>(h, t).
         let p = p\<lparr>pHeader := h\<rparr>
         in (case bw_Write w t of
               (w, Some x) \<Rightarrow> (w, p, Some (io_msg x))
             | (w, None) \<Rightarrow>
                 if pImmediateHeaderFlush p then (case bw_Flush w of (w, x) \<Rightarrow> (w, p, map_option io_msg x))
                 else (w, p, None)))
       (ResponseHeader_Header (envDate E) (pHeader p) False)"

definition writeChunkWithoutFlush :: "bwriter \<Rightarrow> bytes \<Rightarrow> (bwriter \<times> io_error option) option" where
  "writeChunkWithoutFlush w b =
     map_option (\<lambda>s. bw_writes w (if b = [] then [s, strCRLF, b] else [s, strCRLF, b, strCRLF])) (writeHexInt (int (length b)))"

definition ChunkWriter_Write :: "bwriter \<Rightarrow> bytes \<Rightarrow> (bwriter \<times> io_error option) option" where
  "ChunkWriter_Write w b = (if b = [] then Some (w, None) else writeChunkWithoutFlush w b)"

fun chunk_writes :: "bwriter \<Rightarrow> bytes list \<Rightarrow> (bwriter \<times> io_error option) option" where
  "chunk_writes w [] = Some (w, None)"
| "chunk_writes w (b # ps) =
     (case ChunkWriter_Write w b of
        None \<Rightarrow> None
      | Some (w, Some x) \<Rightarrow> Some (w, Some x)
      | Some (w, None) \<Rightarrow> chunk_writes w ps)"

text \<open>The end of a chunked body: the last chunk and the trailer.\<close>

definition Response_write_end :: "bwriter \<Rightarrow> Response \<Rightarrow> (bwriter \<times> Response \<times> msg_error option) option" where
  "Response_write_end w p =
     map_option (\<lambda>(h, t). case bw_writes w [chunkedEnd, t] of (w, x) \<Rightarrow> (w, p\<lparr>pHeader := h\<rparr>, map_option io_msg x))
       (ResponseHeader_TrailerHeader (pHeader p))"

definition Response_WriteChunkedStream :: "resp_env \<Rightarrow> bwriter \<Rightarrow> Response \<Rightarrow> (bwriter \<times> Response \<times> msg_error option) option" where
  "Response_WriteChunkedStream E w p =
     do { let p = p\<lparr>pHeader := ResponseHeader_SetContentLength (pHeader p) (-1)\<rparr>;
          (w, p, e) \<leftarrow> Response_WriteHeader E w p;
          if e \<noteq> None \<or> Response_mustSkipBody p then Some (w, p, e)
          else (case envChunkedW E (the (pChunkedW p)) (pCompressPool p) of
                  (slices, e, e2) \<Rightarrow>
                    do { (w, x) \<leftarrow> chunk_writes w slices;
                         let e = (case e of None \<Rightarrow> (case x of Some x \<Rightarrow> Some (io_msg x) | None \<Rightarrow> e2) | Some e \<Rightarrow> Some e);
                         if e \<noteq> None then Some (w, p, e)
                         else do { (w, p, e) \<leftarrow> Response_write_end w p;
                                   if e \<noteq> None then Some (w, p, e)
                                   else (case bw_Flush w of (w, x) \<Rightarrow> Some (w, p, map_option io_msg x)) } }) }"

definition Response_writeBodyStream :: "resp_env \<Rightarrow> bwriter \<Rightarrow> Response \<Rightarrow> bool \<Rightarrow> (bwriter \<times> Response \<times> msg_error option) option" where
  "Response_writeBodyStream E w p sendBody =
     do { let contentLength = rsContentLength (pHeader p);
          let lrSize = limitedReaderSize (the (pBodyStream p));
          let (p, contentLength) =
            (if contentLength < 0 \<and> lrSize \<ge> 0
             then (let h = (if contentLength = -2 then ResponseHeader_SetConnectionClose (pHeader p) else pHeader p)
                   in (p\<lparr>pHeader := ResponseHeader_SetContentLength h lrSize\<rparr>, lrSize))
             else (p, contentLength));
          (w, p, e) \<leftarrow> Response_WriteHeader E w p;
          (w, p, e) \<leftarrow>
            (if e = None \<and> sendBody \<and> contentLength \<noteq> 0
             then (if contentLength > 0 then writeBodyFixedSize Response_stream_Read (envCopyLen E) w p contentLength
                   else if contentLength = -1
                   then do { (w, p, e) \<leftarrow> writeBodyChunked Response_stream_Read MsgEOF io_msg (envChunkLen E) w p;
                             if e \<noteq> None then Some (w, p, e)
                             else map_option (\<lambda>(h, t). case bw_Write w t of (w, x) \<Rightarrow> (w, p\<lparr>pHeader := h\<rparr>, map_option io_msg x))
                                    (ResponseHeader_TrailerHeader (pHeader p)) }
                   else map_option (\<lambda>(w, p, n, e). (w, p, e)) (copy_writer Response_stream_Read (envCopyLen E) w p 0))
             else Some (w, p, e));
          let (p, errc) = Response_closeBodyStream p;
          Some (w, p, case e of Some e \<Rightarrow> Some e | None \<Rightarrow> errc) }"

definition Response_writeCompressBodyStream :: "resp_env \<Rightarrow> bwriter \<Rightarrow> Response \<Rightarrow> bool \<Rightarrow> (bwriter \<times> Response \<times> msg_error option) option" where
  "Response_writeCompressBodyStream E w p sendBody =
     do { let n = rsContentLength (pHeader p);
          let h = (if n = -2 then ResponseHeader_SetConnectionClose (pHeader p) else pHeader p);
          let lrSize = limitedReaderSize (the (pBodyStream p));
          let n = (if n < 0 \<and> lrSize \<ge> 0 then lrSize else n);
          (w, p, e) \<leftarrow> Response_WriteHeader E w (p\<lparr>pHeader := ResponseHeader_SetContentLength h (-1)\<rparr>);
          (w, p, e) \<leftarrow>
            (if e = None \<and> sendBody
             then do { (p, b, e) \<leftarrow> copy_bytes Response_stream_Read (envCopyLen E) p [];
                       (case envCompressStream E (the (pCompressPool p)) b of
                          (slices, e2) \<Rightarrow>
                            do { (w, x) \<leftarrow> chunk_writes w slices;
                                 let e = (case e of None \<Rightarrow> map_option io_msg x | Some e \<Rightarrow> Some e);
                                 let e = (if e = None \<and> n \<ge> 0 \<and> n \<noteq> int (length b) then Some (ErrStreamSendSizeNotMatch (int (length b)) n) else e);
                                 let e = (case e of None \<Rightarrow> e2 | Some e \<Rightarrow> Some e);
                                 if e \<noteq> None then Some (w, p, e) else Response_write_end w p }) }
             else Some (w, p, e));
          let (p, e2) = Response_closeBodyStream p;
          Some (w, p, case e of Some e \<Rightarrow> Some e | None \<Rightarrow> e2) }"

definition Response_WriteCompress :: "resp_env \<Rightarrow> bwriter \<Rightarrow> Response \<Rightarrow> (bwriter \<times> Response \<times> msg_error option) option" where
  "Response_WriteCompress E w p =
     (let sendBody = (\<not> Response_mustSkipBody p)
      in if pBodyStream p \<noteq> None then Response_writeCompressBodyStream E w p sendBody
         else
           let body = Response_bodyBytes p
           in if \<not> sendBody
              then (let h = (if body \<noteq> [] then ResponseHeader_SetContentLength (pHeader p) (int (length body)) else pHeader p)
                    in Response_WriteHeader E w (p\<lparr>pHeader := ResponseHeader_del h strContentEncoding\<rparr>))
              else do { (h, t) \<leftarrow> ResponseHeader_Header (envDate E) (pHeader p) True;
                        let p = p\<lparr>pHeader := h\<rparr>;
                        let (w, x) = bw_Write w t;
                        let (w, x) = (if x = None \<and> pImmediateHeaderFlush p then bw_Flush w else (w, x));
                        if x \<noteq> None then Some (w, p, map_option io_msg x)
                        else (case envCompress E (the (pCompressPool p)) body of
                                Inl e \<Rightarrow> Some (w, p, Some e)
                              | Inr z \<Rightarrow>
                                  do { n \<leftarrow> AppendUint [] (int (length z));
                                       let (w, _) = bw_Write w (take 32 (strContentLength @ bs '': '' @ n @ strCRLF @ strCRLF));
                                       let (w, x) = bw_Write w z;
                                       Some (w, p, map_option io_msg x) }) })"

definition Response_Write :: "resp_env \<Rightarrow> bwriter \<Rightarrow> Response \<Rightarrow> (bwriter \<times> Response \<times> msg_error option) option" where
  "Response_Write E w p =
     (if pChunkedW p \<noteq> None then Response_WriteChunkedStream E w p
      else if pCompressPool p \<noteq> None then Response_WriteCompress E w p
      else
        let sendBody = (\<not> Response_mustSkipBody p)
        in if pBodyStream p \<noteq> None then Response_writeBodyStream E w p sendBody
           else
             let body = Response_bodyBytes p;
                 p = (if (sendBody \<or> body \<noteq> []) \<and> rsContentLength (pHeader p) \<noteq> -2
                      then p\<lparr>pHeader := ResponseHeader_SetContentLength (pHeader p) (int (length body))\<rparr> else p)
             in do { (w, p, e) \<leftarrow> Response_WriteHeader E w p;
                     if e \<noteq> None \<or> \<not> sendBody then Some (w, p, e)
                     else (case bw_Write w body of (w, x) \<Rightarrow> Some (w, p, map_option io_msg x)) })"

definition Response_WriteGzipLevel :: "resp_env \<Rightarrow> bwriter \<Rightarrow> Response \<Rightarrow> int \<Rightarrow> (bwriter \<times> Response \<times> msg_error option) option" where
  "Response_WriteGzipLevel E w p level = do { p \<leftarrow> Response_gzipBody E p level; Response_Write E w p }"

definition Response_WriteDeflateLevel :: "resp_env \<Rightarrow> bwriter \<Rightarrow> Response \<Rightarrow> int \<Rightarrow> (bwriter \<times> Response \<times> msg_error option) option" where
  "Response_WriteDeflateLevel E w p level = do { p \<leftarrow> Response_deflateBody E p level; Response_Write E w p }"

section \<open>Whole responses: what is written is read back\<close>

lemma chunked_loop_size:
  assumes "chunked_loop r m dst = Some y"
  shows "brSize (fst y) = brSize r"
  using assms
proof (induction "length (pending r)" arbitrary: r dst rule: less_induct)
  case less
  obtain r1 n e where P: "parseChunkSize r = (r1, n, e)" by (metis prod_cases3)
  have s: "brSize r1 = brSize r" using parseChunkSize_size [of r] P by simp
  note L = less.prems [unfolded chunked_loop.simps [of r m dst]]
  show ?case
  proof (cases "e = None \<and> n \<noteq> 0 \<and> \<not> (0 < m \<and> m < int (length dst) + n)")
    case True
    then obtain r2 b e2 where A: "appendBodyFixedSize r1 dst (n + 2) = Some (r2, b, e2)"
      using L P by (auto split: option.splits prod.splits)
    have "y = (r2, b, e2) \<or> y = (r2, b, Some ErrBrokenChunk) \<or> e2 = None \<and> chunked_loop r2 m (take (length b - 2) b) = Some y"
      using L P A True by (auto split: option.splits if_splits)
    then show ?thesis
      using less.hyps [of r2 "take (length b - 2) b"] chunk_step_shrinks [of r r1 n dst r2 b] P A True append_size [OF A] s by auto
  next
    case False
    then show ?thesis using L P s by (auto split: option.splits if_splits)
  qed
qed

lemma AppendBytes_keeps_trailer:
  assumes "ResponseHeader_AppendBytes date h dst c = Some (h', b)"
  shows "rsTrailer h' = rsTrailer h \<and> rsContentLength h' = rsContentLength h \<and> rsStatusCode h' = rsStatusCode h"
proof -
  let ?h = "ResponseHeader_DelNoSpecialCanonical h strTransferEncoding"
  have "h' = ?h \<or> (\<exists>d d' t. append_body_headers ?h d c = Some (h', d', t))"
    using assms unfolding ResponseHeader_AppendBytes_def Let_def by (auto split: if_splits option.splits prod.splits)
  moreover have "rsTrailer h' = rsTrailer ?h \<and> rsContentLength h' = rsContentLength ?h \<and> rsStatusCode h' = rsStatusCode ?h"
    if "append_body_headers ?h d c = Some (h', d', t)" for d d' t
    using that by (auto simp: append_body_headers_def Let_def ResponseHeader_SetConnectionClose_def split: if_splits)
  ultimately show ?thesis by (auto simp: ResponseHeader_DelNoSpecialCanonical_def)
qed

definition response_body :: "Response \<Rightarrow> bytes" where
  "response_body p =
     (case pBodyStream p of Some (FromUser u) \<Rightarrow> concat (map fst (usSource u)) | _ \<Rightarrow> Response_bodyBytes p)"

text \<open>The header that \<^verbatim>\<open>Write\<close> sends: the length of a body in memory is filled in, unless the end of the connection
  is to mark the end of the body.\<close>

definition sent_response :: "Response \<Rightarrow> ResponseHeader" where
  "sent_response p =
     (if pBodyStream p = None \<and> rsContentLength (pHeader p) \<noteq> -2
      then ResponseHeader_SetContentLength (pHeader p) (int (length (Response_bodyBytes p))) else pHeader p)"

text \<open>Responses whose body is in memory, or comes from a stream of unknown length that does not fail.\<close>

definition plain_response :: "Response \<Rightarrow> bool" where
  "plain_response p \<longleftrightarrow>
     pChunkedW p = None \<and> pCompressPool p = None \<and> \<not> Response_mustSkipBody p \<and> length (response_body p) \<le> 2 ^ 46 \<and>
     (case pBodyStream p of
        None \<Rightarrow> True
      | Some (FromUser u) \<Rightarrow>
          rsContentLength (pHeader p) = -1 \<and> usLimit u = None \<and> usClose u = None \<and> list_all (\<lambda>x. snd x = None) (usSource u)
      | Some (FromConn _) \<Rightarrow> False)"

text \<open>The bytes of the body on the connection: as they are, or in chunks with an empty trailer.\<close>

definition framed :: "Response \<Rightarrow> bytes \<Rightarrow> bool" where
  "framed p b \<longleftrightarrow>
     (if pBodyStream p = None then b = response_body p
      else \<exists>cs. [] \<notin> set cs \<and> concat cs = response_body p \<and>
             b = concat (map (\<lambda>c. chunk_wire ([], c)) cs) @ last_chunk [] @ strCRLF)"

lemma WriteHeader_live:
  assumes "bw_live w" "ResponseHeader_AppendBytes (envDate E) (pHeader p) [] False = Some (h, t)"
  shows "\<exists>w'. Response_WriteHeader E w p = Some (w', p\<lparr>pHeader := h\<lparr>rsBufV := t\<rparr>\<rparr>, None) \<and> bw_all w' = bw_all w @ t \<and> bw_live w'"
proof -
  from Write_live [OF assms(1), of t] obtain w1 where w1: "bw_Write w t = (w1, None)" "bw_all w1 = bw_all w @ t" "bw_live w1" by blast
  obtain w2 e where w2: "bw_Flush w1 = (w2, e)" by fastforce
  from Flush_facts [OF w2] w1(3) have "bw_all w2 = bw_all w1" "e = None" "bw_live w2" by (auto simp: bw_live_def)
  then show ?thesis
    using w1 w2 assms(2) by (auto simp: Response_WriteHeader_def ResponseHeader_Header_def Let_def)
qed

lemma Write_in_memory:
  assumes p: "plain_response p" "pBodyStream p = None" and w: "bw_live w"
    and a: "ResponseHeader_AppendBytes (envDate E) (sent_response p) [] False = Some (h, t)"
  shows "\<exists>w' p'. Response_Write E w p = Some (w', p', None) \<and> bw_all w' = bw_all w @ t @ response_body p \<and> bw_live w'"
proof -
  let ?p = "if rsContentLength (pHeader p) \<noteq> -2
    then p\<lparr>pHeader := ResponseHeader_SetContentLength (pHeader p) (int (length (Response_bodyBytes p)))\<rparr> else p"
  have h: "pHeader ?p = sent_response p" using p(2) by (simp add: sent_response_def)
  from WriteHeader_live [OF w a [folded h]] obtain w1 where
    w1: "Response_WriteHeader E w ?p = Some (w1, ?p\<lparr>pHeader := h\<lparr>rsBufV := t\<rparr>\<rparr>, None)" "bw_all w1 = bw_all w @ t" "bw_live w1" by blast
  from Write_live [OF w1(3), of "Response_bodyBytes p"] obtain w2 where
    w2: "bw_Write w1 (Response_bodyBytes p) = (w2, None)" "bw_all w2 = bw_all w1 @ Response_bodyBytes p" "bw_live w2" by blast
  have "Response_Write E w p = Some (w2, ?p\<lparr>pHeader := h\<lparr>rsBufV := t\<rparr>\<rparr>, None)"
    using p w1(1) w2(1) by (simp add: Response_Write_def plain_response_def Let_def)
  then show ?thesis using w1(2) w2(2,3) p(2) by (simp add: response_body_def)
qed

lemma Write_stream:
  assumes p: "plain_response p" "pBodyStream p = Some (FromUser u)" and w: "bw_live w" and k: "0 < envChunkLen E"
    and a: "ResponseHeader_AppendBytes (envDate E) (sent_response p) [] False = Some (h, t)" "live (rsTrailer (pHeader p)) = []"
  shows "\<exists>w' p' b. Response_Write E w p = Some (w', p', None) \<and> bw_all w' = bw_all w @ t @ b \<and> framed p b"
proof -
  have h: "sent_response p = pHeader p" using p(2) by (simp add: sent_response_def)
  let ?q = "p\<lparr>pHeader := h\<lparr>rsBufV := t\<rparr>\<rparr>"
  from WriteHeader_live [OF w a(1) [unfolded h]] obtain w1 where
    w1: "Response_WriteHeader E w p = Some (w1, ?q, None)" "bw_all w1 = bw_all w @ t" "bw_live w1" by blast
  define f where "f src = ?q\<lparr>pBodyStream := Some (FromUser (u\<lparr>usSource := src\<rparr>))\<rparr>" for src
  let ?ds = "map fst (usSource u)"
  have u: "usSource u = map (\<lambda>b. (b, None)) ?ds"
    using p by (intro nth_equalityI) (auto simp: plain_response_def list_all_length prod_eq_iff)
  have q: "?q = f (map (\<lambda>b. (b, None)) ?ds)" unfolding u [symmetric] f_def using p(2) by simp
  have rd: "Response_stream_Read (f src) n = (case src_Read src n of (src', b, e) \<Rightarrow> Some (f src', b, map_option io_msg e))" for src n
    by (simp add: f_def Response_stream_Read_def user_Read_def split: prod.splits)
  have l: "length (concat ?ds) < 2 ^ 60" using p by (simp add: plain_response_def response_body_def)
  from writeBodyChunked_live [OF w1(3) k l rd refl, of io_msg] obtain w2 cs where
    w2: "writeBodyChunked Response_stream_Read MsgEOF io_msg (envChunkLen E) w1 ?q = Some (w2, f [], None)" "bw_live w2"
      "[] \<notin> set cs" "concat cs = concat ?ds" "bw_all w2 = bw_all w1 @ concat (map (\<lambda>c. chunk_wire ([], c)) cs) @ chunkedEnd"
    unfolding q [symmetric] by blast
  from Write_live [OF w2(2), of strCRLF] obtain w3 where w3: "bw_Write w2 strCRLF = (w3, None)" "bw_all w3 = bw_all w2 @ strCRLF" by blast
  have tr: "ResponseHeader_TrailerHeader (pHeader (f [])) = Some ((pHeader (f []))\<lparr>rsBufV := strCRLF\<rparr>, strCRLF)"
    using AppendBytes_keeps_trailer [OF a(1) [unfolded h]] a(2) by (simp add: ResponseHeader_TrailerHeader_def f_def Let_def)
  have "\<exists>p'. Response_Write E w p = Some (w3, p', None)"
    using p w1(1) w2(1) w3(1) tr
    by (simp add: Response_Write_def Response_writeBodyStream_def plain_response_def limitedReaderSize_def Response_closeBodyStream_def f_def Let_def)
  moreover have "framed p (concat (map (\<lambda>c. chunk_wire ([], c)) cs) @ chunkedEnd @ strCRLF)"
    using p(2) w2(3,4) by (auto simp: framed_def response_body_def last_chunk_def hex_digits.simps [of 0] lowerhex_def intro!: exI [of _ cs])
  ultimately show ?thesis using w1(2) w2(5) w3(2) by fastforce
qed

text \<open>What arrives: status, special headers, the other fields behind the date, cookies, and the body.\<close>

definition same_response :: "resp_env \<Rightarrow> Response \<Rightarrow> Response \<Rightarrow> bool" where
  "same_response E p g \<longleftrightarrow>
     (let h = sent_response p; h' = pHeader g
      in rsStatusCode h' = int (printed_code h) \<and> rsStatusMessage h' = printed_message h \<and> rsServer h' = rsServer h \<and>
         rsContentType h' = printed_ct h \<and> rsContentEncoding h' = rsContentEncoding h \<and> rsConnectionClose h' = closes h \<and>
         kv_pairs (live (rsH h')) = date_line (envDate E) h @ kv_pairs (live (rsH h)) \<and>
         map kvValue (live (rsCookies h')) = map kvValue (live (rsCookies h)) \<and>
         Response_bodyBytes g = response_body p)"

definition response_receiver :: "Response \<Rightarrow> bool" where
  "response_receiver g \<longleftrightarrow>
     \<not> pStreamBody g \<and> \<not> pSkipBody g \<and> \<not> rsDisableNormalizing (pHeader g) \<and> \<not> rsHeadMethod (pHeader g) \<and> br_live (pReader g)"

lemma ResetBody_facts:
  "Response_bodyBytes (Response_ResetBody p) = []" "pHeader (Response_ResetBody p) = pHeader p"
  "pReader (Response_ResetBody p) = pReader p" "pStreamBody (Response_ResetBody p) = pStreamBody p"
  "pSkipBody (Response_ResetBody p) = pSkipBody p"
  by (auto simp: Response_ResetBody_def Response_closeBodyStream_def Response_bodyBytes_def Let_def split: option.splits msg_stream.splits)

text \<open>The three framings of a body: its length, chunks, the end of the connection.\<close>

lemma ReadBody_length:
  assumes "Response_bodyBytes g = []" "br_live (pReader g)" "pending (pReader g) = b @ tail" "rsContentLength (pHeader g) = int (length b)"
    and "length b \<le> 2 ^ 46" "m \<le> 0 \<or> int (length b) \<le> m"
  shows "\<exists>g'. Response_ReadBody E g m = Some (g', None) \<and> Response_bodyBytes g' = b \<and> pHeader g' = pHeader g \<and> pending (pReader g') = tail"
proof (cases "b = []")
  case True
  then show ?thesis using assms by (simp add: Response_ReadBody_def)
next
  case False
  then have l: "0 < int (length b)" by simp
  from append_exact [OF assms(2) l, of "[]"] assms(3,5) obtain r where
    r: "appendBodyFixedSize (pReader g) [] (int (length b)) = Some (r, b, None)" "pending r = tail" by (auto simp: maxAlloc_def)
  then have "readBody (pReader g) (int (length b)) m [] = Some (r, b, None)"
    using assms(6) by (auto simp: Body.readBody_def)
  then show ?thesis
    using assms False r by (auto simp: Response_ReadBody_def Response_bodyBuffer_def Response_bodyBytes_def Let_def)
qed

lemma ReadBody_chunks:
  assumes "br_live (pReader g)" "2 \<le> brSize (pReader g)" "rsContentLength (pHeader g) = -1"
    and p: "pending (pReader g) = concat (map (\<lambda>c. chunk_wire ([], c)) cs) @ last_chunk [] @ strCRLF @ tail" "[] \<notin> set cs"
    and "length (concat cs) \<le> 2 ^ 46" "m \<le> 0 \<or> int (length (concat cs)) \<le> m"
  shows "\<exists>g'. Response_ReadBody E g m = Some (g', None) \<and> Response_bodyBytes g' = concat cs \<and> pHeader g' = pHeader g \<and> pending (pReader g') = tail"
proof -
  let ?cs = "map (\<lambda>c. ([], c)) cs"
  have d: "chunk_data ?cs = concat cs" by (simp add: comp_def)
  have "pending (pReader g) = concat (map chunk_wire ?cs) @ last_chunk [] @ strCRLF @ tail" using p(1) by (simp add: comp_def)
  from chunked_loop_live [OF assms(1) this, of "[]" m] p(2) assms(6,7) d obtain r where
    r: "readBodyChunked (pReader g) m [] = Some (r, concat cs, None)" "pending r = strCRLF @ tail" "br_live r"
    by (auto simp: readBodyChunked_def chunk_ext_def maxAlloc_def)
  have "brSize r = brSize (pReader g)" using chunked_loop_size [of "pReader g" m "[]"] r(1) by (auto simp: readBodyChunked_def)
  with rs_stream.blank [OF r(3) _ r(2), of "pHeader g"] assms(2) obtain r' where
    "ResponseHeader_ReadTrailer (pHeader g) r = Some (pHeader g, r', None)" "pending r' = tail" by auto
  then show ?thesis
    using assms(3) r(1) by (simp add: Response_ReadBody_def Response_bodyBuffer_def Response_bodyBytes_def Let_def)
qed

lemma ReadBody_close:
  assumes "br_live (pReader g)" "brEnd (pReader g) = EOF" "rsContentLength (pHeader g) = -2" "pending (pReader g) = b"
    and "length b \<le> 2 ^ 46" "m \<le> 0 \<or> int (length b) \<le> m"
  shows "\<exists>g'. Response_ReadBody E g m = Some (g', None) \<and> Response_bodyBytes g' = b \<and>
           pHeader g' = ResponseHeader_SetContentLength (pHeader g) (int (length b))"
proof -
  have "\<exists>r'. readBodyIdentity (pReader g) m (envBufferCap E) = Some (r', b, None)"
    using identity_loop_live [OF assms(1,2), of "[]" "if envBufferCap E = 0 then 1024 else int (envBufferCap E)" m] assms(4-6)
    by (auto simp: readBodyIdentity_def)
  then obtain r' where "readBodyIdentity (pReader g) m (envBufferCap E) = Some (r', b, None)" by blast
  then show ?thesis
    using assms(3) by (simp add: Response_ReadBody_def Response_bodyBuffer_def Response_bodyBytes_def ResponseHeader_SetContentLength_def Let_def)
qed

lemma ReadLimit_body:
  assumes "Response_read_header g = Some (g1, None)" "\<not> Response_mustSkipBody g1" "\<not> rsHeadMethod (pHeader g1)" "\<not> pStreamBody g1"
    and "Response_ReadBody E g1 m = Some (g', None)"
  shows "Response_ReadLimitIfClose E g m = Some (g', rsContentLength (pHeader g1) = -2, None)"
  using assms by (simp add: Response_ReadLimitIfClose_def)

lemma Read_response:
  assumes p: "plain_response p" "rs_printable (envDate E) (sent_response p)"
    and a: "ResponseHeader_AppendBytes (envDate E) (sent_response p) [] False = Some (h, t)" and b: "framed p b"
    and g: "response_receiver g" "brBuf (pReader g) = []" "brSrc (pReader g) = seg # rest" "concat (seg # rest) = t @ b @ tail"
      "length t \<le> length seg" "length seg \<le> brSize (pReader g)" "2 \<le> brSize (pReader g)"
    and m: "m \<le> 0 \<or> int (length (response_body p)) \<le> m"
    and c: "rsContentLength (pHeader p) = -2 \<longrightarrow> tail = [] \<and> brEnd (pReader g) = EOF"
  shows "\<exists>g'. Response_ReadLimitIfClose E g m = Some (g', rsContentLength (pHeader p) = -2, None) \<and> same_response E p g' \<and>
           (rsContentLength (pHeader p) \<noteq> -2 \<longrightarrow> pending (pReader g') = tail)"
proof -
  let ?h = "sent_response p"
  define b1 where "b1 = drop (length t) seg"
  have seg: "seg = t @ b1" "b1 @ concat rest = b @ tail"
  proof -
    have e: "seg @ concat rest = t @ b @ tail" using g(4) by simp
    have "take (length t) (seg @ concat rest) = t" unfolding e by simp
    then have "take (length t) seg = t" using g(5) by simp
    then show "seg = t @ b1" using append_take_drop_id [of "length t" seg] by (simp add: b1_def)
    then show "b1 @ concat rest = b @ tail" using e by simp
  qed
  have G: "\<not> rsDisableNormalizing (pHeader g)" "\<not> rsHeadMethod (pHeader g)" "br_live (pReader g)" "\<not> pStreamBody g" "\<not> pSkipBody g"
    using g(1) by (simp_all add: response_receiver_def)
  from response_header_read [OF p(2) G(1,2) a G(3) g(2) g(3) [unfolded seg(1)] g(6) [unfolded seg(1)]] obtain h' r' where
    R: "ResponseHeader_Read (pHeader g) (pReader g) = Some (h', r', None)" "pending r' = b @ tail" "br_live r'"
      "brSize r' = brSize (pReader g)" "brEnd r' = brEnd (pReader g)" "\<not> rsHeadMethod h'"
      "rsContentLength h' = (if sends_body ?h then rsContentLength ?h else -2)" "rsStatusCode h' = int (printed_code ?h)"
    and F: "rsStatusMessage h' = printed_message ?h" "rsServer h' = rsServer ?h" "rsContentType h' = printed_ct ?h"
      "rsContentEncoding h' = printed_ce ?h" "rsConnectionClose h' = closes ?h"
      "kv_pairs (live (rsH h')) = date_line (envDate E) ?h @ kv_pairs (live (rsH ?h))"
      "map kvValue (live (rsCookies h')) = map kvValue (live (rsCookies ?h))"
    unfolding seg(2) by blast
  define g1 where "g1 = Response_ResetBody (g\<lparr>pHeader := h', pReader := r'\<rparr>)"
  have g1: "Response_bodyBytes g1 = []" "pHeader g1 = h'" "pReader g1 = r'" "\<not> pStreamBody g1" "\<not> pSkipBody g1"
    using G ResetBody_facts by (simp_all add: g1_def)
  have code: "rsStatusCode ?h = rsStatusCode (pHeader p)" by (simp add: sent_response_def ResponseHeader_SetContentLength_def)
  have skip: "\<not> ResponseHeader_mustSkipContentLength (pHeader p)" using p(1) by (simp add: plain_response_def Response_mustSkipBody_def)
  then have s: "sends_body ?h" "\<not> ResponseHeader_mustSkipContentLength h'" "rsStatusCode h' \<noteq> 100"
    using R(8) code
    by (auto simp: sends_body_def bodyNotAllowedForStatus_def ResponseHeader_mustSkipContentLength_def printed_code_def split: if_splits)
  have H: "Response_read_header g = Some (g1, None)"
    using R(1) s(3) g1(2) by (simp add: Response_read_header_def g1_def Let_def)
  have N: "\<not> Response_mustSkipBody g1" using g1 s by (simp add: Response_mustSkipBody_def)
  have l: "length (response_body p) \<le> 2 ^ 46" using p(1) by (simp add: plain_response_def)
  have B: "\<exists>g'. Response_ReadBody E g1 m = Some (g', None) \<and> Response_bodyBytes g' = response_body p \<and>
      (\<exists>n. pHeader g' = ResponseHeader_SetContentLength h' n) \<and> (rsContentLength (pHeader p) \<noteq> -2 \<longrightarrow> pending (pReader g') = tail)"
  proof -
    have id: "h' = ResponseHeader_SetContentLength h' (rsContentLength h')" by (simp add: ResponseHeader_SetContentLength_def)
    consider "pBodyStream p = None" "rsContentLength (pHeader p) \<noteq> -2" | "pBodyStream p = None" "rsContentLength (pHeader p) = -2"
      | "pBodyStream p \<noteq> None" "rsContentLength (pHeader p) = -1"
      using p(1) by (auto simp: plain_response_def split: option.splits msg_stream.splits)
    then show ?thesis
    proof cases
      case 1
      then have "b = response_body p" "rsContentLength h' = int (length b)"
        using b s(1) R(7) by (simp_all add: framed_def sent_response_def response_body_def ResponseHeader_SetContentLength_def)
      with ReadBody_length [of g1 b tail m E] g1 R(2,3) l m id show ?thesis by auto
    next
      case 2
      then have "b = response_body p" "rsContentLength h' = -2" "tail = []" "brEnd r' = EOF"
        using b s(1) R(5,7) c by (simp_all add: framed_def sent_response_def)
      with ReadBody_close [of g1 b m E] g1 R(2,3) l m 2 show ?thesis by auto
    next
      case 3
      then obtain cs where "[] \<notin> set cs" "concat cs = response_body p" "b = concat (map (\<lambda>c. chunk_wire ([], c)) cs) @ last_chunk [] @ strCRLF"
        using b by (auto simp: framed_def)
      moreover have "rsContentLength h' = -1" using 3 s(1) R(7) by (auto simp: sent_response_def)
      ultimately show ?thesis
        using ReadBody_chunks [of g1 cs tail m E] g1 R(2,3,4) g(7) l m id by auto
    qed
  qed
  then obtain g' n where B: "Response_ReadBody E g1 m = Some (g', None)" "Response_bodyBytes g' = response_body p"
    "pHeader g' = ResponseHeader_SetContentLength h' n" "rsContentLength (pHeader p) \<noteq> -2 \<longrightarrow> pending (pReader g') = tail" by blast
  have cl: "(rsContentLength h' = -2) = (rsContentLength (pHeader p) = -2)"
    using s(1) R(7) by (auto simp: sent_response_def ResponseHeader_SetContentLength_def)
  have "same_response E p g'"
    using F R(8) B(2,3) s(1) by (simp add: same_response_def ResponseHeader_SetContentLength_def printed_ce_def Let_def)
  with ReadLimit_body [OF H N _ g1(4) B(1)] g1(2) R(6) cl B(4) show ?thesis by auto
qed

text \<open>C13: A response that is written is read back, whichever way its body is framed: by its length, in chunks when it
  comes from a stream of unknown length, or by the end of the connection. Status, headers, cookies and body come back
  as they were sent, the reader leaves what follows a framed body on the connection, and it tells the client to close
  the connection exactly when the body had no framing. The header has to arrive in one segment.\<close>

theorem response_roundtrip:
  assumes p: "plain_response p" "rs_printable (envDate E) (sent_response p)" and w: "bw_live w" and k: "0 < envChunkLen E"
  shows "\<exists>w' p' t b. Response_Write E w p = Some (w', p', None) \<and> bw_all w' = bw_all w @ t @ b \<and>
           (\<forall>g seg rest tail m.
              response_receiver g \<and> brBuf (pReader g) = [] \<and> brSrc (pReader g) = seg # rest \<and> concat (seg # rest) = t @ b @ tail \<and>
              length t \<le> length seg \<and> length seg \<le> brSize (pReader g) \<and> 2 \<le> brSize (pReader g) \<and>
              (m \<le> 0 \<or> int (length (response_body p)) \<le> m) \<and>
              (rsContentLength (pHeader p) = -2 \<longrightarrow> tail = [] \<and> brEnd (pReader g) = EOF) \<longrightarrow>
              (\<exists>g'. Response_ReadLimitIfClose E g m = Some (g', rsContentLength (pHeader p) = -2, None) \<and> same_response E p g' \<and>
                 (rsContentLength (pHeader p) \<noteq> -2 \<longrightarrow> pending (pReader g') = tail)))"
proof -
  obtain h t where a: "ResponseHeader_AppendBytes (envDate E) (sent_response p) [] False = Some (h, t)"
    using AppendBytes_lines [of "sent_response p" "envDate E" "[]"] p(2) by (auto simp: rs_printable_def)
  have "\<exists>w' p' b. Response_Write E w p = Some (w', p', None) \<and> bw_all w' = bw_all w @ t @ b \<and> framed p b"
  proof (cases "pBodyStream p")
    case None
    from Write_in_memory [OF p(1) None w a] None show ?thesis by (auto simp: framed_def)
  next
    case (Some s)
    then obtain u where u: "pBodyStream p = Some (FromUser u)" using p(1) by (auto simp: plain_response_def split: msg_stream.splits)
    then have "live (rsTrailer (pHeader p)) = []" using p(2) by (simp add: rs_printable_def sent_response_def)
    from Write_stream [OF p(1) u w k a this] show ?thesis by blast
  qed
  then obtain w' p' b where W: "Response_Write E w p = Some (w', p', None)" "bw_all w' = bw_all w @ t @ b" "framed p b" by blast
  show ?thesis
    using W(1,2) Read_response [OF p a W(3)] by (intro exI [of _ w'] exI [of _ p'] exI [of _ t] exI [of _ b]) blast
qed

definition sample_resp_env :: resp_env where
  "sample_resp_env =
     \<lparr>envDate = bs ''now'', envCopyLen = 4, envChunkLen = 4, envBufferCap = 4, envErrText = (\<lambda>_. []), responseBodyPoolSizeLimit = 0,
      envMimeOk = (\<lambda>_. True), envPool = (\<lambda>_ _. 0), envCompress = (\<lambda>_. Inr), envCompressStream = (\<lambda>_ b. ([b], None)),
      envChunkedW = (\<lambda>_ _. ([], None, None))\<rparr>"

definition sample_stream_response :: Response where
  "sample_stream_response = (emptyResponse (new_reader 16 []))
     \<lparr>pHeader := sample_response\<lparr>rsContentLength := -1\<rparr>,
      pBodyStream := Some (FromUser \<lparr>usSource = [(bs ''hel'', None), (bs ''lo'', None)], usLimit = None, usClose = None\<rparr>)\<rparr>"

lemma sample_stream_response_ok:
  "plain_response sample_stream_response" "rs_printable (envDate sample_resp_env) (sent_response sample_stream_response)"
  by (simp_all add: plain_response_def sample_stream_response_def sample_resp_env_def emptyResponse_def sample_response_def emptyResponseHeader_def
      Response_mustSkipBody_def ResponseHeader_mustSkipContentLength_def response_body_def sent_response_def rs_printable_def status_ok_def
      printed_code_def printed_message_def ResponseHeader_Protocol_def ResponseHeader_ContentType_def closes_def is_int64_def
      value_ok_def line_value_def validHeaderValueByte_def validHeaderValueByteTable_def mkKV_def strHTTP11_def)

theorem response_roundtrip_witness:
  "\<exists>w' p' g'. Response_Write sample_resp_env \<lparr>bwBuf = [], bwSize = 4, bwOut = [], bwRoom = None, bwErr = None\<rparr> sample_stream_response = Some (w', p', None) \<and>
     Response_ReadLimitIfClose sample_resp_env (emptyResponse (new_reader (length (bw_all w') + 4) [bw_all w' @ bs ''NEXT''])) 5 =
       Some (g', False, None) \<and>
     Response_bodyBytes g' = bs ''hello'' \<and> pending (pReader g') = bs ''NEXT''"
proof -
  let ?w = "\<lparr>bwBuf = [], bwSize = 4, bwOut = [], bwRoom = None, bwErr = None\<rparr>"
  have w: "bw_live ?w" "bw_all ?w = []" "0 < envChunkLen sample_resp_env" by (simp_all add: bw_live_def bw_all_def sample_resp_env_def)
  have b: "response_body sample_stream_response = bs ''hello''" "rsContentLength (pHeader sample_stream_response) = -1"
    by (simp_all add: response_body_def sample_stream_response_def)
  from response_roundtrip [OF sample_stream_response_ok w(1,3)] obtain w' p' t b where
    W: "Response_Write sample_resp_env ?w sample_stream_response = Some (w', p', None)" "bw_all w' = t @ b"
    and R: "\<And>g seg rest tail m. response_receiver g \<Longrightarrow> brBuf (pReader g) = [] \<Longrightarrow> brSrc (pReader g) = seg # rest \<Longrightarrow>
        concat (seg # rest) = t @ b @ tail \<Longrightarrow> length t \<le> length seg \<Longrightarrow> length seg \<le> brSize (pReader g) \<Longrightarrow> 2 \<le> brSize (pReader g) \<Longrightarrow>
        m \<le> 0 \<or> int (length (response_body sample_stream_response)) \<le> m \<Longrightarrow>
        \<exists>g'. Response_ReadLimitIfClose sample_resp_env g m = Some (g', False, None) \<and> same_response sample_resp_env sample_stream_response g' \<and>
          pending (pReader g') = tail"
    by (auto simp: w(2) b(2))
  let ?g = "emptyResponse (new_reader (length (bw_all w') + 4) [bw_all w' @ bs ''NEXT''])"
  have "response_receiver ?g" "brBuf (pReader ?g) = []" "brSrc (pReader ?g) = [t @ b @ bs ''NEXT'']" "brSize (pReader ?g) = length (t @ b) + 4"
    using W(2) by (simp_all add: response_receiver_def emptyResponse_def emptyResponseHeader_def new_reader_def br_live_def br_ok_def no_empty_def)
  with R [of ?g "t @ b @ bs ''NEXT''" "[]" "bs ''NEXT''" 5] obtain g' where
    "Response_ReadLimitIfClose sample_resp_env ?g 5 = Some (g', False, None)" "same_response sample_resp_env sample_stream_response g'"
    "pending (pReader g') = bs ''NEXT''" by (auto simp: b(1))
  with W(1) b(1) show ?thesis by (auto simp: same_response_def Let_def)
qed

section \<open>Cookies set by name and value\<close>

definition Cookie_SetPrefixValue :: "'t Cookie \<Rightarrow> bytes \<Rightarrow> bytes \<Rightarrow> 't Cookie" where
  "Cookie_SetPrefixValue c pre value =
     (let c = (if pre \<noteq> [] then c\<lparr>ckValue := pre\<rparr> else c) in c\<lparr>ckValue := ckValue c @ value\<rparr>)"

definition ResponseHeader_SetCookieString :: "ResponseHeader \<Rightarrow> bytes \<Rightarrow> bytes \<Rightarrow> ResponseHeader" where
  "ResponseHeader_SetCookieString h key value = h\<lparr>rsCookies := setArg (rsCookies h) key value False\<rparr>"

text \<open>The line that is sent for a cookie set by name and value holds the value only: the client sees no name. And a
  cookie value that is set with an empty prefix is appended to the old one.\<close>

lemma set_cookie_string_nameless:
  "live (rsCookies h) = [] \<Longrightarrow> cookie_lines (ResponseHeader_SetCookieString h key value) = [(strSetCookie, value)]"
  by (simp add: cookie_lines_def ResponseHeader_SetCookieString_def live_setArg mkKV_def)

lemma empty_prefix_appends: "ckValue (Cookie_SetPrefixValue c [] value) = ckValue c @ value"
  by (simp add: Cookie_SetPrefixValue_def)

end
