(* ===== verification/UserData.thy ===== *)
theory UserData
  imports "HOL-Library.Multiset" Args
begin

text \<open>
  \<^verbatim>\<open>userdata.go\<close>: the values that handlers attach to a request, a slice of pairs that is searched from the front.
  Keys are strings or other comparable values; a \<^verbatim>\<open>[]byte\<close> key is turned into a string first. A value is \<open>None\<close> for
  \<^verbatim>\<open>nil\<close>. The slices that the methods produce never hold a key twice; they form a type of their own, on which the
  methods implement a finite map.
\<close>

section \<open>The methods\<close>

datatype user_key = KString bytes | KOther nat

record 'v userDataKV =
  udKey :: user_key
  udValue :: "'v option"

fun userData_Set :: "'v userDataKV list \<Rightarrow> user_key \<Rightarrow> 'v option \<Rightarrow> 'v userDataKV list" where
  "userData_Set [] k v = (case v of None \<Rightarrow> [] | Some _ \<Rightarrow> [\<lparr>udKey = k, udValue = v\<rparr>])"
| "userData_Set (kv # d) k v = (if udKey kv = k then kv\<lparr>udValue := v\<rparr> # d else kv # userData_Set d k v)"

fun userData_Get :: "'v userDataKV list \<Rightarrow> user_key \<Rightarrow> 'v option" where
  "userData_Get [] k = None"
| "userData_Get (kv # d) k = (if udKey kv = k then udValue kv else userData_Get d k)"

text \<open>\<^verbatim>\<open>Reset\<close> also closes the values that can be closed: their list, in order, is part of the result.\<close>

definition userData_Reset :: "('v \<Rightarrow> bool) \<Rightarrow> 'v userDataKV list \<Rightarrow> 'v userDataKV list \<times> 'v list" where
  "userData_Reset closer d = ([], filter closer (List.map_filter udValue d))"

text \<open>\<^verbatim>\<open>Remove\<close> swaps the pair with the last one and shortens the slice.\<close>

fun index_of_key :: "'v userDataKV list \<Rightarrow> user_key \<Rightarrow> nat option" where
  "index_of_key [] k = None"
| "index_of_key (kv # d) k = (if udKey kv = k then Some 0 else map_option Suc (index_of_key d k))"

definition userData_Remove :: "'v userDataKV list \<Rightarrow> user_key \<Rightarrow> 'v userDataKV list" where
  "userData_Remove d k =
     (case index_of_key d k of
        None \<Rightarrow> d
      | Some i \<Rightarrow> take (length d - 1) (d[i := last d]))"

section \<open>Keys stay distinct\<close>

abbreviation user_keys :: "'v userDataKV list \<Rightarrow> user_key list" where
  "user_keys d \<equiv> map udKey d"

lemma Set_keys: "user_keys (userData_Set d k v) = (if k \<in> set (user_keys d) \<or> v = None then user_keys d else user_keys d @ [k])"
  by (induction d) (auto split: option.splits)

lemma index_of_key_None: "index_of_key d k = None \<longleftrightarrow> k \<notin> set (user_keys d)"
  by (induction d) auto

lemma index_of_key_Some: "index_of_key d k = Some i \<Longrightarrow> \<exists>xs kv ys. d = xs @ kv # ys \<and> length xs = i \<and> udKey kv = k \<and> k \<notin> set (user_keys xs)"
proof (induction d arbitrary: i)
  case (Cons kv d)
  show ?case
  proof (cases "udKey kv = k")
    case True
    with Cons.prems show ?thesis by (auto intro!: exI [of _ "[]"])
  next
    case False
    with Cons.prems obtain j where "index_of_key d k = Some j" "i = Suc j" by auto
    with Cons.IH [OF this(1)] obtain xs kv' ys where "d = xs @ kv' # ys" "length xs = j" "udKey kv' = k" "k \<notin> set (user_keys xs)" by blast
    with False \<open>i = Suc j\<close> show ?thesis by (intro exI [of _ "kv # xs"] exI [of _ kv'] exI [of _ ys]) auto
  qed
qed simp

text \<open>Up to order, \<^verbatim>\<open>Remove\<close> drops one pair with the key.\<close>

lemma Remove_split:
  assumes "k \<in> set (user_keys d)"
  shows "\<exists>xs kv ys zs. d = xs @ kv # ys \<and> udKey kv = k \<and> userData_Remove d k = xs @ zs \<and> mset zs = mset ys"
proof -
  obtain i where i: "index_of_key d k = Some i" using assms index_of_key_None by fastforce
  obtain xs kv ys where d: "d = xs @ kv # ys" "length xs = i" "udKey kv = k" using index_of_key_Some [OF i] by blast
  have "\<exists>zs. userData_Remove d k = xs @ zs \<and> mset zs = mset ys"
  proof (cases ys rule: rev_cases)
    case Nil
    then show ?thesis using i d by (simp add: userData_Remove_def list_update_append)
  next
    case (snoc us u)
    then show ?thesis using i d by (auto simp: userData_Remove_def list_update_append)
  qed
  with d show ?thesis by blast
qed

lemma Get_append: "userData_Get (d @ e) k = (if k \<in> set (user_keys d) then userData_Get d k else userData_Get e k)"
  by (induction d) auto

lemma Get_mset:
  assumes "mset d = mset e" "distinct (user_keys d)"
  shows "userData_Get d k = userData_Get e k"
proof -
  have g: "userData_Get xs k = (case map_of (map (\<lambda>kv. (udKey kv, udValue kv)) xs) k of None \<Rightarrow> None | Some v \<Rightarrow> v)" for xs :: "'a userDataKV list"
    by (induction xs) auto
  have "mset (user_keys d) = mset (user_keys e)" using assms(1) by simp
  then have "distinct (user_keys e)" using assms(2) mset_eq_imp_distinct_iff by blast
  moreover have "set d = set e" using assms(1) by (rule mset_eq_setD)
  ultimately have "map_of (map (\<lambda>kv. (udKey kv, udValue kv)) d) = map_of (map (\<lambda>kv. (udKey kv, udValue kv)) e)"
    using assms(2) by (subst map_of_inject_set) (simp_all add: comp_def)
  then show ?thesis by (simp add: g)
qed

lemma Remove_absent: "k \<notin> set (user_keys d) \<Longrightarrow> userData_Remove d k = d"
  by (simp add: userData_Remove_def index_of_key_None [THEN iffD2])

lemma Remove_distinct:
  assumes "distinct (user_keys d)"
  shows "distinct (user_keys (userData_Remove d k)) \<and> k \<notin> set (user_keys (userData_Remove d k))"
proof (cases "k \<in> set (user_keys d)")
  case True
  from Remove_split [OF True] obtain xs kv ys zs where
    s: "d = xs @ kv # ys" "udKey kv = k" "userData_Remove d k = xs @ zs" "mset zs = mset ys" by blast
  have z: "mset (user_keys zs) = mset (user_keys ys)" "set zs = set ys" using s(4) by (simp, metis mset_eq_setD)
  then have "distinct (user_keys zs) = distinct (user_keys ys)" by (intro mset_eq_imp_distinct_iff)
  with assms s z(2) show ?thesis by auto
qed (use assms in \<open>simp add: Remove_absent\<close>)

lemma Get_Remove:
  assumes "distinct (user_keys d)"
  shows "userData_Get (userData_Remove d k) k' = (if k' = k then None else userData_Get d k')"
proof (cases "k \<in> set (user_keys d)")
  case True
  from Remove_split [OF True] obtain xs kv ys zs where
    s: "d = xs @ kv # ys" "udKey kv = k" "userData_Remove d k = xs @ zs" "mset zs = mset ys" by blast
  have "distinct (user_keys ys)" using assms s(1) by simp
  from Get_mset [OF s(4) [symmetric] this] have g: "userData_Get zs k' = userData_Get ys k'" by simp
  have absent: "userData_Get e k = None" if "k \<notin> set (user_keys e)" for e :: "'a userDataKV list" using that by (induction e) auto
  show ?thesis
  proof (cases "k' = k")
    case True
    with Remove_distinct [OF assms, of k] absent show ?thesis by simp
  next
    case False
    then show ?thesis using s g by (simp add: Get_append)
  qed
next
  case False
  moreover from this have "userData_Get d k = None" by (induction d) auto
  ultimately show ?thesis by (simp add: Remove_absent)
qed

lemma Get_Set: "userData_Get (userData_Set d k v) k' = (if k' = k then v else userData_Get d k')"
  by (induction d) (auto split: option.splits)

section \<open>The type of user data\<close>

typedef 'v userData = "{d :: 'v userDataKV list. distinct (user_keys d)}"
  by (rule exI [of _ "[]"]) simp

setup_lifting type_definition_userData

lift_definition ud_set :: "'v userData \<Rightarrow> user_key \<Rightarrow> 'v option \<Rightarrow> 'v userData" is userData_Set
  by (auto simp: Set_keys)

lift_definition ud_put :: "'v userData \<Rightarrow> user_key \<Rightarrow> 'v \<Rightarrow> 'v userData" is "\<lambda>d k v. userData_Set d k (Some v)"
  by (auto simp: Set_keys)

lift_definition ud_get :: "'v userData \<Rightarrow> user_key \<Rightarrow> 'v option" is userData_Get .

lift_definition ud_remove :: "'v userData \<Rightarrow> user_key \<Rightarrow> 'v userData" is userData_Remove
  using Remove_distinct by blast

lift_definition ud_empty :: "'v userData" is "[]" by simp

interpretation user_store: kv_store ud_get ud_put ud_remove
proof
  fix d :: "'v userData" and k v k'
  show "ud_get (ud_put d k v) k' = (if k' = k then Some v else ud_get d k')" by transfer (simp add: Get_Set)
  show "ud_get (ud_remove d k) k' = (if k' = k then None else ud_get d k')" by transfer (simp add: Get_Remove)
qed

lemma ud_get_empty: "ud_get ud_empty = (\<lambda>_. None)"
  by (rule ext, transfer) simp

text \<open>C24: The user values of a request are a finite map. No method can bring a key into the slice twice, so the slices
  form a type; on it any sequence of setting and removing values gives what the same updates give on a map, although
  removal reorders the slice. Setting a value to \<^verbatim>\<open>nil\<close> hides the key.\<close>

theorem user_values_are_a_map:
  "ud_get (run_store ud_put ud_remove ops ud_empty) = run_map ops (\<lambda>_. None) \<and> ud_get (ud_set d k None) k = None"
proof
  show "ud_get (run_store ud_put ud_remove ops ud_empty) = run_map ops (\<lambda>_. None)"
    by (simp add: user_store.run_refines_map ud_get_empty)
  show "ud_get (ud_set d k None) k = None" by transfer (simp add: Get_Set)
qed

end
