(* ===== verification/Server.thy ===== *)
theory Server
  imports UserData RequestMessage ResponseMessage
begin

text \<open>
  \<^verbatim>\<open>serveConn\<close> of \<^verbatim>\<open>server.go\<close>: the loop that serves the requests of one connection, phase by phase, with the
  methods of \<^verbatim>\<open>RequestCtx\<close> that handlers use. The handler, the hooks and the flag that \<^verbatim>\<open>Shutdown\<close> sets are
  parameters. TLS and the handlers of other protocols (\<^verbatim>\<open>getNextProto\<close>, lines 2293 to 2314), deadlines, connection states
  and \<^verbatim>\<open>ErrorHandler\<close>, which runs when everything has been written, are left out.
\<close>

section \<open>Contexts and servers\<close>

record ('f, 'v) RequestCtx =
  cxRequest :: "'f Request"
  cxResponse :: Response
  cxUserValues :: "'v userDataKV list"
  cxConnRequestNum :: nat
  cxHijackHandler :: "nat option"
  cxHijackNoResponse :: bool
  cxHijacked :: bool
  cxIsTLS :: bool

text \<open>\<open>svHeaderReceived\<close> gives the body limit of the request configuration; \<open>svStop\<close> tells whether the stop flag is
  set when the n-th request of the connection is answered, and \<open>svByteReady\<close> whether the read without waiting of
  \<^verbatim>\<open>acquireByteReader\<close> finds the connection ready in front of the n-th request; \<open>svFormTooLarge\<close> is the number that stands for
  \<^verbatim>\<open>multipart.ErrMessageTooLarge\<close>.\<close>

record ('f, 'v) Server =
  svHandler :: "('f, 'v) RequestCtx \<Rightarrow> ('f, 'v) RequestCtx"
  svHeaderReceived :: "(RequestHeader \<Rightarrow> int) option"
  svContinueHandler :: "(RequestHeader \<Rightarrow> bool) option"
  svCloser :: "'v \<Rightarrow> bool"
  svName :: bytes
  svMaxRequestBodySize :: int
  svStop :: "nat \<Rightarrow> bool"
  svByteReady :: "nat \<Rightarrow> bool"
  svFormTooLarge :: nat
  svNoDefaultServerHeader :: bool
  svNoDefaultDate :: bool
  svNoDefaultContentType :: bool
  svGetOnly :: bool
  svReduceMemoryUsage :: bool
  svDisableKeepalive :: bool
  svCloseOnShutdown :: bool
  svStreamRequestBody :: bool
  svDiscardUnReadRequestBodyStream :: bool
  svDisablePreParseMultipartForm :: bool
  svDisableHeaderNamesNormalizing :: bool
  svKeepHijackedConns :: bool

datatype server_error = SrvMsg msg_error | ErrGetOnly | ErrHijacked

definition DefaultMaxRequestBodySize :: int where "DefaultMaxRequestBodySize = 4 * 1024 * 1024"
definition defaultServerName :: bytes where "defaultServerName = bs ''fasthttp''"
definition strLocation :: bytes where "strLocation = bs ''Location''"
definition strResponseContinue :: bytes where
  "strResponseContinue = bs ''HTTP/1.1 100 Continue'' @ strCRLF @ strCRLF"
definition strResponseContinueFail :: bytes where
  "strResponseContinueFail =
     bs ''HTTP/1.1 417 Expectation Failed'' @ strCRLF @ bs ''Connection: close'' @ strCRLF @ bs ''Content-Length: 0'' @ strCRLF @ strCRLF"

definition getServerName :: "('f, 'v) Server \<Rightarrow> bytes" where
  "getServerName S = (if svName S = [] \<and> \<not> svNoDefaultServerHeader S then defaultServerName else svName S)"

section \<open>Error responses\<close>

text \<open>\<^verbatim>\<open>http.StatusText\<close> of the standard library, for the codes that the server answers itself.\<close>

definition http_StatusText :: "nat \<Rightarrow> bytes" where
  "http_StatusText code =
     (if code = 400 then bs ''Bad Request''
      else if code = 405 then bs ''Method Not Allowed''
      else if code = 413 then bs ''Request Entity Too Large''
      else if code = 429 then bs ''Too Many Requests''
      else if code = 431 then bs ''Request Header Fields Too Large''
      else if code = 501 then bs ''Not Implemented''
      else if code = 503 then bs ''Service Unavailable''
      else if code = 505 then bs ''HTTP Version Not Supported'' else [])"

definition errorHeaders :: bytes where
  "errorHeaders = strCRLF @ bs ''Content-Type: text/plain; charset=utf-8'' @ strCRLF @ bs ''Connection: close'' @ strCRLF @ strCRLF"

definition errHTTPResponseStr :: "nat \<Rightarrow> bytes \<Rightarrow> bytes list \<Rightarrow> bytes" where
  "errHTTPResponseStr statusCode body extraHeaders =
     (let body = (if body = [] then http_StatusText statusCode else body);
          extra = concat (map (\<lambda>h. strCRLF @ h) extraHeaders)
      in bs ''HTTP/1.1 '' @ dec_digits statusCode @ [spChar] @ http_StatusText statusCode @ extra @ errorHeaders @
         dec_digits statusCode @ [spChar] @ body)"

definition concurrencyLimitErr :: bytes where
  "concurrencyLimitErr = errHTTPResponseStr 503 (bs ''The server is currently temporary overloading'') [bs ''Retry-After: 10'']"
definition conPerIpLimitErr :: bytes where
  "conPerIpLimitErr = errHTTPResponseStr 429 (bs ''The number of connections from your ip over limit'') []"

text \<open>The message of a \<^verbatim>\<open>HeaderParseErr\<close>; the other errors have another type.\<close>

fun HeaderParseErr_Error :: "header_error \<Rightarrow> bytes option" where
  "HeaderParseErr_Error (RequestMethodNotFound v) = Some (bs ''request method not found:'' @ v)"
| "HeaderParseErr_Error (InvalidMethod v) = Some (bs ''invalid method:'' @ v)"
| "HeaderParseErr_Error (RequestURINotFound v) = Some (bs ''request uri not found:'' @ v)"
| "HeaderParseErr_Error (UnsupportedHTTPVersion v) = Some (bs ''unsupported HTTP version:'' @ v)"
| "HeaderParseErr_Error (InvalidHeaderKey v) = Some (bs ''invalid header key:'' @ v)"
| "HeaderParseErr_Error (InvalidHeaderValue v) = Some (bs ''invalid header value:'' @ v)"
| "HeaderParseErr_Error (BadTrailerKey v) = Some (bs ''bad trailer key:'' @ v)"
| "HeaderParseErr_Error ContentLengthNotIntErr = Some (bs ''Content-Length not int string:'')"
| "HeaderParseErr_Error BadTrailerInHeader = Some (bs ''header contain forbidden trailer:'')"
| "HeaderParseErr_Error MultipleContentLengthErr = Some (bs ''multiple Content-Length headers:'')"
| "HeaderParseErr_Error EmptyHeaderKeyErr = Some (bs ''empty header key:'')"
| "HeaderParseErr_Error _ = None"

definition header_error_status :: "header_error \<Rightarrow> nat" where
  "header_error_status e =
     (if e = HeaderBufferSmallErr then 431
      else case e of
             UnsupportedTEError _ \<Rightarrow> 501
           | _ \<Rightarrow> (case HeaderParseErr_Error e of
                    Some m \<Rightarrow> if contains_bytes m (bs ''unsupported HTTP version'') then 505 else 400
                  | None \<Rightarrow> 400))"

definition header_error_response :: "header_error \<Rightarrow> bytes" where
  "header_error_response e =
     (let s = header_error_status e
      in errHTTPResponseStr s (if s = 501 then bs ''Unsupported transfer encoding'' else []) [])"

definition body_error_response :: "('f, 'v) Server \<Rightarrow> msg_error \<Rightarrow> bytes" where
  "body_error_response S e =
     errHTTPResponseStr (if e = MsgBody ErrBodyTooLarge \<or> e = MsgForm (svFormTooLarge S) then 413 else 400) [] []"

section \<open>What handlers call\<close>

definition ctx_SetUserValue :: "('f, 'v) RequestCtx \<Rightarrow> user_key \<Rightarrow> 'v option \<Rightarrow> ('f, 'v) RequestCtx" where
  "ctx_SetUserValue c key value = c\<lparr>cxUserValues := userData_Set (cxUserValues c) key value\<rparr>"

definition ctx_UserValue :: "('f, 'v) RequestCtx \<Rightarrow> user_key \<Rightarrow> 'v option" where
  "ctx_UserValue c key = userData_Get (cxUserValues c) key"

definition ctx_RemoveUserValue :: "('f, 'v) RequestCtx \<Rightarrow> user_key \<Rightarrow> ('f, 'v) RequestCtx" where
  "ctx_RemoveUserValue c key = c\<lparr>cxUserValues := userData_Remove (cxUserValues c) key\<rparr>"

definition ctx_VisitUserValues :: "('f, 'v) RequestCtx \<Rightarrow> (bytes \<Rightarrow> 'v option \<Rightarrow> 's \<Rightarrow> 's) \<Rightarrow> 's \<Rightarrow> 's" where
  "ctx_VisitUserValues c visitor s =
     fold (\<lambda>kv s. case udKey kv of KString k \<Rightarrow> visitor k (udValue kv) s | KOther _ \<Rightarrow> s) (cxUserValues c) s"

definition ctx_Hijack :: "('f, 'v) RequestCtx \<Rightarrow> nat \<Rightarrow> ('f, 'v) RequestCtx" where
  "ctx_Hijack c handler = c\<lparr>cxHijackHandler := Some handler\<rparr>"

definition ctx_HijackSetNoResponse :: "('f, 'v) RequestCtx \<Rightarrow> bool \<Rightarrow> ('f, 'v) RequestCtx" where
  "ctx_HijackSetNoResponse c noResponse = c\<lparr>cxHijackNoResponse := noResponse\<rparr>"

definition ctx_HijackConn :: "('f, 'v) RequestCtx \<Rightarrow> ('f, 'v) RequestCtx" where
  "ctx_HijackConn c = c\<lparr>cxHijacked := True\<rparr>"

definition ctx_SetStatusCode :: "('f, 'v) RequestCtx \<Rightarrow> int \<Rightarrow> ('f, 'v) RequestCtx" where
  "ctx_SetStatusCode c code =
     c\<lparr>cxResponse := (cxResponse c)\<lparr>pHeader := ResponseHeader_SetStatusCode (pHeader (cxResponse c)) code\<rparr>\<rparr>"

definition ctx_SetContentType :: "('f, 'v) RequestCtx \<Rightarrow> bytes \<Rightarrow> ('f, 'v) RequestCtx" where
  "ctx_SetContentType c ct =
     c\<lparr>cxResponse := (cxResponse c)\<lparr>pHeader := ResponseHeader_SetContentTypeBytes (pHeader (cxResponse c)) ct\<rparr>\<rparr>"

definition ctx_SetBody :: "('f, 'v) RequestCtx \<Rightarrow> bytes \<Rightarrow> ('f, 'v) RequestCtx" where
  "ctx_SetBody c body = c\<lparr>cxResponse := Response_SetBody (cxResponse c) body\<rparr>"

definition ctx_reset_response :: "resp_env \<Rightarrow> ('f, 'v) RequestCtx \<Rightarrow> ('f, 'v) RequestCtx" where
  "ctx_reset_response P c = c\<lparr>cxResponse := Response_resetForKeepAlive P (cxResponse c)\<rparr>"

definition ctx_Error :: "resp_env \<Rightarrow> ('f, 'v) RequestCtx \<Rightarrow> bytes \<Rightarrow> int \<Rightarrow> ('f, 'v) RequestCtx" where
  "ctx_Error P c msg statusCode =
     ctx_SetBody (ctx_SetContentType (ctx_SetStatusCode (ctx_reset_response P c) statusCode) defaultContentType) msg"

definition ctx_Success :: "('f, 'v) RequestCtx \<Rightarrow> bytes \<Rightarrow> bytes \<Rightarrow> ('f, 'v) RequestCtx" where
  "ctx_Success c contentType body = ctx_SetBody (ctx_SetContentType c contentType) body"

definition ctx_NotModified :: "resp_env \<Rightarrow> ('f, 'v) RequestCtx \<Rightarrow> ('f, 'v) RequestCtx" where
  "ctx_NotModified P c = ctx_SetStatusCode (ctx_reset_response P c) 304"

definition ctx_NotFound :: "resp_env \<Rightarrow> ('f, 'v) RequestCtx \<Rightarrow> ('f, 'v) RequestCtx" where
  "ctx_NotFound P c = ctx_SetBody (ctx_SetStatusCode (ctx_reset_response P c) 404) (bs ''404 Page not found'')"

definition getRedirectStatusCode :: "int \<Rightarrow> int" where
  "getRedirectStatusCode statusCode = (if statusCode < 301 \<or> statusCode > 308 then 302 else statusCode)"

text \<open>\<^verbatim>\<open>Redirect\<close> resolves the URI against the one of the request and sends the result.\<close>

definition ctx_Redirect :: "('f, 'v) RequestCtx \<Rightarrow> bytes \<Rightarrow> int \<Rightarrow> ('f, 'v) RequestCtx option" where
  "ctx_Redirect c uri statusCode =
     do { let c = c\<lparr>cxRequest := Request_URI (cxRequest c)\<rparr>;
          u \<leftarrow> URI_UpdateBytes (URI_CopyTo (qUri (cxRequest c)) emptyURI) uri;
          let h = ResponseHeader_setNonSpecial (pHeader (cxResponse c)) strLocation (snd (URI_FullURI u));
          Some (c\<lparr>cxResponse := (cxResponse c)\<lparr>pHeader := ResponseHeader_SetStatusCode h (getRedirectStatusCode statusCode)\<rparr>\<rparr>) }"

section \<open>The loop\<close>

text \<open>How the loop is left: the server (whose settings it may change), the context, the connection, the text that is
  still to be sent and the error.\<close>

record ('f, 'v) outcome =
  oServer :: "('f, 'v) Server"
  oCtx :: "('f, 'v) RequestCtx"
  oConn :: bwriter
  oResponseStr :: bytes
  oErr :: "server_error option"

definition leave :: "('f, 'v) Server \<Rightarrow> ('f, 'v) RequestCtx \<Rightarrow> bwriter \<Rightarrow> bytes \<Rightarrow> server_error option \<Rightarrow> ('f, 'v) outcome" where
  "leave S c w responseStr e = \<lparr>oServer = S, oCtx = c, oConn = w, oResponseStr = responseStr, oErr = e\<rparr>"

text \<open>\<^verbatim>\<open>releaseCtx\<close> resets a context and puts it into the pool of the server; \<^verbatim>\<open>acquireCtx\<close> takes such a context,
  here the one that was released, or makes one.\<close>

definition ctx_reset :: "('f, 'v) Server \<Rightarrow> 'f msg_env \<Rightarrow> resp_env \<Rightarrow> ('f, 'v) RequestCtx \<Rightarrow> ('f, 'v) RequestCtx option" where
  "ctx_reset S E P c =
     do { q \<leftarrow> Request_Reset E (cxRequest c);
          Some (c\<lparr>cxUserValues := fst (userData_Reset (svCloser S) (cxUserValues c)), cxRequest := q,
                  cxResponse := Response_Reset P (cxResponse c), cxConnRequestNum := 0, cxIsTLS := False,
                  cxHijackHandler := None, cxHijackNoResponse := False, cxHijacked := False\<rparr>) }"

definition acquireCtx :: "('f, 'v) Server \<Rightarrow> breader \<Rightarrow> ('f, 'v) RequestCtx" where
  "acquireCtx S r =
     \<lparr>cxRequest = (emptyRequest r)\<lparr>qKeepBodyBuffer := \<not> svReduceMemoryUsage S\<rparr>,
      cxResponse = (emptyResponse r)\<lparr>pKeepBodyBuffer := \<not> svReduceMemoryUsage S\<rparr>, cxUserValues = [],
      cxConnRequestNum = 0, cxHijackHandler = None, cxHijackNoResponse = False, cxHijacked = False, cxIsTLS = False\<rparr>"

text \<open>A buffered reader over a \<^verbatim>\<open>firstByteReader\<close>, whose first read gives the byte together with what the next read of the
  connection gives. Where that read fails, the error comes with the read behind the byte.\<close>

definition first_byte_reader :: "breader \<Rightarrow> byte \<Rightarrow> bytes list \<Rightarrow> breader" where
  "first_byte_reader r ch src =
     r\<lparr>brBuf := [], brErr := None, brLast := None,
       brSrc := (case src of [] \<Rightarrow> [[ch]] | seg # rest \<Rightarrow> (ch # seg) # rest)\<rparr>"

text \<open>\<^verbatim>\<open>acquireByteReader\<close> takes one byte off the connection: without waiting if there is one, otherwise with the
  context given back while it waits. A read that returns neither a byte nor an error makes it panic when it waits.\<close>

definition acquireByteReader ::
  "('f, 'v) Server \<Rightarrow> 'f msg_env \<Rightarrow> resp_env \<Rightarrow> ('f, 'v) RequestCtx \<Rightarrow> nat \<Rightarrow> (('f, 'v) RequestCtx \<times> io_error option) option" where
  "acquireByteReader S E P c num =
     (let r = qReader (cxRequest c);
          (quick, src) = (case brSrc r of
                            [] # rest \<Rightarrow> (False, if svByteReady S num then rest else brSrc r)
                          | src \<Rightarrow> (svByteReady S num, src))
      in do { c \<leftarrow> (if quick then Some c else ctx_reset S E P c);
              case src of
                [] \<Rightarrow> Some (c, Some (brEnd r))
              | [] # rest \<Rightarrow> None
              | (ch # seg) # rest \<Rightarrow>
                  Some (c\<lparr>cxRequest := (cxRequest c)\<lparr>qReader := first_byte_reader r ch (if seg = [] then rest else seg # rest)\<rparr>\<rparr>,
                        None) })"

text \<open>A request behind the first one is waited for; the header is read into the context. \<open>noReader\<close> tells that the loop
  holds no reader, as it does at first and, with \<^verbatim>\<open>ReduceMemoryUsage\<close>, behind a request that left nothing in the buffer.\<close>

definition serve_first_byte ::
  "('f, 'v) Server \<Rightarrow> 'f msg_env \<Rightarrow> resp_env \<Rightarrow> ('f, 'v) RequestCtx \<Rightarrow> nat \<Rightarrow> bool \<Rightarrow> (('f, 'v) RequestCtx \<times> io_error option) option" where
  "serve_first_byte S E P c num noReader =
     (if \<not> svReduceMemoryUsage S \<or> \<not> noReader
      then Some (if num > 1
                 then (case br_Peek (qReader (cxRequest c)) 1 of (r, _, e) \<Rightarrow> (c\<lparr>cxRequest := (cxRequest c)\<lparr>qReader := r\<rparr>\<rparr>, e))
                 else (c, None))
      else map_option (\<lambda>(c', e). (c'\<lparr>cxIsTLS := cxIsTLS c, cxRequest := (cxRequest c')\<lparr>qIsTLS := cxIsTLS c\<rparr>\<rparr>, e))
             (acquireByteReader S E P c num))"

definition serve_disable_normalizing :: "('f, 'v) Server \<Rightarrow> ('f, 'v) RequestCtx \<Rightarrow> ('f, 'v) RequestCtx" where
  "serve_disable_normalizing S c =
     (if svDisableHeaderNamesNormalizing S
      then c\<lparr>cxRequest := (cxRequest c)\<lparr>qHeader := (qHeader (cxRequest c))\<lparr>rqDisableNormalizing := True\<rparr>\<rparr>,
             cxResponse := (cxResponse c)\<lparr>pHeader := ResponseHeader_DisableNormalizing (pHeader (cxResponse c))\<rparr>\<rparr>
      else c)"

definition serve_read_header ::
  "('f, 'v) Server \<Rightarrow> ('f, 'v) RequestCtx \<Rightarrow> bwriter \<Rightarrow> bool \<Rightarrow> (('f, 'v) outcome + ('f, 'v) RequestCtx) option" where
  "serve_read_header S c w prevMethodIsPost =
     do { let c = serve_disable_normalizing S c;
          (h, r, e) \<leftarrow> RequestHeader_readLoop (qHeader (cxRequest c)) (qReader (cxRequest c)) True prevMethodIsPost True;
          let c = c\<lparr>cxRequest := (cxRequest c)\<lparr>qHeader := h, qReader := r\<rparr>\<rparr>;
          Some (case e of
                  Some e \<Rightarrow> Inl (leave S c w (header_error_response e) (Some (SrvMsg (MsgHeader e))))
                | None \<Rightarrow>
                    if svGetOnly S \<and> \<not> RequestHeader_IsMethod h (bs ''GET'') \<and> \<not> RequestHeader_IsMethod h (bs ''HEAD'')
                    then Inl (leave S c w (errHTTPResponseStr 405 [] []) (Some ErrGetOnly))
                    else Inr c) }"

definition serve_head ::
  "('f, 'v) Server \<Rightarrow> 'f msg_env \<Rightarrow> resp_env \<Rightarrow> ('f, 'v) RequestCtx \<Rightarrow> bwriter \<Rightarrow> nat \<Rightarrow> bool \<Rightarrow> bool \<Rightarrow> (('f, 'v) outcome + ('f, 'v) RequestCtx) option" where
  "serve_head S E P c w num prevMethodIsPost noReader =
     do { (c, e) \<leftarrow> serve_first_byte S E P c num noReader;
          case e of
            Some e \<Rightarrow> Some (Inl (leave S c w [] (Some (SrvMsg (io_msg e)))))
          | None \<Rightarrow> serve_read_header S c w prevMethodIsPost }"

definition body_limit :: "('f, 'v) Server \<Rightarrow> RequestHeader \<Rightarrow> int" where
  "body_limit S h =
     (let own = (if svMaxRequestBodySize S > 0 then svMaxRequestBodySize S else DefaultMaxRequestBodySize)
      in case svHeaderReceived S of
           None \<Rightarrow> own
         | Some onHdrRecv \<Rightarrow> if onHdrRecv h > 0 then onHdrRecv h else own)"

text \<open>A request that expects permission to send its body gets the permission or a refusal, past the buffered writer.\<close>

definition serve_continue :: "('f, 'v) Server \<Rightarrow> ('f, 'v) RequestCtx \<Rightarrow> bwriter \<Rightarrow> ('f, 'v) outcome + bwriter" where
  "serve_continue S c w =
     (if Request_MayContinue (cxRequest c)
      then let go = (case svContinueHandler S of None \<Rightarrow> True | Some f \<Rightarrow> f (qHeader (cxRequest c)))
           in case conn_write w (if go then strResponseContinue else strResponseContinueFail) of
                (w, _) \<Rightarrow>
                  if bwErr w \<noteq> None then Inl (leave S c w [] (map_option (\<lambda>e. SrvMsg (io_msg e)) (bwErr w)))
                  else if go then Inr w else Inl (leave S c w [] None)
      else Inr w)"

definition serve_body ::
  "('f, 'v) Server \<Rightarrow> 'f msg_env \<Rightarrow> ('f, 'v) RequestCtx \<Rightarrow> bwriter \<Rightarrow> (('f, 'v) outcome + ('f, 'v) RequestCtx) option" where
  "serve_body S E c w =
     do { let q = cxRequest c;
          let m = body_limit S (qHeader q);
          let q = q\<lparr>qHeader := (qHeader q)\<lparr>rqNoDefaultContentType := svNoDefaultContentType S\<rparr>\<rparr>;
          (q, e) \<leftarrow>
            (if svStreamRequestBody S
             then Request_ReadBodyStream E
                    (q\<lparr>qStreamBody := True, qDiscardUnReadBodyStream := svDiscardUnReadRequestBodyStream S, qMaxBodySize := m\<rparr>)
                    m (\<not> svDisablePreParseMultipartForm S)
             else Request_ReadBody E q m (\<not> svDisablePreParseMultipartForm S));
          let c = c\<lparr>cxRequest := q\<rparr>;
          Some (case e of
                  Some e \<Rightarrow> Inl (leave S c w (body_error_response S e) (Some (SrvMsg e)))
                | None \<Rightarrow> Inr c) }"

definition needFinish :: "'f Request \<Rightarrow> bool" where
  "needFinish q \<longleftrightarrow> (case qBodyStream q of Some (FromConn (RequestStream _)) \<Rightarrow> True | _ \<Rightarrow> False)"

text \<open>The response that the handler gets carries the name of the server.\<close>

definition named_response :: "('f, 'v) Server \<Rightarrow> Response \<Rightarrow> Response" where
  "named_response S p =
     p\<lparr>pHeader := (if getServerName S \<noteq> [] then ResponseHeader_SetServerBytes (pHeader p) (getServerName S) else pHeader p)
        \<lparr>rsNoDefaultContentType := svNoDefaultContentType S, rsNoDefaultDate := svNoDefaultDate S\<rparr>\<rparr>"

definition finish_request :: "'f msg_env \<Rightarrow> 'f Request \<Rightarrow> ('f Request \<times> msg_error option) option" where
  "finish_request E q = (if needFinish q then Request_closeBodyStream E q else Some (q, None))"

text \<open>Behind the handler, what it has not read of the body stream is discarded, if the request asks for that. A handler
  may have taken over the connection.\<close>

definition serve_handler ::
  "('f, 'v) Server \<Rightarrow> 'f msg_env \<Rightarrow> ('f, 'v) RequestCtx \<Rightarrow> bwriter \<Rightarrow> nat \<Rightarrow> (('f, 'v) outcome + ('f, 'v) RequestCtx) option" where
  "serve_handler S E c w num =
     do { let c = svHandler S (c\<lparr>cxConnRequestNum := num, cxResponse := named_response S (cxResponse c)\<rparr>);
          (q, e) \<leftarrow> finish_request E (cxRequest c);
          let c = c\<lparr>cxRequest := q\<rparr>;
          Some (if e \<noteq> None then Inl (leave S c w [] (map_option SrvMsg e))
                else if cxHijacked c then Inl (leave (S\<lparr>svKeepHijackedConns := True\<rparr>) c w [] (Some ErrHijacked))
                else Inr c) }"

text \<open>The last changes to the response: no body for \<^verbatim>\<open>HEAD\<close>, and whether the connection is kept.\<close>

definition serve_finish_header ::
  "('f, 'v) Server \<Rightarrow> ('f, 'v) RequestCtx \<Rightarrow> bool \<Rightarrow> bool \<Rightarrow> ('f, 'v) RequestCtx \<times> bool" where
  "serve_finish_header S c connectionClose shouldStop =
     (let p = cxResponse c;
          p = (if RequestHeader_IsMethod (qHeader (cxRequest c)) (bs ''HEAD'')
               then p\<lparr>pHeader := (pHeader p)\<lparr>rsHeadMethod := True\<rparr>, pSkipBody := True\<rparr> else p);
          h = pHeader p;
          (h, close) =
            (if rsConnectionClose h then (h, True)
             else if connectionClose \<or> svCloseOnShutdown S \<and> shouldStop then (ResponseHeader_SetConnectionClose h, True)
             else if rqNoHTTP11 (qHeader (cxRequest c)) then (ResponseHeader_setNonSpecial h strConnection strKeepAlive, False)
             else (h, False));
          h = (if rsServer h = [] \<and> getServerName S \<noteq> [] then ResponseHeader_SetServerBytes h (getServerName S) else h)
      in (c\<lparr>cxResponse := p\<lparr>pHeader := h\<rparr>\<rparr>, close))"

text \<open>Behind a \<^verbatim>\<open>POST\<close> request, line ends that are already buffered are skipped.\<close>

definition skip_buffered_newlines :: "'f Request \<Rightarrow> 'f Request" where
  "skip_buffered_newlines q =
     (if RequestHeader_IsMethod (qHeader q) (bs ''POST'')
      then (case br_Peek (qReader q) (min 4 (br_Buffered (qReader q))) of
              (r, peek, _) \<Rightarrow> q\<lparr>qReader := fst (br_Discard r (numLeadingCRorLF peek))\<rparr>)
      else q)"

definition serve_respond ::
  "('f, 'v) Server \<Rightarrow> resp_env \<Rightarrow> ('f, 'v) RequestCtx \<Rightarrow> bwriter \<Rightarrow> nat \<Rightarrow> bool \<Rightarrow> bool \<Rightarrow> (('f, 'v) outcome + ('f, 'v) RequestCtx \<times> bwriter) option" where
  "serve_respond S P c w num connectionClose noReader =
     do { let hijackHandler = cxHijackHandler c;
          let noResponse = (cxHijackNoResponse c \<and> hijackHandler \<noteq> None);
          let c = c\<lparr>cxHijackHandler := None, cxHijackNoResponse := False\<rparr>;
          let shouldStop = svStop S num;
          let (c, close) = serve_finish_header S c connectionClose shouldStop;
          (c, w, close, e) \<leftarrow>
            (if noResponse then Some (c, w, False, None)
             else do { (w, p, e) \<leftarrow> Response_Write P w (cxResponse c);
                       let c = c\<lparr>cxResponse := p\<rparr>;
                       Some (case e of
                               Some e \<Rightarrow> (c, w, close, Some (SrvMsg e))
                             | None \<Rightarrow>
                                 (case bw_Flush w of
                                    (w, Some e) \<Rightarrow> (c, w, close, Some (SrvMsg (io_msg e)))
                                  | (w, None) \<Rightarrow>
                                      (if close \<or> noReader then c else c\<lparr>cxRequest := skip_buffered_newlines (cxRequest c)\<rparr>, w, close, None))) });
          Some (if e \<noteq> None \<or> close then Inl (leave S c w [] e)
                else if hijackHandler \<noteq> None then Inl (leave S c w [] (Some ErrHijacked))
                else if shouldStop then Inl (leave S c w [] None)
                else Inr (c, w)) }"

definition serve_reset :: "('f, 'v) Server \<Rightarrow> 'f msg_env \<Rightarrow> resp_env \<Rightarrow> ('f, 'v) RequestCtx \<Rightarrow> ('f, 'v) RequestCtx option" where
  "serve_reset S E P c =
     do { q \<leftarrow> Request_Reset E (cxRequest c);
          Some (c\<lparr>cxUserValues := fst (userData_Reset (svCloser S) (cxUserValues c)), cxRequest := q\<lparr>qIsTLS := cxIsTLS c\<rparr>,
                  cxResponse := Response_Reset P (cxResponse c)\<rparr>) }"

text \<open>Behind the body, a server with \<^verbatim>\<open>ReduceMemoryUsage\<close> gives an empty reader back.\<close>

definition releases_reader :: "('f, 'v) Server \<Rightarrow> ('f, 'v) RequestCtx \<Rightarrow> bool" where
  "releases_reader S c \<longleftrightarrow> svReduceMemoryUsage S \<and> \<not> svStreamRequestBody S \<and> br_Buffered (qReader (cxRequest c)) = 0"

partial_function (option) serve_loop ::
  "('f, 'v) Server \<Rightarrow> 'f msg_env \<Rightarrow> resp_env \<Rightarrow> ('f, 'v) RequestCtx \<Rightarrow> bwriter \<Rightarrow> nat \<Rightarrow> bool \<Rightarrow> bool \<Rightarrow> ('f, 'v) outcome option" where
  "serve_loop S E P c w num prevMethodIsPost noReader =
     do { x \<leftarrow> serve_head S E P c w num prevMethodIsPost noReader;
          case x of
            Inl out \<Rightarrow> Some out
          | Inr c \<Rightarrow>
              (case serve_continue S c w of
                 Inl out \<Rightarrow> Some out
               | Inr w \<Rightarrow>
                   do { y \<leftarrow> serve_body S E c w;
                        case y of
                          Inl out \<Rightarrow> Some out
                        | Inr c \<Rightarrow>
                            do { let noReader = releases_reader S c;
                                 let connectionClose = (svDisableKeepalive S \<or> rqConnectionClose (qHeader (cxRequest c)));
                                 z \<leftarrow> serve_handler S E c w num;
                                 case z of
                                   Inl out \<Rightarrow> Some out
                                 | Inr c \<Rightarrow>
                                     do { u \<leftarrow> serve_respond S P c w num connectionClose noReader;
                                          case u of
                                            Inl out \<Rightarrow> Some out
                                          | Inr (c, w) \<Rightarrow>
                                              do { let post = RequestHeader_IsMethod (qHeader (cxRequest c)) (bs ''POST'');
                                                   c \<leftarrow> serve_reset S E P c;
                                                   serve_loop S E P c w (num + 1) post noReader } } } }) }"

text \<open>What happens behind the loop: the end of the connection between two requests is not an error, and a pending error
  response is written. A connection is served with a new context, and without a reader.\<close>

definition serve_end :: "('f, 'v) outcome \<Rightarrow> ('f, 'v) outcome" where
  "serve_end out =
     (let e = (if oErr out = Some (SrvMsg MsgEOF) then None else oErr out)
      in out\<lparr>oConn := (if oResponseStr out = [] then oConn out else fst (conn_write (oConn out) (oResponseStr out))), oErr := e\<rparr>)"

definition serveConn ::
  "('f, 'v) Server \<Rightarrow> 'f msg_env \<Rightarrow> resp_env \<Rightarrow> ('f, 'v) RequestCtx \<Rightarrow> bwriter \<Rightarrow> ('f, 'v) outcome option" where
  "serveConn S E P c w = map_option serve_end (serve_loop S E P c w 1 False True)"

text \<open>\<^verbatim>\<open>hijackConnHandler\<close> closes the connection behind its handler, unless the server keeps hijacked connections.\<close>

definition hijack_closes :: "('f, 'v) Server \<Rightarrow> bool" where
  "hijack_closes S \<longleftrightarrow> \<not> svKeepHijackedConns S"

end
