(* ===== verification/ServeConn.thy ===== *)
theory ServeConn
  imports Server
begin

text \<open>
  Properties of serving a connection: pipelined requests are answered in order, and what happens with a body that is
  not read, with a connection that is closed at once, and with the settings of the server.
\<close>

section \<open>Readers and objects between two requests\<close>

lemma peek_text:
  assumes "br_live r" "pending r = t @ p" "k \<le> length t" "length t \<le> brSize r"
  shows "\<exists>r'. br_Peek r k = (r', take k t, None) \<and> br_live r' \<and> pending r' = t @ p \<and> brSize r' = brSize r \<and> brEnd r' = brEnd r"
proof -
  from Peek_live [of r k] assms obtain r' where r': "br_Peek r k = (r', take k (brBuf r'), None)" "br_live r'" "pending r' = t @ p"
    "k \<le> length (brBuf r')" "brSize r' = brSize r" "brEnd r' = brEnd r" by auto
  have "take k (brBuf r') = take k (pending r')" using r'(4) by (simp add: pending_def)
  then have "take k (brBuf r') = take k t" using r'(3) assms(3) by simp
  with r' show ?thesis by auto
qed

lemma peek_at_end:
  assumes "br_live r" "pending r = []"
  shows "\<exists>r'. br_Peek r 1 = (r', [], Some (brEnd r))"
proof -
  have e: "brBuf r = []" "brSrc r = []"
    using assms by (auto simp: pending_def br_live_def no_empty_def) (metis list.set_intros(1) neq_Nil_conv)
  have "fill (r\<lparr>brLast := None\<rparr>) = r\<lparr>brLast := None, brErr := Some (brEnd r)\<rparr>"
    using e by (simp only: fill_Suc fill_loop.simps) (simp add: read_into_def)
  then have "peek_fill (r\<lparr>brLast := None\<rparr>) 1 = r\<lparr>brLast := None, brErr := Some (brEnd r)\<rparr>"
    using assms e by (subst peek_fill.simps, subst peek_fill.simps) (simp add: br_live_def)
  then show ?thesis using assms e by (simp add: br_Peek_def Let_def br_live_def)
qed

text \<open>A request object that a new request can be read into, and a response object for a handler.\<close>

definition idle_request :: "'f Request \<Rightarrow> bool" where
  "idle_request q \<longleftrightarrow> receiver q \<and> Request_bodyBytes q = [] \<and> RequestHeader_resetSkipNormalize (qHeader q) = qHeader q"

definition idle_response :: "Response \<Rightarrow> bool" where
  "idle_response p \<longleftrightarrow>
     pBodyStream p = None \<and> pChunkedW p = None \<and> pCompressPool p = None \<and> \<not> pSkipBody p \<and>
     ResponseHeader_resetSkipNormalize (pHeader p) = pHeader p \<and> \<not> rsHeadMethod (pHeader p)"

definition idle_ctx :: "('f, 'v) RequestCtx \<Rightarrow> bool" where
  "idle_ctx c \<longleftrightarrow> idle_request (cxRequest c) \<and> idle_response (cxResponse c) \<and> \<not> cxHijacked c \<and> cxHijackHandler c = None"

lemma resetSkipNormalize_idem: "RequestHeader_resetSkipNormalize (RequestHeader_resetSkipNormalize h) = RequestHeader_resetSkipNormalize h"
  by (simp add: RequestHeader_resetSkipNormalize_def resetArgs_def)

lemma Reset_idle:
  assumes "qBodyStream q = None" "br_live (qReader q)"
  shows "\<exists>q'. Request_Reset E q = Some q' \<and> idle_request (q'\<lparr>qIsTLS := t\<rparr>) \<and> qReader q' = qReader q"
proof -
  have "\<exists>q1. Request_release_large E q = Some q1 \<and> qBodyStream q1 = None \<and> qReader q1 = qReader q"
    using assms(1) by (simp add: Request_release_large_def Request_ReleaseBody_def Request_closeBodyStream_def Let_def)
  then obtain q1 where q1: "Request_release_large E q = Some q1" "qBodyStream q1 = None" "qReader q1 = qReader q" by blast
  with ResetBody_plain [of q1 E] obtain q2 where
    q2: "Request_ResetBody E q1 = Some q2" "Request_bodyBytes q2 = []" "qReader q2 = qReader q" "qBodyStream q2 = None" by auto
  then show ?thesis
    using q1 assms(2)
    by (auto simp: Request_Reset_def Request_resetSkipHeader_def idle_request_def receiver_def Request_bodyBytes_def
        RequestHeader_Reset_def resetSkipNormalize_idem RequestHeader_resetSkipNormalize_def resetArgs_def split: option.splits)
qed

lemma Response_Reset_idle: "idle_response (Response_Reset P p)"
  by (auto simp: idle_response_def Response_Reset_def Response_resetSkipHeader_def Response_ResetBody_def Response_closeBodyStream_def
      ResponseHeader_Reset_def ResponseHeader_resetSkipNormalize_def resetArgs_def Let_def split: option.splits msg_stream.splits)

text \<open>Where the server takes the first byte of a request off the connection before it has a reader, the reader that it
  makes then holds the same input.\<close>

lemma ctx_reset_idle:
  assumes "idle_ctx c"
  shows "\<exists>c'. ctx_reset S E P c = Some c' \<and> idle_ctx c' \<and> qReader (cxRequest c') = qReader (cxRequest c)"
proof -
  have "qBodyStream (cxRequest c) = None" "br_live (qReader (cxRequest c))" using assms by (simp_all add: idle_ctx_def idle_request_def receiver_def)
  from Reset_idle [OF this, of E "qIsTLS q" for q] obtain q' where
    q': "Request_Reset E (cxRequest c) = Some q'" "qReader q' = qReader (cxRequest c)" by blast
  from Reset_idle [OF \<open>qBodyStream (cxRequest c) = None\<close> \<open>br_live (qReader (cxRequest c))\<close>, of E "qIsTLS q'"] q'
  have "idle_request q'" by simp
  with q' Response_Reset_idle show ?thesis by (simp add: ctx_reset_def idle_ctx_def)
qed

lemma idle_set_reader: "idle_request q \<Longrightarrow> br_live r \<Longrightarrow> idle_request (q\<lparr>qReader := r\<rparr>)"
  and idle_set_tls: "idle_request q \<Longrightarrow> idle_request (q\<lparr>qIsTLS := t\<rparr>)"
  by (auto simp: idle_request_def receiver_def Request_bodyBytes_def split: option.splits)

lemma first_byte_reader_facts:
  assumes "br_live r" "brBuf r = []" "brSrc r = (ch # seg) # rest" "r' = first_byte_reader r ch (if seg = [] then rest else seg # rest)"
  shows "br_live r'" "pending r' = pending r" "brSize r' = brSize r" "brEnd r' = brEnd r"
  using assms by (auto simp: first_byte_reader_def br_live_def br_ok_def no_empty_def pending_def split: list.splits)

lemma acquireByteReader_idle:
  assumes c: "idle_ctx c" and b: "brBuf (qReader (cxRequest c)) = []"
  shows "\<exists>c' e. acquireByteReader S E P c num = Some (c', e) \<and> idle_ctx c' \<and>
           e = (if pending (qReader (cxRequest c)) = [] then Some (brEnd (qReader (cxRequest c))) else None) \<and>
           pending (qReader (cxRequest c')) = pending (qReader (cxRequest c)) \<and>
           brSize (qReader (cxRequest c')) = brSize (qReader (cxRequest c)) \<and> brEnd (qReader (cxRequest c')) = brEnd (qReader (cxRequest c))"
proof -
  let ?r = "qReader (cxRequest c)"
  have live: "br_live ?r" using c by (simp add: idle_ctx_def idle_request_def receiver_def)
  obtain c1 where c1: "(if svByteReady S num then Some c else ctx_reset S E P c) = Some c1" "idle_ctx c1" "qReader (cxRequest c1) = ?r"
    using c ctx_reset_idle [OF c, of S E P] by (cases "svByteReady S num") auto
  show ?thesis
  proof (cases "brSrc ?r")
    case Nil
    with c1 b show ?thesis by (simp add: acquireByteReader_def pending_def)
  next
    case (Cons s rest)
    with live obtain ch seg where s: "s = ch # seg" by (cases s) (auto simp: br_live_def no_empty_def)
    let ?r' = "first_byte_reader ?r ch (if seg = [] then rest else seg # rest)"
    note F = first_byte_reader_facts [OF live b Cons [unfolded s] refl]
    have "idle_ctx (c1\<lparr>cxRequest := (cxRequest c1)\<lparr>qReader := ?r'\<rparr>\<rparr>)"
      using c1(2) F(1) by (simp add: idle_ctx_def idle_set_reader)
    moreover have "pending ?r \<noteq> []" using Cons s by (simp add: pending_def)
    ultimately show ?thesis using c1(1) F Cons s by (simp add: acquireByteReader_def)
  qed
qed

lemma serve_first_byte_idle:
  assumes c: "idle_ctx c" and b: "svReduceMemoryUsage S \<and> noReader \<longrightarrow> brBuf (qReader (cxRequest c)) = []"
    and p: "pending (qReader (cxRequest c)) \<noteq> []"
  shows "\<exists>c'. serve_first_byte S E P c num noReader = Some (c', None) \<and> idle_ctx c' \<and>
           pending (qReader (cxRequest c')) = pending (qReader (cxRequest c)) \<and>
           brSize (qReader (cxRequest c')) = brSize (qReader (cxRequest c)) \<and> brEnd (qReader (cxRequest c')) = brEnd (qReader (cxRequest c))"
proof (cases "svReduceMemoryUsage S \<and> noReader")
  case True
  from acquireByteReader_idle [OF c, of S E P num] b True p obtain c' where
    "acquireByteReader S E P c num = Some (c', None)" "idle_ctx c'" "pending (qReader (cxRequest c')) = pending (qReader (cxRequest c))"
    "brSize (qReader (cxRequest c')) = brSize (qReader (cxRequest c))" "brEnd (qReader (cxRequest c')) = brEnd (qReader (cxRequest c))" by auto
  with True show ?thesis by (simp add: serve_first_byte_def idle_ctx_def idle_set_tls)
next
  case False
  show ?thesis
  proof (cases "num > 1")
    case True
    have l: "br_live (qReader (cxRequest c))" using c by (simp add: idle_ctx_def idle_request_def receiver_def)
    then have "1 \<le> brSize (qReader (cxRequest c))" by (simp add: br_live_def br_ok_def)
    moreover obtain a p' where "pending (qReader (cxRequest c)) = [a] @ p'" using p by (cases "pending (qReader (cxRequest c))") auto
    ultimately obtain r' where "br_Peek (qReader (cxRequest c)) 1 = (r', [a], None)" "br_live r'"
      "pending r' = pending (qReader (cxRequest c))" "brSize r' = brSize (qReader (cxRequest c))" "brEnd r' = brEnd (qReader (cxRequest c))"
      using peek_text [OF l, of "[a]" p' 1] by auto
    with True False c show ?thesis by (auto simp: serve_first_byte_def idle_ctx_def idle_set_reader)
  qed (use False c in \<open>auto simp: serve_first_byte_def\<close>)
qed

section \<open>Serving the requests of a client\<close>

text \<open>A server with the default behaviour whose handler answers with a body that it computes from method, target and
  body of the request, and the requests of a client that keeps the connection open.\<close>

definition body_handler :: "(bytes \<Rightarrow> bytes \<Rightarrow> bytes \<Rightarrow> bytes) \<Rightarrow> ('f, 'v) RequestCtx \<Rightarrow> ('f, 'v) RequestCtx" where
  "body_handler f c =
     (let q = cxRequest c
      in ctx_SetBody c (f (RequestHeader_Method (qHeader q)) (RequestHeader_RequestURI (qHeader q)) (Request_bodyBytes q)))"

definition quiet_server :: "('f, 'v) Server \<Rightarrow> bool" where
  "quiet_server S \<longleftrightarrow>
     svHeaderReceived S = None \<and> svStop S = (\<lambda>_. False) \<and> \<not> svGetOnly S \<and> \<not> svDisableKeepalive S \<and>
     \<not> svDisablePreParseMultipartForm S \<and> \<not> svDisableHeaderNamesNormalizing S \<and> value_ok (getServerName S)"

definition client_request :: "('f, 'v) Server \<Rightarrow> 'f Request \<Rightarrow> bool" where
  "client_request S q \<longleftrightarrow>
     sendable q \<and> \<not> rqConnectionClose (qHeader q) \<and> RequestHeader_Method (sent_header q) \<noteq> bs ''HEAD'' \<and>
     hd (RequestHeader_Method (sent_header q)) \<noteq> rChar \<and> int (length (sent_body q)) \<le> body_limit S (sent_header q)"

definition answer :: "(bytes \<Rightarrow> bytes \<Rightarrow> bytes \<Rightarrow> bytes) \<Rightarrow> 'f Request \<Rightarrow> bytes" where
  "answer f q = f (RequestHeader_Method (sent_header q)) (RequestHeader_RequestURI (sent_header q)) (sent_body q)"

text \<open>What a client makes of the text of a response.\<close>

definition reads_ok :: "resp_env \<Rightarrow> bytes \<Rightarrow> bytes \<Rightarrow> bool" where
  "reads_ok P t body \<longleftrightarrow>
     (\<exists>g. Response_ReadLimitIfClose P (emptyResponse (new_reader (length t) [t])) 0 = Some (g, False, None) \<and>
        rsStatusCode (pHeader g) = 200 \<and> \<not> rsConnectionClose (pHeader g) \<and> Response_bodyBytes g = body \<and> pending (pReader g) = [])"

lemma sent_text_start:
  assumes "sendable q"
  shows "\<exists>t. sent_text q = RequestHeader_Method (sent_header q) @ t \<and> 4 \<le> length (sent_text q)"
    "RequestHeader_Method (sent_header q) \<noteq> []" "nChar \<notin> set (RequestHeader_Method (sent_header q))"
proof -
  have p: "printable (sent_header q)" using assms by (simp add: sendable_def printable_sent)
  then have f: "first_ok (RequestHeader_Method (sent_header q)) (RequestHeader_RequestURI (sent_header q)) (RequestHeader_Protocol (sent_header q))"
    by (simp add: printable_def)
  then show "RequestHeader_Method (sent_header q) \<noteq> []" "nChar \<notin> set (RequestHeader_Method (sent_header q))" by (simp_all add: first_ok_def)
  have "8 \<le> length (RequestHeader_Protocol (sent_header q))" using f by (simp add: first_ok_def version_ok_def)
  then show "\<exists>t. sent_text q = RequestHeader_Method (sent_header q) @ t \<and> 4 \<le> length (sent_text q)"
    using p by (simp add: sent_text_def AppendBytes_eq printable_def first_line_def)
qed

lemma no_newline_start:
  assumes "client_request S q"
  shows "numLeadingCRorLF (take k (sent_text q @ p)) = 0"
proof -
  have s: "sendable q" using assms by (simp add: client_request_def)
  obtain c m where m: "RequestHeader_Method (sent_header q) = c # m" using sent_text_start(2) [OF s] by (cases "RequestHeader_Method (sent_header q)") auto
  with sent_text_start(1,3) [OF s] assms obtain t where "sent_text q = c # t" "c \<noteq> nChar" "c \<noteq> rChar"
    by (auto simp: client_request_def)
  then show ?thesis by (cases k) (simp_all add: numLeadingCRorLF_def)
qed

text \<open>Reading the header of a request that a client sent, behind any other request.\<close>

lemma serve_head_sent:
  assumes S: "quiet_server S" and q: "client_request S q" and c: "idle_ctx c"
    and nr: "svReduceMemoryUsage S \<and> noReader \<longrightarrow> brBuf (qReader (cxRequest c)) = []"
    and r: "pending (qReader (cxRequest c)) = sent_text q @ sent_body q @ p" "length (sent_text q) \<le> brSize (qReader (cxRequest c))"
  shows "\<exists>c1 h r. serve_head S E P c w num post noReader = Some (Inr (c1\<lparr>cxRequest := (cxRequest c1)\<lparr>qHeader := h, qReader := r\<rparr>\<rparr>)) \<and> idle_ctx c1 \<and>
           pending r = sent_body q @ p \<and> br_live r \<and> brSize r = brSize (qReader (cxRequest c)) \<and> brEnd r = brEnd (qReader (cxRequest c)) \<and>
           rqContentLength h = int (length (sent_body q)) \<and> rqMethod h = RequestHeader_Method (sent_header q) \<and>
           rqRequestURI h = RequestHeader_RequestURI (sent_header q) \<and> \<not> rqConnectionClose h \<and> \<not> rqNoHTTP11 h \<and>
           \<not> rqDisableSpecialHeader h \<and> rqContentType h = printed_type (sent_header q) \<and>
           RequestHeader_peek h strExpect \<noteq> str100Continue"
proof -
  let ?h = "sent_header q" and ?t = "sent_text q"
  have s: "sendable q" using q by (simp add: client_request_def)
  have h: "printable ?h" using s by (simp add: sendable_def printable_sent)
  have l: "4 \<le> length ?t" using sent_text_start(1) [OF s] by blast
  then have "pending (qReader (cxRequest c)) \<noteq> []" unfolding r(1) by auto
  from serve_first_byte_idle [OF c nr this, of E P num] obtain c1 where
    c1: "serve_first_byte S E P c num noReader = Some (c1, None)" "idle_ctx c1"
    and r1: "pending (qReader (cxRequest c1)) = ?t @ sent_body q @ p"
      "brSize (qReader (cxRequest c1)) = brSize (qReader (cxRequest c))" "brEnd (qReader (cxRequest c1)) = brEnd (qReader (cxRequest c))"
    unfolding r(1) by auto
  let ?q = "cxRequest c1"
  have g: "br_live (qReader ?q)" "\<not> rqDisableSpecialHeader (qHeader ?q)" "\<not> rqDisableNormalizing (qHeader ?q)"
    "RequestHeader_resetSkipNormalize (qHeader ?q) = qHeader ?q"
    using c1(2) by (simp_all add: idle_ctx_def idle_request_def receiver_def)
  have "\<exists>r2. RequestHeader_readLoop (qHeader ?q) (qReader ?q) True post True = RequestHeader_Read (qHeader ?q) r2 \<and> br_live r2 \<and>
      pending r2 = ?t @ sent_body q @ p \<and> brSize r2 = brSize (qReader ?q) \<and> brEnd r2 = brEnd (qReader ?q)"
    using peek_text [OF g(1) r1(1), of 4] l r(2) r1 g(1,4) no_newline_start [OF q, of 4 "[]"]
    by (auto simp: RequestHeader_readLoop_def RequestHeader_Read_def br_Discard_def Let_def)
  then obtain r2 where r2: "RequestHeader_readLoop (qHeader ?q) (qReader ?q) True post True = RequestHeader_Read (qHeader ?q) r2" "br_live r2"
    "pending r2 = ?t @ sent_body q @ p" "brSize r2 = brSize (qReader ?q)" "brEnd r2 = brEnd (qReader ?q)" by blast
  have N: "pending r2 = RequestHeader_AppendBytes ?h [] @ sent_body q @ p" "length (RequestHeader_AppendBytes ?h []) \<le> brSize r2"
    using r1(2) r2(3,4) r(2) by (simp_all add: sent_text_def)
  from request_header_read [OF h g(2,3) r2(2) N] obtain h' r' where
    R: "RequestHeader_Read (qHeader ?q) r2 = Some (h', r', None)" "pending r' = sent_body q @ p" "br_live r'"
      "brSize r' = brSize r2" "brEnd r' = brEnd r2" "rqContentLength h' = printed_length ?h"
      "kv_pairs (live (rqH h')) = kv_pairs (live (rqH ?h)) @ cookie_line ?h" "\<not> rqDisableSpecialHeader h'"
    and F: "rqMethod h' = RequestHeader_Method ?h" "rqRequestURI h' = RequestHeader_RequestURI ?h" "rqNoHTTP11 h' = (RequestHeader_Protocol ?h \<noteq> strHTTP11)"
      "rqContentType h' = printed_type ?h" "rqConnectionClose h' = rqConnectionClose ?h"
    by blast
  have k: "\<not> rqConnectionClose ?h" using q by (auto simp: client_request_def sent_header_def RequestHeader_SetContentTypeBytes_def Let_def)
  with h F(3) have n: "\<not> rqNoHTTP11 h'" by (simp add: printable_def)
  have "RequestHeader_peek h' strExpect = peek_bytes (rqH h') strExpect"
    by (simp add: RequestHeader_peek_def RequestHeader_peekSpecial_def hdr_names Let_def)
  moreover have "strExpect \<noteq> strCookie" by (simp add: hdr_names)
  ultimately have e: "RequestHeader_peek h' strExpect \<noteq> str100Continue"
    using s peek_sent [OF R(7)] by (simp add: sent_expect sendable_def)
  have "serve_head S E P c w num post noReader = Some (Inr (c1\<lparr>cxRequest := ?q\<lparr>qHeader := h', qReader := r'\<rparr>\<rparr>))"
    using S c1(1) r2(1) R(1) by (simp add: serve_head_def serve_read_header_def serve_disable_normalizing_def quiet_server_def Let_def)
  then show ?thesis
    using R r1 r2 F n e k c1(2) sent_length [OF s] by (intro exI [of _ c1] exI [of _ h'] exI [of _ r']) auto
qed

lemma serve_body_sent:
  assumes S: "quiet_server S" "\<not> svStreamRequestBody S" and q: "client_request S q" and c: "qBodyStream (cxRequest c) = None" "Request_bodyBytes (cxRequest c) = []"
    "br_live (qReader (cxRequest c))" "pending (qReader (cxRequest c)) = sent_body q @ p"
    and h: "rqContentLength (qHeader (cxRequest c)) = int (length (sent_body q))" "\<not> rqDisableSpecialHeader (qHeader (cxRequest c))"
      "rqContentType (qHeader (cxRequest c)) = printed_type (sent_header q)"
  shows "\<exists>q'. serve_body S E c w = Some (Inr (c\<lparr>cxRequest := q'\<rparr>)) \<and> Request_bodyBytes q' = sent_body q \<and>
           qHeader q' = (qHeader (cxRequest c))\<lparr>rqNoDefaultContentType := svNoDefaultContentType S\<rparr> \<and> qBodyStream q' = None \<and>
           br_live (qReader q') \<and> pending (qReader q') = p \<and> brSize (qReader q') = brSize (qReader (cxRequest c)) \<and>
           brEnd (qReader q') = brEnd (qReader (cxRequest c))"
proof -
  let ?q = "(cxRequest c)\<lparr>qHeader := (qHeader (cxRequest c))\<lparr>rqNoDefaultContentType := svNoDefaultContentType S\<rparr>\<rparr>"
  have s: "sendable q" "int (length (sent_body q)) \<le> body_limit S (qHeader (cxRequest c))" "int (length (sent_body q)) \<le> maxAlloc"
    using q S by (simp_all add: client_request_def body_limit_def quiet_server_def sendable_def)
  have f: "pre_parse_boundary ?q = []"
    using s(1) h(2,3) by (simp add: pre_parse_boundary_def RequestHeader_MultipartFormBoundary_def RequestHeader_ContentType_def sendable_def)
  have "Request_bodyBytes ?q = []" using c(2) by (simp add: Request_bodyBytes_def split: option.splits)
  with Read_sent_body [of ?q "sent_body q" p "body_limit S (qHeader (cxRequest c))" E] c h(1) s f obtain q' where
    "Request_ReadBody E ?q (body_limit S (qHeader (cxRequest c))) True = Some (q', None)" "Request_bodyBytes q' = sent_body q"
    "qHeader q' = qHeader ?q" "qBodyStream q' = None" "br_live (qReader q')" "pending (qReader q') = p"
    "brSize (qReader q') = brSize (qReader (cxRequest c))" "brEnd (qReader q') = brEnd (qReader (cxRequest c))" by auto
  then show ?thesis using S by (intro exI [of _ q']) (simp add: serve_body_def quiet_server_def Let_def)
qed

text \<open>The response of the handler, as it is written.\<close>

lemma fresh_header:
  assumes "ResponseHeader_resetSkipNormalize h = h"
  shows "rsServer h = []" "rsStatusCode h = 0" "rsStatusMessage h = []" "rsProtocol h = []" "rsContentLength h = 0" "rsContentType h = []"
    "rsContentEncoding h = []" "live (rsTrailer h) = []" "live (rsH h) = []" "live (rsCookies h) = []" "\<not> rsConnectionClose h"
  by (subst assms [symmetric], simp add: ResponseHeader_resetSkipNormalize_def resetArgs_def)+

lemma ok_message: "nChar \<notin> set (StatusMessage 200)"
  by (simp add: StatusMessage_def statusMessages_def)

lemma handler_response:
  assumes p: "idle_response p" and n: "value_ok (getServerName S)" "value_ok (envDate P)" and b: "length b \<le> 2 ^ 46"
    and g: "g = Response_SetBody (named_response S p) b"
  shows "plain_response g" "rs_printable (envDate P) (sent_response g)" "pBodyStream g = None" "response_body g = b"
    "rsContentLength (pHeader g) = 0" "\<not> rsConnectionClose (pHeader g)" "rsServer (pHeader g) = getServerName S" "rsStatusCode (pHeader g) = 0"
proof -
  have h: "ResponseHeader_resetSkipNormalize (pHeader p) = pHeader p" "\<not> rsHeadMethod (pHeader p)" using p by (simp_all add: idle_response_def)
  note F = fresh_header [OF h(1)]
  let ?h = "(if getServerName S \<noteq> [] then ResponseHeader_SetServerBytes (pHeader p) (getServerName S) else pHeader p)
      \<lparr>rsNoDefaultContentType := svNoDefaultContentType S, rsNoDefaultDate := svNoDefaultDate S\<rparr>"
  have G: "pHeader g = ?h" "pBodyStream g = None" "pChunkedW g = None" "pCompressPool g = None" "\<not> pSkipBody g" "Response_bodyBytes g = b"
    using p by (simp_all add: g named_response_def idle_response_def Response_SetBody_def Response_drop_other_def Response_closeBodyStream_def
        Response_bodyBuffer_def Response_bodyBytes_def)
  show "pBodyStream g = None" "response_body g = b" "rsContentLength (pHeader g) = 0" "\<not> rsConnectionClose (pHeader g)" "rsServer (pHeader g) = getServerName S"
    "rsStatusCode (pHeader g) = 0"
    using G F by (simp_all add: response_body_def ResponseHeader_SetServerBytes_def)
  show "plain_response g"
    using G F b by (simp add: plain_response_def Response_mustSkipBody_def ResponseHeader_mustSkipContentLength_def response_body_def
        ResponseHeader_SetServerBytes_def)
  have S: "sent_response g = ResponseHeader_SetContentLength ?h (int (length b))"
    using G F by (simp add: sent_response_def ResponseHeader_SetServerBytes_def)
  have "value_ok defaultContentType" "value_ok []"
    by (simp_all add: value_ok_def line_value_def validHeaderValueByte_def validHeaderValueByteTable_def defaultContentType_def)
  moreover have "is_int64 (int (length b))" using b by (simp add: is_int64_def)
  ultimately show "rs_printable (envDate P) (sent_response g)"
    unfolding S using F h(2) n ok_message
    by (simp add: rs_printable_def ResponseHeader_SetContentLength_def ResponseHeader_SetServerBytes_def status_ok_def printed_code_def
        printed_message_def ResponseHeader_Protocol_def ResponseHeader_ContentType_def strHTTP11_def)
qed

lemma serve_handler_plain:
  assumes S: "quiet_server S" "svHandler S = body_handler f" and n: "value_ok (envDate P)"
    and c: "idle_response (cxResponse c)" "\<not> cxHijacked c"
    and fin: "finish_request E (cxRequest c) = Some (q', None)"
    and b: "b = f (RequestHeader_Method (qHeader (cxRequest c))) (RequestHeader_RequestURI (qHeader (cxRequest c))) (Request_bodyBytes (cxRequest c))"
      "length b \<le> 2 ^ 46"
  shows "\<exists>g. serve_handler S E c w num = Some (Inr (c\<lparr>cxConnRequestNum := num, cxResponse := g, cxRequest := q'\<rparr>)) \<and> plain_response g \<and>
           rs_printable (envDate P) (sent_response g) \<and> pBodyStream g = None \<and> response_body g = b \<and> rsContentLength (pHeader g) = 0 \<and>
           \<not> rsConnectionClose (pHeader g) \<and> rsServer (pHeader g) = getServerName S \<and> rsStatusCode (pHeader g) = 0"
proof -
  let ?g = "Response_SetBody (named_response S (cxResponse c)) b"
  have v: "value_ok (getServerName S)" using S by (simp add: quiet_server_def)
  have "svHandler S (c\<lparr>cxConnRequestNum := num, cxResponse := named_response S (cxResponse c)\<rparr>) = c\<lparr>cxConnRequestNum := num, cxResponse := ?g\<rparr>"
    using S(2) b(1) by (simp add: body_handler_def ctx_SetBody_def Let_def)
  then have "serve_handler S E c w num = Some (Inr (c\<lparr>cxConnRequestNum := num, cxResponse := ?g, cxRequest := q'\<rparr>))"
    using c fin by (simp add: serve_handler_def Let_def)
  with handler_response [OF c(1) v n b(2) refl] show ?thesis by blast
qed

lemma skip_newlines_facts:
  assumes "br_live (qReader q)" "numLeadingCRorLF (take k (pending (qReader q))) = 0" "k = min 4 (br_Buffered (qReader q))"
  shows "skip_buffered_newlines q = q \<or> skip_buffered_newlines q = q\<lparr>qReader := (qReader q)\<lparr>brLast := None\<rparr>\<rparr>"
proof -
  have "br_ok (qReader q)" "k \<le> length (brBuf (qReader q))" using assms by (simp_all add: br_live_def br_Buffered_def)
  moreover from this have "take k (pending (qReader q)) = take k (brBuf (qReader q))" by (simp add: pending_def)
  ultimately show ?thesis
    using assms(2) by (simp add: skip_buffered_newlines_def assms(3) [symmetric] Peek_buffered br_Discard_def)
qed

lemma written_reads_ok:
  assumes g: "plain_response g" "rs_printable (envDate P) (sent_response g)" "pBodyStream g = None" "rsContentLength (pHeader g) = 0"
      "\<not> rsConnectionClose (pHeader g)" "rsStatusCode (pHeader g) = 0"
    and a: "ResponseHeader_AppendBytes (envDate P) (sent_response g) [] False = Some (h, t)"
  shows "reads_ok P (t @ response_body g) (response_body g)"
proof -
  let ?t = "t @ response_body g"
  let ?r = "emptyResponse (new_reader (length ?t) [?t])"
  have l: "2 \<le> length ?t" using AppendBytes_lines [of "sent_response g" "envDate P" "[]"] g(2) a by (auto simp: rs_printable_def)
  then have r: "response_receiver ?r" "brBuf (pReader ?r) = []" "brSrc (pReader ?r) = [?t]" "brSize (pReader ?r) = length ?t"
    by (simp_all add: response_receiver_def emptyResponse_def emptyResponseHeader_def new_reader_def br_live_def br_ok_def no_empty_def) auto
  have f: "framed g (response_body g)" using g(3) by (simp add: framed_def)
  from Read_response [OF g(1,2) a f r(1,2,3), of "[]" 0] l g(4) r(4) obtain g' where
    G: "Response_ReadLimitIfClose P ?r 0 = Some (g', False, None)" "same_response P g g'" "pending (pReader g') = []" by auto
  have "printed_code (sent_response g) = 200" "\<not> closes (sent_response g)"
    using g by (simp_all add: sent_response_def ResponseHeader_SetContentLength_def printed_code_def closes_def)
  then show ?thesis using G by (auto simp: reads_ok_def same_response_def Let_def)
qed

lemma serve_respond_plain:
  assumes S: "quiet_server S" and g: "plain_response (cxResponse c)" "rs_printable (envDate P) (sent_response (cxResponse c))"
      "pBodyStream (cxResponse c) = None" "rsContentLength (pHeader (cxResponse c)) = 0" "\<not> rsConnectionClose (pHeader (cxResponse c))"
      "rsServer (pHeader (cxResponse c)) = getServerName S" "rsStatusCode (pHeader (cxResponse c)) = 0"
    and c: "RequestHeader_Method (qHeader (cxRequest c)) \<noteq> bs ''HEAD''" "\<not> rqNoHTTP11 (qHeader (cxRequest c))" "cxHijackHandler c = None"
    and w: "bw_live w" and q': "q' = (if noReader then cxRequest c else skip_buffered_newlines (cxRequest c))"
  shows "\<exists>g w' t. serve_respond S P c w num False noReader = Some (Inr (c\<lparr>cxHijackNoResponse := False, cxResponse := g,
             cxRequest := q'\<rparr>, w')) \<and>
           bw_live w' \<and> bwBuf w' = [] \<and> bwOut w' = bw_all w @ t \<and> reads_ok P t (response_body (cxResponse c))"
proof -
  let ?g = "cxResponse c" and ?c = "c\<lparr>cxHijackHandler := None, cxHijackNoResponse := False\<rparr>"
  obtain h t where a: "ResponseHeader_AppendBytes (envDate P) (sent_response ?g) [] False = Some (h, t)"
    using AppendBytes_lines [of "sent_response ?g" "envDate P" "[]"] g(2) by (auto simp: rs_printable_def)
  from Write_in_memory [OF g(1,3) w a] obtain w1 p' where
    w1: "Response_Write P w ?g = Some (w1, p', None)" "bw_all w1 = bw_all w @ t @ response_body ?g" "bw_live w1" by blast
  obtain w2 e where w2: "bw_Flush w1 = (w2, e)" by fastforce
  from Flush_facts [OF w2] w1(3) have F: "bw_all w2 = bw_all w1" "e = None" "bw_live w2" "bwBuf w2 = []" by (auto simp: bw_live_def)
  have "serve_finish_header S ?c False (svStop S num) = (?c, False)"
    using S g(5,6) c by (simp add: serve_finish_header_def quiet_server_def RequestHeader_IsMethod_def Let_def)
  then have "serve_respond S P c w num False noReader =
      Some (Inr (?c\<lparr>cxResponse := p', cxRequest := q'\<rparr>, w2))"
    using S c(3) w1(1) w2 F(2) q' by (simp add: serve_respond_def quiet_server_def Let_def)
  moreover have "?c\<lparr>cxResponse := p', cxRequest := q'\<rparr> =
      c\<lparr>cxHijackNoResponse := False, cxResponse := p', cxRequest := q'\<rparr>"
    using c(3) by simp
  moreover have "bwOut w2 = bw_all w @ t @ response_body ?g" using F(1,4) w1(2) by (simp add: bw_all_def)
  ultimately show ?thesis using F(3,4) written_reads_ok [OF g(1-5,7) a] by metis
qed

lemma serve_tail:
  assumes S: "quiet_server S" "svHandler S = body_handler f" and P: "value_ok (envDate P)"
    and H: "serve_head S E P c0 w num pst nr = Some (Inr c1)" "serve_continue S c1 w = Inr w" "serve_body S E c1 w = Some (Inr (c\<lparr>cxRequest := q2\<rparr>))"
    and c: "idle_ctx c" and w: "bw_live w" "bwBuf w = []"
    and h: "RequestHeader_Method (qHeader q2) \<noteq> bs ''HEAD''" "\<not> rqNoHTTP11 (qHeader q2)" "\<not> rqConnectionClose (qHeader q2)"
    and b: "b = f (RequestHeader_Method (qHeader q2)) (RequestHeader_RequestURI (qHeader q2)) (Request_bodyBytes q2)" "length b \<le> 2 ^ 46"
    and fin: "finish_request E q2 = Some (q3, None)"
    and q3: "qHeader q3 = qHeader q2" "qBodyStream q3 = None" "br_live (qReader q3)" "\<And>k. numLeadingCRorLF (take k (pending (qReader q3))) = 0"
    and nr: "releases_reader S (c\<lparr>cxRequest := q2\<rparr>) \<longrightarrow> brBuf (qReader q3) = []"
  shows "\<exists>c' w' t post. serve_loop S E P c0 w num pst nr = serve_loop S E P c' w' (num + 1) post (releases_reader S (c\<lparr>cxRequest := q2\<rparr>)) \<and> idle_ctx c' \<and>
           (releases_reader S (c\<lparr>cxRequest := q2\<rparr>) \<longrightarrow> brBuf (qReader (cxRequest c')) = []) \<and> bw_live w' \<and> bwBuf w' = [] \<and>
           bwOut w' = bwOut w @ t \<and> reads_ok P t b \<and> pending (qReader (cxRequest c')) = pending (qReader q3) \<and>
           brSize (qReader (cxRequest c')) = brSize (qReader q3) \<and> brEnd (qReader (cxRequest c')) = brEnd (qReader q3)"
proof -
  have c': "idle_response (cxResponse c)" "\<not> cxHijacked c" "cxHijackHandler c = None" using c by (simp_all add: idle_ctx_def)
  let ?c2 = "c\<lparr>cxRequest := q2\<rparr>"
  let ?nr = "releases_reader S ?c2"
  define q4 where "q4 = (if ?nr then q3 else skip_buffered_newlines q3)"
  from serve_handler_plain [OF S P, of ?c2 E q3 b w num] c' b fin obtain g where
    G: "serve_handler S E ?c2 w num = Some (Inr (?c2\<lparr>cxConnRequestNum := num, cxResponse := g, cxRequest := q3\<rparr>))" (is "_ = Some (Inr ?c3)")
      "plain_response g" "rs_printable (envDate P) (sent_response g)" "pBodyStream g = None" "response_body g = b"
      "rsContentLength (pHeader g) = 0" "\<not> rsConnectionClose (pHeader g)" "rsServer (pHeader g) = getServerName S" "rsStatusCode (pHeader g) = 0"
    by auto
  from serve_respond_plain [OF S(1), of ?c3 P w q4 ?nr num] q4_def G h q3(1) c'(3) w(1) obtain g' w' t where
    R: "serve_respond S P ?c3 w num False ?nr = Some (Inr (?c3\<lparr>cxHijackNoResponse := False, cxResponse := g',
          cxRequest := q4\<rparr>, w'))" (is "_ = Some (Inr (?c4, w'))")
      "bw_live w'" "bwBuf w' = []" "bwOut w' = bw_all w @ t" "reads_ok P t b" by auto
  have K: "qBodyStream q4 = None" "br_live (qReader q4)" "pending (qReader q4) = pending (qReader q3)" "brSize (qReader q4) = brSize (qReader q3)"
    "brEnd (qReader q4) = brEnd (qReader q3)" "?nr \<longrightarrow> brBuf (qReader q4) = []"
    using skip_newlines_facts [OF q3(3) q3(4) refl] q3(2,3) nr by (auto simp: q4_def br_live_def br_ok_def no_empty_def pending_def)
  from Reset_idle [OF K(1,2), of E "cxIsTLS c"] obtain q5 where
    Q: "Request_Reset E q4 = Some q5" "idle_request (q5\<lparr>qIsTLS := cxIsTLS c\<rparr>)" "qReader q5 = qReader q4"
    by blast
  define c5 where "c5 = ?c4\<lparr>cxUserValues := fst (userData_Reset (svCloser S) (cxUserValues c)), cxRequest := q5\<lparr>qIsTLS := cxIsTLS c\<rparr>,
    cxResponse := Response_Reset P g'\<rparr>"
  have "serve_reset S E P ?c4 = Some c5" using Q(1) by (simp add: serve_reset_def c5_def)
  moreover have "\<not> svDisableKeepalive S" using S(1) by (simp add: quiet_server_def)
  ultimately have L: "\<exists>post. serve_loop S E P c0 w num pst nr = serve_loop S E P c5 w' (num + 1) post ?nr"
    using H h(3) G(1) R(1) by (subst serve_loop.simps) (auto simp: Let_def)
  have "idle_ctx c5" using Q(2) c' Response_Reset_idle by (simp add: c5_def idle_ctx_def)
  moreover have "qReader (cxRequest c5) = qReader q4" using Q(3) by (simp add: c5_def)
  moreover obtain post where "serve_loop S E P c0 w num pst nr = serve_loop S E P c5 w' (num + 1) post ?nr" using L by blast
  ultimately show ?thesis using R K w(2) by (intro exI [of _ c5] exI [of _ w'] exI [of _ t] exI [of _ post]) (simp add: bw_all_def)
qed

text \<open>A request that is read completely, and its answer.\<close>

lemma line_of_header:
  assumes "sendable q" "rqMethod h = RequestHeader_Method (sent_header q)" "rqRequestURI h = RequestHeader_RequestURI (sent_header q)"
  shows "RequestHeader_Method h = RequestHeader_Method (sent_header q)" "RequestHeader_RequestURI h = RequestHeader_RequestURI (sent_header q)"
proof -
  have "first_ok (RequestHeader_Method (sent_header q)) (RequestHeader_RequestURI (sent_header q)) (RequestHeader_Protocol (sent_header q))"
    using assms(1) printable_sent [of q] by (simp add: sendable_def printable_def)
  then show "RequestHeader_Method h = RequestHeader_Method (sent_header q)" "RequestHeader_RequestURI h = RequestHeader_RequestURI (sent_header q)"
    using assms(2,3) by (simp_all add: RequestHeader_Method_def [of h] RequestHeader_RequestURI_def [of h] first_ok_def)
qed

lemma serve_one:
  assumes S: "quiet_server S" "svHandler S = body_handler f" "\<not> svStreamRequestBody S" and P: "value_ok (envDate P)"
    and q: "client_request S q" "length (answer f q) \<le> 2 ^ 46"
    and c: "idle_ctx c" and nr: "svReduceMemoryUsage S \<and> nr \<longrightarrow> brBuf (qReader (cxRequest c)) = []" and p: "\<And>k. numLeadingCRorLF (take k p) = 0" and w: "bw_live w" "bwBuf w = []"
    and r: "pending (qReader (cxRequest c)) = sent_text q @ sent_body q @ p" "length (sent_text q) \<le> brSize (qReader (cxRequest c))"
  shows "\<exists>c' w' t post nr'. serve_loop S E P c w num pst nr = serve_loop S E P c' w' (num + 1) post nr' \<and> idle_ctx c' \<and>
           (nr' \<longrightarrow> brBuf (qReader (cxRequest c')) = []) \<and> bw_live w' \<and> bwBuf w' = [] \<and>
           bwOut w' = bwOut w @ t \<and> reads_ok P t (answer f q) \<and> pending (qReader (cxRequest c')) = p \<and>
           brSize (qReader (cxRequest c')) = brSize (qReader (cxRequest c)) \<and> brEnd (qReader (cxRequest c')) = brEnd (qReader (cxRequest c))"
proof -
  let ?h = "sent_header q"
  have s: "sendable q" "RequestHeader_Method ?h \<noteq> bs ''HEAD''" using q(1) by (simp_all add: client_request_def)
  from serve_head_sent [OF S(1) q(1) c nr r, of E P w num pst] obtain c1 h r1 where
    H: "serve_head S E P c w num pst nr = Some (Inr (c1\<lparr>cxRequest := (cxRequest c1)\<lparr>qHeader := h, qReader := r1\<rparr>\<rparr>))" (is "_ = Some (Inr ?c1)")
      "pending r1 = sent_body q @ p" "br_live r1" "brSize r1 = brSize (qReader (cxRequest c))" "brEnd r1 = brEnd (qReader (cxRequest c))"
      "rqContentLength h = int (length (sent_body q))" "rqMethod h = RequestHeader_Method ?h" "rqRequestURI h = RequestHeader_RequestURI ?h"
      "\<not> rqConnectionClose h" "\<not> rqNoHTTP11 h" "\<not> rqDisableSpecialHeader h" "rqContentType h = printed_type ?h"
      "RequestHeader_peek h strExpect \<noteq> str100Continue" and c1: "idle_ctx c1" by blast
  let ?q = "cxRequest c1"
  have c': "idle_request ?q" using c1 by (simp add: idle_ctx_def)
  have C: "serve_continue S ?c1 w = Inr w" using H(13) by (simp add: serve_continue_def Request_MayContinue_def)
  have i: "qBodyStream ?q = None" "Request_bodyBytes (?q\<lparr>qHeader := h, qReader := r1\<rparr>) = []"
    using c' by (auto simp: idle_request_def receiver_def Request_bodyBytes_def split: option.splits)
  from serve_body_sent [OF S(1,3) q(1), of ?c1 p E w] i H obtain q2 where
    B: "serve_body S E ?c1 w = Some (Inr (c1\<lparr>cxRequest := q2\<rparr>))" "Request_bodyBytes q2 = sent_body q"
      "qHeader q2 = h\<lparr>rqNoDefaultContentType := svNoDefaultContentType S\<rparr>" "qBodyStream q2 = None" "br_live (qReader q2)"
      "pending (qReader q2) = p" "brSize (qReader q2) = brSize (qReader (cxRequest c))" "brEnd (qReader q2) = brEnd (qReader (cxRequest c))" by auto
  have m: "RequestHeader_Method (qHeader q2) = RequestHeader_Method ?h" "RequestHeader_RequestURI (qHeader q2) = RequestHeader_RequestURI ?h"
    using line_of_header [OF s(1), of "qHeader q2"] B(3) H(7,8) by simp_all
  show ?thesis
    using serve_tail [OF S(1,2) P H(1) C B(1) c1 w, of "answer f q" q2] m s(2) B H(9,10) q(2) p
    by (simp add: answer_def finish_request_def needFinish_def releases_reader_def br_Buffered_def) blast
qed

lemma serve_all:
  assumes S: "quiet_server S" "svHandler S = body_handler f" "\<not> svStreamRequestBody S" and P: "value_ok (envDate P)"
  shows "list_all (\<lambda>q. client_request S q \<and> length (answer f q) \<le> 2 ^ 46 \<and> length (sent_text q) \<le> brSize (qReader (cxRequest c))) qs \<Longrightarrow>
     idle_ctx c \<Longrightarrow> (svReduceMemoryUsage S \<and> nr \<longrightarrow> brBuf (qReader (cxRequest c)) = []) \<Longrightarrow> bw_live w \<Longrightarrow> bwBuf w = [] \<Longrightarrow> pending (qReader (cxRequest c)) = wire qs \<Longrightarrow>
     \<exists>c' w' ts post nr'. serve_loop S E P c w num pst nr = serve_loop S E P c' w' (num + length qs) post nr' \<and> idle_ctx c' \<and>
       (svReduceMemoryUsage S \<and> nr' \<longrightarrow> brBuf (qReader (cxRequest c')) = []) \<and> bw_live w' \<and>
       bwOut w' = bwOut w @ concat ts \<and> list_all2 (\<lambda>q t. reads_ok P t (answer f q)) qs ts \<and> pending (qReader (cxRequest c')) = [] \<and>
       brEnd (qReader (cxRequest c')) = brEnd (qReader (cxRequest c))"
proof (induction qs arbitrary: c w num pst nr)
  case Nil
  then show ?case by (intro exI [of _ c] exI [of _ w] exI [of _ "[]"] exI [of _ pst] exI [of _ nr]) (simp add: wire_def)
next
  case (Cons q qs)
  have nl: "numLeadingCRorLF (take k (wire qs)) = 0" for k
  proof (cases qs)
    case (Cons q' qs')
    with Cons.prems(1) have "client_request S q'" by simp
    from no_newline_start [OF this, of k "sent_body q' @ wire qs'"] Cons show ?thesis by (simp add: wire_def)
  qed (simp add: wire_def numLeadingCRorLF_def)
  have q: "client_request S q" "length (answer f q) \<le> 2 ^ 46" "length (sent_text q) \<le> brSize (qReader (cxRequest c))"
    "pending (qReader (cxRequest c)) = sent_text q @ sent_body q @ wire qs"
    using Cons.prems(1,6) by (simp_all add: wire_def)
  from serve_one [OF S P q(1,2) Cons.prems(2,3) nl Cons.prems(4,5) q(4,3), of E num pst] obtain c1 w1 t post nr1 where
    A: "serve_loop S E P c w num pst nr = serve_loop S E P c1 w1 (num + 1) post nr1" "idle_ctx c1" "nr1 \<longrightarrow> brBuf (qReader (cxRequest c1)) = []" "bw_live w1" "bwBuf w1 = []"
      "bwOut w1 = bwOut w @ t" "reads_ok P t (answer f q)" "pending (qReader (cxRequest c1)) = wire qs"
      "brSize (qReader (cxRequest c1)) = brSize (qReader (cxRequest c))" "brEnd (qReader (cxRequest c1)) = brEnd (qReader (cxRequest c))"
    by blast
  have I: "list_all (\<lambda>q. client_request S q \<and> length (answer f q) \<le> 2 ^ 46 \<and> length (sent_text q) \<le> brSize (qReader (cxRequest c1))) qs"
    "svReduceMemoryUsage S \<and> nr1 \<longrightarrow> brBuf (qReader (cxRequest c1)) = []"
    using Cons.prems(1) A(3,9) by simp_all
  from Cons.IH [OF I(1) A(2) I(2) A(4,5,8), of "num + 1" post] obtain c' w' ts post' nr' where
    "serve_loop S E P c1 w1 (num + 1) post nr1 = serve_loop S E P c' w' (num + 1 + length qs) post' nr'" "idle_ctx c'" "bw_live w'"
      "svReduceMemoryUsage S \<and> nr' \<longrightarrow> brBuf (qReader (cxRequest c')) = []"
      "bwOut w' = bwOut w1 @ concat ts" "list_all2 (\<lambda>q t. reads_ok P t (answer f q)) qs ts" "pending (qReader (cxRequest c')) = []"
      "brEnd (qReader (cxRequest c')) = brEnd (qReader (cxRequest c1))" by blast
  with A show ?case by (intro exI [of _ c'] exI [of _ w'] exI [of _ "t # ts"] exI [of _ post'] exI [of _ nr']) simp
qed

lemma serve_end_of_input:
  assumes c: "idle_ctx c" and p: "pending (qReader (cxRequest c)) = []" and e: "brEnd (qReader (cxRequest c)) = EOF"
    and n: "1 < num \<or> svReduceMemoryUsage S \<and> noReader"
    and b: "svReduceMemoryUsage S \<and> noReader \<longrightarrow> brBuf (qReader (cxRequest c)) = []"
  shows "\<exists>c'. serve_loop S E P c w num post noReader = Some (leave S c' w [] (Some (SrvMsg MsgEOF)))"
proof (cases "svReduceMemoryUsage S \<and> noReader")
  case True
  with acquireByteReader_idle [OF c, of S E P num] b p e obtain c' where "acquireByteReader S E P c num = Some (c', Some EOF)" by auto
  with True show ?thesis by (subst serve_loop.simps) (auto simp: serve_head_def serve_first_byte_def)
next
  case False
  with n have "1 < num" by simp
  with False c p e peek_at_end [of "qReader (cxRequest c)"] show ?thesis
    by (subst serve_loop.simps) (auto simp: serve_head_def serve_first_byte_def idle_ctx_def idle_request_def receiver_def)
qed

lemma acquireCtx_reader: "qReader (cxRequest (acquireCtx S r)) = r"
  by (simp add: acquireCtx_def emptyRequest_def)

lemma acquireCtx_idle: "br_live r \<Longrightarrow> idle_ctx (acquireCtx S r)"
  by (simp add: acquireCtx_def idle_ctx_def idle_request_def idle_response_def receiver_def emptyRequest_def emptyResponse_def
      emptyRequestHeader_def emptyResponseHeader_def Request_bodyBytes_def RequestHeader_resetSkipNormalize_def
      ResponseHeader_resetSkipNormalize_def resetArgs_def emptyArgs_def)

text \<open>C1: A client that keeps one connection open and sends any number of requests without waiting for the answers gets
  the answers in the order of its requests: the server reads the requests however the connection cuts them into
  segments, calls the handler once for each, and writes one response per request, which a client reads as a complete
  response with status 200 and the body that the handler computed from method, target and body of that request,
  also where \<^verbatim>\<open>ReduceMemoryUsage\<close> makes the server give its buffers back between two requests.
  When the client closes the connection behind its last request, the server returns without an error.\<close>

theorem pipelined_requests_answered:
  assumes "quiet_server S" "svHandler S = body_handler f" "\<not> svStreamRequestBody S" "value_ok (envDate P)" "qs \<noteq> []"
    and "list_all (\<lambda>q. client_request S q \<and> length (answer f q) \<le> 2 ^ 46 \<and> length (sent_text q) \<le> brSize r) qs"
    and "br_live r" "pending r = wire qs" "brEnd r = EOF" "bw_live w" "bwBuf w = []" "svReduceMemoryUsage S \<longrightarrow> brBuf r = []"
  shows "\<exists>out ts. serveConn S E P (acquireCtx S r) w = Some out \<and> oErr out = None \<and> oResponseStr out = [] \<and>
           bwOut (oConn out) = bwOut w @ concat ts \<and> list_all2 (\<lambda>q t. reads_ok P t (answer f q)) qs ts"
proof -
  note R = acquireCtx_reader [of S r]
  have B: "idle_ctx (acquireCtx S r)" "svReduceMemoryUsage S \<and> True \<longrightarrow> brBuf (qReader (cxRequest (acquireCtx S r))) = []"
    using assms(7,12) by (simp_all add: R acquireCtx_idle)
  from serve_all [OF assms(1-4), of "acquireCtx S r", unfolded R, OF assms(6) B [unfolded R] assms(10,11,8), of E 1 False] assms(9) obtain c' w' ts post nr where
    A: "serve_loop S E P (acquireCtx S r) w 1 False True = serve_loop S E P c' w' (1 + length qs) post nr" "idle_ctx c'" "bwOut w' = bwOut w @ concat ts"
      "list_all2 (\<lambda>q t. reads_ok P t (answer f q)) qs ts" "pending (qReader (cxRequest c')) = []" "brEnd (qReader (cxRequest c')) = EOF"
      "svReduceMemoryUsage S \<and> nr \<longrightarrow> brBuf (qReader (cxRequest c')) = []"
    by metis
  from serve_end_of_input [OF A(2,5,6) _ A(7), of "1 + length qs" E P w' post] assms(5) obtain c'' where
    "serve_loop S E P (acquireCtx S r) w 1 False True = Some (leave S c'' w' [] (Some (SrvMsg MsgEOF)))" using A(1) by auto
  then show ?thesis using A(3,4) by (auto simp: serveConn_def serve_end_def leave_def Let_def)
qed

section \<open>A streamed body that is not read\<close>

lemma copy_fixed:
  assumes "qBodyStream q = Some (FromConn (RequestStream rs))" "fixed_stream n rs (qReader q) body rest" "rqContentLength (qHeader q) = n" "n \<noteq> -1"
    and "br_live (qReader q)" "0 < k"
  shows "\<exists>rs' r. copy_bytes Request_stream_Read k q acc =
             Some (q\<lparr>qBodyStream := Some (FromConn (RequestStream rs')), qReader := r\<rparr>, acc @ body, None) \<and> br_live r \<and> pending r = rest"
  using assms
proof (induction body arbitrary: q rs acc rule: length_induct)
  case (1 body)
  note step = fixed_step [where CL = rqContentLength and h = "qHeader q" and RT = RequestHeader_ReadTrailer, OF "1.prems"(2,3,4,5,6)]
  have rd: "Request_stream_Read q k = map_option (\<lambda>(h, s, r, b, e). (q\<lparr>qHeader := h, qBodyStream := Some (FromConn s), qReader := r\<rparr>, b, e))
      (map_option (\<lambda>(h, rs, x). (h, RequestStream rs, x)) (requestStream_Read rqContentLength RequestHeader_ReadTrailer (qHeader q) rs (qReader q) k))"
    using "1.prems"(1) by (simp add: Request_stream_Read_def)
  show ?case
  proof (cases "body = []")
    case True
    with step(2) rd "1.prems"(1,5) show ?thesis
      by (subst copy_bytes.simps) (auto intro!: exI [of _ rs] exI [of _ "qReader q"])
  next
    case False
    with step(1) obtain rs' r' b body' where
      A: "requestStream_Read rqContentLength RequestHeader_ReadTrailer (qHeader q) rs (qReader q) k = Some (qHeader q, rs', r', b, None)" "b \<noteq> []"
        "body = b @ body'" "br_live r'" "fixed_stream n rs' r' body' rest" by blast
    let ?q = "q\<lparr>qBodyStream := Some (FromConn (RequestStream rs')), qReader := r'\<rparr>"
    have "copy_bytes Request_stream_Read k q acc = copy_bytes Request_stream_Read k ?q (acc @ b)"
      using rd A(1) by (subst copy_bytes.simps) simp
    moreover have "length body' < length body" using A(2,3) by simp
    with "1.IH" [rule_format, of body' ?q rs' "acc @ b"] A "1.prems"(3,4,6) obtain rs2 r2 where
      "copy_bytes Request_stream_Read k ?q (acc @ b) = Some (?q\<lparr>qBodyStream := Some (FromConn (RequestStream rs2)), qReader := r2\<rparr>, (acc @ b) @ body', None)"
      "br_live r2" "pending r2 = rest" by auto
    ultimately show ?thesis using A(3) by auto
  qed
qed

text \<open>A body that does not fit into the buffer together with the bytes that are read ahead.\<close>

lemma build_long_stream:
  assumes r: "br_live r" "pending r = body @ p" and n: "8192 + brSize r < length body" "8192 < m"
  shows "\<exists>r'. build_stream eof r (int (length body)) m = Some (r', Some (RequestStream (acquireRequestStream (take 8192 body))), None) \<and>
           br_live r' \<and> pending r' = drop 8192 body @ p \<and> fixed_stream (int (length body)) (acquireRequestStream (take 8192 body)) r' body p"
proof -
  have a: "(0::int) < 8192" "nat 8192 \<le> length (pending r)" "int (length ([]::bytes)) + 8192 \<le> maxAlloc" using r(2) n(1) by (simp_all add: maxAlloc_def)
  from append_exact [OF r(1) a] r(2) n(1) obtain r' where
    r': "appendBodyFixedSize r [] 8192 = Some (r', take 8192 body, None)" "pending r' = drop 8192 body @ p" "br_live r'" by auto
  have "readBodyWithStreaming r (int (length body)) m = Some (r', take 8192 body, False, Some ErrBodyTooLarge)"
    using n r'(1) by (simp add: readBodyWithStreaming_def Let_def)
  moreover have "fixed_stream (int (length body)) (acquireRequestStream (take 8192 body)) r' body p"
    using n(1) r'(2) by (simp add: fixed_stream_def acquireRequestStream_def flip: append_assoc)
  ultimately show ?thesis using r' by (simp add: build_stream_def)
qed

text \<open>C14: With streamed request bodies, what happens to the part of a long body that the handler does not read depends
  on one setting. With \<^verbatim>\<open>DiscardUnReadRequestBodyStream\<close> the server skips it and goes on with the next request of the
  client. Without it, the server has taken 8192 bytes off the connection and reads everything behind them as its next
  request, so that the sender of a body chooses what the server serves next.\<close>

theorem unread_stream_body:
  assumes S: "quiet_server S" "svHandler S = body_handler f" "svStreamRequestBody S" and P: "value_ok (envDate P)" and E: "0 < envCopySize E"
    and q: "client_request S q" "8192 < body_limit S (sent_header q)"
    and b: "b = f (RequestHeader_Method (sent_header q)) (RequestHeader_RequestURI (sent_header q)) []" "length b \<le> 2 ^ 46"
    and c: "idle_ctx c" and nr: "svReduceMemoryUsage S \<and> nr \<longrightarrow> brBuf (qReader (cxRequest c)) = []" and w: "bw_live w" "bwBuf w = []"
    and r: "pending (qReader (cxRequest c)) = sent_text q @ sent_body q @ p" "length (sent_text q) \<le> brSize (qReader (cxRequest c))"
      "8192 + brSize (qReader (cxRequest c)) < length (sent_body q)"
    and rest: "rest = (if svDiscardUnReadRequestBodyStream S then p else drop 8192 (sent_body q) @ p)" "\<And>k. numLeadingCRorLF (take k rest) = 0"
  shows "\<exists>c' w' t post. serve_loop S E P c w num pst nr = serve_loop S E P c' w' (num + 1) post False \<and> idle_ctx c' \<and>
           bwOut w' = bwOut w @ t \<and> reads_ok P t b \<and> pending (qReader (cxRequest c')) = rest"
proof -
  let ?h = "sent_header q"
  have s: "sendable q" "RequestHeader_Method ?h \<noteq> bs ''HEAD''" using q(1) by (simp_all add: client_request_def)
  from serve_head_sent [OF S(1) q(1) c nr r(1,2), of E P w num pst] obtain c1 h r1 where
    H: "serve_head S E P c w num pst nr = Some (Inr (c1\<lparr>cxRequest := (cxRequest c1)\<lparr>qHeader := h, qReader := r1\<rparr>\<rparr>))" (is "_ = Some (Inr ?c1)")
      "pending r1 = sent_body q @ p" "br_live r1" "brSize r1 = brSize (qReader (cxRequest c))"
      "rqContentLength h = int (length (sent_body q))" "rqMethod h = RequestHeader_Method ?h" "rqRequestURI h = RequestHeader_RequestURI ?h"
      "\<not> rqConnectionClose h" "\<not> rqNoHTTP11 h" "\<not> rqDisableSpecialHeader h" "rqContentType h = printed_type ?h"
      "RequestHeader_peek h strExpect \<noteq> str100Continue" and c1: "idle_ctx c1" by blast
  let ?q = "cxRequest c1"
  have c': "idle_request ?q" using c1 by (simp add: idle_ctx_def)
  have C: "serve_continue S ?c1 w = Inr w" using H(12) by (simp add: serve_continue_def Request_MayContinue_def)
  have m: "8192 < body_limit S h" using q(2) S(1) by (simp add: body_limit_def quiet_server_def)
  from build_long_stream [OF H(3,2) _ m, of ErrUnexpectedReqBodyEOF] H(4) r(3) obtain r2 where
    B: "build_stream ErrUnexpectedReqBodyEOF r1 (int (length (sent_body q))) (body_limit S h) =
          Some (r2, Some (RequestStream (acquireRequestStream (take 8192 (sent_body q)))), None)" "br_live r2"
      "pending r2 = drop 8192 (sent_body q) @ p"
      "fixed_stream (int (length (sent_body q))) (acquireRequestStream (take 8192 (sent_body q))) r2 (sent_body q) p" by auto
  define q2 where "q2 = (Request_bodyBuffer (?q\<lparr>qHeader := h\<lparr>rqNoDefaultContentType := svNoDefaultContentType S\<rparr>, qReader := r1,
      qStreamBody := True, qDiscardUnReadBodyStream := svDiscardUnReadRequestBodyStream S, qMaxBodySize := body_limit S h,
      qMultipartFormBoundary := []\<rparr>))\<lparr>qBody := Some [], qReader := r2,
      qBodyStream := Some (FromConn (RequestStream (acquireRequestStream (take 8192 (sent_body q)))))\<rparr>"
  let ?q1 = "?q\<lparr>qReader := r1, qHeader := h\<lparr>rqNoDefaultContentType := svNoDefaultContentType S\<rparr>,
      qStreamBody := True, qDiscardUnReadBodyStream := svDiscardUnReadRequestBodyStream S, qMaxBodySize := body_limit S h\<rparr>"
  have f: "pre_parse_boundary ?q1 = []"
    using s(1) H(10,11) by (simp add: pre_parse_boundary_def RequestHeader_MultipartFormBoundary_def RequestHeader_ContentType_def sendable_def)
  have "0 < int (length (sent_body q))" using r(3) by (cases "sent_body q") simp_all
  then have "Request_ReadBodyStream E ?q1 (body_limit S h) True = Some (q2, None)"
    using f B(1) H(5) by (simp add: Request_ReadBodyStream_def q2_def Request_bodyBuffer_def Let_def)
  then have D: "serve_body S E ?c1 w = Some (Inr (c1\<lparr>cxRequest := q2\<rparr>))"
    using S by (simp add: serve_body_def quiet_server_def Let_def)
  have q2: "qHeader q2 = h\<lparr>rqNoDefaultContentType := svNoDefaultContentType S\<rparr>" "Request_bodyBytes q2 = []" "qReader q2 = r2"
    "qBodyStream q2 = Some (FromConn (RequestStream (acquireRequestStream (take 8192 (sent_body q)))))"
    "qDiscardUnReadBodyStream q2 = svDiscardUnReadRequestBodyStream S"
    using c' by (auto simp: q2_def Request_bodyBuffer_def Request_bodyBytes_def idle_request_def split: option.splits)
  have "\<exists>q3. finish_request E q2 = Some (q3, None) \<and> qHeader q3 = qHeader q2 \<and> qBodyStream q3 = None \<and> br_live (qReader q3) \<and> pending (qReader q3) = rest"
  proof (cases "svDiscardUnReadRequestBodyStream S")
    case True
    from copy_fixed [OF q2(4), of "int (length (sent_body q))" "sent_body q" p "envCopySize E" "[]"] B q2 H(5) E obtain rs' r3 where
      "copy_bytes Request_stream_Read (envCopySize E) q2 [] =
         Some (q2\<lparr>qBodyStream := Some (FromConn (RequestStream rs')), qReader := r3\<rparr>, sent_body q, None)" "br_live r3" "pending r3 = p" by auto
    then show ?thesis using True q2 rest(1) by (simp add: finish_request_def needFinish_def Request_closeBodyStream_def)
  next
    case False
    then show ?thesis using q2 rest(1) B by (simp add: finish_request_def needFinish_def Request_closeBodyStream_def)
  qed
  then obtain q3 where q3: "finish_request E q2 = Some (q3, None)" "qHeader q3 = qHeader q2" "qBodyStream q3 = None" "br_live (qReader q3)"
    "pending (qReader q3) = rest" by blast
  have l: "RequestHeader_Method (qHeader q2) = RequestHeader_Method ?h" "RequestHeader_RequestURI (qHeader q2) = RequestHeader_RequestURI ?h"
    using line_of_header [OF s(1), of "qHeader q2"] q2(1) H(6,7) by simp_all
  have u: "\<not> releases_reader S (c1\<lparr>cxRequest := q2\<rparr>)" using S(3) by (simp add: releases_reader_def)
  from serve_tail [OF S(1,2) P H(1) C D c1 w, of b q3] l s(2) H(8,9) q2 b q3 rest(2) u show ?thesis by auto
qed

section \<open>Examples\<close>

definition sample_server :: "bool \<Rightarrow> bool \<Rightarrow> bool \<Rightarrow> (nat, nat) Server" where
  "sample_server stream discard reduce =
     \<lparr>svHandler = body_handler (\<lambda>m u b. m @ u @ b), svHeaderReceived = None, svContinueHandler = None, svCloser = (\<lambda>_. False), svName = [],
      svMaxRequestBodySize = 0, svStop = (\<lambda>_. False), svByteReady = even, svFormTooLarge = 0, svNoDefaultServerHeader = False, svNoDefaultDate = False,
      svNoDefaultContentType = False, svGetOnly = False, svReduceMemoryUsage = reduce, svDisableKeepalive = False, svCloseOnShutdown = False,
      svStreamRequestBody = stream, svDiscardUnReadRequestBodyStream = discard, svDisablePreParseMultipartForm = False,
      svDisableHeaderNamesNormalizing = False, svKeepHijackedConns = False\<rparr>"

definition sample_writer :: bwriter where
  "sample_writer = \<lparr>bwBuf = [], bwSize = 16, bwOut = [], bwRoom = None, bwErr = None\<rparr>"

lemma sample_server_quiet:
  "quiet_server (sample_server stream discard reduce)" "svHandler (sample_server stream discard reduce) = body_handler (\<lambda>m u b. m @ u @ b)"
  "svStreamRequestBody (sample_server stream discard reduce) = stream" "svDiscardUnReadRequestBodyStream (sample_server stream discard reduce) = discard"
  "body_limit (sample_server stream discard reduce) h = 4194304" "value_ok (envDate sample_resp_env)" "bw_live sample_writer" "bwBuf sample_writer = []"
  "bwOut sample_writer = []" "svReduceMemoryUsage (sample_server stream discard reduce) = reduce"
  by (simp_all add: sample_server_def quiet_server_def getServerName_def defaultServerName_def body_limit_def DefaultMaxRequestBodySize_def
      sample_resp_env_def sample_writer_def bw_live_def value_ok_def line_value_def validHeaderValueByte_def validHeaderValueByteTable_def)

lemma sample_lines:
  "RequestHeader_Method (sent_header sample_get) = bs ''GET''" "RequestHeader_RequestURI (sent_header sample_get) = bs ''/''"
  "RequestHeader_Method (sent_header sample_post) = bs ''POST''" "RequestHeader_RequestURI (sent_header sample_post) = bs ''/''"
  "\<not> rqConnectionClose (qHeader sample_get)" "\<not> rqConnectionClose (qHeader sample_post)"
  unfolding sent_header_def sample_bodies
  by (simp_all add: sample_get_def sample_post_def sample_request_def emptyRequest_def emptyRequestHeader_def Request_bodyBytes_def
      RequestHeader_Method_def RequestHeader_RequestURI_def RequestHeader_ignoreBody_def RequestHeader_IsMethod_def Let_def)

lemma sample_texts: "sent_text sample_get = RequestHeader_AppendBytes sample_request []"
  by (simp add: sent_text_def sample_get_header)

theorem pipelined_requests_answered_witness:
  "\<forall>(E :: nat msg_env) reduce. \<exists>out t1 t2. serveConn (sample_server False False reduce) E sample_resp_env
       (acquireCtx (sample_server False False reduce) (new_reader 64
         [bs ''POST / HTTP/1.1'' @ [rChar, nChar] @ bs ''Host: h'' @ [rChar, nChar] @ bs ''Content-Type: t'' @ [rChar, nChar] @
            bs ''Content-Length: 3'' @ [rChar, nChar, rChar, nChar] @ bs ''xyzGET'',
          bs '' / HTTP/1.1'' @ [rChar, nChar] @ bs ''Host: h'' @ [rChar, nChar] @ bs ''Cookie: a=1'' @ [rChar, nChar, rChar, nChar]])) sample_writer = Some out \<and>
     oErr out = None \<and> bwOut (oConn out) = t1 @ t2 \<and> reads_ok sample_resp_env t1 (bs ''POST/xyz'') \<and> reads_ok sample_resp_env t2 (bs ''GET/'')"
proof (intro allI)
  fix E :: "nat msg_env" and reduce :: bool
  let ?r = "new_reader 64
         [bs ''POST / HTTP/1.1'' @ [rChar, nChar] @ bs ''Host: h'' @ [rChar, nChar] @ bs ''Content-Type: t'' @ [rChar, nChar] @
            bs ''Content-Length: 3'' @ [rChar, nChar, rChar, nChar] @ bs ''xyzGET'',
          bs '' / HTTP/1.1'' @ [rChar, nChar] @ bs ''Host: h'' @ [rChar, nChar] @ bs ''Cookie: a=1'' @ [rChar, nChar, rChar, nChar]]"
  let ?S = "sample_server False False reduce" and ?f = "\<lambda>m u b. m @ u @ b" and ?qs = "[sample_post, sample_get]"
  note Q = sample_server_quiet
  have r: "br_live ?r" "pending ?r = wire ?qs" "brEnd ?r = EOF" "brSize ?r = 64" "svReduceMemoryUsage ?S \<longrightarrow> brBuf ?r = []"
    by (simp_all add: new_reader_def br_live_def br_ok_def no_empty_def pending_def wire_def sample_texts sample_request_text sample_post_text sample_bodies)
  have a: "answer ?f sample_post = bs ''POST/xyz''" "answer ?f sample_get = bs ''GET/''" by (simp_all add: answer_def sample_lines sample_bodies)
  have q: "list_all (\<lambda>q. client_request ?S q \<and> length (answer ?f q) \<le> 2 ^ 46 \<and> length (sent_text q) \<le> brSize ?r) ?qs"
    by (simp add: client_request_def samples_sendable sample_lines sample_bodies Q(5) a sample_texts sample_request_text sample_post_text new_reader_def)
  have ne: "?qs \<noteq> []" "\<not> svStreamRequestBody ?S" by (simp_all add: Q(3))
  obtain out ts where A: "serveConn ?S E sample_resp_env (acquireCtx ?S ?r) sample_writer = Some out" "oErr out = None"
      "bwOut (oConn out) = bwOut sample_writer @ concat ts" "list_all2 (\<lambda>q t. reads_ok sample_resp_env t (answer ?f q)) ?qs ts"
    using pipelined_requests_answered [OF Q(1) Q(2) ne(2) Q(6) ne(1) q r(1,2,3) Q(7,8) r(5), of E] by blast
  obtain t1 t2 where T: "ts = [t1, t2]" "reads_ok sample_resp_env t1 (answer ?f sample_post)" "reads_ok sample_resp_env t2 (answer ?f sample_get)"
    using A(4) by (auto simp only: list_all2_Cons1 list_all2_Nil)
  have "bwOut (oConn out) = t1 @ t2" using A(3) T(1) Q(9) by simp
  with A(1,2) T(2,3) [unfolded a] show
    "\<exists>out t1 t2. serveConn ?S E sample_resp_env (acquireCtx ?S ?r) sample_writer = Some out \<and> oErr out = None \<and> bwOut (oConn out) = t1 @ t2 \<and>
       reads_ok sample_resp_env t1 (bs ''POST/xyz'') \<and> reads_ok sample_resp_env t2 (bs ''GET/'')"
    by blast
qed

text \<open>A request whose body does not fit into the buffer of the server.\<close>

definition long_post :: "nat Request" where
  "long_post = sample_post\<lparr>qBody := Some (replicate 8400 0x61)\<rparr>"

lemma long_post_facts:
  "sent_body long_post = replicate 8400 0x61" "sendable long_post" "client_request (sample_server stream discard reduce) long_post"
  "length (sent_text long_post) \<le> 100" "RequestHeader_Method (sent_header long_post) = bs ''POST''" "RequestHeader_RequestURI (sent_header long_post) = bs ''/''"
proof -
  have ne: "replicate 8400 (0x61::byte) \<noteq> []" by simp
  show b: "sent_body long_post = replicate 8400 0x61"
    using ne by (simp add: sent_body_def Request_bodyBytes_def long_post_def sample_post_def emptyRequest_def del: replicate.simps)
  have h: "sent_header long_post = (qHeader sample_post)\<lparr>rqContentLength := 8400, rqContentLengthBytes := dec_digits 8400,
      rqH := delAllArgs (rqH (qHeader sample_post)) strTransferEncoding\<rparr>"
    unfolding sent_header_def b using ne by (simp add: Request_bodyBytes_def long_post_def sample_post_def emptyRequest_def Let_def del: dec_digits.simps)
  show m: "RequestHeader_Method (sent_header long_post) = bs ''POST''" "RequestHeader_RequestURI (sent_header long_post) = bs ''/''"
    unfolding h by (simp_all add: sample_post_def emptyRequest_def emptyRequestHeader_def RequestHeader_Method_def RequestHeader_RequestURI_def)
  have p: "printable (qHeader long_post)" "peek_bytes (rqH (qHeader long_post)) strExpect = []" "qHeader long_post = qHeader sample_post"
    using samples_sendable(2)
    by (simp_all add: sendable_def long_post_def) (simp add: sample_post_def emptyRequest_def emptyRequestHeader_def peek_bytes_def)
  show s: "sendable long_post"
    unfolding sendable_def b h printed_type_def using p ne
    by (simp add: long_post_def) (simp add: sample_post_def emptyRequest_def emptyRequestHeader_def str100Continue_def multipart_boundary_def maxAlloc_def strMultipartFormData_def)
  show "client_request (sample_server stream discard reduce) long_post"
    using s m by (simp add: client_request_def b sample_server_quiet) (simp add: p(3) sample_lines)
  have t: "rqTrailer (sent_header long_post) = emptyArgs" unfolding h by (simp add: sample_post_def emptyRequest_def emptyRequestHeader_def)
  show "length (sent_text long_post) \<le> 100"
    unfolding sent_text_def h
    by (simp add: AppendBytes_eq sample_post_def emptyRequest_def emptyRequestHeader_def request_lines_def first_line_def opt_line_def printed_type_def
      RequestHeader_Method_def RequestHeader_RequestURI_def RequestHeader_Protocol_def RequestHeader_ignoreBody_def RequestHeader_IsMethod_def
      cookie_line_def hdr_names dec_digits.simps [of 8400] dec_digits.simps [of 840] dec_digits.simps [of 84] dec_digits.simps [of 8])
qed

definition sample_msg_env :: "nat msg_env" where
  "sample_msg_env =
     \<lparr>envReadForm = (\<lambda>r b n. (r, None, Some 0)), envMarshalForm = (\<lambda>_ _. Inl 0), envCopySize = 16, envChunkSize = 16, envBodyCap = 16,
      envErrorText = (\<lambda>_. []), requestBodyPoolSizeLimit = 0\<rparr>"

theorem unread_stream_body_witness:
  "\<exists>c' w' t post. serve_loop (sample_server True False True) sample_msg_env sample_resp_env
       (acquireCtx (sample_server True False True) (new_reader 100 [sent_text long_post @ replicate 8400 0x61])) sample_writer 1 False True =
       serve_loop (sample_server True False True) sample_msg_env sample_resp_env c' w' 2 post False \<and>
     bwOut w' = t \<and> reads_ok sample_resp_env t (bs ''POST/'') \<and> pending (qReader (cxRequest c')) = replicate 208 0x61"
proof -
  let ?r = "new_reader 100 [sent_text long_post @ replicate 8400 0x61]" and ?S = "sample_server True False True" and ?f = "\<lambda>m u b. m @ u @ b"
  let ?c = "acquireCtx ?S ?r :: (nat, nat) RequestCtx"
  note Q = sample_server_quiet
  have r: "br_live ?r" by (simp add: new_reader_def br_live_def br_ok_def no_empty_def)
  have c: "idle_ctx ?c" "pending (qReader (cxRequest ?c)) = sent_text long_post @ sent_body long_post @ []" "brSize (qReader (cxRequest ?c)) = 100"
    "svReduceMemoryUsage ?S \<and> True \<longrightarrow> brBuf (qReader (cxRequest ?c)) = []"
    using acquireCtx_idle [OF r] by (simp_all add: acquireCtx_reader new_reader_def pending_def long_post_facts(1))
  have l: "length (sent_text long_post) \<le> brSize (qReader (cxRequest ?c))" "8192 + brSize (qReader (cxRequest ?c)) < length (sent_body long_post)"
    unfolding c(3) using long_post_facts(4) by (simp_all add: long_post_facts(1))
  have d: "replicate 208 0x61 = (if svDiscardUnReadRequestBodyStream ?S then [] else drop 8192 (sent_body long_post) @ [])"
    by (simp add: Q(4) long_post_facts(1))
  have n: "numLeadingCRorLF (take k (replicate 208 0x61)) = 0" for k by (simp add: numLeadingCRorLF_def)
  have b: "bs ''POST/'' = ?f (RequestHeader_Method (sent_header long_post)) (RequestHeader_RequestURI (sent_header long_post)) []"
    "length (bs ''POST/'') \<le> 2 ^ 46" by (simp_all add: long_post_facts(5,6))
  have e: "0 < envCopySize sample_msg_env" "8192 < body_limit ?S (sent_header long_post)" "svStreamRequestBody ?S"
    by (simp_all add: sample_msg_env_def Q(3,5))
  from unread_stream_body [OF Q(1) Q(2) e(3) Q(6) e(1) long_post_facts(3) e(2) b c(1,4) Q(7,8) c(2) l d n, of 1 False] obtain c' w' t post where
    A: "serve_loop ?S sample_msg_env sample_resp_env ?c sample_writer 1 False True = serve_loop ?S sample_msg_env sample_resp_env c' w' (1 + 1) post False"
      "bwOut w' = bwOut sample_writer @ t" "reads_ok sample_resp_env t (bs ''POST/'')" "pending (qReader (cxRequest c')) = replicate 208 0x61" by blast
  have "bwOut w' = t" using A(2) Q(9) by simp
  with A(1,3,4) show ?thesis unfolding one_add_one by blast
qed

section \<open>Errors\<close>

text \<open>C38: A client that connects and closes the connection without sending anything gets a response with status 400
  and makes the server report an error, unless the server has \<^verbatim>\<open>ReduceMemoryUsage\<close>: without that setting the loop waits
  for the first byte of a request only behind another request, and reading a header from a closed connection gives
  \<^verbatim>\<open>ErrUnexpectedHeaderEOF\<close>, although the documentation of \<^verbatim>\<open>readLoop\<close> promises \<^verbatim>\<open>io.EOF\<close> there, which
  \<^verbatim>\<open>serveConn\<close> would not report. With the setting, \<^verbatim>\<open>acquireByteReader\<close> meets the end of the connection first, and the
  server writes nothing and reports no error. Handler, hooks and the other settings do not matter.\<close>

theorem silent_client_answer:
  assumes "br_live r" "pending r = []" "brEnd r = EOF" "bw_live w" "bwBuf w = []"
  shows "\<exists>out. serveConn S E P (acquireCtx S r) w = Some out \<and>
           (if svReduceMemoryUsage S then oErr out = None \<and> oConn out = w
            else oErr out = Some (SrvMsg (MsgHeader ErrUnexpectedHeaderEOF)) \<and> bwOut (oConn out) = bwOut w @ errHTTPResponseStr 400 [] [])"
proof (cases "svReduceMemoryUsage S")
  case True
  have "brBuf r = []" using assms(2) by (simp add: pending_def)
  with True serve_end_of_input [of "acquireCtx S r" 1 S True E P w False] assms obtain c' where
    "serve_loop S E P (acquireCtx S r) w 1 False True = Some (leave S c' w [] (Some (SrvMsg MsgEOF)))"
    by (auto simp: acquireCtx_reader acquireCtx_idle)
  then show ?thesis using True by (simp add: serveConn_def serve_end_def leave_def Let_def)
next
  case False
  from peek_at_end [OF assms(1,2)] assms(3) obtain r' where r': "br_Peek r 1 = (r', [], Some EOF)" by auto
  have "RequestHeader_readLoop h r True False True = Some (h, r', Some ErrUnexpectedHeaderEOF)" for h
    using r' unfolding RequestHeader_readLoop_def
    by (subst RequestHeader_read_loop.simps) (simp add: RequestHeader_tryRead_def header_eof_def)
  then have "\<exists>c'. serve_loop S E P (acquireCtx S r) w 1 False True =
      Some (leave S c' w (errHTTPResponseStr 400 [] []) (Some (SrvMsg (MsgHeader ErrUnexpectedHeaderEOF))))"
    using False by (subst serve_loop.simps)
      (auto simp: serve_head_def serve_read_header_def serve_first_byte_def serve_disable_normalizing_def acquireCtx_def emptyRequest_def
        header_error_response_def header_error_status_def Let_def)
  then obtain c' where L: "serve_loop S E P (acquireCtx S r) w 1 False True =
      Some (leave S c' w (errHTTPResponseStr 400 [] []) (Some (SrvMsg (MsgHeader ErrUnexpectedHeaderEOF))))" by blast
  have "errHTTPResponseStr 400 [] [] \<noteq> []" by (simp add: errHTTPResponseStr_def)
  then have "\<exists>out. serveConn S E P (acquireCtx S r) w = Some out \<and>
      oErr out = Some (SrvMsg (MsgHeader ErrUnexpectedHeaderEOF)) \<and> bwOut (oConn out) = bwOut w @ errHTTPResponseStr 400 [] []"
    using assms(4) unfolding serveConn_def L option.map
    by (intro exI conjI refl; simp add: serve_end_def leave_def conn_write_def bw_live_def; simp add: Let_def)
  with False show ?thesis by simp
qed

theorem silent_client_answer_witness:
  "\<exists>out1 out2.
     serveConn (sample_server False False False) sample_msg_env sample_resp_env (acquireCtx (sample_server False False False) (new_reader 16 [])) sample_writer = Some out1 \<and>
     oErr out1 = Some (SrvMsg (MsgHeader ErrUnexpectedHeaderEOF)) \<and> bwOut (oConn out1) = errHTTPResponseStr 400 [] [] \<and>
     serveConn (sample_server False False True) sample_msg_env sample_resp_env (acquireCtx (sample_server False False True) (new_reader 16 [])) sample_writer = Some out2 \<and>
     oErr out2 = None \<and> bwOut (oConn out2) = []"
proof -
  have r: "br_live (new_reader 16 [])" "pending (new_reader 16 []) = []" "brEnd (new_reader 16 []) = EOF"
    by (simp_all add: new_reader_def br_live_def br_ok_def no_empty_def pending_def)
  note A = silent_client_answer [OF r sample_server_quiet(7,8), where E = sample_msg_env and P = sample_resp_env]
  show ?thesis
    using A [of "sample_server False False False"] A [of "sample_server False False True"] by (auto simp: sample_server_quiet(9,10))
qed

text \<open>The status of a rejected header is found by searching the message of the error, which repeats what the client
  sent: a header value with a forbidden byte that contains the phrase is answered like an unsupported version.\<close>

lemma header_value_chooses_status:
  "header_error_status (InvalidHeaderValue (v @ bs ''unsupported HTTP version'' @ u)) = 505"
proof -
  have "sublist (bs ''unsupported HTTP version'') ((bs ''invalid header value:'' @ v) @ bs ''unsupported HTTP version'' @ u)"
    unfolding sublist_def by blast
  then have "contains_bytes (bs ''invalid header value:'' @ v @ bs ''unsupported HTTP version'' @ u) (bs ''unsupported HTTP version'')"
    unfolding contains_bytes_iff append_assoc .
  then show ?thesis unfolding header_error_status_def by (simp del: append.simps char.simps)
qed

text \<open>A handler that takes over its own connection changes a setting of the server: from then on no connection with a
  hijack handler is closed behind that handler.\<close>

lemma hijack_conn_changes_server:
  assumes "svHandler S = ctx_HijackConn" "\<not> needFinish (cxRequest c)"
  shows "\<exists>out. serve_handler S E c w num = Some (Inl out) \<and> oErr out = Some ErrHijacked \<and> \<not> hijack_closes (oServer out)"
  using assms by (simp add: serve_handler_def ctx_HijackConn_def finish_request_def leave_def hijack_closes_def Let_def)

text \<open>Only codes outside 301 to 308 are replaced by 302.\<close>

lemma redirect_codes: "getRedirectStatusCode 304 = 304" "getRedirectStatusCode 306 = 306" "getRedirectStatusCode 200 = 302"
  by (simp_all add: getRedirectStatusCode_def)

end
