(* ===== verification/WorkerPool.thy ===== *)
theory WorkerPool
  imports "HOL-Library.Multiset" Prelude
begin

text \<open>
  \<^verbatim>\<open>workerpool.go\<close>: the pool of goroutines that serve the connections of a server. The sections under the lock and
  the stations of a worker are functions on the state of the pool; every interleaving of acceptor, workers, cleaner
  and \<^verbatim>\<open>Stop\<close> is a sequence of steps. A message to a worker is in flight from the moment its sender is bound to send
  it until the worker receives it, so the model holds for buffered and for blocking channels. Times are nanoseconds.
\<close>

section \<open>The pool\<close>

text \<open>Where a worker is: at the receive of its channel, in \<^verbatim>\<open>WorkerFunc\<close>, in front of \<^verbatim>\<open>release\<close>, or behind its
  loop. Channels and workers share their numbers; a channel without a worker is in the pool of channels or new.\<close>

datatype 'c worker = Waiting | Serving 'c | Releasing | Leaving

record 'c workerPool =
  wpMaxWorkersCount :: nat
  wpMaxIdleWorkerDuration :: int
  wpMustStop :: bool
  wpStarted :: bool
  wpWorkersCount :: int
  wpReady :: "nat list"
  wpLastUseTime :: "nat \<Rightarrow> int"
  wpWorkers :: "nat \<Rightarrow> 'c worker option"
  wpMessages :: "(nat \<times> 'c option) list"
  wpAccepted :: "'c list"
  wpServed :: "'c list"

definition new_pool :: "nat \<Rightarrow> int \<Rightarrow> 'c workerPool" where
  "new_pool m d =
     \<lparr>wpMaxWorkersCount = m, wpMaxIdleWorkerDuration = d, wpMustStop = False, wpStarted = False, wpWorkersCount = 0, wpReady = [],
      wpLastUseTime = (\<lambda>_. 0), wpWorkers = (\<lambda>_. None), wpMessages = [], wpAccepted = [], wpServed = []\<rparr>"

definition getMaxIdleWorkerDuration :: "'c workerPool \<Rightarrow> int" where
  "getMaxIdleWorkerDuration p = (if wpMaxIdleWorkerDuration p \<le> 0 then 10 * 1000000000 else wpMaxIdleWorkerDuration p)"

section \<open>The number of workers to stop\<close>

definition DefaultCleanThresholdFunc :: "int \<Rightarrow> int \<Rightarrow> int \<Rightarrow> int \<Rightarrow> int \<Rightarrow> nat \<Rightarrow> nat \<Rightarrow> int \<Rightarrow> nat" where
  "DefaultCleanThresholdFunc now t1 t2 t3 t4 readyLen maxWorkersCount maxIdleWorkerDuration =
     (if readyLen \<le> drop_bit 10 2 then 0
      else if readyLen \<le> drop_bit 2 maxWorkersCount
      then (if now - t3 > maxIdleWorkerDuration then drop_bit 2 readyLen
            else if now - t4 > maxIdleWorkerDuration then drop_bit 1 readyLen else 0)
      else if readyLen \<le> drop_bit 1 maxWorkersCount
      then (if now - t2 > maxIdleWorkerDuration then drop_bit 2 readyLen
            else if now - t3 > maxIdleWorkerDuration then drop_bit 1 readyLen else 0)
      else if readyLen \<le> maxWorkersCount
      then (if now - t3 > maxIdleWorkerDuration then drop_bit 1 readyLen else 0)
      else 0)"

definition clean_num :: "'c workerPool \<Rightarrow> int \<Rightarrow> nat" where
  "clean_num p now =
     (let n = length (wpReady p); t = (\<lambda>i. wpLastUseTime p (wpReady p ! i))
      in if n > 0
         then DefaultCleanThresholdFunc now (t (drop_bit 3 n)) (t (drop_bit 2 n)) (t (drop_bit 1 n)) (t (n * 3 div 4)) n
                (wpMaxWorkersCount p) (wpMaxIdleWorkerDuration p)
         else 0)"

section \<open>The operations\<close>

definition pool_send :: "nat \<Rightarrow> 'c option \<Rightarrow> 'c workerPool \<Rightarrow> 'c workerPool" where
  "pool_send ch m p = p\<lparr>wpMessages := wpMessages p @ [(ch, m)]\<rparr>"

definition pool_Start :: "'c workerPool \<Rightarrow> 'c workerPool" where
  "pool_Start p = p\<lparr>wpStarted := True\<rparr>"

definition pool_Stop :: "'c workerPool \<Rightarrow> 'c workerPool" where
  "pool_Stop p =
     (if \<not> wpStarted p then p
      else (fold (\<lambda>ch. pool_send ch None) (wpReady p) p)\<lparr>wpStarted := False, wpReady := [], wpMustStop := True\<rparr>)"

text \<open>\<^verbatim>\<open>clean\<close> panics (\<open>None\<close>) when it is told to stop more workers than are ready.\<close>

definition pool_clean :: "nat \<Rightarrow> 'c workerPool \<Rightarrow> 'c workerPool option" where
  "pool_clean cleanNum p =
     (if cleanNum > length (wpReady p) then None
      else Some ((fold (\<lambda>ch. pool_send ch None) (take cleanNum (wpReady p)) p)\<lparr>wpReady := drop cleanNum (wpReady p)\<rparr>))"

text \<open>\<^verbatim>\<open>getCh\<close> takes the channel of the worker that became ready last, or \<open>fresh\<close>, a channel from the pool of channels,
  for a new worker; \<open>None\<close> when there are too many workers.\<close>

definition pool_getCh :: "nat \<Rightarrow> 'c workerPool \<Rightarrow> 'c workerPool \<times> nat option" where
  "pool_getCh fresh p =
     (if wpReady p = []
      then (if wpWorkersCount p < int (wpMaxWorkersCount p)
            then (p\<lparr>wpWorkersCount := wpWorkersCount p + 1, wpWorkers := (wpWorkers p)(fresh \<mapsto> Waiting)\<rparr>, Some fresh)
            else (p, None))
      else (p\<lparr>wpReady := butlast (wpReady p)\<rparr>, Some (last (wpReady p))))"

definition pool_Serve :: "nat \<Rightarrow> 'c \<Rightarrow> 'c workerPool \<Rightarrow> 'c workerPool \<times> bool" where
  "pool_Serve fresh c p =
     (case pool_getCh fresh p of
        (p, None) \<Rightarrow> (p, False)
      | (p, Some ch) \<Rightarrow> ((pool_send ch (Some c) p)\<lparr>wpAccepted := wpAccepted p @ [c]\<rparr>, True))"

definition pool_release :: "nat \<Rightarrow> int \<Rightarrow> 'c workerPool \<Rightarrow> 'c workerPool \<times> bool" where
  "pool_release ch now p =
     (let p = p\<lparr>wpLastUseTime := (wpLastUseTime p)(ch := now)\<rparr>
      in if wpMustStop p then (p, False) else (p\<lparr>wpReady := wpReady p @ [ch]\<rparr>, True))"

text \<open>The stations of \<^verbatim>\<open>workerFunc\<close>.\<close>

definition worker_receive :: "nat \<Rightarrow> 'c option \<Rightarrow> 'c workerPool \<Rightarrow> 'c workerPool" where
  "worker_receive ch m p =
     p\<lparr>wpMessages := remove1 (ch, m) (wpMessages p),
       wpWorkers := (wpWorkers p)(ch \<mapsto> (case m of None \<Rightarrow> Leaving | Some c \<Rightarrow> Serving c))\<rparr>"

definition worker_served :: "nat \<Rightarrow> 'c \<Rightarrow> 'c workerPool \<Rightarrow> 'c workerPool" where
  "worker_served ch c p = p\<lparr>wpWorkers := (wpWorkers p)(ch \<mapsto> Releasing), wpServed := wpServed p @ [c]\<rparr>"

definition worker_release :: "nat \<Rightarrow> int \<Rightarrow> 'c workerPool \<Rightarrow> 'c workerPool" where
  "worker_release ch now p =
     (case pool_release ch now p of (p, ok) \<Rightarrow> p\<lparr>wpWorkers := (wpWorkers p)(ch \<mapsto> (if ok then Waiting else Leaving))\<rparr>)"

definition worker_exit :: "nat \<Rightarrow> 'c workerPool \<Rightarrow> 'c workerPool" where
  "worker_exit ch p = p\<lparr>wpWorkersCount := wpWorkersCount p - 1, wpWorkers := (wpWorkers p)(ch := None)\<rparr>"

section \<open>Interleavings\<close>

inductive worker_step :: "'c workerPool \<Rightarrow> 'c workerPool \<Rightarrow> bool" where
  receive: "(ch, m) \<in> set (wpMessages p) \<Longrightarrow> wpWorkers p ch = Some Waiting \<Longrightarrow> worker_step p (worker_receive ch m p)"
| served: "wpWorkers p ch = Some (Serving c) \<Longrightarrow> worker_step p (worker_served ch c p)"
| release: "wpWorkers p ch = Some Releasing \<Longrightarrow> worker_step p (worker_release ch now p)"
| exit: "wpWorkers p ch = Some Leaving \<Longrightarrow> worker_step p (worker_exit ch p)"

inductive pool_step :: "'c workerPool \<Rightarrow> 'c workerPool \<Rightarrow> bool" where
  worker: "worker_step p p' \<Longrightarrow> pool_step p p'"
| start: "pool_step p (pool_Start p)"
| serve: "wpWorkers p fresh = None \<Longrightarrow> pool_step p (fst (pool_Serve fresh c p))"
| clean: "pool_clean n p = Some p' \<Longrightarrow> pool_step p p'"
| stop: "pool_step p (pool_Stop p)"

inductive_cases worker_stepE: "worker_step p p'"
inductive_cases pool_stepE: "pool_step p p'"

section \<open>The invariant\<close>

definition active :: "'c workerPool \<Rightarrow> nat set" where
  "active p = {ch. wpWorkers p ch \<noteq> None}"

fun in_service :: "'c worker option \<Rightarrow> 'c multiset" where
  "in_service (Some (Serving c)) = {#c#}"
| "in_service _ = {#}"

definition being_served :: "'c workerPool \<Rightarrow> 'c multiset" where
  "being_served p = (\<Sum>ch \<in> active p. in_service (wpWorkers p ch))"

definition waiting_conns :: "'c workerPool \<Rightarrow> 'c multiset" where
  "waiting_conns p = mset (List.map_filter snd (wpMessages p))"

definition pool_inv :: "'c workerPool \<Rightarrow> bool" where
  "pool_inv p \<longleftrightarrow>
     finite (active p) \<and> wpWorkersCount p = int (card (active p)) \<and> card (active p) \<le> wpMaxWorkersCount p \<and>
     distinct (wpReady p @ map fst (wpMessages p)) \<and>
     {ch. wpWorkers p ch = Some Waiting} = set (wpReady p) \<union> fst ` set (wpMessages p) \<and>
     (wpMustStop p \<longrightarrow> wpReady p = []) \<and>
     mset (wpAccepted p) = mset (wpServed p) + waiting_conns p + being_served p"

text \<open>A sum over the workers changes with one worker only.\<close>

lemma worker_sum_update:
  fixes f :: "'c worker option \<Rightarrow> 'b::comm_monoid_add"
  assumes "finite (active p)" "f None = 0"
  shows "(\<Sum>x \<in> {x. ((wpWorkers p)(ch := v)) x \<noteq> None}. f (((wpWorkers p)(ch := v)) x)) + f (wpWorkers p ch) =
           (\<Sum>x \<in> active p. f (wpWorkers p x)) + f v"
proof -
  let ?f = "(wpWorkers p)(ch := v)" and ?A = "insert ch (active p)"
  have A: "finite ?A" using assms by simp
  have "(\<Sum>x \<in> {x. ?f x \<noteq> None}. f (?f x)) = (\<Sum>x \<in> ?A. f (?f x))"
    by (rule sum.mono_neutral_left [OF A]) (auto simp: active_def assms(2) split: if_splits)
  moreover have "(\<Sum>x \<in> ?A. f (?f x)) = f v + (\<Sum>x \<in> ?A - {ch}. f (?f x))"
    using sum.remove [OF A, of ch "\<lambda>x. f (?f x)"] by simp
  moreover have "(\<Sum>x \<in> active p. f (wpWorkers p x)) = (\<Sum>x \<in> ?A. f (wpWorkers p x))"
    by (rule sum.mono_neutral_left [OF A]) (auto simp: active_def assms(2))
  moreover have "(\<Sum>x \<in> ?A. f (wpWorkers p x)) = f (wpWorkers p ch) + (\<Sum>x \<in> ?A - {ch}. f (wpWorkers p x))"
    using sum.remove [OF A, of ch "\<lambda>x. f (wpWorkers p x)"] by simp
  moreover have "(\<Sum>x \<in> ?A - {ch}. f (?f x)) = (\<Sum>x \<in> ?A - {ch}. f (wpWorkers p x))" by (rule sum.cong) auto
  ultimately show ?thesis by (simp add: ac_simps)
qed

lemma being_served_update:
  assumes "finite (active p)"
  shows "(\<Sum>x \<in> {x. ((wpWorkers p)(ch := v)) x \<noteq> None}. in_service (((wpWorkers p)(ch := v)) x)) + in_service (wpWorkers p ch) =
           being_served p + in_service v"
  unfolding being_served_def by (rule worker_sum_update [OF assms]) simp

lemma fold_send: "fold (\<lambda>ch. pool_send ch None) chs p = p\<lparr>wpMessages := wpMessages p @ map (\<lambda>ch. (ch, None)) chs\<rparr>"
  by (induction chs arbitrary: p) (simp_all add: pool_send_def)

lemma map_filter_nil: "List.map_filter snd (map (\<lambda>ch. (ch, None)) chs) = []"
  by (induction chs) (simp_all add: List.map_filter_def)

lemma map_filter_append: "List.map_filter f (xs @ ys) = List.map_filter f xs @ List.map_filter f ys"
  by (simp add: List.map_filter_def)

text \<open>Changing the station of a worker.\<close>

lemma active_move:
  assumes "pool_inv p" "wpWorkers p ch \<noteq> None"
  shows "{x. ((wpWorkers p)(ch \<mapsto> v)) x \<noteq> None} = active p"
  using assms by (auto simp: active_def)

lemma inv_parts:
  assumes "pool_inv p"
  shows "finite (active p)" "wpWorkersCount p = int (card (active p))" "card (active p) \<le> wpMaxWorkersCount p"
    "distinct (wpReady p)" "distinct (map fst (wpMessages p))" "set (wpReady p) \<inter> fst ` set (wpMessages p) = {}"
    "\<And>ch. wpWorkers p ch = Some Waiting \<longleftrightarrow> ch \<in> set (wpReady p) \<or> ch \<in> fst ` set (wpMessages p)"
    "wpMustStop p \<Longrightarrow> wpReady p = []" "mset (wpAccepted p) = mset (wpServed p) + waiting_conns p + being_served p"
  using assms by (auto simp: pool_inv_def)

lemma pool_invI:
  assumes "finite (active p)" "wpWorkersCount p = int (card (active p))" "card (active p) \<le> wpMaxWorkersCount p"
    "distinct (wpReady p)" "distinct (map fst (wpMessages p))" "set (wpReady p) \<inter> fst ` set (wpMessages p) = {}"
    "{ch. wpWorkers p ch = Some Waiting} = set (wpReady p) \<union> fst ` set (wpMessages p)"
    "wpMustStop p \<longrightarrow> wpReady p = []" "mset (wpAccepted p) = mset (wpServed p) + waiting_conns p + being_served p"
  shows "pool_inv p"
  unfolding pool_inv_def distinct_append set_map using assms by (intro conjI) assumption+

lemma waiting_set: "pool_inv p \<Longrightarrow> {ch. wpWorkers p ch = Some Waiting} = set (wpReady p) \<union> fst ` set (wpMessages p)"
  by (simp add: pool_inv_def)

lemma remove1_message:
  assumes "(ch, m) \<in> set ms" "distinct (map fst ms)"
  shows "fst ` set (remove1 (ch, m) ms) = fst ` set ms - {ch}" "distinct (map fst (remove1 (ch, m) ms))"
    "mset (List.map_filter snd ms) = mset (List.map_filter snd (remove1 (ch, m) ms)) + (case m of None \<Rightarrow> {#} | Some c \<Rightarrow> {#c#})"
proof -
  obtain us vs where ms: "ms = us @ (ch, m) # vs" "(ch, m) \<notin> set us" using split_list_first [OF assms(1)] by blast
  have r: "remove1 (ch, m) ms = us @ vs" using ms by (simp add: remove1_append)
  show "fst ` set (remove1 (ch, m) ms) = fst ` set ms - {ch}" using assms(2) unfolding r by (auto simp: ms(1))
  show "distinct (map fst (remove1 (ch, m) ms))" using assms(2) unfolding r by (simp add: ms(1))
  show "mset (List.map_filter snd ms) = mset (List.map_filter snd (remove1 (ch, m) ms)) + (case m of None \<Rightarrow> {#} | Some c \<Rightarrow> {#c#})"
    unfolding r by (simp add: ms(1) map_filter_append List.map_filter_def split: option.splits)
qed

lemma receive_inv:
  assumes i: "pool_inv p" and m: "(ch, m) \<in> set (wpMessages p)"
  shows "pool_inv (worker_receive ch m p)"
proof -
  note I = inv_parts [OF i]
  note R = remove1_message [OF m I(5)]
  have w: "wpWorkers p ch = Some Waiting" using I(7) m by force
  let ?v = "case m of None \<Rightarrow> Leaving | Some c \<Rightarrow> Serving c"
  have a: "active (worker_receive ch m p) = active p"
    using w by (auto simp: worker_receive_def active_def)
  have "being_served (worker_receive ch m p) = being_served p + (case m of None \<Rightarrow> {#} | Some c \<Rightarrow> {#c#})"
    using being_served_update [OF I(1), of ch "Some ?v"] w
    by (simp add: being_served_def active_def worker_receive_def split: option.splits)
  moreover have "waiting_conns p = waiting_conns (worker_receive ch m p) + (case m of None \<Rightarrow> {#} | Some c \<Rightarrow> {#c#})"
    using R(3) by (simp add: waiting_conns_def worker_receive_def)
  ultimately have c: "mset (wpAccepted (worker_receive ch m p)) = mset (wpServed (worker_receive ch m p)) + waiting_conns (worker_receive ch m p) +
      being_served (worker_receive ch m p)"
    using I(9) by (simp add: worker_receive_def ac_simps)
  have "ch \<notin> set (wpReady p)" using I(6) m by force
  then have q: "{x. wpWorkers (worker_receive ch m p) x = Some Waiting} = set (wpReady p) \<union> fst ` set (remove1 (ch, m) (wpMessages p))"
    using I(7) R(1) by (auto simp: worker_receive_def split: option.splits)
  show ?thesis
    by (rule pool_invI; (unfold a)?) (use I c q R(1,2) in \<open>auto simp: worker_receive_def\<close>)
qed

lemma served_inv:
  assumes i: "pool_inv p" and w: "wpWorkers p ch = Some (Serving c)"
  shows "pool_inv (worker_served ch c p)"
proof -
  note I = inv_parts [OF i]
  have a: "active (worker_served ch c p) = active p" using w by (auto simp: worker_served_def active_def)
  have "being_served p = being_served (worker_served ch c p) + {#c#}"
    using being_served_update [OF I(1), of ch "Some Releasing"] w by (simp add: being_served_def active_def worker_served_def)
  then have c: "mset (wpAccepted p) = mset (wpServed (worker_served ch c p)) + waiting_conns p + being_served (worker_served ch c p)"
    using I(9) by (simp add: worker_served_def ac_simps)
  have "{x. wpWorkers (worker_served ch c p) x = Some Waiting} = {x. wpWorkers p x = Some Waiting}"
    using w by (auto simp: worker_served_def)
  then have "{x. wpWorkers (worker_served ch c p) x = Some Waiting} = set (wpReady p) \<union> fst ` set (wpMessages p)" using I(7) by blast
  with c show ?thesis
    by (intro pool_invI; (unfold a)?) (use I(1-6,8) in \<open>simp_all add: worker_served_def waiting_conns_def\<close>)
qed

lemma release_inv:
  assumes i: "pool_inv p" and w: "wpWorkers p ch = Some Releasing"
  shows "pool_inv (worker_release ch now p)"
proof -
  note I = inv_parts [OF i]
  have n: "ch \<notin> set (wpReady p)" "ch \<notin> fst ` set (wpMessages p)" using I(7) [of ch] w by auto
  let ?v = "if wpMustStop p then Leaving else Waiting"
  have p': "worker_release ch now p = p\<lparr>wpLastUseTime := (wpLastUseTime p)(ch := now), wpReady := (if wpMustStop p then wpReady p else wpReady p @ [ch]),
      wpWorkers := (wpWorkers p)(ch \<mapsto> ?v)\<rparr>"
    by (simp add: worker_release_def pool_release_def Let_def)
  have a: "active (worker_release ch now p) = active p" using w by (auto simp: p' active_def)
  have b: "being_served (worker_release ch now p) = being_served p"
    using being_served_update [OF I(1), of ch "Some ?v"] w by (auto simp: being_served_def active_def p')
  have "{x. wpWorkers (worker_release ch now p) x = Some Waiting} = {x. wpWorkers p x = Some Waiting} \<union> (if wpMustStop p then {} else {ch})"
    using w by (auto simp: p')
  then have q: "{x. wpWorkers (worker_release ch now p) x = Some Waiting} =
      set (wpReady (worker_release ch now p)) \<union> fst ` set (wpMessages (worker_release ch now p))"
    unfolding waiting_set [OF i] by (auto simp: p')
  show ?thesis
    by (rule pool_invI [OF _ _ _ _ _ _ q]; (unfold a b)?) (use I(1-6,8,9) n in \<open>simp_all add: p' waiting_conns_def\<close>)
qed

lemma exit_inv:
  assumes i: "pool_inv p" and w: "wpWorkers p ch = Some Leaving"
  shows "pool_inv (worker_exit ch p)"
proof -
  note I = inv_parts [OF i]
  have a: "active (worker_exit ch p) = active p - {ch}" "ch \<in> active p" using w by (auto simp: worker_exit_def active_def)
  have b: "being_served (worker_exit ch p) = being_served p"
    using being_served_update [OF I(1), of ch None] w by (simp add: being_served_def active_def worker_exit_def)
  have "card (active p) = Suc (card (active p - {ch}))" using card_Suc_Diff1 [OF I(1) a(2)] by simp
  moreover have "{x. wpWorkers (worker_exit ch p) x = Some Waiting} = {x. wpWorkers p x = Some Waiting}"
    using w by (auto simp: worker_exit_def)
  then have "{x. wpWorkers (worker_exit ch p) x = Some Waiting} = set (wpReady p) \<union> fst ` set (wpMessages p)" using I(7) by blast
  ultimately show ?thesis
    by (intro pool_invI; (unfold a b)?) (use I(1-6,8,9) in \<open>simp_all add: worker_exit_def waiting_conns_def\<close>)
qed

lemma worker_step_inv: "worker_step p p' \<Longrightarrow> pool_inv p \<Longrightarrow> pool_inv p'"
  by (erule worker_stepE) (auto intro: receive_inv served_inv release_inv exit_inv)

lemma clean_inv:
  assumes i: "pool_inv p" and c: "pool_clean n p = Some p'"
  shows "pool_inv p'"
proof -
  note I = inv_parts [OF i]
  have p': "p' = p\<lparr>wpMessages := wpMessages p @ map (\<lambda>ch. (ch, None)) (take n (wpReady p)), wpReady := drop n (wpReady p)\<rparr>"
    using c by (simp add: pool_clean_def fold_send split: if_splits)
  have s: "set (wpReady p) = set (take n (wpReady p)) \<union> set (drop n (wpReady p))" by (metis append_take_drop_id set_append)
  have d: "set (take n (wpReady p)) \<inter> set (drop n (wpReady p)) = {}" using I(4) by (simp add: set_take_disj_set_drop_if_distinct)
  have e: "active p' = active p" "being_served p' = being_served p" "waiting_conns p' = waiting_conns p"
    by (simp_all add: p' active_def being_served_def waiting_conns_def map_filter_append map_filter_nil)
  have m: "map fst (map (\<lambda>ch. (ch, None :: 'a option)) (take n (wpReady p))) = take n (wpReady p)" by (simp add: comp_def)
  have f: "fst ` set (wpMessages p') = fst ` set (wpMessages p) \<union> set (take n (wpReady p))" by (simp add: p' image_Un image_image)
  have "distinct (map fst (wpMessages p'))" using I(4,5,6) s by (auto simp: p' comp_def)
  moreover have "{ch. wpWorkers p' ch = Some Waiting} = set (wpReady p') \<union> fst ` set (wpMessages p')"
    using waiting_set [OF i] s unfolding f by (auto simp: p')
  moreover have "set (wpReady p') \<inter> fst ` set (wpMessages p') = {}" using I(6) s d unfolding f by (auto simp: p')
  ultimately show ?thesis
    by (intro pool_invI; (unfold e)?) (use I(1-4,8,9) in \<open>simp_all add: p'\<close>)
qed

lemma stop_inv:
  assumes "pool_inv p"
  shows "pool_inv (pool_Stop p)"
proof (cases "wpStarted p")
  case True
  obtain p' where p': "pool_clean (length (wpReady p)) p = Some p'" by (simp add: pool_clean_def)
  then have "pool_Stop p = p'\<lparr>wpStarted := False, wpMustStop := True\<rparr>" "wpReady p' = []"
    using True by (auto simp: pool_Stop_def pool_clean_def fold_send)
  with clean_inv [OF assms p'] show ?thesis by (simp add: pool_inv_def active_def being_served_def waiting_conns_def)
qed (use assms in \<open>simp add: pool_Stop_def\<close>)

lemma serve_inv:
  assumes i: "pool_inv p" and f: "wpWorkers p fresh = None"
  shows "pool_inv (fst (pool_Serve fresh c p))"
proof -
  note I = inv_parts [OF i]
  have n: "fresh \<notin> set (wpReady p)" "fresh \<notin> fst ` set (wpMessages p)" using I(7) [of fresh] f by auto
  consider (reuse) "wpReady p \<noteq> []" | (new) "wpReady p = []" "wpWorkersCount p < int (wpMaxWorkersCount p)"
    | (full) "wpReady p = []" "\<not> wpWorkersCount p < int (wpMaxWorkersCount p)" by blast
  then show ?thesis
  proof cases
    case reuse
    then obtain xs x where x: "wpReady p = xs @ [x]" by (metis append_butlast_last_id)
    have p': "fst (pool_Serve fresh c p) = p\<lparr>wpReady := xs, wpMessages := wpMessages p @ [(x, Some c)], wpAccepted := wpAccepted p @ [c]\<rparr>"
      using x by (simp add: pool_Serve_def pool_getCh_def pool_send_def)
    have e: "active (fst (pool_Serve fresh c p)) = active p" "being_served (fst (pool_Serve fresh c p)) = being_served p"
      "waiting_conns (fst (pool_Serve fresh c p)) = waiting_conns p + {#c#}"
      by (simp_all add: p' active_def being_served_def waiting_conns_def map_filter_append List.map_filter_def)
    have "{ch. wpWorkers p ch = Some Waiting} = set xs \<union> fst ` set (wpMessages p @ [(x, Some c)])"
      unfolding waiting_set [OF i] x by auto
    then show ?thesis
      by (intro pool_invI; (unfold e)?) (use I(1-6,8,9) x in \<open>auto simp: p'\<close>)
  next
    case new
    have p': "fst (pool_Serve fresh c p) = p\<lparr>wpWorkersCount := wpWorkersCount p + 1, wpWorkers := (wpWorkers p)(fresh \<mapsto> Waiting),
        wpMessages := wpMessages p @ [(fresh, Some c)], wpAccepted := wpAccepted p @ [c]\<rparr>"
      using new by (simp add: pool_Serve_def pool_getCh_def pool_send_def)
    have a: "active (fst (pool_Serve fresh c p)) = insert fresh (active p)" "fresh \<notin> active p" using f by (auto simp: p' active_def)
    have e: "being_served (fst (pool_Serve fresh c p)) = being_served p" "waiting_conns (fst (pool_Serve fresh c p)) = waiting_conns p + {#c#}"
      using being_served_update [OF I(1), of fresh "Some Waiting"] f
      by (simp_all add: p' active_def being_served_def waiting_conns_def map_filter_append List.map_filter_def)
    have "{ch. wpWorkers (fst (pool_Serve fresh c p)) ch = Some Waiting} = {ch. wpWorkers p ch = Some Waiting} \<union> {fresh}"
      using f by (auto simp: p')
    then have "{ch. wpWorkers (fst (pool_Serve fresh c p)) ch = Some Waiting} =
        set (wpReady (fst (pool_Serve fresh c p))) \<union> fst ` set (wpMessages (fst (pool_Serve fresh c p)))"
      unfolding waiting_set [OF i] by (auto simp: p')
    then show ?thesis
      by (intro pool_invI; (unfold a(1) e)?) (use I(1-6,8,9) n new a(2) in \<open>auto simp: p'\<close>)
  next
    case full
    then show ?thesis using i by (simp add: pool_Serve_def pool_getCh_def)
  qed
qed

lemma start_inv: "pool_inv p \<Longrightarrow> pool_inv (pool_Start p)"
  by (simp add: pool_Start_def pool_inv_def active_def being_served_def waiting_conns_def)

lemma pool_step_inv: "pool_step p p' \<Longrightarrow> pool_inv p \<Longrightarrow> pool_inv p'"
  by (erule pool_stepE) (auto intro: worker_step_inv serve_inv clean_inv stop_inv start_inv)

lemma new_pool_inv: "pool_inv (new_pool m d)"
  by (simp add: pool_inv_def new_pool_def active_def being_served_def waiting_conns_def List.map_filter_def)

lemma reachable_inv: "pool_step\<^sup>*\<^sup>* (new_pool m d) p \<Longrightarrow> pool_inv p"
  by (induction rule: rtranclp_induct) (auto intro: new_pool_inv pool_step_inv)

lemma step_keeps_max: "pool_step p p' \<Longrightarrow> wpMaxWorkersCount p' = wpMaxWorkersCount p"
  by (auto elim!: pool_stepE worker_stepE
      simp: worker_receive_def worker_served_def worker_release_def pool_release_def worker_exit_def pool_Start_def pool_Serve_def pool_getCh_def
        pool_send_def pool_clean_def pool_Stop_def fold_send Let_def split: if_splits)

lemma reachable_max: "pool_step\<^sup>*\<^sup>* (new_pool m d) p \<Longrightarrow> wpMaxWorkersCount p = m"
  by (induction rule: rtranclp_induct) (auto simp: new_pool_def dest: step_keeps_max)

section \<open>The properties\<close>

text \<open>C3: Whatever way the acceptor, the workers, the cleaner and \<^verbatim>\<open>Stop\<close> interleave, the pool never runs more workers
  than \<^verbatim>\<open>MaxWorkersCount\<close>, its counter is the number of workers, no channel holds more than one message (so with a
  buffer of one no sender ever blocks), and no connection is lost or served twice: the accepted connections are, each
  as often as it was accepted, the connections that have been served, those on the way to a worker and those being
  served.\<close>

theorem pool_keeps_every_connection:
  assumes "pool_step\<^sup>*\<^sup>* (new_pool m d) p"
  shows "wpWorkersCount p = int (card (active p)) \<and> card (active p) \<le> m \<and> distinct (map fst (wpMessages p)) \<and>
         mset (wpAccepted p) = mset (wpServed p) + waiting_conns p + being_served p"
  using inv_parts [OF reachable_inv [OF assms]] reachable_max [OF assms] by simp

text \<open>A pool of one worker that has accepted one connection and one that has served it.\<close>

definition sample_pool :: "nat workerPool" where
  "sample_pool = fst (pool_Serve 0 5 (new_pool 1 0))"

definition served_pool :: "nat workerPool" where
  "served_pool = worker_release 0 3 (worker_served 0 5 (worker_receive 0 (Some 5) sample_pool))"

lemma sample_pool_eq:
  "sample_pool = (new_pool 1 0)\<lparr>wpWorkersCount := 1, wpWorkers := [0 \<mapsto> Waiting], wpMessages := [(0, Some 5)], wpAccepted := [5]\<rparr>"
  by (simp add: sample_pool_def pool_Serve_def pool_getCh_def pool_send_def new_pool_def)

lemma served_pool_eq:
  "served_pool = (new_pool 1 0)\<lparr>wpWorkersCount := 1, wpReady := [0], wpLastUseTime := (\<lambda>_. 0)(0 := 3), wpWorkers := [0 \<mapsto> Waiting],
     wpAccepted := [5], wpServed := [5]\<rparr>"
  unfolding served_pool_def sample_pool_eq
  by (simp add: worker_release_def pool_release_def worker_served_def worker_receive_def new_pool_def Let_def)

lemma sample_pool_reachable: "pool_step\<^sup>*\<^sup>* (new_pool 1 0) sample_pool"
  unfolding sample_pool_def by (rule r_into_rtranclp, rule pool_step.serve) (simp add: new_pool_def)

lemma sample_pool_steps: "worker_step\<^sup>*\<^sup>* sample_pool served_pool"
proof -
  let ?a = "worker_receive 0 (Some 5) sample_pool" and ?b = "worker_served 0 5 (worker_receive 0 (Some 5) sample_pool)"
  have a: "worker_step sample_pool ?a" by (rule worker_step.receive) (simp_all add: sample_pool_eq)
  have b: "worker_step ?a ?b" by (rule worker_step.served) (simp add: worker_receive_def)
  have c: "worker_step ?b served_pool" unfolding served_pool_def by (rule worker_step.release) (simp add: worker_served_def)
  show ?thesis by (rule converse_rtranclp_into_rtranclp [of worker_step, OF a converse_rtranclp_into_rtranclp [of worker_step, OF b r_into_rtranclp [of worker_step, OF c]]])
qed

theorem pool_keeps_every_connection_witness:
  "wpWorkersCount sample_pool = 1 \<and> card (active sample_pool) \<le> 1 \<and> mset (wpAccepted sample_pool) = {#5#} \<and>
     {#5#} = mset (wpServed sample_pool) + waiting_conns sample_pool + being_served sample_pool"
  using pool_keeps_every_connection [OF sample_pool_reachable] by (simp add: sample_pool_eq)

fun station :: "'c worker option \<Rightarrow> nat" where
  "station (Some (Serving c)) = 3"
| "station (Some Releasing) = 2"
| "station (Some Leaving) = 1"
| "station _ = 0"

definition work_left :: "'c workerPool \<Rightarrow> nat" where
  "work_left p = 4 * length (wpMessages p) + (\<Sum>ch \<in> active p. station (wpWorkers p ch))"

lemma worker_step_progress:
  assumes s: "worker_step p p'" and i: "pool_inv p"
  shows "work_left p' < work_left p \<and> wpAccepted p' = wpAccepted p"
proof -
  note I = inv_parts [OF i]
  have u: "(\<Sum>x \<in> {x. ((wpWorkers p)(ch := v)) x \<noteq> None}. station (((wpWorkers p)(ch := v)) x)) + station (wpWorkers p ch) =
      (\<Sum>x \<in> active p. station (wpWorkers p x)) + station v" for ch v
    by (rule worker_sum_update [OF I(1)]) simp
  from s show ?thesis
  proof cases
    case (receive ch m)
    let ?v = "case m of None \<Rightarrow> Leaving | Some c \<Rightarrow> Serving c"
    have "length (wpMessages p) = Suc (length (remove1 (ch, m) (wpMessages p)))"
      using receive(2) length_pos_if_in_set [of "(ch, m)" "wpMessages p"] by (simp add: length_remove1)
    moreover have "station (Some ?v) \<le> 3" "station (wpWorkers p ch) = 0" using receive(3) by (auto split: option.splits)
    ultimately show ?thesis
      using u [of ch "Some ?v"] receive(1) by (simp add: work_left_def active_def worker_receive_def)
  next
    case (served ch c)
    then show ?thesis using u [of ch "Some Releasing"] by (simp add: work_left_def active_def worker_served_def)
  next
    case (release ch now)
    then show ?thesis
      using u [of ch "Some Leaving"] u [of ch "Some Waiting"]
      by (cases "wpMustStop p") (simp_all add: work_left_def active_def worker_release_def pool_release_def)
  next
    case (exit ch)
    then show ?thesis using u [of ch None] by (simp add: work_left_def active_def worker_exit_def)
  qed
qed

lemma worker_steps_bounded:
  "(worker_step ^^ k) p p' \<Longrightarrow> pool_inv p \<Longrightarrow> pool_inv p' \<and> work_left p' + k \<le> work_left p \<and> wpAccepted p' = wpAccepted p"
proof (induction k arbitrary: p')
  case (Suc k)
  then obtain q where q: "(worker_step ^^ k) p q" "worker_step q p'" by auto
  with Suc.IH Suc.prems(2) have "pool_inv q" "work_left q + k \<le> work_left p" "wpAccepted q = wpAccepted p" by blast+
  with worker_step_progress [OF q(2)] worker_step_inv [OF q(2)] show ?case by simp
qed simp

lemma no_step_done:
  assumes i: "pool_inv p" and n: "\<And>p'. \<not> worker_step p p'"
  shows "mset (wpAccepted p) = mset (wpServed p)" "active p = set (wpReady p)"
proof -
  note I = inv_parts [OF i]
  have m: "wpMessages p = []"
  proof (rule ccontr)
    assume "wpMessages p \<noteq> []"
    then obtain ch x where x: "(ch, x) \<in> set (wpMessages p)" by (cases "wpMessages p") force+
    then have "wpWorkers p ch = Some Waiting" using I(7) by force
    with x n show False by (blast intro: worker_step.receive)
  qed
  have w: "wpWorkers p ch = None \<or> wpWorkers p ch = Some Waiting" for ch
    using n by (cases "wpWorkers p ch"; cases "the (wpWorkers p ch)") (auto intro: worker_step.intros)
  have "in_service (wpWorkers p ch) = {#}" for ch using w [of ch] by auto
  then have "being_served p = {#}" unfolding being_served_def by simp
  then show "mset (wpAccepted p) = mset (wpServed p)" using I(9) m by (simp add: waiting_conns_def List.map_filter_def)
  have "ch \<in> active p \<longleftrightarrow> ch \<in> set (wpReady p)" for ch using w [of ch] I(7) [of ch] m by (auto simp: active_def)
  then show "active p = set (wpReady p)" by blast
qed

text \<open>C4: No connection waits forever. From every reachable state the workers alone can make only a bounded number of
  steps, and when they cannot go on, every accepted connection has been served; if the pool was stopped, all workers
  are gone.\<close>

theorem pool_drains:
  assumes "pool_step\<^sup>*\<^sup>* (new_pool m d) p"
  shows "(\<forall>k p'. (worker_step ^^ k) p p' \<longrightarrow> k \<le> work_left p) \<and>
         (\<forall>p'. worker_step\<^sup>*\<^sup>* p p' \<and> (\<nexists>p''. worker_step p' p'') \<longrightarrow>
            mset (wpServed p') = mset (wpAccepted p) \<and> (wpMustStop p' \<longrightarrow> wpWorkersCount p' = 0))"
proof (intro conjI allI impI)
  note i = reachable_inv [OF assms]
  show "k \<le> work_left p" if "(worker_step ^^ k) p p'" for k p' using worker_steps_bounded [OF that i] by simp
  fix p'
  assume p': "worker_step\<^sup>*\<^sup>* p p' \<and> (\<nexists>p''. worker_step p' p'')"
  then obtain k where "(worker_step ^^ k) p p'" using rtranclp_imp_relpowp by fast
  with worker_steps_bounded i have w: "pool_inv p'" "wpAccepted p' = wpAccepted p" by blast+
  note D = no_step_done [OF w(1)]
  show "mset (wpServed p') = mset (wpAccepted p)" using D p' w(2) by simp
  show "wpWorkersCount p' = 0" if "wpMustStop p'" using that D(2) p' inv_parts(2,8) [OF w(1)] by simp
qed

theorem pool_drains_witness: "mset (wpServed served_pool) = mset (wpAccepted sample_pool) \<and> wpAccepted sample_pool = [5]"
proof -
  have n: "\<nexists>p. worker_step served_pool p"
    unfolding served_pool_eq by (auto elim!: worker_stepE simp: new_pool_def split: if_splits)
  then have "mset (wpServed served_pool) = mset (wpAccepted sample_pool)"
    using pool_drains [OF sample_pool_reachable] sample_pool_steps by blast
  then show ?thesis by (simp add: sample_pool_eq)
qed

section \<open>The cleaner\<close>

lemma default_clean_bounded: "DefaultCleanThresholdFunc now t1 t2 t3 t4 n m d \<le> n"
  by (simp add: DefaultCleanThresholdFunc_def drop_bit_nat_def div_le_dividend)

lemma clean_never_panics: "pool_clean (clean_num p now) p \<noteq> None"
  by (simp add: pool_clean_def clean_num_def Let_def not_less default_clean_bounded)

text \<open>The test that is to spare small pools compares with \<^verbatim>\<open>2>>10\<close>, which is zero: a single idle worker of a pool of
  one is already considered. With times that do not decrease along the list of ready workers, the second test of the
  first two ranges never holds, so never more than a quarter is stopped there.\<close>

lemma small_pools_not_spared: "DefaultCleanThresholdFunc now t1 t2 t3 t4 2 2 d = (if now - t3 > d then 1 else 0)"
  by (simp add: DefaultCleanThresholdFunc_def drop_bit_nat_def)

lemma second_test_dead:
  assumes "t2 \<le> t3" "t3 \<le> t4" "n \<le> drop_bit 1 m"
  shows "DefaultCleanThresholdFunc now t1 t2 t3 t4 n m d \<le> drop_bit 2 n"
  using assms by (auto simp: DefaultCleanThresholdFunc_def)

end
