(* ===== verification/WantConnQueue.thy ===== *)
theory WantConnQueue
  imports Prelude
begin

text \<open>
  \<^verbatim>\<open>client.go\<close>, \<^verbatim>\<open>wantConnQueue\<close>: the callers that wait for a connection of a \<^verbatim>\<open>HostClient\<close>, in two slices with a
  position in the first. A waiter is a number, a nil pointer is \<^const>\<open>None\<close>. Seen through \<open>wq_elems\<close> it is a
  first-in-first-out list, beside the counter of the waiters that gave up.
\<close>

section \<open>The queue\<close>

record wantConnQueue =
  wqHead :: "nat option list"
  wqTail :: "nat list"
  wqHeadPos :: nat
  wqFailedWaiters :: int

definition new_wantConnQueue :: wantConnQueue where
  "new_wantConnQueue = \<lparr>wqHead = [], wqTail = [], wqHeadPos = 0, wqFailedWaiters = 0\<rparr>"

definition wantConnQueue_len :: "wantConnQueue \<Rightarrow> int" where
  "wantConnQueue_len q = int (length (wqHead q)) - int (wqHeadPos q) + int (length (wqTail q)) - wqFailedWaiters q"

definition pushBack :: "wantConnQueue \<Rightarrow> nat \<Rightarrow> wantConnQueue" where
  "pushBack q w = q\<lparr>wqTail := wqTail q @ [w]\<rparr>"

definition popFront :: "wantConnQueue \<Rightarrow> wantConnQueue \<times> nat option" where
  "popFront q =
     (if wqHeadPos q \<ge> length (wqHead q) \<and> wqTail q = [] then (q, None)
      else let q = (if wqHeadPos q \<ge> length (wqHead q)
                    then q\<lparr>wqHead := map Some (wqTail q), wqHeadPos := 0, wqTail := []\<rparr> else q);
               w = wqHead q ! wqHeadPos q
           in (q\<lparr>wqHead := (wqHead q)[wqHeadPos q := None], wqHeadPos := wqHeadPos q + 1\<rparr>, w))"

definition peekFront :: "wantConnQueue \<Rightarrow> nat option" where
  "peekFront q =
     (if wqHeadPos q < length (wqHead q) then wqHead q ! wqHeadPos q
      else if wqTail q \<noteq> [] then Some (hd (wqTail q)) else None)"

definition failed_dec :: "wantConnQueue \<Rightarrow> wantConnQueue" where
  "failed_dec q = q\<lparr>wqFailedWaiters := wqFailedWaiters q - 1\<rparr>"

text \<open>The entries that were not popped, and their number as the loops below count it down.\<close>

definition wq_elems :: "wantConnQueue \<Rightarrow> nat list" where
  "wq_elems q = map the (drop (wqHeadPos q) (wqHead q)) @ wqTail q"

definition wq_ok :: "wantConnQueue \<Rightarrow> bool" where
  "wq_ok q \<longleftrightarrow> wqHeadPos q \<le> length (wqHead q) \<and> None \<notin> set (drop (wqHeadPos q) (wqHead q))"

lemma length_wq_elems: "length (wq_elems q) = length (wqHead q) - wqHeadPos q + length (wqTail q)"
  by (simp add: wq_elems_def)

lemma popFront_shrinks: "popFront q = (q', Some w) \<Longrightarrow> length (wq_elems q') < length (wq_elems q)"
  by (auto simp: popFront_def Let_def length_wq_elems split: if_splits)

lemma failed_dec_simps [simp]:
  "wq_elems (failed_dec q) = wq_elems q" "wq_ok (failed_dec q) = wq_ok q"
  "wqFailedWaiters (failed_dec q) = wqFailedWaiters q - 1"
  by (simp_all add: failed_dec_def wq_elems_def wq_ok_def)

text \<open>\<^verbatim>\<open>popFront\<close> finds the entry that \<^verbatim>\<open>peekFront\<close> showed, so the inner \<^const>\<open>None\<close> branch is never taken.\<close>

function clearFront :: "(nat \<Rightarrow> bool) \<Rightarrow> wantConnQueue \<Rightarrow> wantConnQueue \<times> bool" where
  "clearFront waiting q =
     (case peekFront q of
        None \<Rightarrow> (q, False)
      | Some w \<Rightarrow>
          (if waiting w then (q, False)
           else case popFront q of
                  (q', None) \<Rightarrow> (q, False)
                | (q', Some _) \<Rightarrow> (fst (clearFront waiting (failed_dec q')), True)))"
  by pat_completeness auto
termination
  by (relation "measure (\<lambda>(_, q). length (wq_elems q))") (auto dest: popFront_shrinks [OF sym])

text \<open>The loop of \<^verbatim>\<open>releaseConn\<close> and \<^verbatim>\<open>decConnsCount\<close>: pop until a waiter accepts. A waiter that does not accept is
  counted off. \<^const>\<open>None\<close> is the panic of a nil waiter.\<close>

function wake_loop :: "(nat \<Rightarrow> bool) \<Rightarrow> wantConnQueue \<Rightarrow> (wantConnQueue \<times> nat option) option" where
  "wake_loop accepts q =
     (if wantConnQueue_len q > 0
      then case popFront q of
             (q', None) \<Rightarrow> None
           | (q', Some w) \<Rightarrow> (if accepts w then Some (q', Some w) else wake_loop accepts (failed_dec q'))
      else Some (q, None))"
  by pat_completeness auto
termination
  by (relation "measure (\<lambda>(_, q). length (wq_elems q))") (auto dest: popFront_shrinks [OF sym])

declare clearFront.simps [simp del] wake_loop.simps [simp del]

section \<open>A first-in-first-out queue\<close>

text \<open>What a client of a queue relies on: pushing appends, popping takes the first entry, and the entries are all
  it sees.\<close>

datatype queue_op = Push nat | Pop

primrec list_queue :: "nat list \<Rightarrow> queue_op list \<Rightarrow> nat option list" where
  "list_queue xs [] = []"
| "list_queue xs (r # rs) =
     (case r of Push w \<Rightarrow> list_queue (xs @ [w]) rs
      | Pop \<Rightarrow> (case xs of [] \<Rightarrow> None # list_queue [] rs | x # xs' \<Rightarrow> Some x # list_queue xs' rs))"

primrec run_queue :: "('q \<Rightarrow> nat \<Rightarrow> 'q) \<Rightarrow> ('q \<Rightarrow> 'q \<times> nat option) \<Rightarrow> 'q \<Rightarrow> queue_op list \<Rightarrow> nat option list" where
  "run_queue push pop q [] = []"
| "run_queue push pop q (r # rs) =
     (case r of Push w \<Rightarrow> run_queue push pop (push q w) rs
      | Pop \<Rightarrow> (case pop q of (q', w) \<Rightarrow> w # run_queue push pop q' rs))"

locale fifo_queue =
  fixes valid :: "'q \<Rightarrow> bool" and entries :: "'q \<Rightarrow> nat list"
    and push :: "'q \<Rightarrow> nat \<Rightarrow> 'q" and pop :: "'q \<Rightarrow> 'q \<times> nat option"
  assumes push_valid: "valid q \<Longrightarrow> valid (push q w)"
    and push_entries: "valid q \<Longrightarrow> entries (push q w) = entries q @ [w]"
    and pop_empty: "valid q \<Longrightarrow> entries q = [] \<Longrightarrow> pop q = (q, None)"
    and pop_first: "valid q \<Longrightarrow> entries q = w # ws \<Longrightarrow> \<exists>q'. pop q = (q', Some w) \<and> valid q' \<and> entries q' = ws"
begin

lemma refines_list: "valid q \<Longrightarrow> run_queue push pop q rs = list_queue (entries q) rs"
proof (induction rs arbitrary: q)
  case (Cons r rs)
  show ?case
  proof (cases r)
    case Push
    then show ?thesis using Cons by (simp add: push_valid push_entries)
  next
    case Pop
    show ?thesis
    proof (cases "entries q")
      case Nil
      then show ?thesis using Pop Cons pop_empty by simp
    next
      case (Cons w ws)
      then obtain q' where "pop q = (q', Some w)" "valid q'" "entries q' = ws"
        using pop_first Cons.prems by blast
      then show ?thesis using Pop Cons Cons.IH by simp
    qed
  qed
qed simp

lemma pop_Some: "valid q \<Longrightarrow> pop q = (q', Some w) \<Longrightarrow> valid q' \<and> entries q = w # entries q'"
  using pop_empty pop_first by (cases "entries q") fastforce+

lemma pop_None: "valid q \<Longrightarrow> snd (pop q) = None \<longleftrightarrow> entries q = []"
  using pop_empty pop_first by (cases "entries q") fastforce+

end

lemma pushBack_simps [simp]:
  "wq_ok (pushBack q w) = wq_ok q" "wqFailedWaiters (pushBack q w) = wqFailedWaiters q"
  "wq_elems (pushBack q w) = wq_elems q @ [w]"
  by (simp_all add: pushBack_def wq_ok_def wq_elems_def)

lemma popFront_cons:
  assumes "wq_ok q" "wq_elems q = w # ws"
  shows "\<exists>q'. popFront q = (q', Some w) \<and> wq_ok q' \<and> wq_elems q' = ws"
proof (cases "wqHeadPos q < length (wqHead q)")
  case True
  then have d: "drop (wqHeadPos q) (wqHead q) = wqHead q ! wqHeadPos q # drop (wqHeadPos q + 1) (wqHead q)"
    by (simp add: Cons_nth_drop_Suc)
  obtain v where v: "wqHead q ! wqHeadPos q = Some v"
    using assms(1) d by (cases "wqHead q ! wqHeadPos q") (auto simp: wq_ok_def)
  show ?thesis using True assms d v by (auto simp: popFront_def Let_def wq_ok_def wq_elems_def)
next
  case False
  then obtain t where "wqTail q = w # t" "ws = t" using assms(2) by (simp add: wq_elems_def)
  then show ?thesis using False by (auto simp: popFront_def Let_def wq_ok_def wq_elems_def comp_def)
qed

lemma popFront_nil: "wq_elems q = [] \<Longrightarrow> popFront q = (q, None)"
  by (auto simp: popFront_def wq_elems_def)

interpretation want_queue: fifo_queue wq_ok wq_elems pushBack popFront
  by unfold_locales (auto simp: popFront_nil intro: popFront_cons)

lemma popFront_failed: "wqFailedWaiters (fst (popFront q)) = wqFailedWaiters q"
  by (simp add: popFront_def Let_def)

lemma new_queue [simp]:
  "wq_ok new_wantConnQueue" "wq_elems new_wantConnQueue = []" "wqFailedWaiters new_wantConnQueue = 0"
  by (simp_all add: new_wantConnQueue_def wq_ok_def wq_elems_def)

lemma wantConnQueue_len_elems: "wq_ok q \<Longrightarrow> wantConnQueue_len q = int (length (wq_elems q)) - wqFailedWaiters q"
  by (simp add: wantConnQueue_len_def length_wq_elems wq_ok_def of_nat_diff)

text \<open>C25: The two-slice queue of waiters answers every sequence of pushes and pops, from every state that
  satisfies its invariant, as a plain first-in-first-out list does; \<^verbatim>\<open>peekFront\<close> shows what the next \<^verbatim>\<open>popFront\<close>
  returns.\<close>

theorem wantConnQueue_is_fifo:
  assumes "wq_ok q"
  shows "run_queue pushBack popFront q rs = list_queue (wq_elems q) rs \<and> peekFront q = snd (popFront q)"
proof -
  have "None \<noteq> wqHead q ! wqHeadPos q" if "wqHeadPos q < length (wqHead q)"
    using assms that by (metis Cons_nth_drop_Suc list.set_intros(1) wq_ok_def)
  then have "peekFront q = snd (popFront q)"
    by (auto simp: peekFront_def popFront_def Let_def hd_conv_nth)
  then show ?thesis using want_queue.refines_list [OF assms] by simp
qed

theorem wantConnQueue_is_fifo_witness:
  "wq_ok \<lparr>wqHead = [None, Some 7], wqTail = [8], wqHeadPos = 1, wqFailedWaiters = 0\<rparr> \<and>
   run_queue pushBack popFront \<lparr>wqHead = [None, Some 7], wqTail = [8], wqHeadPos = 1, wqFailedWaiters = 0\<rparr>
     [Pop, Push 9, Pop, Pop, Pop] = [Some 7, Some 8, Some 9, None]"
proof -
  have ok: "wq_ok \<lparr>wqHead = [None, Some 7], wqTail = [8], wqHeadPos = 1, wqFailedWaiters = 0\<rparr>"
    by (simp add: wq_ok_def)
  show ?thesis
    using ok wantConnQueue_is_fifo [OF ok, of "[Pop, Push 9, Pop, Pop, Pop]"] by (simp add: wq_elems_def)
qed

section \<open>What the loops do\<close>

text \<open>If the counter is at least the number of waiters that refuse, the loop does not panic. Then it stops at once
  when the length the queue reports is not positive, and otherwise it finds the first waiter that accepts and takes those
  in front of it off the queue and off the counter.\<close>

lemma wake_loop_spec:
  assumes "wq_ok q" "int (length (filter (\<lambda>w. \<not> accepts w) (wq_elems q))) \<le> wqFailedWaiters q"
  shows "if wantConnQueue_len q \<le> 0 then wake_loop accepts q = Some (q, None)
         else \<exists>q' w. wake_loop accepts q = Some (q', Some w) \<and> wq_ok q' \<and> accepts w \<and>
                dropWhile (\<lambda>w. \<not> accepts w) (wq_elems q) = w # wq_elems q' \<and>
                wqFailedWaiters q' = wqFailedWaiters q - int (length (takeWhile (\<lambda>w. \<not> accepts w) (wq_elems q)))"
  using assms
proof (induction accepts q rule: wake_loop.induct)
  case (1 accepts q)
  note len = wantConnQueue_len_elems [OF "1.prems"(1)]
  show ?case
  proof (cases "wantConnQueue_len q > 0")
    case False
    then show ?thesis by (simp add: wake_loop.simps)
  next
    case True
    then obtain w ws where e: "wq_elems q = w # ws"
      using len "1.prems"(2) by (cases "wq_elems q") auto
    obtain q' where p: "popFront q = (q', Some w)" "wq_ok q'" "wq_elems q' = ws"
      using popFront_cons [OF "1.prems"(1) e] by blast
    have f: "wqFailedWaiters q' = wqFailedWaiters q" using popFront_failed [of q] p(1) by simp
    show ?thesis
    proof (cases "accepts w")
      case True
      then show ?thesis using \<open>wantConnQueue_len q > 0\<close> p e f by (simp add: wake_loop.simps [of _ q])
    next
      case False
      have "wantConnQueue_len (failed_dec q') = wantConnQueue_len q"
        using wantConnQueue_len_elems [of "failed_dec q'"] p f len e by simp
      then have "\<exists>q1 w. wake_loop accepts (failed_dec q') = Some (q1, Some w) \<and> wq_ok q1 \<and> accepts w \<and>
                dropWhile (\<lambda>w. \<not> accepts w) ws = w # wq_elems q1 \<and>
                wqFailedWaiters q1 = wqFailedWaiters q - 1 - int (length (takeWhile (\<lambda>w. \<not> accepts w) ws))"
        using "1.IH" [OF True p(1) [symmetric] refl False] p f False "1.prems"(2) e True by (simp add: algebra_simps)
      moreover have "wake_loop accepts q = wake_loop accepts (failed_dec q')"
        using True False p by (simp add: wake_loop.simps [of _ q])
      ultimately show ?thesis using e False True by auto
    qed
  qed
qed

lemma clearFront_spec:
  assumes "wq_ok q"
  shows "wq_ok (fst (clearFront waiting q)) \<and>
         wq_elems (fst (clearFront waiting q)) = dropWhile (\<lambda>w. \<not> waiting w) (wq_elems q) \<and>
         wqFailedWaiters (fst (clearFront waiting q)) =
           wqFailedWaiters q - int (length (takeWhile (\<lambda>w. \<not> waiting w) (wq_elems q)))"
  using assms
proof (induction waiting q rule: clearFront.induct)
  case (1 waiting q)
  show ?case
  proof (cases "wq_elems q")
    case Nil
    then have "peekFront q = None" by (auto simp: peekFront_def wq_elems_def)
    then show ?thesis using Nil "1.prems" by (simp add: clearFront.simps)
  next
    case (Cons w ws)
    obtain q' where p: "popFront q = (q', Some w)" "wq_ok q'" "wq_elems q' = ws"
      using popFront_cons [OF "1.prems" Cons] by blast
    have f: "wqFailedWaiters q' = wqFailedWaiters q" using popFront_failed [of q] p(1) by simp
    have k: "peekFront q = Some w"
    proof (cases "wqHeadPos q < length (wqHead q)")
      case True
      then have "drop (wqHeadPos q) (wqHead q) = wqHead q ! wqHeadPos q # drop (wqHeadPos q + 1) (wqHead q)"
        by (simp add: Cons_nth_drop_Suc)
      then show ?thesis using Cons "1.prems" True
        by (cases "wqHead q ! wqHeadPos q") (auto simp: peekFront_def wq_elems_def wq_ok_def)
    next
      case False
      then show ?thesis using Cons by (auto simp: peekFront_def wq_elems_def)
    qed
    show ?thesis
      using "1.IH" [OF k, of q' "Some w" w] p f k Cons "1.prems" by (auto simp: clearFront.simps [of _ q])
  qed
qed

end
