(* ===== verification/ClientConns.thy ===== *)
theory ClientConns
  imports "HOL-Library.Multiset" WantConnQueue
begin

text \<open>
  \<^verbatim>\<open>client.go\<close>: the connections of a \<^verbatim>\<open>HostClient\<close>. The sections under \<^verbatim>\<open>connsLock\<close> and under the lock of a waiter are
  functions on the state; callers, dialling goroutines and the cleaner are sequences of such sections, and every
  interleaving of them is a sequence of steps. A section under \<^verbatim>\<open>connsLock\<close> is one step, also where it asks several waiters,
  which may change under their own locks meanwhile. Dialling is a step with any outcome. Times are nanoseconds.
\<close>

section \<open>A wanted connection\<close>

record clientConn =
  ccNum :: nat
  ccLastUseTime :: int

datatype client_err = ErrNoFreeConns | DialErr

record wantConn =
  wcErr :: "client_err option"
  wcReady :: bool
  wcConn :: "clientConn option"

definition new_wantConn :: wantConn where
  "new_wantConn = \<lparr>wcErr = None, wcReady = False, wcConn = None\<rparr>"

definition wantConn_waiting :: "wantConn \<Rightarrow> bool" where
  "wantConn_waiting w = (\<not> wcReady w)"

definition tryDeliver :: "wantConn \<Rightarrow> clientConn option \<Rightarrow> client_err option \<Rightarrow> (wantConn \<times> bool) option" where
  "tryDeliver w conn err =
     (if wcConn w \<noteq> None \<or> wcErr w \<noteq> None then Some (w, False)
      else if conn = None \<and> err = None then None
      else Some (w\<lparr>wcConn := conn, wcErr := err, wcReady := True\<rparr>, True))"

definition wantConn_cancel :: "wantConn \<Rightarrow> client_err \<Rightarrow> wantConn \<times> clientConn option" where
  "wantConn_cancel w err =
     (w\<lparr>wcReady := (wcReady w \<or> wcConn w = None \<and> wcErr w = None), wcConn := None, wcErr := Some err\<rparr>, wcConn w)"

section \<open>The host client\<close>

datatype ConnPoolStrategy = LIFO | FIFO

record HostClient =
  hcMaxConns :: int
  hcMaxIdleConnDuration :: int
  hcWaitFreeConnTimeout :: int
  hcConnPoolStrategy :: ConnPoolStrategy
  hcConnsCleanerRun :: bool
  hcConnsCount :: int
  hcConns :: "clientConn list"
  hcConnsWait :: "wantConnQueue option"
  hcWants :: "nat \<Rightarrow> wantConn"

datatype acquired = Idle clientConn | Create bool | Full

text \<open>The locked section of \<^verbatim>\<open>acquireConn\<close>: an idle connection, or leave to dial one (with the flag whether the
  client registers at the cleaner), or nothing.\<close>

definition acquireConn :: "bool \<Rightarrow> HostClient \<Rightarrow> HostClient \<times> acquired" where
  "acquireConn connectionClose c =
     (if hcConns c = []
      then if hcConnsCount c < hcMaxConns c \<or> hcMaxConns c < 0
           then let register = (\<not> hcConnsCleanerRun c \<and> \<not> connectionClose \<and> hcMaxIdleConnDuration c > 0)
                in (c\<lparr>hcConnsCount := hcConnsCount c + 1, hcConnsCleanerRun := hcConnsCleanerRun c \<or> register\<rparr>, Create register)
           else (c, Full)
      else case hcConnPoolStrategy c of
             LIFO \<Rightarrow> (c\<lparr>hcConns := butlast (hcConns c)\<rparr>, Idle (last (hcConns c)))
           | FIFO \<Rightarrow> (c\<lparr>hcConns := tl (hcConns c)\<rparr>, Idle (hd (hcConns c))))"

definition queueForIdle :: "nat \<Rightarrow> HostClient \<Rightarrow> HostClient" where
  "queueForIdle w c =
     (let q = (case hcConnsWait c of None \<Rightarrow> new_wantConnQueue | Some q \<Rightarrow> q);
          q = fst (clearFront (\<lambda>v. wantConn_waiting (hcWants c v)) q)
      in c\<lparr>hcConnsWait := Some (pushBack q w)\<rparr>)"

text \<open>A waiter's timer fires: the queue counts it as failed, without the lock.\<close>

definition waiter_timeout :: "HostClient \<Rightarrow> HostClient" where
  "waiter_timeout c = c\<lparr>hcConnsWait := map_option (\<lambda>q. q\<lparr>wqFailedWaiters := wqFailedWaiters q + 1\<rparr>) (hcConnsWait c)\<rparr>"

definition CloseIdleConnections :: "HostClient \<Rightarrow> HostClient \<times> clientConn list" where
  "CloseIdleConnections c = (c\<lparr>hcConns := []\<rparr>, hcConns c)"

text \<open>The last \<^verbatim>\<open>return\<close> of the loops: \<^const>\<open>None\<close> is the panic of a nil waiter; the second component of
  \<open>decConnsCount\<close> is the waiter for which \<^verbatim>\<open>dialConnFor\<close> is started.\<close>

definition decConnsCount :: "HostClient \<Rightarrow> (HostClient \<times> nat option) option" where
  "decConnsCount c =
     (if hcWaitFreeConnTimeout c = 0 then Some (c\<lparr>hcConnsCount := hcConnsCount c - 1\<rparr>, None)
      else case hcConnsWait c of
             None \<Rightarrow> Some (c\<lparr>hcConnsCount := hcConnsCount c - 1\<rparr>, None)
           | Some q \<Rightarrow>
               (case wake_loop (\<lambda>w. wantConn_waiting (hcWants c w)) q of
                  None \<Rightarrow> None
                | Some (q', None) \<Rightarrow> Some (c\<lparr>hcConnsWait := Some q', hcConnsCount := hcConnsCount c - 1\<rparr>, None)
                | Some (q', Some w) \<Rightarrow> Some (c\<lparr>hcConnsWait := Some q'\<rparr>, Some w)))"

definition releaseConn :: "clientConn \<Rightarrow> int \<Rightarrow> HostClient \<Rightarrow> HostClient option" where
  "releaseConn cc now c =
     (let cc = cc\<lparr>ccLastUseTime := now\<rparr>;
          handed = (\<lambda>w. wantConn_waiting (hcWants c w) \<and> map_option snd (tryDeliver (hcWants c w) (Some cc) None) = Some True)
      in if hcWaitFreeConnTimeout c = 0 then Some (c\<lparr>hcConns := hcConns c @ [cc]\<rparr>)
         else case hcConnsWait c of
                None \<Rightarrow> Some (c\<lparr>hcConns := hcConns c @ [cc]\<rparr>)
              | Some q \<Rightarrow>
                  (case wake_loop handed q of
                     None \<Rightarrow> None
                   | Some (q', None) \<Rightarrow> Some (c\<lparr>hcConnsWait := Some q', hcConns := hcConns c @ [cc]\<rparr>)
                   | Some (q', Some w) \<Rightarrow>
                       (case tryDeliver (hcWants c w) (Some cc) None of
                          None \<Rightarrow> None
                        | Some (x, _) \<Rightarrow> Some (c\<lparr>hcConnsWait := Some q', hcWants := (hcWants c)(w := x)\<rparr>))))"

text \<open>The end of \<^verbatim>\<open>dialConnFor\<close>: the dialled connection or the error is offered to the waiter; what is left to do is
  to release the connection, to count down, or nothing.\<close>

definition dialConnFor :: "nat \<Rightarrow> clientConn option \<Rightarrow> HostClient \<Rightarrow> (HostClient \<times> bool) option" where
  "dialConnFor w conn c =
     (case tryDeliver (hcWants c w) conn (if conn = None then Some DialErr else None) of
        None \<Rightarrow> None
      | Some (x, delivered) \<Rightarrow> Some (c\<lparr>hcWants := (hcWants c)(w := x)\<rparr>, delivered))"

section \<open>Cleaning\<close>

text \<open>The binary search of \<^verbatim>\<open>Clean\<close>, on the bounds l and r of the source.\<close>

function clean_search :: "(clientConn \<Rightarrow> bool) \<Rightarrow> clientConn list \<Rightarrow> int \<Rightarrow> int \<Rightarrow> int" where
  "clean_search expired conns l r =
     (if l \<le> r
      then let mid = (l + r) div 2
           in if expired (conns ! nat mid) then clean_search expired conns (mid + 1) r
              else clean_search expired conns l (mid - 1)
      else r)"
  by pat_completeness auto
termination
  by (relation "measure (\<lambda>(_, _, l, r). nat (r - l + 1))") (auto simp: Let_def)

declare clean_search.simps [simp del]

text \<open>The first locked section of \<^verbatim>\<open>Clean\<close>: the connections to close and the time to sleep, or \<^const>\<open>None\<close> where it
  returns at once (with no time and without stopping); \<open>now'\<close> is the second reading of the clock.\<close>

definition Clean_take :: "int \<Rightarrow> int \<Rightarrow> HostClient \<Rightarrow> (HostClient \<times> clientConn list \<times> int) option" where
  "Clean_take now now' c =
     (let conns = hcConns c; n = int (length conns)
      in if n = 0 then None
         else let r = clean_search (\<lambda>cc. now - ccLastUseTime cc > hcMaxIdleConnDuration c) conns 0 (n - 1)
              in if r = -1 then None
                 else let i = r + 1;
                          sleepDuration = (if i < n then hcMaxIdleConnDuration c - (now' - ccLastUseTime (conns ! nat r)) + 1
                                           else hcMaxIdleConnDuration c)
                      in Some (c\<lparr>hcConns := drop (nat i) conns\<rparr>, take (nat (r + 1)) conns, sleepDuration))"

definition Clean_stop :: "HostClient \<Rightarrow> HostClient \<times> bool" where
  "Clean_stop c = (let stop = (hcConnsCount c = 0) in (if stop then c\<lparr>hcConnsCleanerRun := False\<rparr> else c, stop))"

section \<open>Callers, dials and the cleaner\<close>

text \<open>Who is where between two sections: callers that found nothing and are about to queue, callers at the select,
  callers in front of \<^verbatim>\<open>cancel\<close>, callers that dial, goroutines that dial for a waiter, goroutines in front of
  \<^verbatim>\<open>decConnsCount\<close>, and the connections in use, on the way to \<^verbatim>\<open>releaseConn\<close> and on the way to \<^verbatim>\<open>closeConn\<close>. Dialled
  connections and waiters get new numbers.\<close>

record client_sys =
  csClient :: HostClient
  csBlocked :: "nat list"
  csWaiting :: "nat list"
  csCancel :: "nat list"
  csDialing :: nat
  csDialFor :: "nat list"
  csDec :: nat
  csInUse :: "clientConn list"
  csReturning :: "clientConn list"
  csClosing :: "clientConn list"
  csNextConn :: nat
  csNextWant :: nat

definition new_client :: "int \<Rightarrow> int \<Rightarrow> int \<Rightarrow> ConnPoolStrategy \<Rightarrow> HostClient" where
  "new_client maxConns maxIdle wait strategy =
     \<lparr>hcMaxConns = maxConns, hcMaxIdleConnDuration = maxIdle, hcWaitFreeConnTimeout = wait, hcConnPoolStrategy = strategy,
      hcConnsCleanerRun = False, hcConnsCount = 0, hcConns = [], hcConnsWait = None, hcWants = (\<lambda>_. new_wantConn)\<rparr>"

definition new_sys :: "HostClient \<Rightarrow> client_sys" where
  "new_sys c =
     \<lparr>csClient = c, csBlocked = [], csWaiting = [], csCancel = [], csDialing = 0, csDialFor = [], csDec = 0, csInUse = [],
      csReturning = [], csClosing = [], csNextConn = 0, csNextWant = 0\<rparr>"

definition opt_cons :: "'a option \<Rightarrow> 'a list \<Rightarrow> 'a list" where
  "opt_cons z xs = (case z of None \<Rightarrow> xs | Some x \<Rightarrow> x # xs)"

lemma opt_cons_simps [simp]: "opt_cons None xs = xs" "opt_cons (Some x) xs = x # xs"
  by (simp_all add: opt_cons_def)

inductive client_step :: "client_sys \<Rightarrow> client_sys \<Rightarrow> bool" where
  acquire_idle: "acquireConn b (csClient s) = (c, Idle cc) \<Longrightarrow>
    client_step s (s\<lparr>csClient := c, csInUse := cc # csInUse s\<rparr>)"
| acquire_create: "acquireConn b (csClient s) = (c, Create r) \<Longrightarrow>
    client_step s (s\<lparr>csClient := c, csDialing := csDialing s + 1\<rparr>)"
| acquire_full: "acquireConn b (csClient s) = (c, Full) \<Longrightarrow> hcWaitFreeConnTimeout c \<noteq> 0 \<Longrightarrow>
    client_step s (s\<lparr>csClient := c\<lparr>hcWants := (hcWants c)(csNextWant s := new_wantConn)\<rparr>,
                     csBlocked := csNextWant s # csBlocked s, csNextWant := csNextWant s + 1\<rparr>)"
| queue: "w \<in> set (csBlocked s) \<Longrightarrow>
    client_step s (s\<lparr>csClient := queueForIdle w (csClient s), csBlocked := remove1 w (csBlocked s),
                     csWaiting := w # csWaiting s\<rparr>)"
| ready_conn: "w \<in> set (csWaiting s) \<Longrightarrow> wcReady (hcWants (csClient s) w) \<Longrightarrow> wcErr (hcWants (csClient s) w) = None \<Longrightarrow>
    client_step s (s\<lparr>csWaiting := remove1 w (csWaiting s),
                     csInUse := opt_cons (wcConn (hcWants (csClient s) w)) (csInUse s)\<rparr>)"
| ready_err: "w \<in> set (csWaiting s) \<Longrightarrow> wcReady (hcWants (csClient s) w) \<Longrightarrow> wcErr (hcWants (csClient s) w) \<noteq> None \<Longrightarrow>
    client_step s (s\<lparr>csWaiting := remove1 w (csWaiting s), csCancel := w # csCancel s\<rparr>)"
| timeout: "w \<in> set (csWaiting s) \<Longrightarrow> hcWaitFreeConnTimeout (csClient s) > 0 \<Longrightarrow>
    client_step s (s\<lparr>csClient := waiter_timeout (csClient s), csWaiting := remove1 w (csWaiting s), csCancel := w # csCancel s\<rparr>)"
| cancel: "w \<in> set (csCancel s) \<Longrightarrow> wantConn_cancel (hcWants (csClient s) w) e = (x, conn) \<Longrightarrow>
    client_step s (s\<lparr>csClient := (csClient s)\<lparr>hcWants := (hcWants (csClient s))(w := x)\<rparr>,
                     csCancel := remove1 w (csCancel s), csReturning := opt_cons conn (csReturning s)\<rparr>)"
| dial_ok: "csDialing s = Suc n \<Longrightarrow>
    client_step s (s\<lparr>csDialing := n, csInUse := \<lparr>ccNum = csNextConn s, ccLastUseTime = 0\<rparr> # csInUse s,
                     csNextConn := csNextConn s + 1\<rparr>)"
| dial_fail: "csDialing s = Suc n \<Longrightarrow> client_step s (s\<lparr>csDialing := n, csDec := csDec s + 1\<rparr>)"
| dial_for_ok: "w \<in> set (csDialFor s) \<Longrightarrow> cc = \<lparr>ccNum = csNextConn s, ccLastUseTime = 0\<rparr> \<Longrightarrow>
    dialConnFor w (Some cc) (csClient s) = Some (c, delivered) \<Longrightarrow>
    client_step s (s\<lparr>csClient := c, csDialFor := remove1 w (csDialFor s),
                     csReturning := opt_cons (if delivered then None else Some cc) (csReturning s), csNextConn := csNextConn s + 1\<rparr>)"
| dial_for_fail: "w \<in> set (csDialFor s) \<Longrightarrow> dialConnFor w None (csClient s) = Some (c, delivered) \<Longrightarrow>
    client_step s (s\<lparr>csClient := c, csDialFor := remove1 w (csDialFor s), csDec := csDec s + 1\<rparr>)"
| dec: "csDec s = Suc n \<Longrightarrow> decConnsCount (csClient s) = Some (c, dial) \<Longrightarrow>
    client_step s (s\<lparr>csClient := c, csDec := n, csDialFor := opt_cons dial (csDialFor s)\<rparr>)"
| give_back: "cc \<in> set (csInUse s) \<Longrightarrow>
    client_step s (s\<lparr>csInUse := remove1 cc (csInUse s), csReturning := cc # csReturning s\<rparr>)"
| give_up: "cc \<in> set (csInUse s) \<Longrightarrow>
    client_step s (s\<lparr>csInUse := remove1 cc (csInUse s), csClosing := cc # csClosing s\<rparr>)"
| release: "cc \<in> set (csReturning s) \<Longrightarrow> releaseConn cc now (csClient s) = Some c \<Longrightarrow>
    client_step s (s\<lparr>csClient := c, csReturning := remove1 cc (csReturning s)\<rparr>)"
| close: "cc \<in> set (csClosing s) \<Longrightarrow> decConnsCount (csClient s) = Some (c, dial) \<Longrightarrow>
    client_step s (s\<lparr>csClient := c, csClosing := remove1 cc (csClosing s), csDialFor := opt_cons dial (csDialFor s)\<rparr>)"
| close_idle: "CloseIdleConnections (csClient s) = (c, ccs) \<Longrightarrow>
    client_step s (s\<lparr>csClient := c, csClosing := ccs @ csClosing s\<rparr>)"
| clean: "Clean_take now now' (csClient s) = Some (c, ccs, d) \<Longrightarrow>
    client_step s (s\<lparr>csClient := c, csClosing := ccs @ csClosing s\<rparr>)"
| clean_stop: "Clean_stop (csClient s) = (c, b) \<Longrightarrow> client_step s (s\<lparr>csClient := c\<rparr>)"

section \<open>The invariant\<close>

definition waiters :: "HostClient \<Rightarrow> wantConnQueue" where
  "waiters c = (case hcConnsWait c of None \<Rightarrow> new_wantConnQueue | Some q \<Rightarrow> q)"










lemma waiters_simps [simp]:
  "waiters (c\<lparr>hcConns := x1\<rparr>) = waiters c" "waiters (c\<lparr>hcConnsCount := x2\<rparr>) = waiters c"
  "waiters (c\<lparr>hcConnsCleanerRun := x3\<rparr>) = waiters c" "waiters (c\<lparr>hcWants := x4\<rparr>) = waiters c"
  "waiters (c\<lparr>hcConnsWait := Some q\<rparr>) = q"
  by (simp_all add: waiters_def)


































subsection \<open>Connections\<close>























section \<open>Waiters that are missed\<close>

text \<open>A client with one connection, whose callers wait for at most w nanoseconds (for ever if w is negative), after
  one caller has dialled the connection and a second one found nothing.\<close>

definition one_conn :: "int \<Rightarrow> int \<Rightarrow> clientConn list \<Rightarrow> wantConnQueue option \<Rightarrow> (nat \<Rightarrow> wantConn) \<Rightarrow> HostClient" where
  "one_conn w k ccs q f =
     \<lparr>hcMaxConns = 1, hcMaxIdleConnDuration = 0, hcWaitFreeConnTimeout = w, hcConnPoolStrategy = LIFO,
      hcConnsCleanerRun = False, hcConnsCount = k, hcConns = ccs, hcConnsWait = q, hcWants = f\<rparr>"

definition the_conn :: clientConn where
  "the_conn = \<lparr>ccNum = 0, ccLastUseTime = 0\<rparr>"

definition callers :: "HostClient \<Rightarrow> nat list \<Rightarrow> nat list \<Rightarrow> nat list \<Rightarrow> clientConn list \<Rightarrow> clientConn list \<Rightarrow> nat \<Rightarrow> client_sys" where
  "callers c blocked waiting cancel inUse returning n =
     \<lparr>csClient = c, csBlocked = blocked, csWaiting = waiting, csCancel = cancel, csDialing = 0, csDialFor = [], csDec = 0,
      csInUse = inUse, csReturning = returning, csClosing = [], csNextConn = 1, csNextWant = n\<rparr>"

lemmas scenario = numeral_2_eq_2 one_conn_def the_conn_def callers_def new_client_def new_sys_def acquireConn_def new_wantConn_def

lemma one_conn_blocked:
  assumes "w \<noteq> 0"
  shows "client_step\<^sup>*\<^sup>* (new_sys (new_client 1 0 w LIFO))
           (callers (one_conn w 1 [] None (\<lambda>_. new_wantConn)) [0] [] [] [the_conn] [] 1)"
proof -
  let ?s0 = "new_sys (new_client 1 0 w LIFO)"
  let ?s1 = "?s0\<lparr>csClient := one_conn w 1 [] None (\<lambda>_. new_wantConn), csDialing := 1\<rparr>"
  let ?s2 = "callers (one_conn w 1 [] None (\<lambda>_. new_wantConn)) [] [] [] [the_conn] [] 0"
  have "client_step ?s0 ?s1"
    using client_step.acquire_create [of False ?s0 "one_conn w 1 [] None (\<lambda>_. new_wantConn)" False] by (simp add: scenario)
  moreover have "client_step ?s1 ?s2" using client_step.dial_ok [of ?s1 0] by (simp add: scenario)
  moreover have "client_step ?s2 (callers (one_conn w 1 [] None (\<lambda>_. new_wantConn)) [0] [] [] [the_conn] [] 1)"
    using client_step.acquire_full [of False ?s2 "one_conn w 1 [] None (\<lambda>_. new_wantConn)"] assms by (simp add: scenario fun_upd_idem)
  ultimately show ?thesis by (meson converse_rtranclp_into_rtranclp rtranclp.rtrancl_refl)
qed

text \<open>A caller that is about to queue does not look at the idle connections again. If the only connection is
  released between the two locked sections of \<^verbatim>\<open>acquireConn\<close>, the client reaches a state in which the connection is idle,
  the caller waits in the queue, and nobody else is there. With a negative wait timeout no timer ends this: every step
  from there needs a new caller or the cleaner.\<close>

theorem late_waiter_misses_idle_connection:
  "\<exists>s. client_step\<^sup>*\<^sup>* (new_sys (new_client 1 0 (-1) LIFO)) s \<and> hcConns (csClient s) = [the_conn] \<and>
       csWaiting s = [0] \<and> wq_elems (waiters (csClient s)) = [0] \<and> wantConn_waiting (hcWants (csClient s) 0) \<and>
       csBlocked s = [] \<and> csCancel s = [] \<and> csDialing s = 0 \<and> csDialFor s = [] \<and> csDec s = 0 \<and> csInUse s = [] \<and>
       csReturning s = [] \<and> csClosing s = []"
proof -
  let ?f = "\<lambda>_. new_wantConn" and ?q = "pushBack new_wantConnQueue 0"
  let ?s1 = "callers (one_conn (-1) 1 [] None ?f) [0] [] [] [the_conn] [] 1"
  let ?s2 = "callers (one_conn (-1) 1 [] None ?f) [0] [] [] [] [the_conn] 1"
  let ?s3 = "callers (one_conn (-1) 1 [the_conn] None ?f) [0] [] [] [] [] 1"
  let ?s4 = "callers (one_conn (-1) 1 [the_conn] (Some ?q) ?f) [] [0] [] [] [] 1"
  have "client_step ?s1 ?s2" using client_step.give_back [of the_conn ?s1] by (simp add: scenario)
  moreover have "client_step ?s2 ?s3"
    using client_step.release [of the_conn ?s2 0 "one_conn (-1) 1 [the_conn] None ?f"] by (simp add: scenario releaseConn_def Let_def)
  moreover have "client_step ?s3 ?s4" using client_step.queue [of 0 ?s3]
    by (simp add: scenario queueForIdle_def Let_def clearFront.simps peekFront_def new_wantConnQueue_def)
  moreover have "client_step\<^sup>*\<^sup>* (new_sys (new_client 1 0 (-1) LIFO)) ?s1" by (rule one_conn_blocked) simp
  ultimately have "client_step\<^sup>*\<^sup>* (new_sys (new_client 1 0 (-1) LIFO)) ?s4" by (meson rtranclp.rtrancl_into_rtrancl)
  then show ?thesis by (intro exI [of _ ?s4]) (simp add: callers_def one_conn_def waiters_def wantConn_waiting_def new_wantConn_def)
qed



section \<open>Cleaning closes what has been idle too long\<close>

lemma clean_search_spec:
  assumes "0 \<le> l" "l \<le> r + 1" "r < int (length ccs)"
    and "\<And>i j. i \<le> j \<Longrightarrow> j < length ccs \<Longrightarrow> P (ccs ! j) \<Longrightarrow> P (ccs ! i)"
    and "\<And>i. int i < l \<Longrightarrow> P (ccs ! i)" "\<And>i. r < int i \<Longrightarrow> i < length ccs \<Longrightarrow> \<not> P (ccs ! i)"
  shows "let k = clean_search P ccs l r in -1 \<le> k \<and> k < int (length ccs) \<and>
    (\<forall>i < length ccs. P (ccs ! i) \<longleftrightarrow> int i \<le> k)"
  using assms
proof (induction P ccs l r rule: clean_search.induct)
  case (1 P ccs l r)
  show ?case
  proof (cases "l \<le> r")
    case False
    then have "l = r + 1" using "1.prems"(2) by simp
    moreover have "P (ccs ! i) \<longleftrightarrow> int i \<le> r" if "i < length ccs" for i
      using "1.prems"(5,6) [of i] that calculation by (cases "int i \<le> r") auto
    ultimately show ?thesis using "1.prems"(1,3) by (simp add: clean_search.simps [of P ccs "r + 1" r])
  next
    case True
    let ?m = "(l + r) div 2"
    have m: "l \<le> ?m" "?m \<le> r" using True by auto
    show ?thesis
    proof (cases "P (ccs ! nat ?m)")
      case P: True
      have "P (ccs ! i)" if "int i < ?m + 1" for i
        using "1.prems"(4) [of i "nat ?m"] P that m "1.prems"(1,3) by auto
      then show ?thesis
        using "1.IH"(1) [OF True refl P] m "1.prems" True P by (simp add: clean_search.simps [of P ccs l r])
    next
      case P: False
      have "\<not> P (ccs ! i)" if "?m - 1 < int i" "i < length ccs" for i
      proof -
        have "nat ?m \<le> i" using that by linarith
        then show ?thesis using "1.prems"(4) [of "nat ?m" i] P that(2) by blast
      qed
      then show ?thesis
        using "1.IH"(2) [OF True refl P] m "1.prems" True P by (simp add: clean_search.simps [of P ccs l r])
    qed
  qed
qed

lemma Clean_take_spec:
  assumes "sorted (map ccLastUseTime (hcConns c))"
    and expired_def: "expired = (\<lambda>cc. now - ccLastUseTime cc > hcMaxIdleConnDuration c)"
  shows "Clean_take now now' c = None \<and> filter expired (hcConns c) = [] \<or>
         (\<exists>k < length (hcConns c). Clean_take now now' c =
            Some (c\<lparr>hcConns := drop (Suc k) (hcConns c)\<rparr>, take (Suc k) (hcConns c),
              if Suc k < length (hcConns c) then hcMaxIdleConnDuration c - (now' - ccLastUseTime (hcConns c ! k)) + 1
              else hcMaxIdleConnDuration c) \<and>
            (\<forall>i < length (hcConns c). expired (hcConns c ! i) \<longleftrightarrow> i \<le> k))"
proof (cases "hcConns c = []")
  case False
  let ?n = "int (length (hcConns c))"
  have down: "expired (hcConns c ! i)" if "i \<le> j" "j < length (hcConns c)" "expired (hcConns c ! j)" for i j
    using sorted_nth_mono [OF assms(1), of i j] that by (simp add: expired_def)
  obtain r where r: "r = clean_search expired (hcConns c) 0 (?n - 1)" by blast
  have s: "-1 \<le> r" "r < ?n" "\<forall>i < length (hcConns c). expired (hcConns c ! i) \<longleftrightarrow> int i \<le> r"
    using clean_search_spec [of 0 "?n - 1" "hcConns c" expired] down r by (auto simp: Let_def)
  show ?thesis
  proof (cases "r = -1")
    case True
    then show ?thesis using False r s unfolding Clean_take_def Let_def expired_def [symmetric]
      by (auto simp: filter_empty_conv in_set_conv_nth)
  next
    case r1: False
    then have "nat (r + 1) = Suc (nat r)" "r + 1 < ?n \<longleftrightarrow> Suc (nat r) < length (hcConns c)" "nat r < length (hcConns c)"
      "\<And>i. int i \<le> r \<longleftrightarrow> i \<le> nat r"
      using s(1,2) by linarith+
    then show ?thesis using False r r1 s(3) unfolding Clean_take_def Let_def expired_def [symmetric]
      by (intro disjI2 exI [of _ "nat r"]) simp
  qed
qed (simp add: Clean_take_def)

text \<open>Where the idle connections are in the order of their last use, the binary search of \<^verbatim>\<open>Clean\<close> takes away exactly
  those that have been idle longer than allowed, and keeps the others in their order.\<close>

theorem Clean_closes_expired:
  assumes "sorted (map ccLastUseTime (hcConns c))"
  shows "case Clean_take now now' c of
           None \<Rightarrow> filter (\<lambda>cc. now - ccLastUseTime cc > hcMaxIdleConnDuration c) (hcConns c) = []
         | Some (c', closed, _) \<Rightarrow>
             closed = filter (\<lambda>cc. now - ccLastUseTime cc > hcMaxIdleConnDuration c) (hcConns c) \<and>
             hcConns c' = filter (\<lambda>cc. \<not> now - ccLastUseTime cc > hcMaxIdleConnDuration c) (hcConns c)"
proof -
  have f: "filter P xs = take (Suc k) xs \<and> filter (\<lambda>x. \<not> P x) xs = drop (Suc k) xs"
    if "\<forall>i < length xs. P (xs ! i) \<longleftrightarrow> i \<le> k" for P k and xs :: "clientConn list"
  proof -
    have "\<forall>x\<in>set (take (Suc k) xs). P x" "\<forall>x\<in>set (drop (Suc k) xs). \<not> P x"
      using that by (auto simp: in_set_conv_nth)
    then show ?thesis
      using filter_append [of P "take (Suc k) xs" "drop (Suc k) xs"] filter_append [of "\<lambda>x. \<not> P x" "take (Suc k) xs" "drop (Suc k) xs"]
      by simp
  qed
  show ?thesis using Clean_take_spec [OF assms refl, of now now']
  proof (elim disjE exE conjE)
    fix k assume "Clean_take now now' c = Some (c\<lparr>hcConns := drop (Suc k) (hcConns c)\<rparr>, take (Suc k) (hcConns c),
        if Suc k < length (hcConns c) then hcMaxIdleConnDuration c - (now' - ccLastUseTime (hcConns c ! k)) + 1
        else hcMaxIdleConnDuration c)"
      and "\<forall>i < length (hcConns c). (now - ccLastUseTime (hcConns c ! i) > hcMaxIdleConnDuration c) \<longleftrightarrow> i \<le> k"
    then show ?thesis using f [of "hcConns c" "\<lambda>cc. now - ccLastUseTime cc > hcMaxIdleConnDuration c" k] by simp
  qed simp
qed

definition idle_client :: HostClient where
  "idle_client = (new_client 5 10 0 LIFO)\<lparr>hcConnsCount := 3,
     hcConns := [\<lparr>ccNum = 1, ccLastUseTime = 3\<rparr>, \<lparr>ccNum = 2, ccLastUseTime = 9\<rparr>, \<lparr>ccNum = 3, ccLastUseTime = 12\<rparr>]\<rparr>"

theorem Clean_closes_expired_witness:
  "\<exists>c' d. Clean_take 20 21 idle_client = Some (c', [\<lparr>ccNum = 1, ccLastUseTime = 3\<rparr>, \<lparr>ccNum = 2, ccLastUseTime = 9\<rparr>], d) \<and>
     hcConns c' = [\<lparr>ccNum = 3, ccLastUseTime = 12\<rparr>]"
proof -
  have "sorted (map ccLastUseTime (hcConns idle_client))" by (simp add: idle_client_def)
  from Clean_closes_expired [OF this, of 20 21] show ?thesis
    by (cases "Clean_take 20 21 idle_client") (auto simp: idle_client_def new_client_def)
qed

text \<open>When \<^verbatim>\<open>Clean\<close> keeps some connections, the time it asks to sleep is computed from the last connection it closes and
  not from the first one it keeps, so it is never positive.\<close>

lemma Clean_sleep_not_positive:
  assumes "sorted (map ccLastUseTime (hcConns c))" "Clean_take now now' c = Some (c', closed, d)" "now \<le> now'" "hcConns c' \<noteq> []"
  shows "d \<le> 0"
  using Clean_take_spec [OF assms(1) refl, of now now'] assms(2-4) by fastforce

end
