(* ===== verification/Spec2Isabelle.thy ===== *)
theory Spec2Isabelle
  imports Prelude BytesConv Args URI Cookie HeaderScanner HeaderFields ScanInvariant ReadLoop RequestHeader RequestRead
    RequestRoundtrip Body Streaming ResponseHeader ResponseRead ResponseSegments ResponsePrint ResponseRoundtrip
    Message RequestMessage ResponseMessage UserData Server ServeConn WorkerPool WantConnQueue ClientConns
begin

text \<open>
  Verification of fasthttp, an HTTP/1.x server and client library in Go.

  \<^bold>\<open>The program.\<close> A server accepts connections and gives each to a worker of a pool. The worker runs \<^verbatim>\<open>serveConn\<close>, which
  reads a request header, then the body or a stream for it, calls the handler of the user, writes the response, and goes on
  with the next request of the connection. A client takes a connection from the pool of its host, writes a request and
  reads the response. Both sides share the types \<^verbatim>\<open>Request\<close> and \<^verbatim>\<open>Response\<close>, their headers, and below them the scanner of
  header lines, arguments, URIs, cookies, body framing and byte conversions. All readers work on a \<^verbatim>\<open>bufio.Reader\<close>, all
  writers on a \<^verbatim>\<open>bufio.Writer\<close>.

  \<^bold>\<open>The theories\<close>, from the bottom up. Definitions carry the names of the Go functions; a method of a type has the name of
  the type in front.

  \<^item> \<open>Prelude\<close>: bytes, 64-bit wrap-around and the functions of the package \<^verbatim>\<open>bytes\<close>.
  \<^item> \<open>BytesConv\<close>: \<^verbatim>\<open>bytesconv.go\<close> and its tables, decimal and hexadecimal numbers, quoting, IPv4 addresses.
  \<^item> \<open>BufReader\<close>: \<^verbatim>\<open>bufio.Reader\<close>, the hexadecimal chunk sizes and the peeking helpers of \<^verbatim>\<open>header.go\<close>.
  \<^item> \<open>Args\<close>: \<^verbatim>\<open>args.go\<close>. \<open>URI\<close>: \<^verbatim>\<open>uri.go\<close>. \<open>Cookie\<close>: \<^verbatim>\<open>cookie.go\<close>. \<open>UserData\<close>: \<^verbatim>\<open>userdata.go\<close>.
  \<^item> \<open>HeaderScanner\<close>, \<open>HeaderFields\<close>: the lexical part of \<^verbatim>\<open>header.go\<close> and the rules for single fields; \<open>ScanInvariant\<close>: what the
    scanner keeps of the buffer it rewrites.
  \<^item> \<open>ReadLoop\<close>: the interface between the loops that read a header or trailer and the parsers they call.
  \<^item> \<open>RequestHeader\<close>, \<open>RequestRead\<close>, \<open>RequestRoundtrip\<close> and \<open>ResponseHeader\<close>, \<open>ResponseRead\<close>, \<open>ResponseSegments\<close>,
    \<open>ResponsePrint\<close>, \<open>ResponseRoundtrip\<close>: the two header types of \<^verbatim>\<open>header.go\<close>, the definitions in the first theory of each
    group and the properties in the others.
  \<^item> \<open>Body\<close>, \<open>Streaming\<close>: the body readers and writers of \<^verbatim>\<open>http.go\<close>, \<^verbatim>\<open>streaming.go\<close>, and \<^verbatim>\<open>bufio.Writer\<close>.
  \<^item> \<open>Message\<close>, \<open>RequestMessage\<close>, \<open>ResponseMessage\<close>: \<^verbatim>\<open>Request\<close> and \<^verbatim>\<open>Response\<close> of \<^verbatim>\<open>http.go\<close> with the setters of
    \<^verbatim>\<open>supplement_http.go\<close> and the compression of \<^verbatim>\<open>supplement_compress.go\<close>.
  \<^item> \<open>Server\<close>, \<open>ServeConn\<close>: \<^verbatim>\<open>serveConn\<close> of \<^verbatim>\<open>server.go\<close> and the methods of \<^verbatim>\<open>RequestCtx\<close> that change a response; the definitions
    in the first, the properties in the second. \<open>WorkerPool\<close>: \<^verbatim>\<open>workerpool.go\<close>.
  \<^item> \<open>WantConnQueue\<close>, \<open>ClientConns\<close>: the connections of a \<^verbatim>\<open>HostClient\<close> in \<^verbatim>\<open>client.go\<close> and the queue of the callers that wait.

  \<^bold>\<open>How the code is modelled.\<close> A byte is an 8-bit word, a slice or string the list of its bytes, an \<^verbatim>\<open>int\<close> an integer with
  the wrap-around of 64 bits written out where values can reach it. A struct is a record, and a method that changes it
  returns the changed record. A panic is \<^const>\<open>None\<close>; a Go error is a value beside the result. Pools of objects give back a
  reset object. A slice that the code keeps of somebody else's memory is a copy, except where the aliasing matters: the
  header scanner has the whole read buffer as its state, since it rewrites names and folded values in place, and
  arguments carry the elements between length and capacity that are reused. Two places where a copy stands for a slice
  are described with the definitions of \<open>RequestHeader_parseFirstLine\<close> and \<open>build_stream\<close>.

  A connection is the list of the segments that its reads will deliver, followed by an error that every later read
  returns, so the properties about reading hold for every segmentation of the input. The writing side has room for a
  given number of bytes, or for all. A stream that a user passes as a body is a list of results of its reads; the chunk
  writer is also modelled for any reader. Handlers, hooks, the date, clocks, compressors, multipart forms and the error
  texts of other packages are arguments, as functions or as fields of a record.

  \<^bold>\<open>Loops.\<close> Loops over data are structural or have a termination proof, among them the in-place path rewriting, the
  chunk reader, the buffered reader and the binary search of the cleaner. There is no fuel. Loops that may not return are
  defined by \<open>partial_function\<close>, where not returning is \<^const>\<open>None\<close>: the read loops of headers and trailers, the chunk writer,
  the copying of streams, and the loop of \<^verbatim>\<open>serveConn\<close>. That the header loops return is proved for every connection; for the
  chunk writer it is proved when it does.

  \<^bold>\<open>Concurrency.\<close> For the worker pool and the connections of a client, every section under a lock is a function on the
  state, and the interleavings of goroutines are an inductive step relation; the properties are invariants of all
  reachable states and, for the pool, that it drains.

  \<^bold>\<open>What is shown.\<close>
  \<^item> A connection: pipelined requests are answered in order, each with a complete response, also with
    \<^verbatim>\<open>ReduceMemoryUsage\<close>; what becomes of a body that the handler does not read; what a client gets that sends nothing.
  \<^item> Messages: requests written one after the other are read back one after the other, and a response is read back in each
    of its three framings.
  \<^item> Headers: printed headers are read back; accepted requests and printed responses have one framing; values cannot add
    lines; reading returns on every connection without a panic; what folded values and split responses do to the data.
  \<^item> Bodies: chunked bodies are read back, limits hold, streams deliver what the buffered readers deliver, and the cases
    in which they do not.
  \<^item> URIs, arguments, cookies, user values: normalized paths are safe and are what resolution by segments gives, printing and
    parsing are inverse, arguments and user values behave as maps.
  \<^item> Pools: every accepted connection is served once and the limit on workers holds; connections of a client are counted,
    limited and never shared; the queue of waiters is first-in-first-out.
  Several properties state behaviour that the documentation or the code itself does not intend; the texts in front of them
  say so.

  \<^bold>\<open>Interfaces.\<close> \<open>kv_store\<close> and \<open>kv_multistore\<close> (arguments, user values), \<open>scan_client\<close> (the four loops over header
  lines), \<open>header_parser\<close> and \<open>header_reader\<close> (the four read loops), \<open>stream_header\<close> (the interface of the same purpose in
  \<^verbatim>\<open>streaming.go\<close>) and \<open>fifo_queue\<close> are locales that are interpreted on the definitions of the model.

  \<^bold>\<open>Not modelled.\<close> Sockets, TLS, the protocols that \<^verbatim>\<open>getNextProto\<close> selects, deadlines and timers; accepting connections and
  \<^verbatim>\<open>Shutdown\<close>; sending with retries and redirects, \<^verbatim>\<open>PipelineClient\<close>, \<^verbatim>\<open>LBClient\<close> and the heap of \<^verbatim>\<open>client_cleaner.go\<close>; the file
  servers; the linked buffers of \<^verbatim>\<open>nocopy_*.go\<close>; the compressors; the packages in subdirectories; the builds for Windows and for
  32-bit platforms. In \<^verbatim>\<open>serveConn\<close> the connection states and \<^verbatim>\<open>ErrorHandler\<close> are left out. In the client, a section under
  \<^verbatim>\<open>connsLock\<close> is one step, although waiters it asks may change under their own locks meanwhile.
\<close>

end
